(* ===== verification/Loom_Prelude.thy ===== *)
theory Loom_Prelude
  imports
    Main
    "HOL-Library.Word"
    "HOL-Library.Char_ord"
    "HOL-Library.List_Lexorder"
    "HOL-Library.Product_Lexorder"
begin

section \<open>Shared vocabulary: results, loops with early return, integers, strings\<close>

text \<open>
  What every component of the development shares.

  \<^item> Rust's \<open>Result<T, E>\<close> is the sum \<open>'e + 'a\<close> with \<open>Inl\<close> for \<open>Err\<close> and \<open>Inr\<close> for
    \<open>Ok\<close>; the operator \<open>?\<close> is \<open>rbind\<close>, and a \<open>for\<close> loop whose body uses \<open>?\<close> is \<open>foldM\<close>.
  \<^item> \<open>u64\<close> and \<open>i64\<close> values are 64-bit words (\<open>i64\<close> is read with \<open>sint\<close>), except for the
    change-feed cursor, an \<open>i64\<close> that is only compared and maximised and is an \<open>int\<close>.
    \<open>usize\<close> counters are \<open>nat\<close>.
  \<^item> A Rust \<open>String\<close> is its UTF-8 byte sequence, a HOL \<open>string\<close> whose \<open>char\<close>s are bytes:
    \<open>len\<close> is \<open>length\<close>, and the order of \<open>str\<close> is the lexicographic order on bytes.
\<close>

named_theorems loop_rules \<open>rules about \<open>foldM\<close> loops\<close>
named_theorems limits \<open>definitions of the numeric limits of the protocol\<close>

subsection \<open>Results and the question-mark operator\<close>

definition rbind :: "'e + 'a \<Rightarrow> ('a \<Rightarrow> 'e + 'b) \<Rightarrow> 'e + 'b" where
  "rbind r f = (case r of Inl e \<Rightarrow> Inl e | Inr a \<Rightarrow> f a)"

definition map_err :: "('e \<Rightarrow> 'f) \<Rightarrow> 'e + 'a \<Rightarrow> 'f + 'a" where
  "map_err g r = (case r of Inl e \<Rightarrow> Inl (g e) | Inr a \<Rightarrow> Inr a)"

definition is_ok :: "'e + 'a \<Rightarrow> bool" where
  "is_ok r = (case r of Inl _ \<Rightarrow> False | Inr _ \<Rightarrow> True)"

lemma rbind_simps [simp]:
  "rbind (Inl e) f = Inl e"
  "rbind (Inr a) f = f a"
  by (simp_all add: rbind_def)

lemma rbind_eq_Inr [simp]: "rbind r f = Inr b \<longleftrightarrow> (\<exists>a. r = Inr a \<and> f a = Inr b)"
  by (cases r) simp_all

lemma rbind_eq_Inl: "rbind r f = Inl e \<longleftrightarrow> r = Inl e \<or> (\<exists>a. r = Inr a \<and> f a = Inl e)"
  by (cases r) simp_all

lemma rbind_cong [fundef_cong]:
  "r = r' \<Longrightarrow> (\<And>a. r' = Inr a \<Longrightarrow> f a = g a) \<Longrightarrow> rbind r f = rbind r' g"
  by (cases r') simp_all

lemma is_ok_simps [simp]: "\<not> is_ok (Inl e)" "is_ok (Inr a)"
  by (simp_all add: is_ok_def)

lemma is_ok_iff: "is_ok r \<longleftrightarrow> (\<exists>a. r = Inr a)"
  by (cases r) simp_all

lemma is_ok_rbind [simp]: "is_ok (rbind r f) \<longleftrightarrow> (\<exists>a. r = Inr a \<and> is_ok (f a))"
  by (cases r) simp_all

lemma is_ok_rbind_const: "is_ok (rbind r (\<lambda>_. x)) \<longleftrightarrow> is_ok r \<and> is_ok x"
  by (cases r) simp_all

lemma is_ok_if [simp]: "is_ok (if b then Inl e else r) \<longleftrightarrow> \<not> b \<and> is_ok r"
  by simp

lemma map_err_simps [simp]:
  "map_err g (Inl e) = Inl (g e)"
  "map_err g (Inr a) = Inr a"
  by (simp_all add: map_err_def)

lemma map_err_Inr [simp]: "map_err g r = Inr a \<longleftrightarrow> r = Inr a"
  by (cases r) simp_all

lemma unit_result_ok: "r = Inr () \<longleftrightarrow> is_ok (r :: 'e + unit)"
  by (cases r) simp_all

subsection \<open>Loops with early return\<close>

fun foldM :: "('a \<Rightarrow> 's \<Rightarrow> 'e + 's) \<Rightarrow> 'a list \<Rightarrow> 's \<Rightarrow> 'e + 's" where
  "foldM f [] s = Inr s"
| "foldM f (x # xs) s = rbind (f x s) (foldM f xs)"

fun forM_check :: "('a \<Rightarrow> 'e + unit) \<Rightarrow> 'a list \<Rightarrow> 'e + unit" where
  "forM_check f [] = Inr ()"
| "forM_check f (x # xs) = rbind (f x) (\<lambda>_. forM_check f xs)"

lemma foldM_append: "foldM f (xs @ ys) s = rbind (foldM f xs s) (foldM f ys)"
proof (induction xs arbitrary: s)
  case Nil
  then show ?case by simp
next
  case (Cons x xs)
  then show ?case by (cases "f x s") simp_all
qed

lemma foldM_map: "foldM f (map g xs) s = foldM (\<lambda>x. f (g x)) xs s"
proof (induction xs arbitrary: s)
  case (Cons x xs)
  then show ?case by (cases "f (g x) s") simp_all
qed simp

lemma foldM_concat: "foldM f (concat xss) s = foldM (foldM f) xss s"
proof (induction xss arbitrary: s)
  case (Cons xs xss)
  then show ?case by (cases "foldM f xs s") (simp_all add: foldM_append)
qed simp

lemma foldM_cong [fundef_cong]:
  "xs = ys \<Longrightarrow> s = t \<Longrightarrow> (\<And>x u. x \<in> set ys \<Longrightarrow> f x u = g x u) \<Longrightarrow> foldM f xs s = foldM g ys t"
proof (induction xs arbitrary: s t ys)
  case (Cons x xs)
  then obtain ys' where "ys = x # ys'" "xs = ys'" by auto
  with Cons show ?case by (cases "g x t") auto
qed simp

lemma foldM_invariant [loop_rules]:
  assumes "foldM f xs s = Inr t" "P s"
    and "\<And>x u v. x \<in> set xs \<Longrightarrow> P u \<Longrightarrow> f x u = Inr v \<Longrightarrow> P v"
  shows "P t"
  using assms
proof (induction xs arbitrary: s)
  case (Cons x xs)
  then obtain u where "f x s = Inr u" "foldM f xs u = Inr t" by auto
  with Cons show ?case by (metis list.set_intros)
qed simp

lemma foldM_rel [loop_rules]:
  assumes "foldM f xs s = Inr t" "\<And>u. R u u" "\<And>u v w. R u v \<Longrightarrow> R v w \<Longrightarrow> R u w"
    and "\<And>x u v. x \<in> set xs \<Longrightarrow> f x u = Inr v \<Longrightarrow> R u v"
  shows "R s t"
  using assms(1,4)
proof (induction xs arbitrary: s)
  case Nil
  then show ?case using assms(2) by simp
next
  case (Cons x xs)
  then obtain u where u: "f x s = Inr u" "foldM f xs u = Inr t" by auto
  have "R s u" using Cons.prems(2) [OF _ u(1)] by simp
  moreover have "R u t" using Cons.IH [OF u(2)] Cons.prems(2) by (meson list.set_intros(2))
  ultimately show ?case using assms(3) by blast
qed

text \<open>A loop refines the loop over the abstracted state when every step does, under an invariant.\<close>

lemma foldM_refines [loop_rules]:
  assumes "P s"
    and "\<And>x u. x \<in> set xs \<Longrightarrow> P u \<Longrightarrow> rbind (f x u) (\<lambda>v. Inr (h v)) = g x (h u)"
    and "\<And>x u v. x \<in> set xs \<Longrightarrow> P u \<Longrightarrow> f x u = Inr v \<Longrightarrow> P v"
  shows "rbind (foldM f xs s) (\<lambda>v. Inr (h v)) = foldM g xs (h s)"
  using assms
proof (induction xs arbitrary: s)
  case (Cons x xs)
  have step: "rbind (f x s) (\<lambda>v. Inr (h v)) = g x (h s)"
    by (rule Cons.prems(2)) (simp_all add: Cons.prems(1))
  show ?case
  proof (cases "f x s")
    case (Inl e)
    then have "g x (h s) = Inl e" using step by simp
    then show ?thesis using Inl by simp
  next
    case (Inr u)
    then have g: "g x (h s) = Inr (h u)" using step by simp
    have "P u" by (rule Cons.prems(3) [OF _ Cons.prems(1) Inr]) simp
    moreover have "rbind (f y v) (\<lambda>v. Inr (h v)) = g y (h v)" if "y \<in> set xs" "P v" for y v
      using Cons.prems(2) [of y v] that by simp
    moreover have "P w" if "y \<in> set xs" "P v" "f y v = Inr w" for y v w
      using Cons.prems(3) [of y v w] that by simp
    ultimately have "rbind (foldM f xs u) (\<lambda>v. Inr (h v)) = foldM g xs (h u)"
      by (rule Cons.IH)
    then show ?thesis using Inr g by simp
  qed
qed simp

lemma forM_check_ok [simp]: "is_ok (forM_check f xs) \<longleftrightarrow> (\<forall>x\<in>set xs. is_ok (f x))"
  by (induction xs) (auto simp: is_ok_iff)

lemma forM_check_Inr: "forM_check f xs = Inr u \<longleftrightarrow> (\<forall>x\<in>set xs. is_ok (f x))"
  by (cases u) (simp add: unit_result_ok)

subsection \<open>64-bit integers\<close>

type_synonym u64 = "64 word"
type_synonym i64 = "64 word"
type_synonym u16 = "16 word"
type_synonym u32 = "32 word"

definition i64_MAX :: int where
  "i64_MAX = 2 ^ 63 - 1"

text \<open>\<open>u64::checked_add\<close>, \<open>u64::saturating_sub\<close>, \<open>i64::try_from(u64)\<close> and \<open>u64::try_from(i64)\<close>.\<close>

definition checked_add_u64 :: "u64 \<Rightarrow> u64 \<Rightarrow> u64 option" where
  "checked_add_u64 a b = (if unat a + unat b < 2 ^ 64 then Some (a + b) else None)"

definition saturating_sub_u64 :: "u64 \<Rightarrow> u64 \<Rightarrow> u64" where
  "saturating_sub_u64 a b = (if a < b then 0 else a - b)"

definition i64_try_from :: "u64 \<Rightarrow> int option" where
  "i64_try_from w = (if uint w \<le> i64_MAX then Some (uint w) else None)"

definition u64_try_from :: "int \<Rightarrow> u64 option" where
  "u64_try_from i = (if 0 \<le> i then Some (word_of_int i) else None)"

lemma unat_lt_2p64 [simp]: "unat (w :: u64) < 18446744073709551616"
  using unsigned_less [of w] by simp

lemma unat_max_u64 [simp]: "unat (max a b :: u64) = max (unat a) (unat b)"
  by (simp add: max_def word_le_nat_alt)

lemma checked_add_u64_Some:
  "checked_add_u64 a 1 = Some c \<Longrightarrow> unat c = Suc (unat a)"
  by (auto simp: checked_add_u64_def unat_word_ariths split: if_splits)

lemma checked_add_u64_less:
  "checked_add_u64 a 1 = Some c \<Longrightarrow> a < c"
  by (auto simp: word_less_nat_alt dest: checked_add_u64_Some)

lemma unat_saturating_sub_u64: "unat (saturating_sub_u64 a b) = unat a - unat b"
  by (auto simp: saturating_sub_u64_def word_less_nat_alt unat_sub word_le_nat_alt)

lemma i64_try_from_Some: "i64_try_from w = Some i \<longleftrightarrow> i = uint w \<and> uint w \<le> i64_MAX"
  by (auto simp: i64_try_from_def)

lemma unat_clock: "0 \<le> c \<Longrightarrow> c \<le> i64_MAX \<Longrightarrow> int (unat (word_of_int c :: u64)) = c"
  by (simp add: i64_MAX_def take_bit_int_eq_self unsigned_of_int)

lemma u64_i64_roundtrip: "i64_try_from w = Some i \<Longrightarrow> u64_try_from i = Some w"
  by (auto simp: i64_try_from_def u64_try_from_def split: if_splits)

subsection \<open>Decimal printing and parsing, string helpers\<close>

definition digit_char :: "nat \<Rightarrow> char" where
  "digit_char d = char_of (48 + d)"

fun show_nat :: "nat \<Rightarrow> string" where
  "show_nat n = (if n < 10 then [digit_char n] else show_nat (n div 10) @ [digit_char (n mod 10)])"

declare show_nat.simps [simp del]

definition show_int :: "int \<Rightarrow> string" where
  "show_int i = (if i < 0 then CHR ''-'' # show_nat (nat (- i)) else show_nat (nat i))"

definition is_digit :: "char \<Rightarrow> bool" where
  "is_digit c \<longleftrightarrow> 48 \<le> (of_char c :: nat) \<and> (of_char c :: nat) \<le> 57"

fun parse_digits :: "nat \<Rightarrow> string \<Rightarrow> nat option" where
  "parse_digits acc [] = Some acc"
| "parse_digits acc (c # cs) =
     (if is_digit c then parse_digits (10 * acc + (of_char c - 48)) cs else None)"

lemma of_digit_char [simp]: "d < 10 \<Longrightarrow> (of_char (digit_char d) :: nat) = 48 + d"
  by (simp add: digit_char_def)

lemma is_digit_digit_char [simp]: "d < 10 \<Longrightarrow> is_digit (digit_char d)"
  by (simp add: is_digit_def)

lemma parse_digits_append:
  "parse_digits acc (xs @ ys) = Option.bind (parse_digits acc xs) (\<lambda>a. parse_digits a ys)"
  by (induction xs arbitrary: acc) auto

lemma show_nat_not_Nil [simp]: "show_nat n \<noteq> []"
  by (subst show_nat.simps) simp

lemma show_nat_digits: "c \<in> set (show_nat n) \<Longrightarrow> is_digit c"
proof (induction n rule: show_nat.induct)
  case (1 n)
  then show ?case
    by (cases "n < 10") (auto simp: show_nat.simps [of n])
qed

lemma parse_show_nat: "parse_digits 0 (show_nat n) = Some n"
proof (induction n rule: show_nat.induct)
  case (1 n)
  show ?case
  proof (cases "n < 10")
    case True
    then show ?thesis by (subst show_nat.simps) simp
  next
    case False
    with 1 have "parse_digits 0 (show_nat (n div 10)) = Some (n div 10)" by simp
    with False show ?thesis
      by (subst show_nat.simps) (simp add: parse_digits_append)
  qed
qed

lemma show_nat_inject [simp]: "show_nat m = show_nat n \<longleftrightarrow> m = n"
  by (metis option.inject parse_show_nat)

text \<open>Control characters of a UTF-8 byte string, as \<open>str::chars().any(char::is_control)\<close> finds
  them: the Unicode category Cc is U+0000 to U+001F, U+007F, and U+0080 to U+009F; the last range
  is encoded as the byte \<open>0xC2\<close> followed by a byte from \<open>0x80\<close> to \<open>0x9F\<close>.\<close>

definition byte :: "char \<Rightarrow> nat" where
  "byte c = of_char c"

fun has_control :: "string \<Rightarrow> bool" where
  "has_control [] = False"
| "has_control (c # cs) =
     (byte c < 32 \<or> byte c = 127 \<or>
      (byte c = 194 \<and> (case cs of [] \<Rightarrow> False | d # _ \<Rightarrow> 128 \<le> byte d \<and> byte d < 160)) \<or>
      has_control cs)"

definition starts_with :: "string \<Rightarrow> string \<Rightarrow> bool" where
  "starts_with s p \<longleftrightarrow> take (length p) s = p"

fun join :: "string \<Rightarrow> string list \<Rightarrow> string" where
  "join sep [] = []"
| "join sep [x] = x"
| "join sep (x # y # ys) = x @ sep @ join sep (y # ys)"

lemma starts_with_iff: "starts_with s p \<longleftrightarrow> (\<exists>r. s = p @ r)"
  by (metis append_eq_conv_conj append_take_drop_id starts_with_def)

lemma has_control_ascii:
  "(\<forall>c\<in>set s. 32 \<le> byte c \<and> byte c < 127) \<Longrightarrow> \<not> has_control s"
  by (induction s) auto

lemma has_control_append_ascii:
  "(\<forall>c\<in>set s. 32 \<le> byte c \<and> byte c < 127) \<Longrightarrow> has_control (s @ t) \<longleftrightarrow> has_control t"
  by (induction s) auto

lemma has_control_append_ascii2:
  "(\<forall>c\<in>set t. 32 \<le> byte c \<and> byte c < 127) \<Longrightarrow> has_control (s @ t) \<longleftrightarrow> has_control s"
proof (induction s rule: has_control.induct)
  case 1
  then show ?case by (simp add: has_control_ascii)
next
  case (2 c cs)
  then show ?case by (cases cs; cases t) auto
qed

end
