(* ===== verification/Btree_Map.thy ===== *)
theory Btree_Map
  imports Loom_Prelude
begin

section \<open>Ordered maps: the \<open>BTreeMap\<close> of the Rust standard library\<close>

text \<open>
  The program keeps its cells, columns and snapshots in \<open>BTreeMap\<close>s and relies both on map
  behaviour and on iteration in ascending key order. A map is modelled by the list of its entries
  in iteration order; \<open>bt_wf\<close> is the ordering invariant every \<open>BTreeMap\<close> has.
  The locale \<open>ordered_map\<close> is the contract the other components use; it is interpreted on the
  list operations below. The last part models the pattern
  \<open>map.entry(row).or_default().insert(column, cell)\<close>, by which the program groups cells by row.
\<close>

type_synonym ('k, 'v) btree_map = "('k \<times> 'v) list"

definition bt_wf :: "('k::linorder, 'v) btree_map \<Rightarrow> bool" where
  "bt_wf m \<longleftrightarrow> sorted_wrt (<) (map fst m)"

abbreviation bt_get :: "('k, 'v) btree_map \<Rightarrow> 'k \<Rightarrow> 'v option" where
  "bt_get \<equiv> map_of"

abbreviation bt_keys :: "('k, 'v) btree_map \<Rightarrow> 'k list" where
  "bt_keys \<equiv> map fst"

fun bt_insert :: "'k::linorder \<Rightarrow> 'v \<Rightarrow> ('k, 'v) btree_map \<Rightarrow> ('k, 'v) btree_map" where
  "bt_insert k v [] = [(k, v)]"
| "bt_insert k v (e # m) =
     (if fst e < k then e # bt_insert k v m
      else if fst e = k then (k, v) # m
      else (k, v) # e # m)"

definition bt_remove :: "'k \<Rightarrow> ('k, 'v) btree_map \<Rightarrow> ('k, 'v) btree_map" where
  "bt_remove k m = filter (\<lambda>e. fst e \<noteq> k) m"

lemma alist_by_keys:
  "distinct (map fst xs) \<Longrightarrow> map (\<lambda>k. (k, the (map_of xs k))) (map fst xs) = xs"
  by (auto intro!: map_idI)

subsection \<open>The contract of an ordered map\<close>

locale ordered_map =
  fixes ins :: "'k::linorder \<Rightarrow> 'v \<Rightarrow> 'm \<Rightarrow> 'm"
    and get :: "'m \<Rightarrow> 'k \<Rightarrow> 'v option"
    and entries :: "'m \<Rightarrow> ('k \<times> 'v) list"
    and wf :: "'m \<Rightarrow> bool"
  assumes wf_ins: "wf m \<Longrightarrow> wf (ins k v m)"
    and get_ins: "wf m \<Longrightarrow> get (ins k v m) = (get m)(k \<mapsto> v)"
    and sorted_entries: "wf m \<Longrightarrow> sorted_wrt (<) (map fst (entries m))"
    and get_entries: "wf m \<Longrightarrow> get m = map_of (entries m)"
    and entries_inj: "entries m = entries m' \<Longrightarrow> m = m'"
begin

lemma distinct_keys: "wf m \<Longrightarrow> distinct (map fst (entries m))"
  using sorted_entries strict_sorted_iff by blast

lemma in_entries: "wf m \<Longrightarrow> (k, v) \<in> set (entries m) \<longleftrightarrow> get m k = Some v"
  by (simp add: distinct_keys get_entries)

text \<open>Two maps with the same lookups have the same entries in the same order.\<close>

lemma ext_get:
  assumes "wf m" "wf m'" "get m = get m'"
  shows "m = m'"
proof -
  have keys: "map fst (entries m) = map fst (entries m')"
  proof (rule strict_sorted_equal)
    show "sorted_wrt (<) (map fst (entries m'))" "sorted_wrt (<) (map fst (entries m))"
      using assms by (simp_all add: sorted_entries)
    have "dom (map_of (entries m)) = dom (map_of (entries m'))"
      using assms by (simp add: get_entries)
    then show "set (map fst (entries m)) = set (map fst (entries m'))"
      by (simp add: dom_map_of_conv_image_fst)
  qed
  have "entries m = map (\<lambda>k. (k, the (map_of (entries m) k))) (map fst (entries m))"
    using alist_by_keys [OF distinct_keys [OF assms(1)]] by simp
  also have "\<dots> = map (\<lambda>k. (k, the (map_of (entries m') k))) (map fst (entries m'))"
    using assms keys by (simp add: get_entries)
  also have "\<dots> = entries m'"
    using alist_by_keys [OF distinct_keys [OF assms(2)]] by simp
  finally show ?thesis by (rule entries_inj)
qed

lemma ins_twice: "wf m \<Longrightarrow> ins k v (ins k v' m) = ins k v m"
  by (rule ext_get) (simp_all add: wf_ins get_ins)

lemma ins_commute: "wf m \<Longrightarrow> k \<noteq> k' \<Longrightarrow> ins k v (ins k' v' m) = ins k' v' (ins k v m)"
  by (rule ext_get) (simp_all add: wf_ins get_ins fun_upd_twist)

lemma ins_same: "wf m \<Longrightarrow> get m k = Some v \<Longrightarrow> ins k v m = m"
  by (rule ext_get) (simp_all add: wf_ins get_ins fun_upd_idem)

end

subsection \<open>The list operations meet the contract\<close>

lemma bt_wf_Nil [simp]: "bt_wf []"
  by (simp add: bt_wf_def)

lemma bt_wf_Cons: "bt_wf (e # m) \<longleftrightarrow> (\<forall>k\<in>set (bt_keys m). fst e < k) \<and> bt_wf m"
  by (auto simp: bt_wf_def)

lemma bt_wf_distinct: "bt_wf m \<Longrightarrow> distinct (bt_keys m)"
  using strict_sorted_iff by (auto simp: bt_wf_def)

lemma bt_keys_insert [simp]: "set (bt_keys (bt_insert k v m)) = insert k (set (bt_keys m))"
  by (induction m) auto

lemma bt_get_insert [simp]: "bt_get (bt_insert k v m) = (bt_get m)(k \<mapsto> v)"
  by (induction m) (auto simp: fun_eq_iff)

lemma bt_wf_insert [simp]: "bt_wf m \<Longrightarrow> bt_wf (bt_insert k v m)"
proof (induction m)
  case (Cons e m)
  then have IH: "bt_wf (bt_insert k v m)" by (simp add: bt_wf_Cons)
  have keys: "fst ` set (bt_insert k v m) = insert k (fst ` set m)"
    using bt_keys_insert [of k v m] by simp
  show ?case
    using Cons.prems IH by (auto simp: bt_wf_Cons keys dest: order.strict_trans)
qed (simp add: bt_wf_Cons)

interpretation bt: ordered_map bt_insert bt_get "\<lambda>m. m" bt_wf
  by unfold_locales (simp_all, simp add: bt_wf_def)

lemma bt_wf_remove [simp]: "bt_wf m \<Longrightarrow> bt_wf (bt_remove k m)"
  by (induction m) (auto simp: bt_remove_def bt_wf_Cons)

lemma bt_get_remove [simp]: "bt_get (bt_remove k m) = (bt_get m)(k := None)"
  by (induction m) (auto simp: bt_remove_def fun_eq_iff)

lemma bt_wf_filter [simp]: "bt_wf m \<Longrightarrow> bt_wf (filter P m)"
  by (induction m) (auto simp: bt_wf_Cons)

lemma bt_get_SomeD: "bt_get m k = Some v \<Longrightarrow> (k, v) \<in> set m"
  by (rule map_of_SomeD)

lemma bt_get_iff: "bt_wf m \<Longrightarrow> (k, v) \<in> set m \<longleftrightarrow> bt_get m k = Some v"
  by (rule bt.in_entries)

lemma bt_get_None: "bt_get m k = None \<longleftrightarrow> k \<notin> set (bt_keys m)"
  by (simp add: map_of_eq_None_iff)

lemma length_bt_insert:
  "length (bt_insert k v m) = (if k \<in> set (bt_keys m) then length m else Suc (length m))"
  if "bt_wf m"
  using that by (induction m) (auto simp: bt_wf_Cons)

subsection \<open>Grouping cells by row\<close>

type_synonym ('r, 'c, 'v) nested_map = "('r, ('c, 'v) btree_map) btree_map"

definition group_insert ::
  "'r::linorder \<Rightarrow> 'c::linorder \<Rightarrow> 'v \<Rightarrow> ('r, 'c, 'v) nested_map \<Rightarrow> ('r, 'c, 'v) nested_map" where
  "group_insert r c v m =
     bt_insert r (bt_insert c v (case bt_get m r of None \<Rightarrow> [] | Some cols \<Rightarrow> cols)) m"

definition nested_get :: "('r, 'c, 'v) nested_map \<Rightarrow> 'r \<Rightarrow> 'c \<Rightarrow> 'v option" where
  "nested_get m r c = (case bt_get m r of None \<Rightarrow> None | Some cols \<Rightarrow> bt_get cols c)"

definition nested_wf :: "('r::linorder, 'c::linorder, 'v) nested_map \<Rightarrow> bool" where
  "nested_wf m \<longleftrightarrow> bt_wf m \<and> (\<forall>(r, cols)\<in>set m. bt_wf cols \<and> cols \<noteq> [])"

fun group_cells ::
  "(('r::linorder \<times> 'c::linorder) \<times> 'v) list \<Rightarrow> ('r, 'c, 'v) nested_map \<Rightarrow> ('r, 'c, 'v) nested_map"
where
  "group_cells [] m = m"
| "group_cells (((r, c), v) # es) m = group_cells es (group_insert r c v m)"

lemma nested_wf_Nil [simp]: "nested_wf []"
  by (simp add: nested_wf_def)

lemma bt_insert_not_Nil [simp]: "bt_insert k v m \<noteq> []"
  by (cases m) auto

lemma in_bt_insertD: "e \<in> set (bt_insert k v m) \<Longrightarrow> e = (k, v) \<or> e \<in> set m"
  by (induction m) (auto split: if_splits)

lemma nested_wf_insert:
  "nested_wf m \<Longrightarrow> bt_wf cols \<Longrightarrow> cols \<noteq> [] \<Longrightarrow> nested_wf (bt_insert r cols m)"
  by (auto simp: nested_wf_def dest!: in_bt_insertD)

lemma nested_wf_group_insert [simp]:
  assumes "nested_wf m"
  shows "nested_wf (group_insert r c v m)"
proof -
  have "bt_wf (case bt_get m r of None \<Rightarrow> [] | Some cols \<Rightarrow> cols)"
    using assms by (auto simp: nested_wf_def split: option.splits dest!: bt_get_SomeD)
  then show ?thesis
    using assms by (simp add: group_insert_def nested_wf_insert)
qed

lemma nested_get_group_insert [simp]:
  "nested_get (group_insert r c v m) r' c' =
     (if r' = r \<and> c' = c then Some v else nested_get m r' c')"
  by (auto simp: nested_get_def group_insert_def split: option.splits)

lemma nested_get_Nil [simp]: "nested_get [] r c = None"
  by (simp add: nested_get_def)

lemma nested_wf_group_cells [simp]: "nested_wf m \<Longrightarrow> nested_wf (group_cells es m)"
  by (induction es m rule: group_cells.induct) auto

lemma nested_get_group_cells:
  "distinct (map fst es) \<Longrightarrow>
   nested_get (group_cells es m) r c =
     (case map_of es (r, c) of Some v \<Rightarrow> Some v | None \<Rightarrow> nested_get m r c)"
proof (induction es m rule: group_cells.induct)
  case (2 r' c' v es m)
  then have "map_of es (r', c') = None" by (simp add: map_of_eq_None_iff)
  with 2 show ?case by (auto split: option.splits)
qed simp

lemma nested_get_iff:
  "nested_wf m \<Longrightarrow> nested_get m r c = Some v \<longleftrightarrow> (\<exists>cols. (r, cols) \<in> set m \<and> (c, v) \<in> set cols)"
proof
  assume "nested_wf m" "nested_get m r c = Some v"
  then show "\<exists>cols. (r, cols) \<in> set m \<and> (c, v) \<in> set cols"
    by (auto simp: nested_get_def split: option.splits dest!: bt_get_SomeD)
next
  assume wf: "nested_wf m" and "\<exists>cols. (r, cols) \<in> set m \<and> (c, v) \<in> set cols"
  then obtain cols where "(r, cols) \<in> set m" "(c, v) \<in> set cols" by blast
  with wf have "bt_get m r = Some cols" "bt_get cols c = Some v"
    by (auto simp: nested_wf_def bt_get_iff [symmetric])
  then show "nested_get m r c = Some v" by (simp add: nested_get_def)
qed

lemma group_cells_keys:
  "set (bt_keys (group_cells es m)) = (fst \<circ> fst) ` set es \<union> set (bt_keys m)"
proof (induction es m rule: group_cells.induct)
  case (2 r c v es m)
  then show ?case by (simp only: group_cells.simps group_insert_def bt_keys_insert) auto
qed simp

end
