(* ===== verification/Schema.thy ===== *)
theory Schema
  imports Btree_Map "HOL-Library.Multiset"
begin

unbundle bit_operations_syntax

section \<open>Contracts: tables, fingerprints and migrations (error.rs, schema.rs)\<close>

text \<open>
  A \<open>TableDef\<close> declares one synchronized table; a \<open>Contract\<close> is a list of ctables. The theory
  models their validated construction, the column types, the FNV-1a fingerprint of the schema
  handshake, and the additive migrations of SQLite and PostgreSQL. Migration statements are values
  of \<open>ddl\<close>, rendered to the SQL text the program executes, so that their effect on a table's
  tcolumns can be stated (\<open>apply_ddl\<close>).
\<close>

subsection \<open>Errors\<close>

datatype sync_error =
    Sqlite string
  | Postgres string
  | Serialization string
  | InvalidPayload string
  | SchemaMismatch u64 u64
  | ClockOverflow
  | SqliteLockPoisoned
  | BlockingTask string
  | SyncPageBudgetExhausted

text \<open>Debug formatting of a string (\<open>{:?}\<close>): quotes, with the escapes of ASCII characters.
  Rust also escapes non-ASCII code points that are not printable; here bytes from 128 on are kept,
  which concerns only the text of messages.\<close>

definition hex_digit :: "nat \<Rightarrow> char" where
  "hex_digit d = (if d < 10 then digit_char d else char_of (87 + d))"

fun show_hex :: "nat \<Rightarrow> string" where
  "show_hex n = (if n < 16 then [hex_digit n] else show_hex (n div 16) @ [hex_digit (n mod 16)])"

declare show_hex.simps [simp del]

definition show_hex16 :: "u64 \<Rightarrow> string" where
  "show_hex16 w = (let s = show_hex (unat w) in replicate (16 - length s) (CHR ''0'') @ s)"

definition debug_char :: "char \<Rightarrow> string" where
  "debug_char c =
     (if byte c = 34 \<or> byte c = 92 then [char_of (92::nat), c]
      else if byte c = 0 then [char_of (92::nat), CHR ''0'']
      else if byte c = 9 then [char_of (92::nat), CHR ''t'']
      else if byte c = 10 then [char_of (92::nat), CHR ''n'']
      else if byte c = 13 then [char_of (92::nat), CHR ''r'']
      else if byte c < 32 \<or> byte c = 127 then [char_of (92::nat)] @ ''u{'' @ show_hex (byte c) @ ''}''
      else [c])"

definition debug_str :: "string \<Rightarrow> string" where
  "debug_str s = [CHR 0x22] @ concat (map debug_char s) @ [CHR 0x22]"

subsection \<open>Column types\<close>

datatype column_type = TyText | TyInteger | TyReal | TyBoolean

fun sqlite_type :: "column_type \<Rightarrow> string" where
  "sqlite_type TyText = ''TEXT''"
| "sqlite_type TyInteger = ''INTEGER''"
| "sqlite_type TyReal = ''REAL''"
| "sqlite_type TyBoolean = ''BOOLEAN''"

fun postgres_type :: "column_type \<Rightarrow> string" where
  "postgres_type TyText = ''TEXT''"
| "postgres_type TyInteger = ''BIGINT''"
| "postgres_type TyReal = ''DOUBLE PRECISION''"
| "postgres_type TyBoolean = ''BOOLEAN''"

fun sqlite_default :: "column_type \<Rightarrow> string" where
  "sqlite_default TyText = [CHR 0x27, CHR 0x27]"
| "sqlite_default _ = ''0''"

fun postgres_default :: "column_type \<Rightarrow> string" where
  "postgres_default TyText = [CHR 0x27, CHR 0x27]"
| "postgres_default TyBoolean = ''FALSE''"
| "postgres_default _ = ''0''"

fun tag :: "column_type \<Rightarrow> string" where
  "tag TyText = ''text''"
| "tag TyInteger = ''integer''"
| "tag TyReal = ''real''"
| "tag TyBoolean = ''boolean''"

fun sqlite_capture_expr :: "column_type \<Rightarrow> string \<Rightarrow> string" where
  "sqlite_capture_expr TyText column = ''NEW.'' @ column"
| "sqlite_capture_expr _ column = ''CAST(NEW.'' @ column @ '' AS TEXT)''"

subsection \<open>Tables\<close>

record column_def =
  cname :: string
  cty :: column_type

record table_def =
  tname :: string
  tcolumns :: "column_def list"

definition TITLE_COLUMN :: string where "TITLE_COLUMN = ''title''"
definition COMPLETED_COLUMN :: string where "COMPLETED_COLUMN = ''completed''"
definition DELETED_COLUMN :: string where "DELETED_COLUMN = ''deleted''"
definition LIVENESS_COLUMN :: string where "LIVENESS_COLUMN = DELETED_COLUMN"
definition PRIMARY_KEY_COLUMN :: string where "PRIMARY_KEY_COLUMN = ''id''"
definition MAX_IDENTIFIER_LEN :: nat where [limits]: "MAX_IDENTIFIER_LEN = 63"

lemmas column_names =
  TITLE_COLUMN_def COMPLETED_COLUMN_def DELETED_COLUMN_def LIVENESS_COLUMN_def
  PRIMARY_KEY_COLUMN_def

definition is_ascii_lowercase :: "char \<Rightarrow> bool" where
  "is_ascii_lowercase c \<longleftrightarrow> 97 \<le> byte c \<and> byte c \<le> 122"

definition ident_start :: "char \<Rightarrow> bool" where
  "ident_start c \<longleftrightarrow> c = CHR ''_'' \<or> is_ascii_lowercase c"

definition ident_char :: "char \<Rightarrow> bool" where
  "ident_char c \<longleftrightarrow> c = CHR ''_'' \<or> is_ascii_lowercase c \<or> is_digit c"

definition sql_identifier :: "string \<Rightarrow> bool" where
  "sql_identifier s \<longleftrightarrow>
     s \<noteq> [] \<and> length s \<le> MAX_IDENTIFIER_LEN \<and>
     (case s of [] \<Rightarrow> False | c # _ \<Rightarrow> ident_start c) \<and> list_all ident_char s"

definition validate_sql_identifier :: "string \<Rightarrow> string \<Rightarrow> sync_error + unit" where
  "validate_sql_identifier kind s =
     (if sql_identifier s then Inr ()
      else Inl (InvalidPayload (kind @ '' '' @ debug_str s @
        '' must be a lowercase [a-z0-9_] SQL identifier of 1..='' @ show_nat MAX_IDENTIFIER_LEN @
        '' bytes'')))"

definition reserved_tables :: "string list" where
  "reserved_tables =
     [''client_state'', ''loomabase_cursor'', ''loomabase_cursor_lease'',
      ''loomabase_server_state'', ''loomabase_state'']"

definition check_column :: "column_def \<Rightarrow> string set \<Rightarrow> sync_error + string set" where
  "check_column c seen =
     rbind (validate_sql_identifier ''column name'' (cname c)) (\<lambda>_.
       if cname c = PRIMARY_KEY_COLUMN \<or> cname c = LIVENESS_COLUMN
       then Inl (InvalidPayload (''column name '' @ cname c @ '' is reserved''))
       else if cname c \<in> seen
       then Inl (InvalidPayload (''duplicate column '' @ cname c))
       else Inr (insert (cname c) seen))"

definition table_new :: "string \<Rightarrow> column_def list \<Rightarrow> sync_error + table_def" where
  "table_new n cs =
     rbind (validate_sql_identifier ''table name'' n) (\<lambda>_.
       if n \<in> set reserved_tables
       then Inl (InvalidPayload (''table name '' @ n @ '' is reserved''))
       else if cs = []
       then Inl (InvalidPayload ''a synchronized table needs at least one application column'')
       else rbind (foldM check_column cs {}) (\<lambda>_. Inr \<lparr>tname = n, tcolumns = cs\<rparr>))"

definition crdt_table :: "table_def \<Rightarrow> string" where
  "crdt_table t = tname t @ ''_crdt''"

definition synchronized_columns :: "table_def \<Rightarrow> column_def list" where
  "synchronized_columns t = tcolumns t @ [\<lparr>cname = LIVENESS_COLUMN, cty = TyBoolean\<rparr>]"

definition synchronized_column_names :: "table_def \<Rightarrow> string list" where
  "synchronized_column_names t = map cname (synchronized_columns t)"

definition table_column_type :: "table_def \<Rightarrow> string \<Rightarrow> column_type option" where
  "table_column_type t n =
     (if n = LIVENESS_COLUMN then Some TyBoolean
      else map_option cty (find (\<lambda>c. cname c = n) (tcolumns t)))"

definition todos_table :: table_def where
  "todos_table =
     \<lparr>tname = ''todos'',
      tcolumns = [\<lparr>cname = TITLE_COLUMN, cty = TyText\<rparr>, \<lparr>cname = COMPLETED_COLUMN, cty = TyBoolean\<rparr>]\<rparr>"

subsection \<open>Fingerprints\<close>

definition fnv_step :: "u64 \<Rightarrow> char \<Rightarrow> u64" where
  "fnv_step hash c = (hash XOR of_nat (byte c)) * 0x00000100000001b3"

definition fnv1a_64 :: "string \<Rightarrow> u64" where
  "fnv1a_64 bytes = foldl fnv_step 0xcbf29ce484222325 bytes"

definition column_descriptor :: "column_def \<Rightarrow> string" where
  "column_descriptor c = '';'' @ cname c @ '':'' @ tag (cty c)"

definition table_descriptor :: "table_def \<Rightarrow> string" where
  "table_descriptor t =
     ''loomabase-contract-v1;'' @ tname t @ concat (map column_descriptor (synchronized_columns t))"

definition table_fingerprint :: "table_def \<Rightarrow> u64" where
  "table_fingerprint t = fnv1a_64 (table_descriptor t)"

record contract =
  ctables :: "table_def list"

fun check_tables :: "table_def list \<Rightarrow> string set \<Rightarrow> sync_error + unit" where
  "check_tables [] seen = Inr ()"
| "check_tables (t # ts) seen =
     (if tname t \<in> seen then Inl (InvalidPayload (''duplicate table '' @ tname t))
      else check_tables ts (insert (tname t) seen))"

definition contract_new :: "table_def list \<Rightarrow> sync_error + contract" where
  "contract_new ts =
     (if ts = [] then Inl (InvalidPayload ''a contract needs at least one table'')
      else rbind (check_tables ts {}) (\<lambda>_. Inr \<lparr>ctables = ts\<rparr>))"

definition contract_descriptor :: "contract \<Rightarrow> string" where
  "contract_descriptor c =
     ''loomabase-contract-v1'' @
     concat (map (\<lambda>(n, f). '';'' @ n @ ''='' @ show_hex16 f)
       (sort (map (\<lambda>t. (tname t, table_fingerprint t)) (ctables c))))"

definition contract_fingerprint :: "contract \<Rightarrow> u64" where
  "contract_fingerprint c = fnv1a_64 (contract_descriptor c)"

subsection \<open>Migrations\<close>

definition ascii_lower :: "char \<Rightarrow> char" where
  "ascii_lower c = (if 65 \<le> byte c \<and> byte c \<le> 90 then char_of (byte c + 32) else c)"

definition eq_ignore_ascii_case :: "string \<Rightarrow> string \<Rightarrow> bool" where
  "eq_ignore_ascii_case a b \<longleftrightarrow> map ascii_lower a = map ascii_lower b"

definition sqlite_column_ddl :: "column_def \<Rightarrow> string" where
  "sqlite_column_ddl c =
     cname c @ '' '' @ sqlite_type (cty c) @ '' NOT NULL DEFAULT '' @ sqlite_default (cty c) @
     (if cty c = TyBoolean then '' CHECK ('' @ cname c @ '' IN (0, 1))'' else [])"

definition postgres_column_ddl :: "column_def \<Rightarrow> string" where
  "postgres_column_ddl c =
     cname c @ '' '' @ postgres_type (cty c) @ '' NOT NULL DEFAULT '' @ postgres_default (cty c)"

text \<open>The statements the two migrations emit, and their SQL text.\<close>

datatype ddl =
    SqliteAddColumn string column_def
  | PostgresAddColumn string column_def
  | DropTrigger string

fun ddl_sql :: "ddl \<Rightarrow> string" where
  "ddl_sql (SqliteAddColumn t c) = ''ALTER TABLE '' @ t @ '' ADD COLUMN '' @ sqlite_column_ddl c"
| "ddl_sql (PostgresAddColumn t c) =
     ''ALTER TABLE '' @ t @ '' ADD COLUMN IF NOT EXISTS '' @ postgres_column_ddl c"
| "ddl_sql (DropTrigger trig) = ''DROP TRIGGER IF EXISTS '' @ trig"

type_synonym column_map = "(string, string) btree_map"

definition incompatible_type_change :: "string \<Rightarrow> sync_error" where
  "incompatible_type_change column =
     InvalidPayload (''incompatible schema change: column '' @ column @
       '' already exists with a different type'')"

definition reject_removed_columns :: "column_map \<Rightarrow> string list \<Rightarrow> sync_error + unit" where
  "reject_removed_columns existing exp =
     (case find (\<lambda>c. c \<notin> set exp) (bt_keys existing) of
        Some removed \<Rightarrow> Inl (InvalidPayload (''incompatible schema change: existing column '' @
          removed @ '' was removed from the contract''))
      | None \<Rightarrow> Inr ())"

definition sqlite_migrate_column ::
  "table_def \<Rightarrow> column_map \<Rightarrow> column_def \<Rightarrow> ddl list \<times> bool \<Rightarrow> sync_error + ddl list \<times> bool" where
  "sqlite_migrate_column t existing c acc =
     (case bt_get existing (cname c) of
        None \<Rightarrow> Inr (fst acc @ [SqliteAddColumn (tname t) c], True)
      | Some declared \<Rightarrow>
          if \<not> eq_ignore_ascii_case declared (sqlite_type (cty c))
          then Inl (incompatible_type_change (cname c)) else Inr acc)"

definition sqlite_migration :: "table_def \<Rightarrow> column_map \<Rightarrow> sync_error + ddl list" where
  "sqlite_migration t existing =
     rbind (reject_removed_columns existing
       (PRIMARY_KEY_COLUMN # map cname (synchronized_columns t))) (\<lambda>_.
     rbind (foldM (sqlite_migrate_column t existing) (synchronized_columns t) ([], False))
       (\<lambda>(statements, added).
         Inr (if added then statements @ [DropTrigger (tname t @ ''_crdt_after_insert'')]
              else statements)))"

definition sqlite_migration_sql :: "table_def \<Rightarrow> column_map \<Rightarrow> sync_error + string list" where
  "sqlite_migration_sql t existing =
     rbind (sqlite_migration t existing) (\<lambda>statements. Inr (map ddl_sql statements))"

definition postgres_migrate_column ::
  "table_def \<Rightarrow> column_map \<Rightarrow> column_def \<Rightarrow> ddl list \<Rightarrow> sync_error + ddl list" where
  "postgres_migrate_column t existing c acc =
     (case bt_get existing (cname c) of
        None \<Rightarrow> Inr (acc @ [PostgresAddColumn (tname t) c])
      | Some declared \<Rightarrow>
          if \<not> eq_ignore_ascii_case declared (postgres_type (cty c))
          then Inl (incompatible_type_change (cname c)) else Inr acc)"

definition postgres_migration :: "table_def \<Rightarrow> column_map \<Rightarrow> sync_error + ddl list" where
  "postgres_migration t existing =
     rbind (reject_removed_columns existing
       (''tenant_id'' # PRIMARY_KEY_COLUMN # map cname (synchronized_columns t))) (\<lambda>_.
     foldM (postgres_migrate_column t existing) (synchronized_columns t) [])"

definition postgres_migration_sql :: "table_def \<Rightarrow> column_map \<Rightarrow> sync_error + string list" where
  "postgres_migration_sql t existing =
     rbind (postgres_migration t existing) (\<lambda>statements. Inr (map ddl_sql statements))"

definition postgres_crdt_migration_sql :: "table_def \<Rightarrow> column_map \<Rightarrow> sync_error + string list" where
  "postgres_crdt_migration_sql t existing =
     (if existing = [] then Inr []
      else if (case bt_get existing ''seq'' of
                 Some declared \<Rightarrow> \<not> eq_ignore_ascii_case declared ''bigint'' | None \<Rightarrow> False)
      then Inl (incompatible_type_change ''seq'')
      else let crdt = crdt_table t; sq = [CHR 0x27] in Inr
        [''ALTER TABLE '' @ crdt @ '' ADD COLUMN IF NOT EXISTS seq BIGINT'',
         ''UPDATE '' @ crdt @ '' SET seq = nextval('' @ sq @ ''loomabase_seq'' @ sq @ '') WHERE seq IS NULL'',
         ''ALTER TABLE '' @ crdt @ '' ALTER COLUMN seq SET NOT NULL'',
         ''ALTER TABLE '' @ crdt @ '' ALTER COLUMN seq SET DEFAULT nextval('' @ sq @ ''loomabase_seq'' @ sq @ '')''])"

text \<open>What a statement does to the column map a database reports: \<open>PRAGMA table_info\<close> gives the
  declared type, \<open>information_schema.columns\<close> the lower-case data type.\<close>

fun apply_ddl :: "ddl \<Rightarrow> column_map \<Rightarrow> column_map" where
  "apply_ddl (SqliteAddColumn _ c) m = bt_insert (cname c) (sqlite_type (cty c)) m"
| "apply_ddl (PostgresAddColumn _ c) m =
     (if cname c \<in> set (bt_keys m) then m
      else bt_insert (cname c) (map ascii_lower (postgres_type (cty c))) m)"
| "apply_ddl (DropTrigger _) m = m"

definition apply_ddls :: "ddl list \<Rightarrow> column_map \<Rightarrow> column_map" where
  "apply_ddls ds m = foldl (\<lambda>m d. apply_ddl d m) m ds"

section \<open>Properties of contracts\<close>

subsection \<open>Validated tables\<close>

definition valid_columns :: "column_def list \<Rightarrow> bool" where
  "valid_columns cs \<longleftrightarrow>
     (\<forall>c\<in>set cs. sql_identifier (cname c) \<and> cname c \<noteq> PRIMARY_KEY_COLUMN \<and> cname c \<noteq> LIVENESS_COLUMN) \<and>
     distinct (map cname cs)"

definition valid_table :: "table_def \<Rightarrow> bool" where
  "valid_table t \<longleftrightarrow>
     sql_identifier (tname t) \<and> tname t \<notin> set reserved_tables \<and> tcolumns t \<noteq> [] \<and>
     valid_columns (tcolumns t)"

lemma validate_sql_identifier_ok [simp]:
  "is_ok (validate_sql_identifier k s) \<longleftrightarrow> sql_identifier s"
  "validate_sql_identifier k s = Inr u \<longleftrightarrow> sql_identifier s"
  by (simp_all add: validate_sql_identifier_def)

lemma check_column_ok:
  "check_column c seen = Inr seen' \<longleftrightarrow>
     sql_identifier (cname c) \<and> cname c \<noteq> PRIMARY_KEY_COLUMN \<and> cname c \<noteq> LIVENESS_COLUMN \<and>
     cname c \<notin> seen \<and> seen' = insert (cname c) seen"
  by (auto simp: check_column_def)

lemma foldM_check_column:
  "(\<exists>s. foldM check_column cs seen = Inr s) \<longleftrightarrow>
     valid_columns cs \<and> set (map cname cs) \<inter> seen = {}"
proof (induction cs arbitrary: seen)
  case Nil
  then show ?case by (simp add: valid_columns_def)
next
  case (Cons c cs)
  show ?case
    using Cons.IH [of "insert (cname c) seen"]
    by (auto simp: check_column_ok valid_columns_def)
qed

lemma table_new_iff:
  "table_new n cs = Inr t \<longleftrightarrow> t = \<lparr>tname = n, tcolumns = cs\<rparr> \<and> valid_table t"
  using foldM_check_column [of cs "{}"]
  by (auto simp: table_new_def valid_table_def)

lemma find_column:
  "distinct (map cname cs) \<Longrightarrow>
   map_option cty (find (\<lambda>c. cname c = n) cs) = Some k \<longleftrightarrow> \<lparr>cname = n, cty = k\<rparr> \<in> set cs"
proof (induction cs)
  case (Cons c cs)
  have "cname c = n \<Longrightarrow> \<lparr>cname = n, cty = k\<rparr> \<notin> set cs"
    using Cons.prems by (auto simp: image_iff)
  with Cons show ?case by (cases c) auto
qed simp

lemma table_column_type_iff:
  assumes "valid_table t"
  shows "table_column_type t n = Some k \<longleftrightarrow> \<lparr>cname = n, cty = k\<rparr> \<in> set (synchronized_columns t)"
proof (cases "n = LIVENESS_COLUMN")
  case True
  with assms show ?thesis
    by (auto simp: table_column_type_def synchronized_columns_def valid_table_def valid_columns_def)
next
  case False
  have "distinct (map cname (tcolumns t))"
    using assms by (simp add: valid_table_def valid_columns_def)
  then have "map_option cty (find (\<lambda>c. cname c = n) (tcolumns t)) = Some k \<longleftrightarrow>
      \<lparr>cname = n, cty = k\<rparr> \<in> set (tcolumns t)"
    by (rule find_column)
  with False show ?thesis
    by (simp add: table_column_type_def synchronized_columns_def)
qed

text \<open>\<open>TableDef::new\<close> accepts exactly the contracts its documentation allows
  (strict lower-case identifiers, no reserved table or column name, no duplicate column, at least
  one column), and returns the name and the columns it was given.\<close>

theorem table_new_correct:
  "table_new n cs = Inr t \<longleftrightarrow> t = \<lparr>tname = n, tcolumns = cs\<rparr> \<and> valid_table t"
  by (rule table_new_iff)

subsection \<open>Descriptors are unambiguous\<close>

lemma takeWhile_sep:
  assumes "x \<notin> set a" "x \<notin> set b" "a @ x # r = b @ x # s"
  shows "a = b \<and> r = s"
proof -
  have hd: "takeWhile (\<lambda>c. c \<noteq> x) (as @ x # zs) = as" if "x \<notin> set as" for as zs
    using that by (induction as) auto
  have "a = b"
    using hd [OF assms(1), of r] hd [OF assms(2), of s] assms(3) by simp
  with assms(3) show ?thesis by simp
qed

lemma concat_sep_inj:
  assumes "\<forall>a\<in>set xs. x \<notin> set a" "\<forall>b\<in>set ys. x \<notin> set b"
    and "concat (map ((#) x) xs) = concat (map ((#) x) ys)"
  shows "xs = ys"
  using assms
proof (induction xs arbitrary: ys)
  case Nil
  then show ?case by (cases ys) auto
next
  case (Cons a xs)
  then obtain b ys' where ys: "ys = b # ys'" by (cases ys) auto
  have eq: "a @ concat (map ((#) x) xs) = b @ concat (map ((#) x) ys')"
    using Cons.prems(3) ys by simp
  have split: "takeWhile (\<lambda>c. c \<noteq> x) (a @ concat (map ((#) x) zs)) = a"
    if "x \<notin> set a" for a zs
    using that by (cases zs) (auto simp: takeWhile_append takeWhile_eq_all_conv)
  have "a = b"
    using split [of a xs] split [of b ys'] Cons.prems ys eq by simp
  moreover have "xs = ys'"
    by (rule Cons.IH) (use Cons.prems ys eq \<open>a = b\<close> in auto)
  ultimately show ?case using ys by simp
qed

lemma sep_notin_identifier:
  assumes "sql_identifier s"
  shows "CHR '';'' \<notin> set s" "CHR '':'' \<notin> set s"
proof -
  have "\<not> ident_char (CHR '';'')" "\<not> ident_char (CHR '':'')"
    by (simp_all add: ident_char_def is_ascii_lowercase_def is_digit_def byte_def)
  with assms show "CHR '';'' \<notin> set s" "CHR '':'' \<notin> set s"
    by (auto simp: sql_identifier_def list_all_iff)
qed

lemma sep_notin_tag: "CHR '';'' \<notin> set (tag k)" "CHR '':'' \<notin> set (tag k)"
  by (cases k; simp)+

lemma tag_inject [simp]: "tag a = tag b \<longleftrightarrow> a = b"
  by (cases a; cases b) simp_all

lemma liveness_identifier: "sql_identifier LIVENESS_COLUMN"
  by (simp add: column_names sql_identifier_def limits ident_start_def ident_char_def
      is_ascii_lowercase_def byte_def)

definition column_piece :: "column_def \<Rightarrow> string" where
  "column_piece c = cname c @ CHR '':'' # tag (cty c)"

lemma synchronized_identifiers:
  "valid_table t \<Longrightarrow> c \<in> set (synchronized_columns t) \<Longrightarrow> sql_identifier (cname c)"
  by (auto simp: synchronized_columns_def valid_table_def valid_columns_def liveness_identifier)

lemma column_piece_inj:
  assumes "sql_identifier (cname c)" "sql_identifier (cname d)" "column_piece c = column_piece d"
  shows "c = d"
proof -
  have "cname c = cname d \<and> tag (cty c) = tag (cty d)"
    using assms by (intro takeWhile_sep [of "CHR '':''"])
      (simp_all add: column_piece_def sep_notin_identifier)
  then show ?thesis by simp
qed

lemma table_descriptor_pieces:
  "table_descriptor t = ''loomabase-contract-v1'' @
     concat (map ((#) (CHR '';'')) (tname t # map column_piece (synchronized_columns t)))"
  by (simp add: table_descriptor_def column_descriptor_def [abs_def] column_piece_def [abs_def] o_def)

text \<open>The descriptor that is hashed into the schema fingerprint is unambiguous:
  two valid tables have the same descriptor only if they have the same name and the same columns
  with the same types in the same order, so the fingerprint handshake can fail to tell two
  contracts apart only by a collision of the hash.\<close>

theorem table_descriptor_injective:
  assumes "valid_table t" "valid_table u" "table_descriptor t = table_descriptor u"
  shows "t = u"
proof -
  let ?ps = "\<lambda>t. tname t # map column_piece (synchronized_columns t)"
  have sep: "\<forall>a\<in>set (?ps t). CHR '';'' \<notin> set a" if "valid_table t" for t
    using that synchronized_identifiers [OF that] sep_notin_tag
    by (auto simp: column_piece_def sep_notin_identifier valid_table_def)
  have "?ps t = ?ps u"
    using concat_sep_inj [OF sep [OF assms(1)] sep [OF assms(2)]] assms(3)
    by (simp add: table_descriptor_pieces)
  then have names: "tname t = tname u"
    and cols: "map column_piece (synchronized_columns t) = map column_piece (synchronized_columns u)"
    by simp_all
  have "synchronized_columns t = synchronized_columns u"
    by (rule map_inj_on [OF cols], rule inj_onI)
      (use assms(1,2) synchronized_identifiers column_piece_inj in blast)
  with names show "t = u"
    by (auto simp: synchronized_columns_def intro: table_def.equality)
qed

text \<open>The fingerprint of a contract does not depend on the order of its tables.\<close>

theorem contract_fingerprint_order_independent:
  assumes "mset (ctables c) = mset (ctables d)"
  shows "contract_fingerprint c = contract_fingerprint d"
proof -
  have "mset (map (\<lambda>t. (tname t, table_fingerprint t)) (ctables c)) =
        mset (map (\<lambda>t. (tname t, table_fingerprint t)) (ctables d))"
    using assms by (metis mset_map)
  then have "sort (map (\<lambda>t. (tname t, table_fingerprint t)) (ctables c)) =
        sort (map (\<lambda>t. (tname t, table_fingerprint t)) (ctables d))"
    by (intro properties_for_sort) simp_all
  then show ?thesis by (simp add: contract_fingerprint_def contract_descriptor_def)
qed

subsection \<open>Migrations are additive and reach the contract\<close>

text \<open>The columns a database must report for the contract: each synchronized column with its type
  up to letter case, and besides them only the given extra columns.\<close>

definition up_to_date :: "(column_type \<Rightarrow> string) \<Rightarrow> string list \<Rightarrow> table_def \<Rightarrow> column_map \<Rightarrow> bool" where
  "up_to_date type_of extra t m \<longleftrightarrow>
     set (bt_keys m) \<subseteq> set extra \<union> cname ` set (synchronized_columns t) \<and>
     (\<forall>c\<in>set (synchronized_columns t).
        case bt_get m (cname c) of
          None \<Rightarrow> False | Some d \<Rightarrow> eq_ignore_ascii_case d (type_of (cty c)))"

definition compatible :: "(column_type \<Rightarrow> string) \<Rightarrow> string list \<Rightarrow> table_def \<Rightarrow> column_map \<Rightarrow> bool" where
  "compatible type_of extra t m \<longleftrightarrow>
     set (bt_keys m) \<subseteq> set extra \<union> cname ` set (synchronized_columns t) \<and>
     (\<forall>c\<in>set (synchronized_columns t).
        case bt_get m (cname c) of
          None \<Rightarrow> True | Some d \<Rightarrow> eq_ignore_ascii_case d (type_of (cty c)))"

lemma find_SomeD: "find P xs = Some x \<Longrightarrow> x \<in> set xs \<and> P x"
  by (induction xs) (auto split: if_splits)

lemma reject_removed_columns_ok:
  "reject_removed_columns existing exp = Inr u \<longleftrightarrow> set (bt_keys existing) \<subseteq> set exp"
proof (cases "find (\<lambda>c. c \<notin> set exp) (bt_keys existing)")
  case None
  then have "\<forall>c\<in>set (bt_keys existing). c \<in> set exp" by (auto simp: find_None_iff)
  with None show ?thesis by (auto simp: reject_removed_columns_def)
next
  case (Some c)
  then have "c \<in> set (bt_keys existing) - set exp" by (auto dest!: find_SomeD)
  with Some show ?thesis by (auto simp: reject_removed_columns_def)
qed

lemma sqlite_migrate_columns:
  "foldM (sqlite_migrate_column t m) cs (acc, b) = Inr r \<longleftrightarrow>
     (\<forall>c\<in>set cs. case bt_get m (cname c) of
        None \<Rightarrow> True | Some d \<Rightarrow> eq_ignore_ascii_case d (sqlite_type (cty c))) \<and>
     r = (acc @ map (SqliteAddColumn (tname t)) (filter (\<lambda>c. bt_get m (cname c) = None) cs),
          b \<or> (\<exists>c\<in>set cs. bt_get m (cname c) = None))"
  by (induction cs arbitrary: acc b) (auto simp: sqlite_migrate_column_def split: option.splits)

lemma postgres_migrate_columns:
  "foldM (postgres_migrate_column t m) cs acc = Inr r \<longleftrightarrow>
     (\<forall>c\<in>set cs. case bt_get m (cname c) of
        None \<Rightarrow> True | Some d \<Rightarrow> eq_ignore_ascii_case d (postgres_type (cty c))) \<and>
     r = acc @ map (PostgresAddColumn (tname t)) (filter (\<lambda>c. bt_get m (cname c) = None) cs)"
  by (induction cs arbitrary: acc) (auto simp: postgres_migrate_column_def split: option.splits)

abbreviation missing :: "table_def \<Rightarrow> column_map \<Rightarrow> column_def list" where
  "missing t m \<equiv> filter (\<lambda>c. bt_get m (cname c) = None) (synchronized_columns t)"

lemma sqlite_migration_iff:
  "sqlite_migration t m = Inr ds \<longleftrightarrow>
     compatible sqlite_type [PRIMARY_KEY_COLUMN] t m \<and>
     ds = (if missing t m = [] then []
           else map (SqliteAddColumn (tname t)) (missing t m) @
                [DropTrigger (tname t @ ''_crdt_after_insert'')])"
  by (auto simp: sqlite_migration_def reject_removed_columns_ok sqlite_migrate_columns
      compatible_def filter_empty_conv)

lemma postgres_migration_iff:
  "postgres_migration t m = Inr ds \<longleftrightarrow>
     compatible postgres_type [''tenant_id'', PRIMARY_KEY_COLUMN] t m \<and>
     ds = map (PostgresAddColumn (tname t)) (missing t m)"
  by (auto simp: postgres_migration_def reject_removed_columns_ok postgres_migrate_columns
      compatible_def)

lemma apply_ddls_simps [simp]:
  "apply_ddls [] m = m"
  "apply_ddls (d # ds) m = apply_ddls ds (apply_ddl d m)"
  "apply_ddls (ds @ es) m = apply_ddls es (apply_ddls ds m)"
  by (simp_all add: apply_ddls_def)

lemma sqlite_adds:
  "distinct (map cname cs) \<Longrightarrow>
   bt_get (apply_ddls (map (SqliteAddColumn n) cs) m) =
     bt_get m ++ map_of (map (\<lambda>c. (cname c, sqlite_type (cty c))) cs)"
proof (induction cs arbitrary: m)
  case (Cons c cs)
  have "map_of (map (\<lambda>c. (cname c, sqlite_type (cty c))) cs) (cname c) = None"
    using Cons.prems by (auto simp: map_of_eq_None_iff)
  with Cons show ?case by (auto simp: fun_eq_iff map_add_def split: option.splits)
qed simp

lemma postgres_adds:
  "distinct (map cname cs) \<Longrightarrow> (\<forall>c\<in>set cs. bt_get m (cname c) = None) \<Longrightarrow>
   bt_get (apply_ddls (map (PostgresAddColumn n) cs) m) =
     bt_get m ++ map_of (map (\<lambda>c. (cname c, map ascii_lower (postgres_type (cty c)))) cs)"
proof (induction cs arbitrary: m)
  case (Cons c cs)
  then have new: "cname c \<notin> fst ` set m" by (simp add: map_of_eq_None_iff)
  have rest: "\<forall>d\<in>set cs. bt_get (bt_insert (cname c) v m) (cname d) = None" for v
    using Cons.prems by (force simp: image_iff)
  have "map_of (map (\<lambda>c. (cname c, map ascii_lower (postgres_type (cty c)))) cs) (cname c) = None"
    using Cons.prems by (auto simp: map_of_eq_None_iff)
  with Cons rest new show ?case by (auto simp: fun_eq_iff map_add_def split: option.splits)
qed simp

lemma distinct_synchronized: "valid_table t \<Longrightarrow> distinct (map cname (synchronized_columns t))"
  by (auto simp: synchronized_columns_def valid_table_def valid_columns_def)

lemma distinct_missing: "valid_table t \<Longrightarrow> distinct (map cname (missing t m))"
  using distinct_synchronized by (rule distinct_map_filter)

lemma map_of_missing:
  assumes "valid_table t" "c \<in> set (synchronized_columns t)" "bt_get m (cname c) = None"
  shows "map_of (map (\<lambda>c. (cname c, f (cty c))) (missing t m)) (cname c) = Some (f (cty c))"
  using assms distinct_missing [OF assms(1), of m]
  by (intro map_of_is_SomeI) (auto simp: o_def)

lemma map_of_missing_present:
  "bt_get m k \<noteq> None \<Longrightarrow> map_of (map (\<lambda>c. (cname c, f (cty c))) (missing t m)) k = None"
  by (rule ccontr) (auto simp: image_iff map_of_eq_None_iff dest!: map_of_SomeD)

text \<open>The effect both migrations have: columns of the contract are added with the wanted type and
  every existing column keeps its type.\<close>

lemma migrated_up_to_date:
  assumes "valid_table t" "compatible type_of extra t m"
    and m': "bt_get m' = bt_get m ++ map_of (map (\<lambda>c. (cname c, f (cty c))) (missing t m))"
    and f: "\<And>k. eq_ignore_ascii_case (f k) (type_of k)"
  shows "up_to_date type_of extra t m'"
    and "bt_get m k = Some d \<Longrightarrow> bt_get m' k = Some d"
proof -
  show keep: "bt_get m k = Some d \<Longrightarrow> bt_get m' k = Some d" for k d
    using map_of_missing_present [of m k f t] by (simp add: m' map_add_def)
  have "set (bt_keys m') = dom (bt_get m')" by (simp add: dom_map_of_conv_image_fst)
  also have "\<dots> \<subseteq> set (bt_keys m) \<union> cname ` set (synchronized_columns t)"
    by (auto simp: m' dom_map_of_conv_image_fst)
  finally have keys: "set (bt_keys m') \<subseteq> set extra \<union> cname ` set (synchronized_columns t)"
    using assms(2) by (auto simp: compatible_def)
  have "case bt_get m' (cname c) of None \<Rightarrow> False | Some d \<Rightarrow> eq_ignore_ascii_case d (type_of (cty c))"
    if "c \<in> set (synchronized_columns t)" for c
  proof (cases "bt_get m (cname c)")
    case None
    with map_of_missing [OF assms(1) that None, of f] f show ?thesis by (simp add: m' map_add_def)
  next
    case (Some d)
    with keep assms(2) that show ?thesis by (fastforce simp: compatible_def)
  qed
  with keys show "up_to_date type_of extra t m'" by (simp add: up_to_date_def)
qed

lemma eq_ignore_ascii_case_refl [simp]: "eq_ignore_ascii_case a a"
  by (simp add: eq_ignore_ascii_case_def)

lemma up_to_date_compatible:
  "up_to_date type_of extra t m \<Longrightarrow> compatible type_of extra t m \<and> missing t m = []"
  by (fastforce simp: up_to_date_def compatible_def filter_empty_conv split: option.splits)

text \<open>The SQLite migration is refused exactly when an existing column was removed
  from the contract or has another type. When it is accepted, running its statements gives a table
  with every column of the contract at its type, no existing column is changed, and a second
  migration of the result is empty.\<close>

theorem sqlite_migration_correct:
  assumes "valid_table t"
  shows "(is_ok (sqlite_migration t m) \<longleftrightarrow> compatible sqlite_type [PRIMARY_KEY_COLUMN] t m) \<and>
    (\<forall>ds. sqlite_migration t m = Inr ds \<longrightarrow>
      up_to_date sqlite_type [PRIMARY_KEY_COLUMN] t (apply_ddls ds m) \<and>
      (\<forall>k d. bt_get m k = Some d \<longrightarrow> bt_get (apply_ddls ds m) k = Some d) \<and>
      sqlite_migration t (apply_ddls ds m) = Inr [])"
proof (intro conjI allI impI)
  show "is_ok (sqlite_migration t m) \<longleftrightarrow> compatible sqlite_type [PRIMARY_KEY_COLUMN] t m"
    by (auto simp: is_ok_iff sqlite_migration_iff)
next
  fix ds k d
  assume ds: "sqlite_migration t m = Inr ds"
  have get: "bt_get (apply_ddls ds m) =
      bt_get m ++ map_of (map (\<lambda>c. (cname c, sqlite_type (cty c))) (missing t m))"
    using ds distinct_missing [OF assms, of m] sqlite_adds
    by (auto simp: sqlite_migration_iff split: if_splits)
  have comp: "compatible sqlite_type [PRIMARY_KEY_COLUMN] t m"
    using ds by (simp add: sqlite_migration_iff)
  show utd: "up_to_date sqlite_type [PRIMARY_KEY_COLUMN] t (apply_ddls ds m)"
    by (rule migrated_up_to_date(1) [OF assms comp get]) simp
  show "bt_get m k = Some d \<Longrightarrow> bt_get (apply_ddls ds m) k = Some d"
    by (rule migrated_up_to_date(2) [OF assms comp get]) simp_all
  show "sqlite_migration t (apply_ddls ds m) = Inr []"
    using up_to_date_compatible [OF utd] by (simp add: sqlite_migration_iff)
qed

text \<open>The PostgreSQL migration has the same contract, with the tenant column beside
  the primary key.\<close>

theorem postgres_migration_correct:
  assumes "valid_table t"
  shows "(is_ok (postgres_migration t m) \<longleftrightarrow>
      compatible postgres_type [''tenant_id'', PRIMARY_KEY_COLUMN] t m) \<and>
    (\<forall>ds. postgres_migration t m = Inr ds \<longrightarrow>
      up_to_date postgres_type [''tenant_id'', PRIMARY_KEY_COLUMN] t (apply_ddls ds m) \<and>
      (\<forall>k d. bt_get m k = Some d \<longrightarrow> bt_get (apply_ddls ds m) k = Some d) \<and>
      postgres_migration t (apply_ddls ds m) = Inr [])"
proof (intro conjI allI impI)
  let ?extra = "[''tenant_id'', PRIMARY_KEY_COLUMN]"
  show "is_ok (postgres_migration t m) \<longleftrightarrow> compatible postgres_type ?extra t m"
    by (auto simp: is_ok_iff postgres_migration_iff)
  fix ds k d
  assume ds: "postgres_migration t m = Inr ds"
  have get: "bt_get (apply_ddls ds m) = bt_get m ++
      map_of (map (\<lambda>c. (cname c, map ascii_lower (postgres_type (cty c)))) (missing t m))"
    using ds distinct_missing [OF assms, of m] postgres_adds
    by (auto simp: postgres_migration_iff)
  have comp: "compatible postgres_type ?extra t m"
    using ds by (simp add: postgres_migration_iff)
  have lower: "eq_ignore_ascii_case (map ascii_lower (postgres_type ct)) (postgres_type ct)" for ct
    by (cases ct) (simp_all add: eq_ignore_ascii_case_def ascii_lower_def byte_def)
  show utd: "up_to_date postgres_type ?extra t (apply_ddls ds m)"
    by (rule migrated_up_to_date(1) [OF assms comp get]) (rule lower)
  show "bt_get m k = Some d \<Longrightarrow> bt_get (apply_ddls ds m) k = Some d"
    by (rule migrated_up_to_date(2) [OF assms comp get]) (rule lower)
  show "postgres_migration t (apply_ddls ds m) = Inr []"
    using up_to_date_compatible [OF utd] by (simp add: postgres_migration_iff)
qed

subsection \<open>Witnesses\<close>

lemma valid_todos_table: "valid_table todos_table"
  by code_simp

theorem table_descriptor_injective_witness:
  "valid_table todos_table \<and> valid_table (todos_table\<lparr>tname := ''notes''\<rparr>) \<and>
   table_descriptor todos_table \<noteq> table_descriptor (todos_table\<lparr>tname := ''notes''\<rparr>)"
proof -
  have renamed: "valid_table (todos_table\<lparr>tname := ''notes''\<rparr>)" "todos_table \<noteq> todos_table\<lparr>tname := ''notes''\<rparr>"
    by code_simp+
  with table_descriptor_injective [OF valid_todos_table renamed(1)] valid_todos_table show ?thesis by blast
qed

theorem contract_fingerprint_witness:
  "contract_fingerprint \<lparr>ctables = [todos_table, todos_table\<lparr>tname := ''notes''\<rparr>]\<rparr> =
   contract_fingerprint \<lparr>ctables = [todos_table\<lparr>tname := ''notes''\<rparr>, todos_table]\<rparr>"
  by (rule contract_fingerprint_order_independent) simp

theorem sqlite_migration_witness:
  "sqlite_migration todos_table [(''id'', ''TEXT''), (''title'', ''text'')] =
     Inr [SqliteAddColumn ''todos'' \<lparr>cname = ''completed'', cty = TyBoolean\<rparr>,
          SqliteAddColumn ''todos'' \<lparr>cname = ''deleted'', cty = TyBoolean\<rparr>,
          DropTrigger ''todos_crdt_after_insert''] \<and>
   sqlite_migration todos_table
     [(''completed'', ''BOOLEAN''), (''deleted'', ''BOOLEAN''), (''id'', ''TEXT''), (''title'', ''text'')]
     = Inr []"
proof -
  let ?m = "[(''id'', ''TEXT''), (''title'', ''text'')]"
  let ?ds = "[SqliteAddColumn ''todos'' \<lparr>cname = ''completed'', cty = TyBoolean\<rparr>,
          SqliteAddColumn ''todos'' \<lparr>cname = ''deleted'', cty = TyBoolean\<rparr>,
          DropTrigger ''todos_crdt_after_insert'']"
  have "sqlite_migration todos_table ?m = Inr ?ds" by code_simp
  moreover from this have "sqlite_migration todos_table (apply_ddls ?ds ?m) = Inr []"
    using sqlite_migration_correct [OF valid_todos_table, of ?m] by blast
  moreover have "apply_ddls ?ds ?m =
      [(''completed'', ''BOOLEAN''), (''deleted'', ''BOOLEAN''), (''id'', ''TEXT''), (''title'', ''text'')]"
    by code_simp
  ultimately show ?thesis by simp
qed

theorem postgres_migration_witness:
  "postgres_migration todos_table [(''id'', ''text''), (''tenant_id'', ''text'')] =
     Inr (map (PostgresAddColumn ''todos'') (synchronized_columns todos_table)) \<and>
   up_to_date postgres_type [''tenant_id'', PRIMARY_KEY_COLUMN] todos_table
     (apply_ddls (map (PostgresAddColumn ''todos'') (synchronized_columns todos_table))
       [(''id'', ''text''), (''tenant_id'', ''text'')])"
proof -
  have "postgres_migration todos_table [(''id'', ''text''), (''tenant_id'', ''text'')] =
     Inr (map (PostgresAddColumn ''todos'') (synchronized_columns todos_table))"
    by code_simp
  with postgres_migration_correct [OF valid_todos_table,
      of "[(''id'', ''text''), (''tenant_id'', ''text'')]"]
  show ?thesis by blast
qed

text \<open>Distinct table names are not enough to keep a contract's SQL names apart. A table
  named like the log of another one passes both constructors, so in one database its application
  table and the other table's change log are the same table.\<close>

theorem contract_log_name_collision:
  "\<exists>t u c. table_new (tname t) (tcolumns t) = Inr t \<and> table_new (tname u) (tcolumns u) = Inr u \<and>
     contract_new [t, u] = Inr c \<and> t \<noteq> u \<and> crdt_table t = tname u"
proof -
  let ?u = "todos_table\<lparr>tname := ''todos_crdt''\<rparr>"
  have "table_new (tname todos_table) (tcolumns todos_table) = Inr todos_table"
    "table_new (tname ?u) (tcolumns ?u) = Inr ?u"
    "contract_new [todos_table, ?u] = Inr \<lparr>ctables = [todos_table, ?u]\<rparr>"
    "todos_table \<noteq> ?u" "crdt_table todos_table = tname ?u"
    by code_simp+
  then show ?thesis by blast
qed

end
