(* ===== verification/Payload.thy ===== *)
theory Payload
  imports Schema
begin

section \<open>The protocol: values, versions, payloads and their validation (crdt.rs)\<close>

text \<open>
  Cells, versions and payloads of the synchronization protocol, the last-writer-wins decision
  \<open>decide_lww\<close>, and the validation of untrusted payloads. A \<open>f64\<close> is its IEEE-754 bit pattern, so
  that equality of values is the \<open>PartialEq\<close> of Rust (\<open>0.0 == -0.0\<close>, \<open>NaN != NaN\<close>).
  \<open>payload_ok\<close>, \<open>client_request_ok\<close> and \<open>server_response_ok\<close> state what the three validators
  accept, independently of the order in which the code checks it.
\<close>

subsection \<open>Limits\<close>

definition SERVER_DEVICE_ID :: string where "SERVER_DEVICE_ID = ''loomabase-server''"
definition MIN_SUPPORTED_PROTOCOL_VERSION :: u16 where [limits]: "MIN_SUPPORTED_PROTOCOL_VERSION = 3"
definition PROTOCOL_VERSION :: u16 where [limits]: "PROTOCOL_VERSION = 4"
definition MAX_PAYLOAD_ROWS :: nat where [limits]: "MAX_PAYLOAD_ROWS = 10000"
definition MAX_PAYLOAD_CELLS :: nat where [limits]: "MAX_PAYLOAD_CELLS = 20000"
definition MAX_RESPONSE_CELLS :: nat where [limits]: "MAX_RESPONSE_CELLS = 1000"
definition MAX_RESPONSE_BYTES :: nat where [limits]: "MAX_RESPONSE_BYTES = 4 * 1048576"
definition MAX_TEXT_BYTES :: nat where [limits]: "MAX_TEXT_BYTES = 1048576"
definition MAX_REJECTION_REASON_BYTES :: nat where [limits]: "MAX_REJECTION_REASON_BYTES = 2048"
definition MAX_STORABLE_LAMPORT :: u64 where [limits]: "MAX_STORABLE_LAMPORT = 9223372036854775807"
definition MAX_CLOCK_ADVANCE_PER_SYNC :: u64 where [limits]: "MAX_CLOCK_ADVANCE_PER_SYNC = 1000000"

subsection \<open>Values\<close>

type_synonym f64 = "64 word"

definition f64_exponent :: "f64 \<Rightarrow> u64" where
  "f64_exponent x = drop_bit 52 x AND 0x7FF"

definition f64_fraction :: "f64 \<Rightarrow> u64" where
  "f64_fraction x = x AND 0xFFFFFFFFFFFFF"

definition f64_is_finite :: "f64 \<Rightarrow> bool" where
  "f64_is_finite x \<longleftrightarrow> f64_exponent x \<noteq> 0x7FF"

definition f64_is_nan :: "f64 \<Rightarrow> bool" where
  "f64_is_nan x \<longleftrightarrow> f64_exponent x = 0x7FF \<and> f64_fraction x \<noteq> 0"

definition f64_is_zero :: "f64 \<Rightarrow> bool" where
  "f64_is_zero x \<longleftrightarrow> x AND 0x7FFFFFFFFFFFFFFF = 0"

definition f64_eq :: "f64 \<Rightarrow> f64 \<Rightarrow> bool" where
  "f64_eq x y \<longleftrightarrow>
     \<not> f64_is_nan x \<and> \<not> f64_is_nan y \<and> (x = y \<or> f64_is_zero x \<and> f64_is_zero y)"

datatype crdt_value =
    VNull
  | VInteger i64
  | VReal f64
  | VText string
  | VBoolean bool
  | VBlob "8 word list"

fun value_eq :: "crdt_value \<Rightarrow> crdt_value \<Rightarrow> bool" where
  "value_eq (VReal x) (VReal y) = f64_eq x y"
| "value_eq a b = (a = b)"

subsection \<open>Versions and cells\<close>

datatype column_metadata = ColumnMetadata (lamport_clock: u64) (device_id: string)

text \<open>The derived \<open>Ord\<close> of \<open>ColumnMetadata\<close>: lexicographic in clock and device.\<close>

instantiation column_metadata :: linorder
begin

definition less_eq_column_metadata :: "column_metadata \<Rightarrow> column_metadata \<Rightarrow> bool" where
  "less_eq_column_metadata a b \<longleftrightarrow>
     lamport_clock a < lamport_clock b \<or>
     lamport_clock a = lamport_clock b \<and> device_id a \<le> device_id b"

definition less_column_metadata :: "column_metadata \<Rightarrow> column_metadata \<Rightarrow> bool" where
  "less_column_metadata a b \<longleftrightarrow>
     lamport_clock a < lamport_clock b \<or>
     lamport_clock a = lamport_clock b \<and> device_id a < device_id b"

instance
proof
  fix a b c :: column_metadata
  show "a < b \<longleftrightarrow> a \<le> b \<and> \<not> b \<le> a"
    by (auto simp: less_eq_column_metadata_def less_column_metadata_def)
  show "a \<le> a"
    by (simp add: less_eq_column_metadata_def)
  show "a \<le> b \<Longrightarrow> b \<le> c \<Longrightarrow> a \<le> c"
    by (auto simp: less_eq_column_metadata_def)
  show "a \<le> b \<Longrightarrow> b \<le> a \<Longrightarrow> a = b"
    by (auto simp: less_eq_column_metadata_def intro: column_metadata.expand)
  show "a \<le> b \<or> b \<le> a"
    by (auto simp: less_eq_column_metadata_def)
qed

end

record crdt_column =
  cvalue :: crdt_value
  cmeta :: column_metadata

record row_change =
  todo_id :: string
  row_columns :: "(string, crdt_column) btree_map"

datatype sync_rejection_kind = AuthorizationDenied | ValidationFailed

record sync_rejection =
  rj_todo_id :: string
  rj_column_name :: string
  rj_kind :: sync_rejection_kind
  rj_reason :: string
  rj_value :: crdt_value
  rj_metadata :: column_metadata

record sync_payload =
  protocol_version :: u16
  schema_fingerprint :: u64
  source_device_id :: string
  source_lamport :: u64
  changes :: "row_change list"
  cursor :: int
  has_more :: bool
  cursor_reset :: bool
  cursor_token :: "string option"
  server_epoch :: "string option"
  rejections :: "sync_rejection list"

datatype merge_decision = AcceptIncoming | KeepCurrent | Equal

definition decide_lww :: "column_metadata \<Rightarrow> column_metadata \<Rightarrow> merge_decision" where
  "decide_lww current incoming =
     (if incoming > current then AcceptIncoming
      else if incoming < current then KeepCurrent else Equal)"

text \<open>The decision the reference server, the SQLite client and the PostgreSQL adapter all take for
  one incoming cell: whether it is applied, or the error of two values under one version.\<close>

definition same_version_error :: sync_error where
  "same_version_error = InvalidPayload ''the same CRDT version cannot identify different values''"

definition lww_apply :: "crdt_column option \<Rightarrow> crdt_column \<Rightarrow> sync_error + bool" where
  "lww_apply current incoming =
     (case current of
        None \<Rightarrow> Inr True
      | Some cur \<Rightarrow>
          (case decide_lww (cmeta cur) (cmeta incoming) of
             AcceptIncoming \<Rightarrow> Inr True
           | KeepCurrent \<Rightarrow> Inr False
           | Equal \<Rightarrow> if value_eq (cvalue cur) (cvalue incoming) then Inr False
                      else Inl same_version_error))"

definition sync_payload_empty :: "string \<Rightarrow> u64 \<Rightarrow> table_def \<Rightarrow> sync_payload" where
  "sync_payload_empty device lamport t =
     \<lparr>protocol_version = PROTOCOL_VERSION, schema_fingerprint = table_fingerprint t,
      source_device_id = device, source_lamport = lamport, changes = [], cursor = 0,
      has_more = False, cursor_reset = False, cursor_token = None, server_epoch = None,
      rejections = []\<rparr>"

subsection \<open>Field validation\<close>

definition validate_column :: "table_def \<Rightarrow> string \<Rightarrow> crdt_value \<Rightarrow> sync_error + unit" where
  "validate_column t n v =
     (case table_column_type t n of
        None \<Rightarrow> Inl (InvalidPayload (''column is not synchronizable: '' @ n))
      | Some k \<Rightarrow>
          (case (k, v) of
             (TyText, VText s) \<Rightarrow>
               if length s \<le> MAX_TEXT_BYTES then Inr ()
               else Inl (InvalidPayload (''text column '' @ n @ '' exceeds the '' @
                 show_nat MAX_TEXT_BYTES @ ''-byte limit''))
           | (TyInteger, VInteger _) \<Rightarrow> Inr ()
           | (TyBoolean, VBoolean _) \<Rightarrow> Inr ()
           | (TyReal, VReal x) \<Rightarrow>
               if f64_is_finite x then Inr ()
               else Inl (InvalidPayload (''real column '' @ n @ '' must be finite''))
           | _ \<Rightarrow> Inl (InvalidPayload (''invalid value type for column '' @ n))))"

definition validate_column_name :: "table_def \<Rightarrow> string \<Rightarrow> sync_error + unit" where
  "validate_column_name t n =
     (if table_column_type t n \<noteq> None then Inr ()
      else Inl (InvalidPayload (''column is not synchronizable: '' @ n)))"

definition identifier_ok :: "string \<Rightarrow> bool" where
  "identifier_ok v \<longleftrightarrow> \<not> (v = [] \<or> length v > 255 \<or> has_control v)"

definition validate_identifier :: "string \<Rightarrow> string \<Rightarrow> sync_error + unit" where
  "validate_identifier field v =
     (if v = [] \<or> length v > 255 \<or> has_control v
      then Inl (InvalidPayload (field @ '' must contain between 1 and 255 non-control characters''))
      else Inr ())"

definition reason_ok :: "string \<Rightarrow> bool" where
  "reason_ok v \<longleftrightarrow> \<not> (v = [] \<or> length v > MAX_REJECTION_REASON_BYTES \<or> has_control v)"

definition validate_rejection_reason :: "string \<Rightarrow> sync_error + unit" where
  "validate_rejection_reason v =
     (if v = [] \<or> length v > MAX_REJECTION_REASON_BYTES \<or> has_control v
      then Inl (InvalidPayload (''rejection reason must contain between 1 and '' @
        show_nat MAX_REJECTION_REASON_BYTES @ '' non-control bytes''))
      else Inr ())"

definition validate_clock :: "u64 \<Rightarrow> sync_error + unit" where
  "validate_clock clock = (if clock \<le> MAX_STORABLE_LAMPORT then Inr () else Inl ClockOverflow)"

definition validate_clock_advance :: "u64 \<Rightarrow> u64 \<Rightarrow> sync_error + unit" where
  "validate_clock_advance current observed =
     (if saturating_sub_u64 observed current \<le> MAX_CLOCK_ADVANCE_PER_SYNC then Inr ()
      else Inl (InvalidPayload (''Lamport clock advances by more than the '' @
        show_nat (unat MAX_CLOCK_ADVANCE_PER_SYNC) @ '' per-sync limit'')))"

definition sync_rejection_new ::
  "string \<Rightarrow> string \<Rightarrow> sync_rejection_kind \<Rightarrow> string \<Rightarrow> crdt_value \<Rightarrow> column_metadata \<Rightarrow>
   sync_error + sync_rejection" where
  "sync_rejection_new row column kind reason v m =
     rbind (validate_identifier ''rejection.todo_id'' row) (\<lambda>_.
     rbind (validate_identifier ''rejection.column_name'' column) (\<lambda>_.
     rbind (validate_identifier ''rejection.metadata.device_id'' (device_id m)) (\<lambda>_.
     rbind (validate_clock (lamport_clock m)) (\<lambda>_.
     rbind (validate_rejection_reason reason) (\<lambda>_.
       Inr \<lparr>rj_todo_id = row, rj_column_name = column, rj_kind = kind, rj_reason = reason,
            rj_value = v, rj_metadata = m\<rparr>)))))"

subsection \<open>Payload validation\<close>

record validation_state =
  changed_cells :: "(string \<times> string) set"
  changed_rows :: "string set"
  cell_count :: nat

definition validate_cell ::
  "table_def \<Rightarrow> string \<Rightarrow> string \<times> crdt_column \<Rightarrow> validation_state \<Rightarrow> sync_error + validation_state" where
  "validate_cell t row e st =
     (case e of (column_name, column) \<Rightarrow>
       let st = st\<lparr>cell_count := cell_count st + 1\<rparr> in
       if cell_count st > MAX_PAYLOAD_CELLS
       then Inl (InvalidPayload (''payload exceeds the '' @ show_nat MAX_PAYLOAD_CELLS @
         '' changed-cell limit''))
       else
         rbind (validate_column t column_name (cvalue column)) (\<lambda>_.
         rbind (validate_identifier ''metadata.device_id'' (device_id (cmeta column))) (\<lambda>_.
         rbind (validate_clock (lamport_clock (cmeta column))) (\<lambda>_.
           if (row, column_name) \<in> changed_cells st
           then Inl (InvalidPayload ''payload contains a duplicate cell'')
           else Inr (st\<lparr>changed_cells := insert (row, column_name) (changed_cells st)\<rparr>)))))"

definition validate_row ::
  "table_def \<Rightarrow> row_change \<Rightarrow> validation_state \<Rightarrow> sync_error + validation_state" where
  "validate_row t row st =
     rbind (validate_identifier ''todo_id'' (todo_id row)) (\<lambda>_.
       if todo_id row \<in> changed_rows st
       then Inl (InvalidPayload ''payload contains a duplicate row'')
       else if row_columns row = []
       then Inl (InvalidPayload (''row '' @ todo_id row @ '' does not contain columns''))
       else foldM (validate_cell t (todo_id row)) (row_columns row)
              (st\<lparr>changed_rows := insert (todo_id row) (changed_rows st)\<rparr>))"

definition validate_rejection :: "table_def \<Rightarrow> sync_rejection \<Rightarrow> sync_error + unit" where
  "validate_rejection t r =
     rbind (validate_identifier ''rejection.todo_id'' (rj_todo_id r)) (\<lambda>_.
     rbind (validate_column t (rj_column_name r) (rj_value r)) (\<lambda>_.
     rbind (validate_identifier ''rejection.metadata.device_id'' (device_id (rj_metadata r))) (\<lambda>_.
     rbind (validate_clock (lamport_clock (rj_metadata r))) (\<lambda>_.
       validate_rejection_reason (rj_reason r)))))"

definition validate_optional :: "string \<times> string option \<Rightarrow> sync_error + unit" where
  "validate_optional e =
     (case e of (field, None) \<Rightarrow> Inr () | (field, Some v) \<Rightarrow> validate_identifier field v)"

definition validate :: "sync_payload \<Rightarrow> table_def \<Rightarrow> sync_error + unit" where
  "validate p t =
     (if \<not> (MIN_SUPPORTED_PROTOCOL_VERSION \<le> protocol_version p \<and> protocol_version p \<le> PROTOCOL_VERSION)
      then Inl (InvalidPayload (''unsupported protocol version '' @
        show_nat (unat (protocol_version p)) @ ''; supported range is '' @
        show_nat (unat MIN_SUPPORTED_PROTOCOL_VERSION) @ ''..='' @ show_nat (unat PROTOCOL_VERSION)))
      else if schema_fingerprint p \<noteq> table_fingerprint t
      then Inl (SchemaMismatch (table_fingerprint t) (schema_fingerprint p))
      else
        rbind (validate_identifier ''source_device_id'' (source_device_id p)) (\<lambda>_.
        rbind (validate_clock (source_lamport p)) (\<lambda>_.
        if cursor p < 0 then Inl (InvalidPayload ''cursor cannot be negative'')
        else
        rbind (forM_check validate_optional
          [(''cursor_token'', cursor_token p), (''server_epoch'', server_epoch p)]) (\<lambda>_.
        if length (changes p) > MAX_PAYLOAD_ROWS
        then Inl (InvalidPayload (''payload exceeds the '' @ show_nat MAX_PAYLOAD_ROWS @
          '' changed-row limit''))
        else if length (rejections p) > MAX_PAYLOAD_CELLS
        then Inl (InvalidPayload (''payload exceeds the '' @ show_nat MAX_PAYLOAD_CELLS @
          '' rejected-cell limit''))
        else
        rbind (foldM (validate_row t) (changes p)
          \<lparr>changed_cells = {}, changed_rows = {}, cell_count = 0\<rparr>) (\<lambda>_.
        forM_check (validate_rejection t) (rejections p))))))"

text \<open>The cells of a payload in iteration order, keyed by row and column.\<close>

definition row_cells :: "row_change \<Rightarrow> ((string \<times> string) \<times> crdt_column) list" where
  "row_cells row = map (\<lambda>(c, col). ((todo_id row, c), col)) (row_columns row)"

definition payload_cells :: "sync_payload \<Rightarrow> ((string \<times> string) \<times> crdt_column) list" where
  "payload_cells p = concat (map row_cells (changes p))"

definition validate_attribution :: "sync_payload \<Rightarrow> string \<Rightarrow> crdt_column \<Rightarrow> sync_error + unit" where
  "validate_attribution p device column =
     (if device_id (cmeta column) \<noteq> device
      then Inl (InvalidPayload ''a client cannot attribute a change to another device'')
      else if lamport_clock (cmeta column) > source_lamport p
      then Inl (InvalidPayload ''a column clock cannot exceed the source clock'')
      else Inr ())"

definition validate_client_request :: "sync_payload \<Rightarrow> string \<Rightarrow> table_def \<Rightarrow> sync_error + unit" where
  "validate_client_request p device t =
     rbind (validate p t) (\<lambda>_.
     rbind (validate_identifier ''authenticated_device_id'' device) (\<lambda>_.
       if device = SERVER_DEVICE_ID
       then Inl (InvalidPayload ''the reserved server device ID cannot authenticate as a client'')
       else if source_device_id p \<noteq> device
       then Inl (InvalidPayload ''source_device_id does not match the authenticated device'')
       else if has_more p \<or> cursor_reset p
       then Inl (InvalidPayload ''a client request cannot set response-only cursor flags'')
       else if rejections p \<noteq> []
       then Inl (InvalidPayload ''a client request cannot contain server rejection records'')
       else forM_check (\<lambda>row. forM_check (\<lambda>e. validate_attribution p device (snd e)) (row_columns row))
              (changes p)))"

definition payload_clocks :: "sync_payload \<Rightarrow> u64 list" where
  "payload_clocks p = concat (map (\<lambda>row. map (\<lambda>e. lamport_clock (cmeta (snd e))) (row_columns row)) (changes p))"

definition validate_server_response :: "sync_payload \<Rightarrow> table_def \<Rightarrow> sync_error + unit" where
  "validate_server_response p t =
     rbind (validate p t) (\<lambda>_.
       if source_device_id p \<noteq> SERVER_DEVICE_ID
       then Inl (InvalidPayload ''remote payload is not attributed to the Loomabase server'')
       else if list_ex (\<lambda>clock. clock > source_lamport p)
         (payload_clocks p @ map (\<lambda>r. lamport_clock (rj_metadata r)) (rejections p))
       then Inl (InvalidPayload ''a response cell clock cannot exceed the server source clock'')
       else Inr ())"

definition max_observed_clock :: "sync_payload \<Rightarrow> u64" where
  "max_observed_clock p = foldl max (source_lamport p) (payload_clocks p)"

section \<open>Properties of validation\<close>

subsection \<open>What the field validators accept\<close>

definition clock_ok :: "u64 \<Rightarrow> bool" where
  "clock_ok c \<longleftrightarrow> unat c < 2 ^ 63"

definition value_ok :: "table_def \<Rightarrow> string \<Rightarrow> crdt_value \<Rightarrow> bool" where
  "value_ok t n v \<longleftrightarrow>
     (case v of
        VText s \<Rightarrow> table_column_type t n = Some TyText \<and> length s \<le> MAX_TEXT_BYTES
      | VInteger _ \<Rightarrow> table_column_type t n = Some TyInteger
      | VReal x \<Rightarrow> table_column_type t n = Some TyReal \<and> f64_is_finite x
      | VBoolean _ \<Rightarrow> table_column_type t n = Some TyBoolean
      | _ \<Rightarrow> False)"

definition meta_ok :: "column_metadata \<Rightarrow> bool" where
  "meta_ok m \<longleftrightarrow> identifier_ok (device_id m) \<and> clock_ok (lamport_clock m)"

definition cell_ok :: "table_def \<Rightarrow> string \<Rightarrow> crdt_column \<Rightarrow> bool" where
  "cell_ok t n c \<longleftrightarrow> value_ok t n (cvalue c) \<and> meta_ok (cmeta c)"

definition rejection_ok :: "table_def \<Rightarrow> sync_rejection \<Rightarrow> bool" where
  "rejection_ok t r \<longleftrightarrow>
     identifier_ok (rj_todo_id r) \<and> value_ok t (rj_column_name r) (rj_value r) \<and>
     meta_ok (rj_metadata r) \<and> reason_ok (rj_reason r)"

lemma validate_identifier_ok [simp]:
  "is_ok (validate_identifier f v) \<longleftrightarrow> identifier_ok v"
  "validate_identifier f v = Inr u \<longleftrightarrow> identifier_ok v"
  by (auto simp: validate_identifier_def identifier_ok_def)

lemma validate_rejection_reason_ok [simp]:
  "is_ok (validate_rejection_reason v) \<longleftrightarrow> reason_ok v"
  "validate_rejection_reason v = Inr u \<longleftrightarrow> reason_ok v"
  by (auto simp: validate_rejection_reason_def reason_ok_def)

lemma validate_clock_ok [simp]:
  "is_ok (validate_clock c) \<longleftrightarrow> clock_ok c"
  "validate_clock c = Inr u \<longleftrightarrow> clock_ok c"
  by (auto simp: validate_clock_def clock_ok_def limits word_le_nat_alt)

lemma validate_clock_advance_ok:
  "validate_clock_advance cur obs = Inr u \<longleftrightarrow> unat obs \<le> unat cur + 1000000"
  by (auto simp: validate_clock_advance_def limits word_le_nat_alt unat_saturating_sub_u64)

lemma validate_column_ok [simp]:
  "is_ok (validate_column t n v) \<longleftrightarrow> value_ok t n v"
  by (auto simp: validate_column_def value_ok_def split: option.splits column_type.splits
      crdt_value.splits)

lemma validate_column_Inr [simp]: "validate_column t n v = Inr u \<longleftrightarrow> value_ok t n v"
  using unit_result_ok [of "validate_column t n v"] by (cases u) simp

lemma validate_column_name_ok: "validate_column_name t n = Inr u \<longleftrightarrow> table_column_type t n \<noteq> None"
  by (auto simp: validate_column_name_def)

lemma value_ok_column: "value_ok t n v \<Longrightarrow> table_column_type t n \<noteq> None"
  by (auto simp: value_ok_def split: crdt_value.splits)

lemma sync_rejection_new_ok:
  "sync_rejection_new row column kind reason v m = Inr r \<longleftrightarrow>
     identifier_ok row \<and> identifier_ok column \<and> meta_ok m \<and> reason_ok reason \<and>
     r = \<lparr>rj_todo_id = row, rj_column_name = column, rj_kind = kind, rj_reason = reason,
          rj_value = v, rj_metadata = m\<rparr>"
  by (auto simp: sync_rejection_new_def meta_ok_def)

lemma validate_rejection_ok [simp]: "is_ok (validate_rejection t r) \<longleftrightarrow> rejection_ok t r"
  by (auto simp: validate_rejection_def rejection_ok_def meta_ok_def)

subsection \<open>What the payload validators accept\<close>

definition payload_ok :: "table_def \<Rightarrow> sync_payload \<Rightarrow> bool" where
  "payload_ok t p \<longleftrightarrow>
     3 \<le> unat (protocol_version p) \<and> unat (protocol_version p) \<le> 4 \<and>
     schema_fingerprint p = table_fingerprint t \<and>
     identifier_ok (source_device_id p) \<and> clock_ok (source_lamport p) \<and> 0 \<le> cursor p \<and>
     (\<forall>v. cursor_token p = Some v \<longrightarrow> identifier_ok v) \<and>
     (\<forall>v. server_epoch p = Some v \<longrightarrow> identifier_ok v) \<and>
     length (changes p) \<le> 10000 \<and> length (rejections p) \<le> 20000 \<and>
     length (payload_cells p) \<le> 20000 \<and>
     distinct (map todo_id (changes p)) \<and> distinct (map fst (payload_cells p)) \<and>
     (\<forall>row\<in>set (changes p). identifier_ok (todo_id row) \<and> row_columns row \<noteq> []) \<and>
     (\<forall>((row, column), cell)\<in>set (payload_cells p). cell_ok t column cell) \<and>
     (\<forall>r\<in>set (rejections p). rejection_ok t r)"

definition client_request_ok :: "table_def \<Rightarrow> string \<Rightarrow> sync_payload \<Rightarrow> bool" where
  "client_request_ok t device p \<longleftrightarrow>
     payload_ok t p \<and> device \<noteq> SERVER_DEVICE_ID \<and> source_device_id p = device \<and>
     \<not> has_more p \<and> \<not> cursor_reset p \<and> rejections p = [] \<and>
     (\<forall>(key, cell)\<in>set (payload_cells p).
        device_id (cmeta cell) = device \<and> lamport_clock (cmeta cell) \<le> source_lamport p)"

definition server_response_ok :: "table_def \<Rightarrow> sync_payload \<Rightarrow> bool" where
  "server_response_ok t p \<longleftrightarrow>
     payload_ok t p \<and> source_device_id p = SERVER_DEVICE_ID \<and>
     (\<forall>(key, cell)\<in>set (payload_cells p). lamport_clock (cmeta cell) \<le> source_lamport p) \<and>
     (\<forall>r\<in>set (rejections p). lamport_clock (rj_metadata r) \<le> source_lamport p)"

lemma validate_cell_Inr:
  "validate_cell t row (n, c) st = Inr st' \<longleftrightarrow>
     cell_count st < MAX_PAYLOAD_CELLS \<and> cell_ok t n c \<and> (row, n) \<notin> changed_cells st \<and>
     st' = st\<lparr>cell_count := cell_count st + 1, changed_cells := insert (row, n) (changed_cells st)\<rparr>"
  by (auto simp: validate_cell_def Let_def cell_ok_def meta_ok_def)

lemma validate_cells_Inr:
  "cell_count st \<le> MAX_PAYLOAD_CELLS \<Longrightarrow>
   foldM (validate_cell t row) cs st = Inr st' \<longleftrightarrow>
     cell_count st + length cs \<le> MAX_PAYLOAD_CELLS \<and> (\<forall>(n, c)\<in>set cs. cell_ok t n c) \<and>
     distinct (map fst cs) \<and> (\<forall>n\<in>fst ` set cs. (row, n) \<notin> changed_cells st) \<and>
     st' = st\<lparr>cell_count := cell_count st + length cs,
             changed_cells := Pair row ` fst ` set cs \<union> changed_cells st\<rparr>"
proof (induction cs arbitrary: st)
  case Nil
  then show ?case by (cases st) auto
next
  case (Cons e cs)
  obtain n c where e: "e = (n, c)" by fastforce
  let ?st = "st\<lparr>cell_count := cell_count st + 1,
                changed_cells := insert (row, n) (changed_cells st)\<rparr>"
  show ?case
  proof (cases "cell_count st < MAX_PAYLOAD_CELLS")
    case True
    then show ?thesis
      using Cons.IH [of ?st] by (cases st) (auto simp: e validate_cell_Inr)
  next
    case False
    then show ?thesis by (auto simp: e validate_cell_Inr)
  qed
qed

lemma validate_row_Inr:
  "cell_count st \<le> MAX_PAYLOAD_CELLS \<Longrightarrow>
   validate_row t row st = Inr st' \<longleftrightarrow>
     identifier_ok (todo_id row) \<and> todo_id row \<notin> changed_rows st \<and> row_columns row \<noteq> [] \<and>
     cell_count st + length (row_columns row) \<le> MAX_PAYLOAD_CELLS \<and>
     (\<forall>(n, c)\<in>set (row_columns row). cell_ok t n c) \<and> distinct (map fst (row_columns row)) \<and>
     (\<forall>n\<in>fst ` set (row_columns row). (todo_id row, n) \<notin> changed_cells st) \<and>
     st' = st\<lparr>cell_count := cell_count st + length (row_columns row),
             changed_rows := insert (todo_id row) (changed_rows st),
             changed_cells := fst ` set (row_cells row) \<union> changed_cells st\<rparr>"
  by (cases st) (auto simp: validate_row_def validate_cells_Inr row_cells_def image_image
      case_prod_beta)

abbreviation rows_cells :: "row_change list \<Rightarrow> ((string \<times> string) \<times> crdt_column) list" where
  "rows_cells rows \<equiv> concat (map row_cells rows)"

lemma length_row_cells [simp]: "length (row_cells row) = length (row_columns row)"
  by (simp add: row_cells_def)

lemma in_row_cells:
  "((r, n), c) \<in> set (row_cells row) \<longleftrightarrow> r = todo_id row \<and> (n, c) \<in> set (row_columns row)"
  by (force simp: row_cells_def)

lemma distinct_row_cells: "distinct (map fst (row_cells row)) \<longleftrightarrow> distinct (map fst (row_columns row))"
proof -
  have "map fst (row_cells row) = map (Pair (todo_id row)) (map fst (row_columns row))"
    by (simp add: row_cells_def case_prod_beta)
  then show ?thesis by (simp add: distinct_map inj_on_def)
qed

lemma keys_row_cells: "fst ` set (row_cells row) = Pair (todo_id row) ` fst ` set (row_columns row)"
  by (force simp: row_cells_def)

lemma validate_rows_Inr:
  "cell_count st \<le> MAX_PAYLOAD_CELLS \<Longrightarrow>
   is_ok (foldM (validate_row t) rows st) \<longleftrightarrow>
     cell_count st + length (rows_cells rows) \<le> MAX_PAYLOAD_CELLS \<and>
     (\<forall>row\<in>set rows. identifier_ok (todo_id row) \<and> row_columns row \<noteq> []) \<and>
     distinct (map todo_id rows) \<and> set (map todo_id rows) \<inter> changed_rows st = {} \<and>
     (\<forall>((r, n), c)\<in>set (rows_cells rows). cell_ok t n c) \<and>
     distinct (map fst (rows_cells rows)) \<and> fst ` set (rows_cells rows) \<inter> changed_cells st = {}"
proof (induction rows arbitrary: st)
  case Nil
  then show ?case by simp
next
  case (Cons row rows)
  let ?st = "st\<lparr>cell_count := cell_count st + length (row_columns row),
             changed_rows := insert (todo_id row) (changed_rows st),
             changed_cells := fst ` set (row_cells row) \<union> changed_cells st\<rparr>"
  define here where "here \<longleftrightarrow>
     identifier_ok (todo_id row) \<and> todo_id row \<notin> changed_rows st \<and> row_columns row \<noteq> [] \<and>
     cell_count st + length (row_columns row) \<le> MAX_PAYLOAD_CELLS \<and>
     (\<forall>(n, c)\<in>set (row_columns row). cell_ok t n c) \<and> distinct (map fst (row_columns row)) \<and>
     (\<forall>n\<in>fst ` set (row_columns row). (todo_id row, n) \<notin> changed_cells st)"
  have row: "validate_row t row st = Inr st' \<longleftrightarrow> here \<and> st' = ?st" for st'
    using validate_row_Inr [OF Cons.prems] by (auto simp: here_def)
  have step: "is_ok (foldM (validate_row t) (row # rows) st) \<longleftrightarrow>
      here \<and> is_ok (foldM (validate_row t) rows ?st)"
    using row by auto
  show ?case
  proof (cases "here")
    case False
    have "here" if cnt: "cell_count st + length (rows_cells (row # rows)) \<le> MAX_PAYLOAD_CELLS"
      and rows: "\<forall>row\<in>set (row # rows). identifier_ok (todo_id row) \<and> row_columns row \<noteq> []"
      and new: "set (map todo_id (row # rows)) \<inter> changed_rows st = {}"
      and ok: "\<forall>((r, n), c)\<in>set (rows_cells (row # rows)). cell_ok t n c"
      and dist: "distinct (map fst (rows_cells (row # rows)))"
      and keys: "fst ` set (rows_cells (row # rows)) \<inter> changed_cells st = {}"
    proof -
      have "\<forall>((r, n), c)\<in>set (row_cells row). cell_ok t n c" using ok by simp
      then have "\<forall>(n, c)\<in>set (row_columns row). cell_ok t n c" by (force simp: row_cells_def)
      moreover have "fst ` set (row_cells row) \<inter> changed_cells st = {}"
        using keys by (simp add: image_Un Int_Un_distrib2)
      moreover have "distinct (map fst (row_columns row))"
        using dist by (simp flip: distinct_row_cells)
      ultimately show ?thesis
        using cnt rows new by (auto simp: here_def keys_row_cells)
    qed
    with False step show ?thesis by blast
  next
    case True
    have cells: "(\<forall>((r, n), c)\<in>set (row_cells row). cell_ok t n c)"
      using True by (auto simp: here_def in_row_cells)
    have count: "cell_count ?st \<le> MAX_PAYLOAD_CELLS" using True by (simp add: here_def)
    have keys: "fst ` set (row_cells row) \<inter> changed_cells st = {}"
      "distinct (map fst (row_cells row))"
      using True by (auto simp: here_def keys_row_cells distinct_row_cells)
    define C R where "C = row_cells row" and "R = rows_cells rows"
    have split: "rows_cells (row # rows) = C @ R" "length C = length (row_columns row)"
      by (simp_all add: C_def R_def)
    have disj: "fst ` set (C @ R) \<inter> X = {} \<longleftrightarrow> fst ` set C \<inter> X = {} \<and> fst ` set R \<inter> X = {}" for X
      by (auto simp: image_Un)
    have e1: "cell_count ?st + length R \<le> MAX_PAYLOAD_CELLS \<longleftrightarrow>
        cell_count st + length (C @ R) \<le> MAX_PAYLOAD_CELLS"
      by (simp add: split add.assoc)
    have e2: "distinct (map todo_id rows) \<and> set (map todo_id rows) \<inter> changed_rows ?st = {} \<longleftrightarrow>
        distinct (map todo_id (row # rows)) \<and> set (map todo_id (row # rows)) \<inter> changed_rows st = {}"
      using True by (auto simp: here_def)
    have e3: "distinct (map fst R) \<and> fst ` set R \<inter> changed_cells ?st = {} \<longleftrightarrow>
        distinct (map fst (C @ R)) \<and> fst ` set (C @ R) \<inter> changed_cells st = {}"
      using keys unfolding disj C_def [symmetric]
      by (simp add: Int_Un_distrib) blast
    have e4: "(\<forall>((r, n), c)\<in>set R. cell_ok t n c) \<longleftrightarrow> (\<forall>((r, n), c)\<in>set (C @ R). cell_ok t n c)"
      using cells unfolding C_def [symmetric] by (simp add: ball_Un)
    have e5: "(\<forall>row\<in>set rows. identifier_ok (todo_id row) \<and> row_columns row \<noteq> []) \<longleftrightarrow>
        (\<forall>row\<in>set (row # rows). identifier_ok (todo_id row) \<and> row_columns row \<noteq> [])"
      using True by (simp add: here_def)
    show ?thesis
      unfolding step Cons.IH [OF count] split R_def [symmetric] e1 e4 e5
      using True e2 e3 by argo
  qed
qed

lemma validate_optional_ok [simp]:
  "is_ok (validate_optional (f, v)) \<longleftrightarrow> (\<forall>x. v = Some x \<longrightarrow> identifier_ok x)"
  "validate_optional (f, v) = Inr u \<longleftrightarrow> (\<forall>x. v = Some x \<longrightarrow> identifier_ok x)"
  by (auto simp: validate_optional_def split: option.splits)

lemma validate_ok [simp]: "is_ok (validate p t) \<longleftrightarrow> payload_ok t p"
proof -
  have rows: "is_ok (foldM (validate_row t) (changes p)
      \<lparr>changed_cells = {}, changed_rows = {}, cell_count = 0\<rparr>) \<longleftrightarrow>
     length (payload_cells p) \<le> MAX_PAYLOAD_CELLS \<and>
     (\<forall>row\<in>set (changes p). identifier_ok (todo_id row) \<and> row_columns row \<noteq> []) \<and>
     distinct (map todo_id (changes p)) \<and>
     (\<forall>((r, n), c)\<in>set (payload_cells p). cell_ok t n c) \<and>
     distinct (map fst (payload_cells p))"
    by (subst validate_rows_Inr) (simp_all add: payload_cells_def)
  have version: "MIN_SUPPORTED_PROTOCOL_VERSION \<le> protocol_version p \<and> protocol_version p \<le> PROTOCOL_VERSION
     \<longleftrightarrow> 3 \<le> unat (protocol_version p) \<and> unat (protocol_version p) \<le> 4"
    by (simp add: limits word_le_nat_alt)
  show ?thesis
    unfolding validate_def payload_ok_def version
    by (simp add: is_ok_rbind_const rows forM_check_Inr del: is_ok_rbind) (auto simp: limits)
qed

lemma payload_cells_iff:
  "((r, n), c) \<in> set (payload_cells p) \<longleftrightarrow>
     (\<exists>row\<in>set (changes p). todo_id row = r \<and> (n, c) \<in> set (row_columns row))"
  by (force simp: payload_cells_def in_row_cells)

lemma row_has_cell:
  assumes "row \<in> set (changes p)" "row_columns row \<noteq> []"
  obtains n c where "((todo_id row, n), c) \<in> set (payload_cells p)"
proof -
  obtain n c where nc: "(n, c) \<in> set (row_columns row)" using assms(2) by (cases "row_columns row") auto
  have "((todo_id row, n), c) \<in> set (payload_cells p)"
    unfolding payload_cells_iff by (rule bexI [OF _ assms(1)]) (simp add: nc)
  then show thesis by (rule that)
qed

lemma payload_clocks_cells: "payload_clocks p = map (\<lambda>e. lamport_clock (cmeta (snd e))) (payload_cells p)"
  by (simp add: payload_clocks_def payload_cells_def row_cells_def map_concat o_def case_prod_beta)

lemma attribution_ok [simp]:
  "is_ok (validate_attribution p device c) \<longleftrightarrow>
     device_id (cmeta c) = device \<and> lamport_clock (cmeta c) \<le> source_lamport p"
  by (auto simp: validate_attribution_def)

lemma validate_client_request_iff:
  "validate_client_request p device t = Inr u \<longleftrightarrow> client_request_ok t device p"
proof -
  have cells: "(\<forall>row\<in>set (changes p). \<forall>e\<in>set (row_columns row). Q (snd e)) \<longleftrightarrow>
      (\<forall>(key, cell)\<in>set (payload_cells p). Q cell)" for Q
    by (fastforce simp: payload_cells_def row_cells_def)
  have att: "is_ok (forM_check (\<lambda>row. forM_check (\<lambda>e. validate_attribution p device (snd e))
      (row_columns row)) (changes p)) \<longleftrightarrow> (\<forall>(key, cell)\<in>set (payload_cells p).
        device_id (cmeta cell) = device \<and> lamport_clock (cmeta cell) \<le> source_lamport p)"
    using cells [of "\<lambda>c. device_id (cmeta c) = device \<and> lamport_clock (cmeta c) \<le> source_lamport p"]
    by simp
  have "is_ok (validate_client_request p device t) \<longleftrightarrow> client_request_ok t device p"
    unfolding validate_client_request_def client_request_ok_def
    by (simp add: is_ok_rbind_const att del: is_ok_rbind forM_check_ok) (auto simp: payload_ok_def)
  then show ?thesis by (cases u) (simp add: unit_result_ok)
qed

lemma validate_server_response_iff:
  "validate_server_response p t = Inr u \<longleftrightarrow> server_response_ok t p"
proof -
  have "is_ok (validate_server_response p t) \<longleftrightarrow> server_response_ok t p"
    unfolding validate_server_response_def server_response_ok_def
    by (simp add: is_ok_rbind_const payload_clocks_cells list_ex_iff ball_Un not_less case_prod_beta
        del: is_ok_rbind)
  then show ?thesis by (cases u) (simp add: unit_result_ok)
qed

lemma foldl_max_ge: "(a :: 'a::linorder) \<le> foldl max a xs \<and> (\<forall>x\<in>set xs. x \<le> foldl max a xs)"
proof (induction xs arbitrary: a)
  case (Cons x xs)
  from Cons [of "max a x"] show ?case by (auto simp: max_def split: if_splits)
qed simp

lemma foldl_max_bound: "(a :: 'a::linorder) \<le> b \<Longrightarrow> \<forall>x\<in>set xs. x \<le> b \<Longrightarrow> foldl max a xs \<le> b"
  by (induction xs arbitrary: a) auto

lemma max_observed_clock_ge:
  "source_lamport p \<le> max_observed_clock p"
  "(k, c) \<in> set (payload_cells p) \<Longrightarrow> lamport_clock (cmeta c) \<le> max_observed_clock p"
  using foldl_max_ge [of "source_lamport p" "payload_clocks p"]
  by (auto simp: max_observed_clock_def payload_clocks_cells)

lemma max_observed_clock_eq:
  "\<forall>(k, c)\<in>set (payload_cells p). lamport_clock (cmeta c) \<le> source_lamport p \<Longrightarrow>
   max_observed_clock p = source_lamport p"
  using foldl_max_bound [of "source_lamport p" "source_lamport p" "payload_clocks p"]
    max_observed_clock_ge(1) [of p]
  by (fastforce simp: max_observed_clock_def payload_clocks_cells)

lemma client_request_observed: "client_request_ok t d p \<Longrightarrow> max_observed_clock p = source_lamport p"
  by (rule max_observed_clock_eq) (auto simp: client_request_ok_def)

lemma server_response_observed: "server_response_ok t p \<Longrightarrow> max_observed_clock p = source_lamport p"
  by (rule max_observed_clock_eq) (auto simp: server_response_ok_def)

text \<open>A client request is accepted exactly when it has a supported version, the
  fingerprint of the local contract, valid identifiers, storable clocks and a non-negative cursor,
  stays within the row and cell limits, names every row and cell once, carries only well-typed
  values for columns of the contract, sets no response field, and attributes every cell to the
  authenticated device with a clock the device had reached.\<close>

theorem validate_client_request_correct:
  "validate_client_request p device t = Inr () \<longleftrightarrow> client_request_ok t device p"
  by (rule validate_client_request_iff)

text \<open>A server response is accepted exactly when it is a valid payload of the server
  device in which no cell and no rejection has a clock above the server clock.\<close>

theorem validate_server_response_correct:
  "validate_server_response p t = Inr () \<longleftrightarrow> server_response_ok t p"
  by (rule validate_server_response_iff)

text \<open>When the columns of every row form a \<open>BTreeMap\<close>, distinct rows have distinct cells.\<close>

lemma rows_cells_distinct:
  assumes "\<forall>row\<in>set rows. bt_wf (row_columns row)" "distinct (map todo_id rows)"
  shows "distinct (map fst (rows_cells rows))"
  using assms
proof (induction rows)
  case (Cons row rows)
  have "distinct (map fst (row_cells row))"
    using Cons.prems by (simp add: distinct_row_cells bt_wf_distinct)
  moreover have "fst ` set (row_cells row) \<inter> fst ` set (rows_cells rows) = {}"
    using Cons.prems by (fastforce simp: in_row_cells)
  ultimately show ?case using Cons by simp
qed simp

abbreviation duplicate_cell :: sync_error where
  "duplicate_cell \<equiv> InvalidPayload ''payload contains a duplicate cell''"

lemma validate_column_not_duplicate [simp]: "validate_column t n v \<noteq> Inl duplicate_cell"
  by (auto simp: validate_column_def split: option.splits column_type.splits crdt_value.splits)

lemma validate_identifier_not_duplicate:
  "hd field \<noteq> CHR ''p'' \<Longrightarrow> field \<noteq> [] \<Longrightarrow> validate_identifier field v \<noteq> Inl duplicate_cell"
  by (cases field) (auto simp: validate_identifier_def)

lemma validate_cell_duplicate:
  "validate_cell t row e st = Inl duplicate_cell \<Longrightarrow> (row, fst e) \<in> changed_cells st"
  by (cases e)
    (auto simp: validate_cell_def Let_def rbind_eq_Inl validate_clock_def
      validate_identifier_not_duplicate split: if_splits)

lemma validate_cells_duplicate:
  "foldM (validate_cell t row) es st = Inl duplicate_cell \<Longrightarrow>
   distinct (map fst es) \<Longrightarrow> \<exists>n\<in>fst ` set es. (row, n) \<in> changed_cells st"
proof (induction es arbitrary: st)
  case (Cons e es)
  show ?case
  proof (cases "validate_cell t row e st")
    case (Inl x)
    with Cons.prems show ?thesis by (auto dest: validate_cell_duplicate)
  next
    case (Inr st1)
    with Cons.prems have "foldM (validate_cell t row) es st1 = Inl duplicate_cell" by simp
    then have "\<exists>n\<in>fst ` set es. (row, n) \<in> changed_cells st1"
      by (rule Cons.IH) (use Cons.prems(2) in simp)
    then obtain n where "n \<in> fst ` set es" "(row, n) \<in> changed_cells st1" by blast
    moreover from this(1) have "n \<noteq> fst e"
      using Cons.prems(2) by (metis distinct.simps(2) list.set_map list.simps(9))
    ultimately show ?thesis using Inr by (cases e) (auto simp: validate_cell_Inr)
  qed
qed simp

text \<open>The cells seen so far belong to rows seen so far, so a new row meets no seen cell.\<close>

lemma validate_rows_not_duplicate:
  "fst ` changed_cells st \<subseteq> changed_rows st \<Longrightarrow> \<forall>row\<in>set rows. bt_wf (row_columns row) \<Longrightarrow>
   foldM (validate_row t) rows st \<noteq> Inl duplicate_cell"
proof (induction rows arbitrary: st)
  case (Cons row rows)
  let ?st = "st\<lparr>changed_rows := insert (todo_id row) (changed_rows st)\<rparr>"
  show ?case
  proof (cases "validate_row t row st")
    case (Inl x)
    have "False" if dup: "validate_row t row st = Inl duplicate_cell"
    proof -
      have new: "todo_id row \<notin> changed_rows st"
        and loop: "foldM (validate_cell t (todo_id row)) (row_columns row) ?st = Inl duplicate_cell"
        using dup by (auto simp: validate_row_def rbind_eq_Inl validate_identifier_not_duplicate
            split: if_splits)
      have "distinct (map fst (row_columns row))" using Cons.prems by (simp add: bt_wf_distinct)
      with validate_cells_duplicate [OF loop] new Cons.prems(1) show False by force
    qed
    with Inl show ?thesis by auto
  next
    case (Inr st1)
    then have "foldM (validate_cell t (todo_id row)) (row_columns row) ?st = Inr st1"
      by (auto simp: validate_row_def split: if_splits)
    then have "fst ` changed_cells st1 \<subseteq> changed_rows st1 \<and> todo_id row \<in> changed_rows st1"
      by (rule foldM_invariant)
        (use Cons.prems(1) in \<open>force simp: validate_cell_Inr\<close>)+
    with Cons Inr show ?thesis by auto
  qed
qed simp

text \<open>The duplicate-cell error of \<open>validate\<close> cannot occur for payloads whose columns are
  \<open>BTreeMap\<close>s: the duplicate-row test, which comes first, already excludes it.\<close>

theorem duplicate_cell_unreachable:
  assumes "\<forall>row\<in>set (changes p). bt_wf (row_columns row)"
  shows "validate p t \<noteq> Inl (InvalidPayload ''payload contains a duplicate cell'')"
proof -
  have optional: "validate_optional e \<noteq> Inl duplicate_cell" if "hd (fst e) \<noteq> CHR ''p''" "fst e \<noteq> []" for e
    using that validate_identifier_not_duplicate
    by (cases e) (auto simp: validate_optional_def split: option.splits)
  have rejections: "validate_rejection t r \<noteq> Inl duplicate_cell" for r
    by (auto simp: validate_rejection_def rbind_eq_Inl validate_identifier_not_duplicate
        validate_clock_def validate_rejection_reason_def split: if_splits)
  have "forM_check (validate_rejection t) rs \<noteq> Inl duplicate_cell" for rs
    by (induction rs) (auto simp: rbind_eq_Inl rejections)
  then show ?thesis
    using assms unfolding validate_def
    by (auto simp: rbind_eq_Inl validate_identifier_not_duplicate validate_clock_def optional
        validate_rows_not_duplicate split: if_splits)
qed

theorem duplicate_cell_unreachable_witness:
  "validate \<lparr>protocol_version = 4, schema_fingerprint = 0, source_device_id = ''a'', source_lamport = 1,
     changes = [\<lparr>todo_id = ''r'', row_columns = []\<rparr>], cursor = 0, has_more = False,
     cursor_reset = False, cursor_token = None, server_epoch = None, rejections = []\<rparr> todos_table \<noteq>
   Inl (InvalidPayload ''payload contains a duplicate cell'')"
  by (rule duplicate_cell_unreachable) (simp add: bt_wf_def)

subsection \<open>The last-writer-wins order\<close>

lemma decide_lww_iff:
  "decide_lww a b = AcceptIncoming \<longleftrightarrow> a < b"
  "decide_lww a b = KeepCurrent \<longleftrightarrow> b < a"
  "decide_lww a b = Equal \<longleftrightarrow> a = b"
  by (auto simp: decide_lww_def)

text \<open>\<open>decide_lww\<close> is the documented rule (an incoming version wins when its clock is
  higher, or when the clocks are equal and its device identifier sorts after the current one), and
  it never prefers both of two versions or neither of two different ones.\<close>

theorem decide_lww_rule:
  "(decide_lww cur inc = AcceptIncoming \<longleftrightarrow>
      lamport_clock inc > lamport_clock cur \<or>
      lamport_clock inc = lamport_clock cur \<and> device_id inc > device_id cur) \<and>
   (decide_lww cur inc = KeepCurrent \<longleftrightarrow> decide_lww inc cur = AcceptIncoming) \<and>
   (decide_lww cur inc = Equal \<longleftrightarrow> inc = cur)"
  by (auto simp: decide_lww_iff less_column_metadata_def)

lemma f64_eq_sym: "f64_eq x y \<longleftrightarrow> f64_eq y x"
  by (auto simp: f64_eq_def)

lemma f64_eq_trans: "f64_eq x y \<Longrightarrow> f64_eq y z \<Longrightarrow> f64_eq x z"
  by (auto simp: f64_eq_def)

lemma f64_eq_refl: "f64_is_finite x \<Longrightarrow> f64_eq x x"
  by (auto simp: f64_eq_def f64_is_finite_def f64_is_nan_def)

lemma value_eq_sym: "value_eq a b \<longleftrightarrow> value_eq b a"
  by (cases a; cases b) (auto simp: f64_eq_sym)

lemma value_eq_trans: "value_eq a b \<Longrightarrow> value_eq b c \<Longrightarrow> value_eq a c"
  by (cases a; cases b; cases c) (auto intro: f64_eq_trans)

lemma value_eq_refl: "value_ok t n v \<Longrightarrow> value_eq v v"
  by (cases v) (auto simp: value_ok_def f64_eq_refl)

end
