(* ===== verification/Loom_Text.thy ===== *)
theory Loom_Text
  imports Schema
begin

section \<open>Text: prefixes, splitting, quoting\<close>

text \<open>
  The string operations of the standard library that authentication, the HTTP surface, code generation and
  schema generation share: \<open>ok_or\<close>, \<open>strip_prefix\<close>, \<open>split\<close>, \<open>rsplit_once\<close>, pieces of output text,
  and the text of errors.
\<close>


definition ok_or :: "'a option \<Rightarrow> 'e \<Rightarrow> 'e + 'a" where
  "ok_or x e = (case x of None \<Rightarrow> Inl e | Some a \<Rightarrow> Inr a)"

lemma ok_or_Inr [simp]: "ok_or x e = Inr a \<longleftrightarrow> x = Some a"
  by (simp add: ok_or_def split: option.split)

lemma ok_or_Some [simp]: "ok_or (Some a) e = Inr a"
  by simp

definition strip_prefix :: "string \<Rightarrow> string \<Rightarrow> string option" where
  "strip_prefix p s = (if starts_with s p then Some (drop (length p) s) else None)"

lemma strip_prefix_Some [simp]: "strip_prefix p s = Some r \<longleftrightarrow> s = p @ r"
  by (auto simp: strip_prefix_def starts_with_iff)

text \<open>\<open>str::split(c)\<close>: the pieces between the occurrences of a character, at least one.\<close>

fun split_on :: "char \<Rightarrow> string \<Rightarrow> string list" where
  "split_on c [] = [[]]"
| "split_on c (x # xs) =
     (if x = c then [] # split_on c xs
      else case split_on c xs of [] \<Rightarrow> [[x]] | y # ys \<Rightarrow> (x # y) # ys)"

lemma split_on_not_Nil [simp]: "split_on c s \<noteq> []"
  by (cases s) (auto split: list.split)

lemma split_on_none [simp]: "c \<notin> set s \<Longrightarrow> split_on c s = [s]"
  by (induction s) auto

lemma split_on_append [simp]: "c \<notin> set s \<Longrightarrow> split_on c (s @ c # r) = s # split_on c r"
  by (induction s) auto

lemma split_on_parts: "p \<in> set (split_on c s) \<Longrightarrow> c \<notin> set p"
  by (induction s arbitrary: p) (auto split: if_splits list.splits)

lemma join_cons: "ps \<noteq> [] \<Longrightarrow> join sep (p # ps) = p @ sep @ join sep ps"
  by (cases ps) simp_all

lemma join_split_on: "join [c] (split_on c s) = s"
proof (induction s)
  case (Cons x xs)
  obtain y ys where "split_on c xs = y # ys" by (metis list.exhaust split_on_not_Nil)
  with Cons show ?case by (cases ys) (simp_all add: join_cons)
qed simp

lemma split_on_eq:
  assumes "split_on c s = ps"
  shows "s = join [c] ps \<and> (\<forall>p\<in>set ps. c \<notin> set p)"
  using assms join_split_on [of c s] split_on_parts [of _ c s] by auto

text \<open>\<open>str::rsplit_once(c)\<close>: split at the last occurrence.\<close>

definition rsplit_once :: "char \<Rightarrow> string \<Rightarrow> (string \<times> string) option" where
  "rsplit_once c s =
     (if c \<in> set s
      then Some (rev (tl (dropWhile (\<lambda>x. x \<noteq> c) (rev s))), rev (takeWhile (\<lambda>x. x \<noteq> c) (rev s)))
      else None)"

lemma rsplit_once_append [simp]: "c \<notin> set r \<Longrightarrow> rsplit_once c (s @ c # r) = Some (s, r)"
  by (simp add: rsplit_once_def dropWhile_append takeWhile_append)

text \<open>Pieces of output: a newline, and a word between double or single quotes.\<close>

definition nl :: string where "nl = [CHR 0x0A]"

definition quoted :: "string \<Rightarrow> string" where
  "quoted s = CHR 0x22 # s @ [CHR 0x22]"

definition squoted :: "string \<Rightarrow> string" where
  "squoted s = CHR 0x27 # s @ [CHR 0x27]"

text \<open>The text of an error (\<open>Display\<close> of \<open>SyncError\<close>).\<close>

definition error_to_string :: "sync_error \<Rightarrow> string" where
  "error_to_string e =
     (case e of
        Sqlite s \<Rightarrow> ''SQLite error: '' @ s
      | Postgres s \<Rightarrow> ''PostgreSQL error: '' @ s
      | Serialization s \<Rightarrow> ''serialization error: '' @ s
      | InvalidPayload s \<Rightarrow> ''invalid payload: '' @ s
      | SchemaMismatch expected actual \<Rightarrow>
          ''schema fingerprint mismatch: payload 0x'' @ show_hex16 actual @ '', local contract 0x'' @ show_hex16 expected
      | ClockOverflow \<Rightarrow> ''Lamport clock overflow''
      | SqliteLockPoisoned \<Rightarrow> ''SQLite mutex was poisoned by a panic''
      | BlockingTask s \<Rightarrow> ''blocking task failed: '' @ s
      | SyncPageBudgetExhausted \<Rightarrow> ''sync page budget exhausted before the client caught up'')"

end
