(* ===== verification/Lww_Store.thy ===== *)
theory Lww_Store
  imports Payload
begin

section \<open>Stores of last-writer-wins registers\<close>

text \<open>
  The contract between a store of cells and the decision that is taken for each incoming cell, and
  what follows from it for any sequence of deliveries: the surviving cell of every key is one of the
  newest candidates, so the order and the repetition of deliveries do not matter. The contract is
  interpreted on \<open>lww_apply\<close>; the reference server, the SQLite client and the PostgreSQL adapter
  use the lemmas through that interpretation.
\<close>

locale lww_store =
  fixes decide :: "'c option \<Rightarrow> 'c \<Rightarrow> 'e + bool"
    and version :: "'c \<Rightarrow> 'v::linorder"
    and same :: "'c \<Rightarrow> 'c \<Rightarrow> bool"
  assumes decide_absent: "decide None c = Inr True"
    and decide_newer: "version a < version b \<Longrightarrow> decide (Some a) b = Inr True"
    and decide_older: "version b < version a \<Longrightarrow> decide (Some a) b = Inr False"
    and decide_same: "version a = version b \<Longrightarrow> same a b \<Longrightarrow> decide (Some a) b = Inr False"
    and decide_conflict: "version a = version b \<Longrightarrow> \<not> same a b \<Longrightarrow> \<exists>e. decide (Some a) b = Inl e"
    and same_trans: "same a b \<Longrightarrow> same b c \<Longrightarrow> same a c"
begin

definition put :: "'k \<times> 'c \<Rightarrow> ('k \<rightharpoonup> 'c) \<Rightarrow> 'e + ('k \<rightharpoonup> 'c)" where
  "put op m = rbind (decide (m (fst op)) (snd op))
     (\<lambda>b. Inr (if b then m(fst op \<mapsto> snd op) else m))"

definition run :: "('k \<times> 'c) list \<Rightarrow> ('k \<rightharpoonup> 'c) \<Rightarrow> 'e + ('k \<rightharpoonup> 'c)" where
  "run = foldM put"

definition candidates :: "('k \<rightharpoonup> 'c) \<Rightarrow> ('k \<times> 'c) list \<Rightarrow> 'k \<Rightarrow> 'c set" where
  "candidates m ops k = {c. m k = Some c} \<union> {c. (k, c) \<in> set ops}"

definition newest :: "'c set \<Rightarrow> 'c \<Rightarrow> bool" where
  "newest C c \<longleftrightarrow> c \<in> C \<and> (\<forall>d\<in>C. version d \<le> version c \<and> (version d = version c \<longrightarrow> d = c \<or> same c d))"

lemma run_simps [simp]:
  "run [] m = Inr m"
  "run (op # ops) m = rbind (put op m) (run ops)"
  "run (ops @ ops') m = rbind (run ops m) (run ops')"
  by (simp_all add: run_def foldM_append)

lemma decide_cases:
  obtains "version a < version c" "decide (Some a) c = Inr True"
  | "version c < version a" "decide (Some a) c = Inr False"
  | "version c = version a" "same a c" "decide (Some a) c = Inr False"
  | e where "version c = version a" "\<not> same a c" "decide (Some a) c = Inl e"
  using decide_newer decide_older decide_same decide_conflict by (metis linorder_neqE)

lemma decide_True:
  "decide cur c = Inr True \<longleftrightarrow> (case cur of None \<Rightarrow> True | Some a \<Rightarrow> version a < version c)"
proof (cases cur)
  case (Some a)
  then show ?thesis by (cases rule: decide_cases [of a c]) auto
qed (simp add: decide_absent)

lemma decide_False:
  "decide cur c = Inr False \<longleftrightarrow>
     (case cur of None \<Rightarrow> False
      | Some a \<Rightarrow> version c < version a \<or> version c = version a \<and> same a c)"
proof (cases cur)
  case (Some a)
  then show ?thesis by (cases rule: decide_cases [of a c]) auto
qed (simp add: decide_absent)

lemma put_cases:
  assumes "put (k, c) m = Inr m'"
  obtains (replace) "m' = m(k \<mapsto> c)" "\<And>a. m k = Some a \<Longrightarrow> version a < version c"
  | (keep) a where "m' = m" "m k = Some a" "version c < version a \<or> version c = version a \<and> same a c"
proof -
  obtain b where b: "decide (m k) c = Inr b" "m' = (if b then m(k \<mapsto> c) else m)"
    using assms by (auto simp: put_def)
  show thesis
  proof (cases b)
    case True
    with b that(1) show thesis by (simp add: decide_True split: option.splits)
  next
    case False
    with b that(2) show thesis by (auto simp: decide_False split: option.splits)
  qed
qed

lemma newest_put:
  assumes "put op m = Inr m1" "newest (candidates m1 ops k) c"
  shows "newest (candidates m (op # ops) k) c"
proof (cases "k = fst op")
  case False
  then have "candidates m (op # ops) k = candidates m1 ops k"
    using assms(1) by (cases op) (auto elim!: put_cases simp: candidates_def)
  with assms(2) show ?thesis by simp
next
  case True
  then obtain d where op: "op = (k, d)" by (cases op) auto
  from assms(1) have "put (k, d) m = Inr m1" by (simp add: op)
  then show ?thesis
  proof (cases rule: put_cases)
    case replace
    then have "candidates m (op # ops) k \<subseteq> candidates m1 ops k \<union> {a. m k = Some a}"
      and "candidates m1 ops k \<subseteq> candidates m (op # ops) k" "d \<in> candidates m1 ops k"
      by (auto simp: candidates_def op)
    with replace assms(2) show ?thesis
      unfolding newest_def by (fastforce dest: order.strict_trans2)
  next
    case (keep a)
    then have sub: "candidates m (op # ops) k = insert d (candidates m1 ops k)"
      and a: "a \<in> candidates m1 ops k"
      by (auto simp: candidates_def op)
    have c: "version a \<le> version c" "version a = version c \<Longrightarrow> a = c \<or> same c a"
      using assms(2) a by (auto simp: newest_def)
    have "version d \<le> version c \<and> (version d = version c \<longrightarrow> same c d)"
    proof (cases "version d < version a")
      case True
      with c(1) show ?thesis by auto
    next
      case False
      with keep have "version d = version a" "same a d" by auto
      with c same_trans [of c a d] show ?thesis by auto
    qed
    with assms(2) show ?thesis
      unfolding sub by (auto simp: newest_def)
  qed
qed

lemma run_newest:
  "run ops m = Inr m' \<Longrightarrow>
     (case m' k of None \<Rightarrow> candidates m ops k = {} | Some c \<Rightarrow> newest (candidates m ops k) c)"
proof (induction ops arbitrary: m)
  case Nil
  then show ?case by (auto simp: candidates_def newest_def split: option.splits)
next
  case (Cons op ops)
  then obtain m1 where m1: "put op m = Inr m1" "run ops m1 = Inr m'" by auto
  show ?case
  proof (cases "m' k")
    case None
    with Cons.IH [OF m1(2)] have "candidates m1 ops k = {}" by simp
    with m1(1) None show ?thesis
      by (cases op) (auto elim!: put_cases simp: candidates_def split: if_splits)
  next
    case (Some c)
    with Cons.IH [OF m1(2)] newest_put [OF m1(1)] show ?thesis by simp
  qed
qed

text \<open>Two runs over the same deliveries, in any order and with any repetition, agree.\<close>

lemma run_converges:
  assumes "run ops m = Inr m1" "run ops' m = Inr m2" "set ops = set ops'"
  shows "rel_option (\<lambda>a b. version a = version b \<and> (a = b \<or> same a b)) (m1 k) (m2 k)"
proof -
  have "candidates m ops k = candidates m ops' k" using assms(3) by (simp add: candidates_def)
  with run_newest [OF assms(1), of k] run_newest [OF assms(2), of k] show ?thesis
    by (cases "m1 k"; cases "m2 k") (auto simp: newest_def dest: order.antisym)
qed

lemma run_monotone:
  assumes "run ops m = Inr m'" "m k = Some a"
  shows "\<exists>b. m' k = Some b \<and> version a \<le> version b"
  using run_newest [OF assms(1), of k] assms(2)
  by (cases "m' k") (auto simp: candidates_def newest_def)

lemma run_delivered:
  assumes "run ops m = Inr m'" "(k, c) \<in> set ops"
  shows "\<exists>b. m' k = Some b \<and> version c \<le> version b"
  using run_newest [OF assms(1), of k] assms(2)
  by (cases "m' k") (auto simp: candidates_def newest_def)

lemma run_origin:
  assumes "run ops m = Inr m'" "m' k = Some c"
  shows "m k = Some c \<or> (k, c) \<in> set ops"
  using run_newest [OF assms(1), of k] assms(2) by (auto simp: candidates_def newest_def)

lemma run_replay:
  assumes "run ops m = Inr m'" "set ops' \<subseteq> set ops" "\<forall>(k, c)\<in>set ops'. same c c"
  shows "run ops' m' = Inr m'"
  using assms(2,3)
proof (induction ops')
  case (Cons op ops')
  obtain k c where op: "op = (k, c)" by fastforce
  with Cons.prems have "(k, c) \<in> set ops" "same c c" by auto
  then obtain b where b: "m' k = Some b" "newest (candidates m ops k) b" "c \<in> candidates m ops k"
    using run_newest [OF assms(1), of k] run_delivered [OF assms(1)]
    by (fastforce simp: candidates_def)
  then have "decide (m' k) c = Inr False"
    using \<open>same c c\<close> by (auto simp: decide_False newest_def)
  then have "put op m' = Inr m'" by (simp add: put_def op)
  with Cons show ?case by simp
qed simp

lemma run_succeeds:
  assumes "\<And>k c d. c \<in> candidates m ops k \<Longrightarrow> d \<in> candidates m ops k \<Longrightarrow>
      version c = version d \<Longrightarrow> same c d"
  shows "\<exists>m'. run ops m = Inr m'"
  using assms
proof (induction ops arbitrary: m)
  case (Cons op ops)
  obtain k c where op: "op = (k, c)" by fastforce
  have "\<exists>b. decide (m k) c = Inr b"
  proof (cases "m k")
    case None
    then have "decide (m k) c = Inr True" by (simp add: decide_absent)
    then show ?thesis ..
  next
    case (Some a)
    then have "version a = version c \<Longrightarrow> same a c"
      by (intro Cons.prems [of a k c]) (auto simp: candidates_def op)
    with Some show ?thesis by (metis decide_newer decide_older decide_same linorder_neqE)
  qed
  then obtain m1 where m1: "put op m = Inr m1" by (auto simp: put_def op)
  have "candidates m1 ops j \<subseteq> candidates m (op # ops) j" for j
    using m1 unfolding op by (cases rule: put_cases) (auto simp: candidates_def op split: if_splits)
  then have "\<exists>m'. run ops m1 = Inr m'"
    by (intro Cons.IH) (use Cons.prems in blast)
  with m1 show ?case by simp
qed simp

text \<open>A store covers a cell when it holds a version at least as new, and the same value for the same
  version; runs preserve what is covered, and deliveries are covered.\<close>

definition covered :: "'c option \<Rightarrow> 'c \<Rightarrow> bool" where
  "covered cur x \<longleftrightarrow>
     (\<exists>b. cur = Some b \<and> version x \<le> version b \<and> (version x = version b \<longrightarrow> x = b \<or> same b x))"

lemma covered_refl [simp]: "covered (Some x) x"
  by (simp add: covered_def)

lemma covered_newer: "covered (Some a) x \<Longrightarrow> version a < version b \<Longrightarrow> covered (Some b) x"
  by (auto simp: covered_def)

lemma covered_trans:
  assumes "covered cur b" "covered (Some b) x"
  shows "covered cur x"
proof -
  obtain c where c: "cur = Some c" "version b \<le> version c" "version b = version c \<longrightarrow> b = c \<or> same c b"
    using assms(1) by (auto simp: covered_def)
  have x: "version x \<le> version b" "version x = version b \<longrightarrow> x = b \<or> same b x"
    using assms(2) by (simp_all add: covered_def)
  have "x = c \<or> same c x" if "version x = version c"
  proof -
    have "version x = version b" "version b = version c" using that x(1) c(2) by simp_all
    then show ?thesis using x(2) c(3) same_trans [of c b x] by auto
  qed
  with c(1,2) x(1) show ?thesis by (auto simp: covered_def)
qed

lemma newest_covered: "newest C c \<Longrightarrow> d \<in> C \<Longrightarrow> covered (Some c) d"
  by (auto simp: newest_def covered_def)

lemma run_covers_delivered:
  assumes "run ops m = Inr m'" "(k, c) \<in> set ops"
  shows "covered (m' k) c"
  using run_newest [OF assms(1), of k] assms(2) newest_covered
  by (cases "m' k") (auto simp: candidates_def)

lemma run_covers:
  assumes "run ops m = Inr m'" "covered (m k) x"
  shows "covered (m' k) x"
proof -
  obtain b where b: "m k = Some b" using assms(2) by (auto simp: covered_def)
  then have "covered (m' k) b"
    using run_newest [OF assms(1), of k] newest_covered by (cases "m' k") (auto simp: candidates_def)
  with assms(2) b show ?thesis by (auto intro: covered_trans)
qed

lemma covered_antisym:
  assumes "covered (Some a) b" "covered (Some b) a"
  shows "version a = version b \<and> (a = b \<or> same a b)"
  using assms by (auto simp: covered_def)

end

subsection \<open>The decision of the protocol meets the contract\<close>

abbreviation same_value :: "crdt_column \<Rightarrow> crdt_column \<Rightarrow> bool" where
  "same_value a b \<equiv> value_eq (cvalue a) (cvalue b)"

interpretation lww: lww_store lww_apply cmeta same_value
proof
  fix a b c :: crdt_column
  show "lww_apply None c = Inr True" by (simp add: lww_apply_def)
  show "cmeta a < cmeta b \<Longrightarrow> lww_apply (Some a) b = Inr True"
    by (simp add: lww_apply_def decide_lww_def)
  show "cmeta b < cmeta a \<Longrightarrow> lww_apply (Some a) b = Inr False"
    by (auto simp: lww_apply_def decide_lww_def)
  show "cmeta a = cmeta b \<Longrightarrow> same_value a b \<Longrightarrow> lww_apply (Some a) b = Inr False"
    by (simp add: lww_apply_def decide_lww_def)
  show "cmeta a = cmeta b \<Longrightarrow> \<not> same_value a b \<Longrightarrow> \<exists>e. lww_apply (Some a) b = Inl e"
    by (simp add: lww_apply_def decide_lww_def)
  show "same_value a b \<Longrightarrow> same_value b c \<Longrightarrow> same_value a c"
    by (rule value_eq_trans)
qed

end
