(* ===== verification/Policy.thy ===== *)
theory Policy
  imports Lww_Store
begin

section \<open>Authorization, validation and audit hooks (policy.rs)\<close>

text \<open>
  The traits \<open>SyncAuthorizer\<close> and \<open>SyncValidator\<close> are functions from the context, the mutation and
  the current cell to a decision; application hooks are arbitrary such functions. The theory models
  the hooks of the crate, the \<open>SyncSecurity\<close> bundle and the construction of audit events, and shows
  when each hook allows, denies or fails.
\<close>

record sync_context =
  tenant_id :: string
  authenticated_device_id :: string
  context_table :: table_def

record cell_mutation =
  mut_todo_id :: string
  mut_column_name :: string
  mut_value :: crdt_value
  mut_metadata :: column_metadata

datatype policy_decision = Allow | Deny sync_rejection_kind string

definition policy_allow :: policy_decision where
  "policy_allow = Allow"

definition policy_deny :: "sync_rejection_kind \<Rightarrow> string \<Rightarrow> sync_error + policy_decision" where
  "policy_deny kind reason =
     rbind (validate_rejection_reason reason) (\<lambda>_. Inr (Deny kind reason))"

type_synonym policy_hook =
  "sync_context \<Rightarrow> cell_mutation \<Rightarrow> crdt_column option \<Rightarrow> sync_error + policy_decision"

definition allow_all_authorizer :: policy_hook where
  "allow_all_authorizer ctx mutation current = Inr Allow"

definition noop_validator :: policy_hook where
  "noop_validator ctx mutation current = Inr Allow"

record column_allow_list =
  writable_columns :: "string set"

definition collect_columns :: "table_def \<Rightarrow> string list \<Rightarrow> sync_error + string set" where
  "collect_columns t cs =
     foldM (\<lambda>c acc. rbind (validate_column_name t c) (\<lambda>_. Inr (insert c acc))) cs {}"

definition column_allow_list_new :: "table_def \<Rightarrow> string list \<Rightarrow> sync_error + column_allow_list" where
  "column_allow_list_new t cs = rbind (collect_columns t cs) (\<lambda>s. Inr \<lparr>writable_columns = s\<rparr>)"

definition column_allow_list_authorizer :: "column_allow_list \<Rightarrow> policy_hook" where
  "column_allow_list_authorizer self ctx mutation current =
     (if mut_column_name mutation \<in> writable_columns self then Inr Allow
      else policy_deny AuthorizationDenied
        (''writes to column '' @ mut_column_name mutation @ '' are not authorized''))"

record max_text_length =
  max_bytes :: nat
  text_columns :: "string set option"

definition all_text_columns :: "nat \<Rightarrow> max_text_length" where
  "all_text_columns n = \<lparr>max_bytes = n, text_columns = None\<rparr>"

definition max_text_length_columns :: "table_def \<Rightarrow> nat \<Rightarrow> string list \<Rightarrow> sync_error + max_text_length" where
  "max_text_length_columns t n cs =
     rbind (collect_columns t cs) (\<lambda>s. Inr \<lparr>max_bytes = n, text_columns = Some s\<rparr>)"

definition applies_to :: "max_text_length \<Rightarrow> string \<Rightarrow> bool" where
  "applies_to self column = (case text_columns self of None \<Rightarrow> True | Some cs \<Rightarrow> column \<in> cs)"

definition max_text_length_validator :: "max_text_length \<Rightarrow> policy_hook" where
  "max_text_length_validator self ctx mutation current =
     (case mut_value mutation of
        VText s \<Rightarrow>
          if \<not> applies_to self (mut_column_name mutation) \<or> length s \<le> max_bytes self
          then Inr Allow
          else policy_deny ValidationFailed
            (''text value for column '' @ mut_column_name mutation @ '' exceeds '' @
             show_nat (max_bytes self) @ '' bytes'')
      | _ \<Rightarrow> Inr Allow)"

fun composite_validator :: "policy_hook list \<Rightarrow> policy_hook" where
  "composite_validator [] ctx mutation current = Inr Allow"
| "composite_validator (v # vs) ctx mutation current =
     rbind (v ctx mutation current) (\<lambda>decision.
       case decision of
         Deny _ _ \<Rightarrow> Inr decision
       | Allow \<Rightarrow> composite_validator vs ctx mutation current)"

datatype audit_mode = Disabled | Database

record sync_security =
  authorizer :: policy_hook
  validator :: policy_hook
  audit_mode :: audit_mode

definition sync_security_default :: sync_security where
  "sync_security_default =
     \<lparr>authorizer = allow_all_authorizer, validator = noop_validator, audit_mode = Database\<rparr>"

definition sync_security_new :: "policy_hook \<Rightarrow> policy_hook \<Rightarrow> audit_mode \<Rightarrow> sync_security" where
  "sync_security_new a v m = \<lparr>authorizer = a, validator = v, audit_mode = m\<rparr>"

definition without_audit :: "policy_hook \<Rightarrow> policy_hook \<Rightarrow> sync_security" where
  "without_audit a v = \<lparr>authorizer = a, validator = v, audit_mode = Disabled\<rparr>"

datatype sync_audit_outcome =
  Accepted | KeptCurrent | Idempotent | RejectedAuthorization | RejectedValidation

fun audit_outcome_str :: "sync_audit_outcome \<Rightarrow> string" where
  "audit_outcome_str Accepted = ''accepted''"
| "audit_outcome_str KeptCurrent = ''kept_current''"
| "audit_outcome_str Idempotent = ''idempotent''"
| "audit_outcome_str RejectedAuthorization = ''rejected_authorization''"
| "audit_outcome_str RejectedValidation = ''rejected_validation''"

record sync_audit_event =
  ev_table_name :: string
  ev_todo_id :: string
  ev_column_name :: string
  ev_outcome :: sync_audit_outcome
  ev_reason :: string
  ev_incoming_value :: crdt_value
  ev_incoming_metadata :: column_metadata
  ev_current_value :: "crdt_value option"
  ev_current_metadata :: "column_metadata option"

definition sync_audit_event_new ::
  "sync_context \<Rightarrow> cell_mutation \<Rightarrow> crdt_column option \<Rightarrow> sync_audit_outcome \<Rightarrow> string \<Rightarrow>
   sync_error + sync_audit_event" where
  "sync_audit_event_new ctx mutation current out reason =
     rbind (validate_identifier ''audit.table_name'' (tname (context_table ctx))) (\<lambda>_.
     rbind (validate_identifier ''audit.todo_id'' (mut_todo_id mutation)) (\<lambda>_.
     rbind (validate_identifier ''audit.column_name'' (mut_column_name mutation)) (\<lambda>_.
     rbind (validate_identifier ''audit.incoming_device_id'' (device_id (mut_metadata mutation))) (\<lambda>_.
     rbind (validate_rejection_reason reason) (\<lambda>_.
       Inr \<lparr>ev_table_name = tname (context_table ctx), ev_todo_id = mut_todo_id mutation,
            ev_column_name = mut_column_name mutation, ev_outcome = out, ev_reason = reason,
            ev_incoming_value = mut_value mutation, ev_incoming_metadata = mut_metadata mutation,
            ev_current_value = map_option cvalue current,
            ev_current_metadata = map_option cmeta current\<rparr>)))))"

section \<open>Properties of the hooks\<close>

lemma policy_deny_ok: "reason_ok r \<Longrightarrow> policy_deny k r = Inr (Deny k r)"
  using validate_rejection_reason_ok(2) [of r "()"] by (simp add: policy_deny_def)

text \<open>Names of a valid contract are printable ASCII, so messages built from them pass the checks on
  identifiers and reasons.\<close>

definition printable :: "string \<Rightarrow> bool" where
  "printable s \<longleftrightarrow> (\<forall>c\<in>set s. 32 \<le> byte c \<and> byte c < 127)"

lemma printable_simps [simp]:
  "printable []"
  "printable (c # s) \<longleftrightarrow> 32 \<le> byte c \<and> byte c < 127 \<and> printable s"
  by (auto simp: printable_def)

lemma printable_append [simp]: "printable (a @ b) \<longleftrightarrow> printable a \<and> printable b"
  by (auto simp: printable_def)

lemma printable_no_control: "printable s \<Longrightarrow> \<not> has_control s"
  by (simp add: printable_def has_control_ascii)

lemma is_digit_printable: "is_digit c \<Longrightarrow> 32 \<le> (of_char c :: nat) \<and> (of_char c :: nat) < 127"
  by (auto simp: is_digit_def)

lemma ident_char_printable: "ident_char c \<Longrightarrow> 32 \<le> byte c \<and> byte c < 127"
  by (auto simp: ident_char_def is_ascii_lowercase_def is_digit_def byte_def)

lemma printable_show_nat [simp]: "printable (show_nat n)"
  unfolding printable_def byte_def by (blast dest: show_nat_digits is_digit_printable)

lemma printable_identifier: "sql_identifier s \<Longrightarrow> printable s"
  unfolding sql_identifier_def printable_def list_all_iff by (blast dest: ident_char_printable)

lemma sql_identifier_ok: "sql_identifier s \<Longrightarrow> identifier_ok s"
  by (auto simp: identifier_ok_def printable_no_control printable_identifier)
    (auto simp: sql_identifier_def limits)

lemma length_show_nat: "n < 10 ^ Suc k \<Longrightarrow> length (show_nat n) \<le> Suc k"
proof (induction k arbitrary: n)
  case 0
  then show ?case by (subst show_nat.simps) simp
next
  case (Suc k)
  then have "n div 10 < 10 ^ Suc k" by (simp add: less_mult_imp_div_less)
  with Suc.IH show ?case by (subst show_nat.simps) fastforce
qed

lemma printable_reason:
  "printable s \<Longrightarrow> s \<noteq> [] \<Longrightarrow> length s \<le> 2048 \<Longrightarrow> reason_ok s"
  by (simp add: reason_ok_def printable_no_control limits)

lemma column_of_table:
  assumes "valid_table t" "table_column_type t n \<noteq> None"
  shows "sql_identifier n"
proof -
  obtain k where "\<lparr>cname = n, cty = k\<rparr> \<in> set (synchronized_columns t)"
    using assms table_column_type_iff [OF assms(1), of n] by auto
  then show ?thesis using synchronized_identifiers [OF assms(1)] by fastforce
qed

lemma length_identifier: "sql_identifier n \<Longrightarrow> length n \<le> 63"
  by (simp add: sql_identifier_def limits)

text \<open>The allow-list authorizer never fails on a column of the contract: it allows the
  listed columns and denies every other one with an authorization rejection that names the column.\<close>

theorem column_allow_list_decision:
  assumes "valid_table t" "table_column_type t (mut_column_name mu) \<noteq> None"
    and "column_allow_list_new t cs = Inr self"
  shows "column_allow_list_authorizer self ctx mu cur =
    Inr (if mut_column_name mu \<in> set cs then Allow
         else Deny AuthorizationDenied
           (''writes to column '' @ mut_column_name mu @ '' are not authorized''))"
proof -
  have collect: "foldM (\<lambda>c acc. rbind (validate_column_name t c) (\<lambda>_. Inr (insert c acc))) cs acc = Inr s
      \<Longrightarrow> s = set cs \<union> acc" for acc s
    by (induction cs arbitrary: acc) auto
  have self: "writable_columns self = set cs"
    using assms(3) collect [of "{}"] by (auto simp: column_allow_list_new_def collect_columns_def)
  have id: "sql_identifier (mut_column_name mu)"
    by (rule column_of_table [OF assms(1,2)])
  have "reason_ok (''writes to column '' @ mut_column_name mu @ '' are not authorized'')"
    using printable_identifier [OF id] length_identifier [OF id]
    by (intro printable_reason) (simp_all add: byte_def)
  then show ?thesis
    by (simp add: column_allow_list_authorizer_def self policy_deny_ok)
qed

text \<open>The text-length validator never fails on a column of the contract, and denies
  exactly the over-long texts of the columns it applies to.\<close>

theorem max_text_length_decision:
  assumes "valid_table t" "table_column_type t (mut_column_name mu) \<noteq> None" "max_bytes self < 2 ^ 64"
  shows "\<exists>d. max_text_length_validator self ctx mu cur = Inr d \<and>
    ((\<exists>reason. d = Deny ValidationFailed reason) \<longleftrightarrow>
     (\<exists>s. mut_value mu = VText s \<and> applies_to self (mut_column_name mu) \<and> length s > max_bytes self)) \<and>
    (d \<noteq> Allow \<longrightarrow> (\<exists>reason. d = Deny ValidationFailed reason))"
proof -
  have id: "sql_identifier (mut_column_name mu)"
    by (rule column_of_table [OF assms(1,2)])
  have "length (show_nat (max_bytes self)) \<le> Suc 19"
    by (rule length_show_nat) (use assms(3) in simp)
  then have "reason_ok (''text value for column '' @ mut_column_name mu @ '' exceeds '' @
      show_nat (max_bytes self) @ '' bytes'')"
    using printable_identifier [OF id] length_identifier [OF id]
    by (intro printable_reason) (simp_all add: byte_def)
  then show ?thesis
    by (auto simp: max_text_length_validator_def policy_deny_ok split: crdt_value.splits)
qed

text \<open>A composite validator returns the first answer that is not an allowance, an
  error included, and allows exactly when every validator does.\<close>

theorem composite_validator_first:
  "composite_validator vs ctx mu cur =
     (case find (\<lambda>r. r \<noteq> Inr Allow) (map (\<lambda>v. v ctx mu cur) vs) of
        None \<Rightarrow> Inr Allow | Some r \<Rightarrow> r)"
proof (induction vs)
  case (Cons v vs)
  then show ?case
    by (cases "v ctx mu cur") (auto split: policy_decision.splits)
qed simp

definition sample_mutation :: cell_mutation where
  "sample_mutation =
     \<lparr>mut_todo_id = ''r1'', mut_column_name = ''title'', mut_value = VText ''four'',
      mut_metadata = ColumnMetadata 1 ''a''\<rparr>"

definition sample_context :: sync_context where
  "sample_context = \<lparr>tenant_id = ''t'', authenticated_device_id = ''a'', context_table = todos_table\<rparr>"

theorem column_allow_list_decision_witness:
  "column_allow_list_new todos_table [''completed''] = Inr \<lparr>writable_columns = {''completed''}\<rparr> \<and>
   column_allow_list_authorizer \<lparr>writable_columns = {''completed''}\<rparr> sample_context sample_mutation None =
     Inr (Deny AuthorizationDenied ''writes to column title are not authorized'')"
proof -
  have cols: "table_column_type todos_table ''title'' \<noteq> None" "table_column_type todos_table ''completed'' \<noteq> None"
    by code_simp+
  then have new: "column_allow_list_new todos_table [''completed''] = Inr \<lparr>writable_columns = {''completed''}\<rparr>"
    by (simp add: column_allow_list_new_def collect_columns_def validate_column_name_def)
  with column_allow_list_decision [OF valid_todos_table _ new, of sample_mutation sample_context None] cols
  show ?thesis by (simp add: sample_mutation_def)
qed

theorem max_text_length_decision_witness:
  "\<exists>why. max_text_length_validator (all_text_columns 3) sample_context sample_mutation None =
     Inr (Deny ValidationFailed why)"
proof -
  have cols: "table_column_type todos_table (mut_column_name sample_mutation) \<noteq> None"
    by code_simp
  show ?thesis
    using max_text_length_decision [OF valid_todos_table cols, of "all_text_columns 3" sample_context None]
    by (auto simp: all_text_columns_def applies_to_def sample_mutation_def)
qed

end
