(* ===== verification/Explain.thy ===== *)
theory Explain
  imports Policy
begin

section \<open>Explanations of merge decisions (explain.rs)\<close>

text \<open>
  \<open>explain_lww\<close> names the winner and the reason of a merge decision. It is shown to agree with the
  decision \<open>lww_apply\<close> that the merges take.
\<close>

datatype conflict_winner = Incoming | Current | EqualWinner | InvalidConflict

datatype conflict_reason =
    MissingCurrentValue
  | HigherLamportClock
  | LowerLamportClock
  | DeviceIdTieBreak
  | SameVersionSameValue
  | SameVersionDifferentValue

record conflict_explanation =
  winner :: conflict_winner
  reason :: conflict_reason
  current_meta :: "column_metadata option"
  incoming_meta :: column_metadata
  summary :: string

definition explain_lww :: "crdt_column option \<Rightarrow> crdt_column \<Rightarrow> conflict_explanation" where
  "explain_lww current incoming =
     (case current of
        None \<Rightarrow> \<lparr>winner = Incoming, reason = MissingCurrentValue, current_meta = None,
                incoming_meta = cmeta incoming,
                summary = ''incoming value wins because the cell does not exist''\<rparr>
      | Some cur \<Rightarrow>
          let im = cmeta incoming; cm = cmeta cur;
              (w, r, s) =
                (case decide_lww cm im of
                   AcceptIncoming \<Rightarrow>
                     if lamport_clock im > lamport_clock cm
                     then (Incoming, HigherLamportClock,
                       ''incoming clock '' @ show_nat (unat (lamport_clock im)) @
                       '' is greater than current clock '' @ show_nat (unat (lamport_clock cm)))
                     else (Incoming, DeviceIdTieBreak,
                       ''clocks are equal and incoming device ID '' @ debug_str (device_id im) @
                       '' sorts after current device ID '' @ debug_str (device_id cm))
                 | KeepCurrent \<Rightarrow>
                     if lamport_clock im < lamport_clock cm
                     then (Current, LowerLamportClock,
                       ''incoming clock '' @ show_nat (unat (lamport_clock im)) @
                       '' is lower than current clock '' @ show_nat (unat (lamport_clock cm)))
                     else (Current, DeviceIdTieBreak,
                       ''clocks are equal and incoming device ID '' @ debug_str (device_id im) @
                       '' sorts before current device ID '' @ debug_str (device_id cm))
                 | Equal \<Rightarrow>
                     if value_eq (cvalue cur) (cvalue incoming)
                     then (EqualWinner, SameVersionSameValue,
                       ''incoming value is an idempotent replay of the current version'')
                     else (InvalidConflict, SameVersionDifferentValue,
                       ''the same CRDT version identifies two different values''))
          in \<lparr>winner = w, reason = r, current_meta = Some cm, incoming_meta = im, summary = s\<rparr>)"

text \<open>Property C37: the explanation agrees with the merge: the incoming cell wins exactly when it is
  applied, the current cell wins or is equal exactly when it is kept, and an invalid conflict is
  reported exactly when the merge fails; the reason is the component of the version that decided.\<close>

theorem explain_lww_agrees:
  "(winner (explain_lww cur inc) = Incoming \<longleftrightarrow> lww_apply cur inc = Inr True) \<and>
   (winner (explain_lww cur inc) \<in> {Current, EqualWinner} \<longleftrightarrow> lww_apply cur inc = Inr False) \<and>
   (winner (explain_lww cur inc) = InvalidConflict \<longleftrightarrow> lww_apply cur inc = Inl same_version_error) \<and>
   (reason (explain_lww cur inc) = DeviceIdTieBreak \<longleftrightarrow>
      (\<exists>c. cur = Some c \<and> lamport_clock (cmeta c) = lamport_clock (cmeta inc) \<and>
           device_id (cmeta c) \<noteq> device_id (cmeta inc)))"
proof (cases cur)
  case None
  then show ?thesis by (simp add: explain_lww_def lww_apply_def)
next
  case (Some c)
  have tie: "decide_lww (cmeta c) (cmeta inc) = Equal \<Longrightarrow> cmeta inc = cmeta c"
    "decide_lww (cmeta c) (cmeta inc) = AcceptIncoming \<Longrightarrow> cmeta c < cmeta inc"
    "decide_lww (cmeta c) (cmeta inc) = KeepCurrent \<Longrightarrow> cmeta inc < cmeta c"
    by (simp_all add: decide_lww_iff)
  show ?thesis
    using tie unfolding Some explain_lww_def lww_apply_def
    by (cases "decide_lww (cmeta c) (cmeta inc)")
      (auto simp: Let_def less_column_metadata_def)
qed

end
