(* ===== verification/Replica.thy ===== *)
theory Replica
  imports Explain
begin

section \<open>Partial replicas: interests, requests and responses (replica.rs)\<close>

text \<open>
  Interests select rows by identifier, identifier prefix or column value. The theory models their
  validation, the parameterized PostgreSQL plan, row matching, and the validation of requests and
  responses. Membership tests use the binary search of the standard library, which is modelled and
  shown to decide membership in the sorted lists it is called on.
\<close>

definition MAX_KNOWN_MEMBERS :: nat where [limits]: "MAX_KNOWN_MEMBERS = 100000"

datatype replica_predicate =
    IdEquals string
  | IdPrefix string
  | ColumnEquals string crdt_value

record replica_interest =
  predicates :: "replica_predicate list"
  interest_limit :: u32

record partial_replica_request =
  rq_scope_id :: string
  rq_scope_version :: u64
  rq_interest :: replica_interest
  rq_known_member_ids :: "string list"
  rq_sync :: sync_payload

record partial_replica_response =
  rs_scope_id :: string
  rs_scope_version :: u64
  rs_member_ids :: "string list"
  rs_evicted_row_ids :: "string list"
  rs_sync :: sync_payload

record query_plan =
  plan_sql :: string
  plan_parameters :: "crdt_value list"

definition validate_predicate :: "table_def \<Rightarrow> replica_predicate \<Rightarrow> sync_error + unit" where
  "validate_predicate t pr =
     (case pr of
        ColumnEquals column v \<Rightarrow> validate_column t column v
      | IdEquals v \<Rightarrow>
          if v = [] \<or> length v > 255
          then Inl (InvalidPayload ''replica ID predicate must contain 1 to 255 bytes'') else Inr ()
      | IdPrefix v \<Rightarrow>
          if v = [] \<or> length v > 255
          then Inl (InvalidPayload ''replica ID predicate must contain 1 to 255 bytes'') else Inr ())"

definition interest_validate :: "replica_interest \<Rightarrow> table_def \<Rightarrow> sync_error + unit" where
  "interest_validate i t =
     (if interest_limit i = 0 \<or> unat (interest_limit i) > MAX_PAYLOAD_ROWS
      then Inl (InvalidPayload (''replica interest limit must be between 1 and '' @
        show_nat MAX_PAYLOAD_ROWS))
      else if length (predicates i) > 32
      then Inl (InvalidPayload ''replica interest exceeds 32 predicates'')
      else forM_check (validate_predicate t) (predicates i))"

definition plan_clause :: "replica_predicate \<Rightarrow> string list \<times> crdt_value list \<Rightarrow> string list \<times> crdt_value list" where
  "plan_clause pr acc =
     (case acc of (clauses, parameters) \<Rightarrow>
       let index = show_nat (length parameters + 1) in
       (case pr of
          IdEquals v \<Rightarrow> (clauses @ [''id = $'' @ index], parameters @ [VText v])
        | IdPrefix v \<Rightarrow> (clauses @ [''starts_with(id, $'' @ index @ '')''], parameters @ [VText v])
        | ColumnEquals column v \<Rightarrow> (clauses @ [column @ '' = $'' @ index], parameters @ [v])))"

definition postgres_plan :: "replica_interest \<Rightarrow> table_def \<Rightarrow> string \<Rightarrow> sync_error + query_plan" where
  "postgres_plan i t tenant =
     rbind (interest_validate i t) (\<lambda>_.
       case foldl (\<lambda>acc pr. plan_clause pr acc)
              ([''tenant_id = $1'', ''deleted = FALSE''], [VText tenant]) (predicates i) of
         (clauses, parameters) \<Rightarrow>
           Inr \<lparr>plan_sql = ''SELECT * FROM '' @ tname t @ '' WHERE '' @ join '' AND '' clauses @
                  '' ORDER BY id LIMIT '' @ show_nat (unat (interest_limit i)),
                plan_parameters = parameters\<rparr>)"

definition predicate_matches :: "string \<Rightarrow> (string, crdt_value) btree_map \<Rightarrow> replica_predicate \<Rightarrow> bool" where
  "predicate_matches row_id vals pr =
     (case pr of
        IdEquals e \<Rightarrow> row_id = e
      | IdPrefix prefix \<Rightarrow> starts_with row_id prefix
      | ColumnEquals column v \<Rightarrow>
          (case bt_get vals column of None \<Rightarrow> False | Some w \<Rightarrow> value_eq w v))"

definition interest_matches :: "replica_interest \<Rightarrow> string \<Rightarrow> (string, crdt_value) btree_map \<Rightarrow> bool" where
  "interest_matches i row_id vals \<longleftrightarrow> list_all (predicate_matches row_id vals) (predicates i)"

fun check_member_ids :: "string option \<Rightarrow> string list \<Rightarrow> sync_error + unit" where
  "check_member_ids previous [] = Inr ()"
| "check_member_ids previous (i # ids) =
     rbind (validate_identifier ''partial replica member ID'' i) (\<lambda>_.
       if (case previous of None \<Rightarrow> False | Some v \<Rightarrow> v \<ge> i)
       then Inl (InvalidPayload ''partial replica member IDs must be unique and sorted'')
       else check_member_ids (Some i) ids)"

definition validate_member_ids :: "string list \<Rightarrow> sync_error + unit" where
  "validate_member_ids ids =
     (if length ids > MAX_KNOWN_MEMBERS
      then Inl (InvalidPayload (''partial replica exceeds the '' @ show_nat MAX_KNOWN_MEMBERS @
        '' member limit''))
      else check_member_ids None ids)"

definition validate_scope_version :: "u64 \<Rightarrow> sync_error + unit" where
  "validate_scope_version v =
     (if v = 0 \<or> i64_try_from v = None
      then Inl (InvalidPayload ''partial replica scope_version must be between 1 and i64::MAX'')
      else Inr ())"

text \<open>\<open>slice::binary_search(x).is_ok()\<close>.\<close>

function bsearch :: "'a::linorder list \<Rightarrow> 'a \<Rightarrow> nat \<Rightarrow> nat \<Rightarrow> bool" where
  "bsearch xs x lo hi =
     (if lo < hi then
        let mid = (lo + hi) div 2 in
        if xs ! mid = x then True
        else if xs ! mid < x then bsearch xs x (Suc mid) hi
        else bsearch xs x lo mid
      else False)"
  by pat_completeness auto
termination
  by (relation "measure (\<lambda>(xs, x, lo, hi). hi - lo)") auto

declare bsearch.simps [simp del]

definition binary_search :: "'a::linorder list \<Rightarrow> 'a \<Rightarrow> bool" where
  "binary_search xs x = bsearch xs x 0 (length xs)"

definition request_validate :: "partial_replica_request \<Rightarrow> table_def \<Rightarrow> string \<Rightarrow> sync_error + unit" where
  "request_validate rq t device =
     rbind (validate_identifier ''scope_id'' (rq_scope_id rq)) (\<lambda>_.
     rbind (validate_scope_version (rq_scope_version rq)) (\<lambda>_.
     rbind (interest_validate (rq_interest rq) t) (\<lambda>_.
     rbind (validate_client_request (rq_sync rq) device t) (\<lambda>_.
       validate_member_ids (rq_known_member_ids rq)))))"

definition response_validate :: "partial_replica_response \<Rightarrow> table_def \<Rightarrow> sync_error + unit" where
  "response_validate rs t =
     rbind (validate_identifier ''scope_id'' (rs_scope_id rs)) (\<lambda>_.
     rbind (validate_scope_version (rs_scope_version rs)) (\<lambda>_.
     rbind (validate_server_response (rs_sync rs) t) (\<lambda>_.
     rbind (validate_member_ids (rs_member_ids rs)) (\<lambda>_.
     rbind (validate_member_ids (rs_evicted_row_ids rs)) (\<lambda>_.
       if list_ex (binary_search (rs_evicted_row_ids rs)) (rs_member_ids rs)
       then Inl (InvalidPayload ''a row cannot be both a scope member and evicted'')
       else if map todo_id (changes (rs_sync rs)) \<noteq> rs_member_ids rs
       then Inl (InvalidPayload ''partial replica snapshot rows must exactly match member_ids'')
       else Inr ())))))"

section \<open>Properties of partial-replica validation\<close>

lemma bsearch_sorted:
  assumes "sorted_wrt (<) xs" "hi \<le> length xs"
  shows "bsearch xs x lo hi \<longleftrightarrow> (\<exists>i. lo \<le> i \<and> i < hi \<and> xs ! i = x)"
  using assms
proof (induction xs x lo hi rule: bsearch.induct)
  case (1 xs x lo hi)
  show ?case
  proof (cases "lo < hi")
    case False
    then show ?thesis by (simp add: bsearch.simps [of xs x lo hi])
  next
    case True
    let ?mid = "(lo + hi) div 2"
    have mid: "lo \<le> ?mid" "?mid < hi" using True by auto
    have mono: "i < j \<Longrightarrow> j < length xs \<Longrightarrow> xs ! i < xs ! j" for i j
      using 1(3) by (simp add: sorted_wrt_iff_nth_less)
    consider (eq) "xs ! ?mid = x" | (lt) "xs ! ?mid < x" | (gt) "x < xs ! ?mid" by fastforce
    then show ?thesis
    proof cases
      case eq
      then show ?thesis using mid True by (auto simp: bsearch.simps [of xs x lo hi])
    next
      case lt
      have "xs ! i = x \<Longrightarrow> i < hi \<Longrightarrow> ?mid < i" for i
        using lt mono [of i ?mid] mid 1(4) by (metis linorder_neqE_nat not_less_iff_gr_or_eq
            order.strict_trans2)
      moreover have "bsearch xs x lo hi = bsearch xs x (Suc ?mid) hi"
        using lt True by (auto simp: bsearch.simps [of xs x lo hi] Let_def)
      ultimately show ?thesis
        using 1(1) [OF True refl] lt 1(3,4) mid
        by (metis Suc_le_eq Suc_leD order.trans order_less_irrefl)
    next
      case gt
      have "xs ! i = x \<Longrightarrow> i < hi \<Longrightarrow> i < ?mid" for i
        using gt mono [of ?mid i] mid 1(4) by (metis linorder_neqE_nat not_less_iff_gr_or_eq
            order.strict_trans2)
      moreover have "bsearch xs x lo hi = bsearch xs x lo ?mid"
        using gt True by (auto simp: bsearch.simps [of xs x lo hi] Let_def)
      ultimately show ?thesis
        using 1(2) [OF True refl] gt 1(3,4) mid by fastforce
    qed
  qed
qed

lemma binary_search_sorted [simp]:
  "sorted_wrt (<) xs \<Longrightarrow> binary_search xs x \<longleftrightarrow> x \<in> set xs"
  by (auto simp: binary_search_def bsearch_sorted in_set_conv_nth)

lemma check_member_ids_ok:
  "is_ok (check_member_ids prev ids) \<longleftrightarrow>
     (\<forall>i\<in>set ids. identifier_ok i) \<and> sorted_wrt (<) (case prev of None \<Rightarrow> ids | Some v \<Rightarrow> v # ids)"
proof (induction prev ids rule: check_member_ids.induct)
  case (2 prev i ids)
  then show ?case
    by (cases prev) (auto simp: is_ok_rbind_const not_le dest: order.strict_trans
        simp del: is_ok_rbind)
qed (auto split: option.splits)

definition member_ids_ok :: "string list \<Rightarrow> bool" where
  "member_ids_ok ids \<longleftrightarrow> length ids \<le> 100000 \<and> (\<forall>i\<in>set ids. identifier_ok i) \<and> sorted_wrt (<) ids"

lemma validate_member_ids_ok [simp]:
  "is_ok (validate_member_ids ids) \<longleftrightarrow> member_ids_ok ids"
  by (auto simp: validate_member_ids_def member_ids_ok_def check_member_ids_ok limits)

lemma validate_member_ids_Inr [simp]: "validate_member_ids ids = Inr u \<longleftrightarrow> member_ids_ok ids"
  using unit_result_ok [of "validate_member_ids ids"] by (cases u) simp

lemma i64_try_from_unat: "i64_try_from w = (if unat w < 2 ^ 63 then Some (int (unat w)) else None)"
proof -
  obtain n where n: "unat w = n" by blast
  then have "uint w = int n" by (metis uint_nat)
  then show ?thesis unfolding i64_try_from_def i64_MAX_def n by simp
qed

definition scope_version_ok :: "u64 \<Rightarrow> bool" where
  "scope_version_ok v \<longleftrightarrow> 0 < unat v \<and> unat v < 2 ^ 63"

lemma validate_scope_version_ok [simp]:
  "is_ok (validate_scope_version v) \<longleftrightarrow> scope_version_ok v"
  "validate_scope_version v = Inr u \<longleftrightarrow> scope_version_ok v"
proof -
  have "v \<noteq> 0 \<longleftrightarrow> 0 < unat v" by (rule unat_gt_0 [symmetric])
  moreover have "i64_try_from v \<noteq> None \<longleftrightarrow> unat v < 2 ^ 63"
    by (simp add: i64_try_from_unat)
  ultimately have "v = 0 \<or> i64_try_from v = None \<longleftrightarrow> \<not> scope_version_ok v"
    unfolding scope_version_ok_def by blast
  then show "is_ok (validate_scope_version v) \<longleftrightarrow> scope_version_ok v"
    "validate_scope_version v = Inr u \<longleftrightarrow> scope_version_ok v"
    unfolding validate_scope_version_def by simp_all
qed

definition interest_ok :: "table_def \<Rightarrow> replica_interest \<Rightarrow> bool" where
  "interest_ok t i \<longleftrightarrow>
     0 < unat (interest_limit i) \<and> unat (interest_limit i) \<le> 10000 \<and> length (predicates i) \<le> 32 \<and>
     (\<forall>pr\<in>set (predicates i).
        case pr of
          IdEquals v \<Rightarrow> v \<noteq> [] \<and> length v \<le> 255
        | IdPrefix v \<Rightarrow> v \<noteq> [] \<and> length v \<le> 255
        | ColumnEquals column v \<Rightarrow> value_ok t column v)"

lemma validate_predicate_ok:
  "is_ok (validate_predicate t pr) \<longleftrightarrow>
     (case pr of
        IdEquals v \<Rightarrow> v \<noteq> [] \<and> length v \<le> 255
      | IdPrefix v \<Rightarrow> v \<noteq> [] \<and> length v \<le> 255
      | ColumnEquals column v \<Rightarrow> value_ok t column v)"
  by (auto simp: validate_predicate_def split: replica_predicate.splits)

lemma interest_validate_ok [simp]: "is_ok (interest_validate i t) \<longleftrightarrow> interest_ok t i"
  by (auto simp: interest_validate_def interest_ok_def validate_predicate_ok limits unat_gt_0)

lemma interest_validate_Inr [simp]: "interest_validate i t = Inr u \<longleftrightarrow> interest_ok t i"
  using unit_result_ok [of "interest_validate i t"] by (cases u) simp

subsection \<open>Requests and responses\<close>

definition request_ok :: "table_def \<Rightarrow> string \<Rightarrow> partial_replica_request \<Rightarrow> bool" where
  "request_ok t device rq \<longleftrightarrow>
     identifier_ok (rq_scope_id rq) \<and> scope_version_ok (rq_scope_version rq) \<and>
     interest_ok t (rq_interest rq) \<and> client_request_ok t device (rq_sync rq) \<and>
     member_ids_ok (rq_known_member_ids rq)"

definition response_ok :: "table_def \<Rightarrow> partial_replica_response \<Rightarrow> bool" where
  "response_ok t rs \<longleftrightarrow>
     identifier_ok (rs_scope_id rs) \<and> scope_version_ok (rs_scope_version rs) \<and>
     server_response_ok t (rs_sync rs) \<and>
     member_ids_ok (rs_member_ids rs) \<and> member_ids_ok (rs_evicted_row_ids rs) \<and>
     set (rs_member_ids rs) \<inter> set (rs_evicted_row_ids rs) = {} \<and>
     map todo_id (changes (rs_sync rs)) = rs_member_ids rs"

lemma request_validate_iff: "request_validate rq t device = Inr () \<longleftrightarrow> request_ok t device rq"
  unfolding request_validate_def request_ok_def
  by (simp add: validate_client_request_iff)

lemma response_validate_iff: "response_validate rs t = Inr () \<longleftrightarrow> response_ok t rs"
proof -
  have "member_ids_ok (rs_evicted_row_ids rs) \<Longrightarrow>
      list_ex (binary_search (rs_evicted_row_ids rs)) (rs_member_ids rs) \<longleftrightarrow>
      set (rs_member_ids rs) \<inter> set (rs_evicted_row_ids rs) \<noteq> {}"
    by (auto simp: member_ids_ok_def list_ex_iff)
  then show ?thesis
    unfolding response_validate_def response_ok_def
    by (auto simp: validate_server_response_iff)
qed

text \<open>A partial-replica response is accepted exactly when its scope is valid, its
  synchronization part is a valid server response, the member and evicted identifiers are strictly
  sorted and disjoint, and the snapshot carries exactly one row for each member, in the same order.
  The binary search of the code therefore decides disjointness.\<close>

theorem response_validate_correct: "response_validate rs t = Inr () \<longleftrightarrow> response_ok t rs"
  by (rule response_validate_iff)

text \<open>A partial-replica request is accepted exactly when scope, interest, known
  members and the embedded client request are all valid.\<close>

theorem request_validate_correct: "request_validate rq t device = Inr () \<longleftrightarrow> request_ok t device rq"
  by (rule request_validate_iff)

subsection \<open>The query plan\<close>

text \<open>What the text of a plan may depend on: the kind of each predicate and the name of its column,
  which validation restricts to synchronized columns of the contract; and the value bound to it.\<close>

datatype predicate_shape = IdEqualsShape | IdPrefixShape | ColumnEqualsShape string

fun shape_of :: "replica_predicate \<Rightarrow> predicate_shape" where
  "shape_of (IdEquals v) = IdEqualsShape"
| "shape_of (IdPrefix v) = IdPrefixShape"
| "shape_of (ColumnEquals column v) = ColumnEqualsShape column"

fun bound_value :: "replica_predicate \<Rightarrow> crdt_value" where
  "bound_value (IdEquals v) = VText v"
| "bound_value (IdPrefix v) = VText v"
| "bound_value (ColumnEquals column v) = v"

fun shape_clause :: "nat \<Rightarrow> predicate_shape \<Rightarrow> string" where
  "shape_clause i IdEqualsShape = ''id = $'' @ show_nat i"
| "shape_clause i IdPrefixShape = ''starts_with(id, $'' @ show_nat i @ '')''"
| "shape_clause i (ColumnEqualsShape column) = column @ '' = $'' @ show_nat i"

lemma plan_clause_shape:
  "plan_clause pr (cs, ps) =
     (cs @ [shape_clause (length ps + 1) (shape_of pr)], ps @ [bound_value pr])"
  by (cases pr) (simp_all add: plan_clause_def)

lemma plan_fold:
  "foldl (\<lambda>acc pr. plan_clause pr acc) (cs, ps) prs =
     (cs @ map (\<lambda>(i, sh). shape_clause i sh) (enumerate (length ps + 1) (map shape_of prs)),
      ps @ map bound_value prs)"
  by (induction prs arbitrary: cs ps) (simp_all add: plan_clause_shape)

text \<open>A valid interest always has a plan; its parameters are the tenant followed by the
  predicate values, each referenced by the placeholder of its own position, and its text is a
  function of the table, the limit and the shape of the predicates alone, so neither the tenant nor
  any value can reach the SQL text.\<close>

theorem postgres_plan_parameterized:
  assumes "interest_ok t i"
  shows "postgres_plan i t tenant =
    Inr \<lparr>plan_sql = ''SELECT * FROM '' @ tname t @ '' WHERE '' @
           join '' AND '' ([''tenant_id = $1'', ''deleted = FALSE''] @
             map (\<lambda>(k, sh). shape_clause k sh) (enumerate 2 (map shape_of (predicates i)))) @
           '' ORDER BY id LIMIT '' @ show_nat (unat (interest_limit i)),
         plan_parameters = VText tenant # map bound_value (predicates i)\<rparr>"
  using assms by (simp add: postgres_plan_def plan_fold numeral_2_eq_2 del: join.simps)

theorem postgres_plan_witness:
  "interest_ok todos_table \<lparr>predicates = [IdPrefix ''a'', ColumnEquals ''title'' (VText ''x'')], interest_limit = 5\<rparr> \<and>
   postgres_plan \<lparr>predicates = [IdPrefix ''a'', ColumnEquals ''title'' (VText ''x'')], interest_limit = 5\<rparr>
     todos_table ''t'' =
   Inr \<lparr>plan_sql = ''SELECT * FROM todos WHERE tenant_id = $1 AND deleted = FALSE AND starts_with(id, $2) AND title = $3 ORDER BY id LIMIT 5'',
     plan_parameters = [VText ''t'', VText ''a'', VText ''x'']\<rparr>"
proof -
  let ?i = "\<lparr>predicates = [IdPrefix ''a'', ColumnEquals ''title'' (VText ''x'')], interest_limit = 5\<rparr>"
  have "table_column_type todos_table ''title'' = Some TyText" by code_simp
  then have ok: "interest_ok todos_table ?i" by (simp add: interest_ok_def value_ok_def limits)
  show ?thesis
    unfolding postgres_plan_parameterized [OF ok]
    by (intro conjI ok, code_simp)
qed

end
