(* ===== verification/Merge_Loop.thy ===== *)
theory Merge_Loop
  imports Replica
begin

section \<open>The merge loop of a server\<close>

text \<open>
  Both servers, the reference and the PostgreSQL adapter, walk through the cells of a request, ask the
  hooks about each and hand the permitted ones to last-writer-wins. The hooks and what they decide are
  defined here; the locale \<open>merge_loop\<close> states what one step of such a loop does to the cells of the
  server, and proves what the whole loop does.
\<close>

type_synonym cell_key = "string \<times> string"

text \<open>The authorizer is asked first, the validator only when it allows.\<close>

definition consult_hooks ::
  "sync_security \<Rightarrow> sync_context \<Rightarrow> cell_mutation \<Rightarrow> crdt_column option \<Rightarrow>
   sync_error + (sync_rejection_kind \<times> string) option" where
  "consult_hooks security ctx mutation current =
     rbind (authorizer security ctx mutation current) (\<lambda>decision.
       case decision of
         Deny kind why \<Rightarrow> Inr (Some (kind, why))
       | Allow \<Rightarrow>
           rbind (validator security ctx mutation current) (\<lambda>decision.
             case decision of
               Deny kind why \<Rightarrow> Inr (Some (kind, why))
             | Allow \<Rightarrow> Inr None))"

definition mutation_of :: "cell_key \<Rightarrow> crdt_column \<Rightarrow> cell_mutation" where
  "mutation_of key incoming =
     \<lparr>mut_todo_id = fst key, mut_column_name = snd key, mut_value = cvalue incoming,
      mut_metadata = cmeta incoming\<rparr>"

definition hook_result ::
  "sync_security \<Rightarrow> sync_context \<Rightarrow> (cell_key \<Rightarrow> crdt_column option) \<Rightarrow> cell_key \<times> crdt_column \<Rightarrow>
   sync_error + (sync_rejection_kind \<times> string) option" where
  "hook_result security ctx m op =
     consult_hooks security ctx (mutation_of (fst op) (snd op)) (m (fst op))"

definition permitted ::
  "sync_security \<Rightarrow> sync_context \<Rightarrow> (cell_key \<Rightarrow> crdt_column option) \<Rightarrow> cell_key \<times> crdt_column \<Rightarrow> bool" where
  "permitted security ctx m op \<longleftrightarrow> hook_result security ctx m op = Inr None"

definition rejections_of ::
  "sync_security \<Rightarrow> sync_context \<Rightarrow> (cell_key \<Rightarrow> crdt_column option) \<Rightarrow> cell_key \<times> crdt_column \<Rightarrow>
   sync_rejection list" where
  "rejections_of security ctx m op =
     (case hook_result security ctx m op of
        Inr (Some (kind, why)) \<Rightarrow>
          [\<lparr>rj_todo_id = fst (fst op), rj_column_name = snd (fst op), rj_kind = kind, rj_reason = why,
            rj_value = cvalue (snd op), rj_metadata = cmeta (snd op)\<rparr>]
      | _ \<Rightarrow> [])"

lemma permitted_cong:
  "m (fst op) = m' (fst op) \<Longrightarrow> permitted security ctx m op = permitted security ctx m' op"
  by (simp add: permitted_def hook_result_def)

lemma rejections_of_cong:
  "m (fst op) = m' (fst op) \<Longrightarrow> rejections_of security ctx m op = rejections_of security ctx m' op"
  by (simp add: rejections_of_def hook_result_def)

subsection \<open>The contract of a step\<close>

locale merge_loop =
  fixes security :: sync_security and ctx :: sync_context
    and step :: "cell_key \<times> crdt_column \<Rightarrow> 's \<times> sync_rejection list \<Rightarrow> sync_error + 's \<times> sync_rejection list"
    and view :: "'s \<Rightarrow> cell_key \<Rightarrow> crdt_column option"
  assumes step_put: "step op (s, rjs) = Inr (s', rjs') \<Longrightarrow>
      (if permitted security ctx (view s) op then lww.put op (view s) = Inr (view s')
       else view s' = view s \<and> rejections_of security ctx (view s) op \<noteq> []) \<and>
      rjs' = rjs @ rejections_of security ctx (view s) op"
    and step_reasons: "step op (s, rjs) = Inr (s', rjs') \<Longrightarrow>
      \<forall>r\<in>set (rejections_of security ctx (view s) op). reason_ok (rj_reason r)"
begin

lemma step_other:
  assumes "step op (s, rjs) = Inr (s', rjs')" "k \<noteq> fst op"
  shows "view s' k = view s k"
proof -
  have "lww.put op (view s) = Inr (view s') \<or> view s' = view s" using step_put [OF assms(1)] by presburger
  then show ?thesis using assms(2) by (auto simp: lww.put_def case_prod_beta split: if_splits dest: fun_cong [of _ _ k])
qed

lemma step_rest:
  assumes "step op (s, rjs) = Inr (s1, rjs1)" "distinct (map fst (op # ops))" "\<forall>k\<in>fst ` set (op # ops). m k = view s k"
  shows "\<forall>k\<in>fst ` set ops. m k = view s1 k"
proof
  fix k assume k: "k \<in> fst ` set ops"
  then have "k \<noteq> fst op" using assms(2) by (metis distinct.simps(2) list.set_map list.simps(9))
  then have "view s1 k = view s k" by (rule step_other [OF assms(1)])
  moreover have "k \<in> fst ` set (op # ops)" using k by auto
  then have "m k = view s k" using assms(3) by blast
  ultimately show "m k = view s1 k" by simp
qed

text \<open>Since a valid payload names every cell once, each hook sees the cell as it was before the
  request: the loop is a run of the last-writer-wins store over the permitted cells, and every cell
  was permitted or rejected.\<close>

lemma loop_run:
  assumes "foldM step ops (s, rjs) = Inr (s', rjs')"
    and "distinct (map fst ops)" "\<forall>k\<in>fst ` set ops. m k = view s k"
  shows "lww.run (filter (permitted security ctx m) ops) (view s) = Inr (view s') \<and>
         rjs' = rjs @ concat (map (rejections_of security ctx m) ops) \<and>
         (\<forall>op\<in>set ops. permitted security ctx m op \<or> rejections_of security ctx m op \<noteq> [])"
  using assms
proof (induction ops arbitrary: s rjs)
  case (Cons op ops)
  obtain s1 rjs1 where step: "step op (s, rjs) = Inr (s1, rjs1)"
    and rest: "foldM step ops (s1, rjs1) = Inr (s', rjs')"
    using Cons.prems(1) by auto
  note put = step_put [OF step]
  have same: "m (fst op) = view s (fst op)" using Cons.prems(3) by simp
  from Cons.IH [OF rest _ step_rest [OF step Cons.prems(2,3)]] Cons.prems(2)
  have IH: "lww.run (filter (permitted security ctx m) ops) (view s1) = Inr (view s')"
    "rjs' = rjs1 @ concat (map (rejections_of security ctx m) ops)"
    "\<forall>op\<in>set ops. permitted security ctx m op \<or> rejections_of security ctx m op \<noteq> []"
    by auto
  show ?case
    using put IH permitted_cong [of m op "view s" security ctx, OF same]
      rejections_of_cong [of m op "view s" security ctx, OF same]
    by (cases "permitted security ctx m op") simp_all
qed simp

lemma loop_reasons:
  assumes "foldM step ops (s, rjs) = Inr (s', rjs')"
    and "distinct (map fst ops)" "\<forall>k\<in>fst ` set ops. m k = view s k"
  shows "\<forall>op\<in>set ops. \<forall>r\<in>set (rejections_of security ctx m op). reason_ok (rj_reason r)"
  using assms
proof (induction ops arbitrary: s rjs)
  case (Cons op ops)
  obtain s1 rjs1 where step: "step op (s, rjs) = Inr (s1, rjs1)"
    and rest: "foldM step ops (s1, rjs1) = Inr (s', rjs')"
    using Cons.prems(1) by auto
  from Cons.IH [OF rest _ step_rest [OF step Cons.prems(2,3)]] Cons.prems(2)
  have "\<forall>op\<in>set ops. \<forall>r\<in>set (rejections_of security ctx m op). reason_ok (rj_reason r)" by simp
  moreover have "rejections_of security ctx m op = rejections_of security ctx (view s) op"
    by (rule rejections_of_cong) (use Cons.prems(3) in simp)
  ultimately show ?case using step_reasons [OF step] by simp
qed simp

end

end
