(* ===== verification/Reference_Server.thy ===== *)
theory Reference_Server
  imports Merge_Loop
begin

section \<open>The reference server (\<open>CrdtState\<close> of crdt.rs)\<close>

text \<open>
  The in-memory server that the crate uses as the specification of its PostgreSQL adapter: the
  last-writer-wins merge of a client request under authorization and validation hooks, the bounded
  change feed with its cursors, and authoritative partial-replica membership.

  The size of an encoded cell, \<open>serde_json::to_vec(column)?.len()\<close>, is the parameter \<open>json_len\<close>.
  The write counter \<open>seq\<close> is a \<open>u64\<close> incremented with \<open>+=\<close>; the model wraps, as a release build
  does, and the theorems assume fewer than \<open>2 ^ 63\<close> writes.
\<close>

type_synonym json_len = "crdt_column \<Rightarrow> sync_error + nat"

record crdt_state =
  global_lamport :: u64
  cells :: "(cell_key, crdt_column) btree_map"
  state_table :: table_def
  write_seq :: u64
  cell_seq :: "(cell_key, u64) btree_map"
  issued_cursors :: "(string, int) btree_map"

definition crdt_state_new :: "table_def \<Rightarrow> crdt_state" where
  "crdt_state_new t =
     \<lparr>global_lamport = 0, cells = [], state_table = t, write_seq = 0, cell_seq = [], issued_cursors = []\<rparr>"

definition crdt_state_default :: crdt_state where
  "crdt_state_default = crdt_state_new todos_table"

subsection \<open>Merging the cells of a request\<close>

definition store_cell :: "cell_key \<Rightarrow> crdt_column \<Rightarrow> crdt_state \<Rightarrow> crdt_state" where
  "store_cell key incoming s =
     (let q = write_seq s + 1 in
      s\<lparr>write_seq := q, cell_seq := bt_insert key q (cell_seq s),
        cells := bt_insert key incoming (cells s)\<rparr>)"

definition merge_cell ::
  "sync_security \<Rightarrow> sync_context \<Rightarrow> string \<Rightarrow> string \<times> crdt_column \<Rightarrow>
   crdt_state \<times> sync_rejection list \<Rightarrow> sync_error + crdt_state \<times> sync_rejection list" where
  "merge_cell security ctx row e st =
     (case e of (column_name, incoming) \<Rightarrow> case st of (s, rjs) \<Rightarrow>
       let key = (row, column_name); current = bt_get (cells s) key in
       rbind (consult_hooks security ctx (mutation_of key incoming) current) (\<lambda>denied.
         case denied of
           Some (kind, why) \<Rightarrow>
             rbind (sync_rejection_new row column_name kind why (cvalue incoming) (cmeta incoming))
               (\<lambda>r. Inr (s, rjs @ [r]))
         | None \<Rightarrow>
             rbind (lww_apply current incoming) (\<lambda>apply.
               Inr (if apply then store_cell key incoming s else s, rjs))))"

definition merge_row ::
  "sync_security \<Rightarrow> sync_context \<Rightarrow> row_change \<Rightarrow>
   crdt_state \<times> sync_rejection list \<Rightarrow> sync_error + crdt_state \<times> sync_rejection list" where
  "merge_row security ctx row = foldM (merge_cell security ctx (todo_id row)) (row_columns row)"

subsection \<open>The change feed\<close>

definition i64_or_max :: "u64 \<Rightarrow> int" where
  "i64_or_max w = (case i64_try_from w of None \<Rightarrow> i64_MAX | Some i \<Rightarrow> i)"

definition seq_of :: "crdt_state \<Rightarrow> cell_key \<Rightarrow> u64" where
  "seq_of s key = (case bt_get (cell_seq s) key of None \<Rightarrow> 0 | Some q \<Rightarrow> q)"

definition max_issued_cursor :: "crdt_state \<Rightarrow> string \<Rightarrow> int" where
  "max_issued_cursor s device = (case bt_get (issued_cursors s) device of None \<Rightarrow> 0 | Some c \<Rightarrow> c)"

definition cursor_valid :: "crdt_state \<Rightarrow> string \<Rightarrow> int \<Rightarrow> bool" where
  "cursor_valid s device c \<longleftrightarrow>
     c = 0 \<or> c \<le> i64_or_max (write_seq s) \<and> c \<le> max_issued_cursor s device"

definition effective_cursor :: "crdt_state \<Rightarrow> string \<Rightarrow> int \<Rightarrow> int" where
  "effective_cursor s device c = (if cursor_valid s device c then c else 0)"

definition feed_candidates :: "crdt_state \<Rightarrow> int \<Rightarrow> (u64 \<times> cell_key \<times> crdt_column) list" where
  "feed_candidates s eff =
     sort_key fst
       (filter (\<lambda>(q, _). i64_or_max q > eff)
         (map (\<lambda>(key, column). (seq_of s key, key, column)) (cells s)))"

record page_state =
  response_rows :: "(string, string, crdt_column) nested_map"
  response_bytes :: nat
  next_cursor :: int
  included :: nat

fun fill_page ::
  "json_len \<Rightarrow> (u64 \<times> cell_key \<times> crdt_column) list \<Rightarrow> page_state \<Rightarrow> sync_error + page_state" where
  "fill_page json_len [] pg = Inr pg"
| "fill_page json_len ((q, (row, column_name), column) # rest) pg =
     rbind (json_len column) (\<lambda>n.
       let cell_bytes = n + length row + length column_name in
       if included pg \<ge> MAX_RESPONSE_CELLS \<or>
          included pg > 0 \<and> response_bytes pg + cell_bytes > MAX_RESPONSE_BYTES
       then Inr pg
       else fill_page json_len rest
         \<lparr>response_rows = group_insert row column_name column (response_rows pg),
          response_bytes = response_bytes pg + cell_bytes,
          next_cursor = i64_or_max q,
          included = included pg + 1\<rparr>)"

definition issue_cursor :: "string \<Rightarrow> int \<Rightarrow> crdt_state \<Rightarrow> crdt_state" where
  "issue_cursor device c s =
     s\<lparr>issued_cursors :=
         bt_insert device
           (case bt_get (issued_cursors s) device of None \<Rightarrow> c | Some old \<Rightarrow> max old c)
           (issued_cursors s)\<rparr>"

definition rows_of :: "(string, string, crdt_column) nested_map \<Rightarrow> row_change list" where
  "rows_of m = map (\<lambda>(row, columns). \<lparr>todo_id = row, row_columns = columns\<rparr>) m"

text \<open>The second half of \<open>merge_inner\<close>: the feed after the clock has been advanced.\<close>

definition build_response ::
  "json_len \<Rightarrow> sync_payload \<Rightarrow> string \<Rightarrow> sync_rejection list \<Rightarrow> crdt_state \<Rightarrow>
   sync_error + crdt_state \<times> sync_payload" where
  "build_response json_len p device rjs s =
     (let server_seq = i64_or_max (write_seq s);
          reset = (cursor p \<noteq> 0 \<and> \<not> cursor_valid s device (cursor p));
          eff = effective_cursor s device (cursor p);
          cands = feed_candidates s eff
      in rbind (fill_page json_len cands
                 \<lparr>response_rows = [], response_bytes = 0, next_cursor = eff, included = 0\<rparr>) (\<lambda>pg.
           let more = included pg < length cands;
               next = (if more then next_cursor pg else server_seq)
           in Inr (issue_cursor device next s,
                \<lparr>protocol_version = protocol_version p,
                 schema_fingerprint = table_fingerprint (state_table s),
                 source_device_id = SERVER_DEVICE_ID,
                 source_lamport = global_lamport s,
                 changes = rows_of (response_rows pg),
                 cursor = next,
                 has_more = more,
                 cursor_reset = reset,
                 cursor_token = None,
                 server_epoch = None,
                 rejections = rjs\<rparr>)))"

subsection \<open>Merge\<close>

definition reference_context :: "crdt_state \<Rightarrow> string \<Rightarrow> sync_context" where
  "reference_context s device =
     \<lparr>tenant_id = ''reference-tenant'', authenticated_device_id = device, context_table = state_table s\<rparr>"

definition merge_inner ::
  "json_len \<Rightarrow> sync_payload \<Rightarrow> string \<Rightarrow> sync_security \<Rightarrow> crdt_state \<Rightarrow>
   sync_error + crdt_state \<times> sync_payload" where
  "merge_inner json_len p device security s =
     rbind (validate_client_request p device (state_table s)) (\<lambda>_.
     let observed = max_observed_clock p in
     rbind (validate_clock_advance (global_lamport s) observed) (\<lambda>_.
     rbind (foldM (merge_row security (reference_context s device)) (changes p) (s, [])) (\<lambda>(s1, rjs).
     case checked_add_u64 (max (global_lamport s1) observed) 1 of
       None \<Rightarrow> Inl ClockOverflow
     | Some clock \<Rightarrow> build_response json_len p device rjs (s1\<lparr>global_lamport := clock\<rparr>))))"

definition merge_with_security ::
  "json_len \<Rightarrow> sync_payload \<Rightarrow> string \<Rightarrow> sync_security \<Rightarrow> crdt_state \<Rightarrow>
   crdt_state \<times> (sync_error + sync_payload)" where
  "merge_with_security json_len p device security s =
     (case merge_inner json_len p device security s of
        Inl e \<Rightarrow> (s, Inl e)
      | Inr (working, response) \<Rightarrow> (working, Inr response))"

definition merge_payload ::
  "json_len \<Rightarrow> sync_payload \<Rightarrow> string \<Rightarrow> crdt_state \<Rightarrow> crdt_state \<times> (sync_error + sync_payload)" where
  "merge_payload json_len p device s =
     merge_with_security json_len p device (without_audit allow_all_authorizer noop_validator) s"

subsection \<open>Partial replicas\<close>

definition values_by_row :: "crdt_state \<Rightarrow> (string, string, crdt_value) nested_map" where
  "values_by_row s = group_cells (map (\<lambda>(key, column). (key, cvalue column)) (cells s)) []"

definition live_values :: "(string, crdt_value) btree_map \<Rightarrow> bool" where
  "live_values vals \<longleftrightarrow>
     \<not> (case bt_get vals DELETED_COLUMN of None \<Rightarrow> False | Some v \<Rightarrow> value_eq v (VBoolean True))"

definition scope_members :: "replica_interest \<Rightarrow> crdt_state \<Rightarrow> string list" where
  "scope_members i s =
     filter (\<lambda>row. interest_matches i row (the (bt_get (values_by_row s) row)))
       (map fst (filter (\<lambda>(_, vals). live_values vals) (values_by_row s)))"

fun snapshot_loop ::
  "json_len \<Rightarrow> string list \<Rightarrow> (cell_key \<times> crdt_column) list \<Rightarrow>
   (string, string, crdt_column) nested_map \<times> nat \<Rightarrow>
   sync_error + (string, string, crdt_column) nested_map \<times> nat" where
  "snapshot_loop json_len members [] st = Inr st"
| "snapshot_loop json_len members (((row, column_name), column) # rest) st =
     (if binary_search members row then
        rbind (json_len column) (\<lambda>n.
          let bytes = snd st + (n + length row + length column_name) in
          if bytes > MAX_RESPONSE_BYTES
          then Inl (InvalidPayload (''partial replica snapshot exceeds the '' @
            show_nat MAX_RESPONSE_BYTES @ ''-byte limit''))
          else snapshot_loop json_len members rest
            (group_insert row column_name column (fst st), bytes))
      else snapshot_loop json_len members rest st)"

definition merge_partial_inner ::
  "json_len \<Rightarrow> partial_replica_request \<Rightarrow> string \<Rightarrow> crdt_state \<Rightarrow>
   sync_error + crdt_state \<times> partial_replica_response" where
  "merge_partial_inner json_len rq device s =
     rbind (request_validate rq (state_table s) device) (\<lambda>_.
     case merge_payload json_len (rq_sync rq) device s of (s1, merged) \<Rightarrow>
     rbind merged (\<lambda>sync.
     let members = scope_members (rq_interest rq) s1 in
     if length members > unat (interest_limit (rq_interest rq))
     then Inl (InvalidPayload (''partial replica scope exceeds its declared limit of '' @
       show_nat (unat (interest_limit (rq_interest rq))) @ '' rows''))
     else
     rbind (snapshot_loop json_len members (cells s1) ([], 0)) (\<lambda>(snapshot, _).
     let response =
       \<lparr>rs_scope_id = rq_scope_id rq, rs_scope_version = rq_scope_version rq,
        rs_member_ids = members,
        rs_evicted_row_ids = filter (\<lambda>row. \<not> binary_search members row) (rq_known_member_ids rq),
        rs_sync = sync\<lparr>changes := rows_of snapshot, has_more := False\<rparr>\<rparr>
     in rbind (response_validate response (state_table s1)) (\<lambda>_. Inr (s1, response)))))"

definition merge_partial ::
  "json_len \<Rightarrow> partial_replica_request \<Rightarrow> string \<Rightarrow> crdt_state \<Rightarrow>
   crdt_state \<times> (sync_error + partial_replica_response)" where
  "merge_partial json_len rq device s =
     (case merge_partial_inner json_len rq device s of
        Inl e \<Rightarrow> (s, Inl e)
      | Inr (working, response) \<Rightarrow> (working, Inr response))"

section \<open>What a merge does to the cells\<close>

definition merge_op ::
  "sync_security \<Rightarrow> sync_context \<Rightarrow> cell_key \<times> crdt_column \<Rightarrow>
   crdt_state \<times> sync_rejection list \<Rightarrow> sync_error + crdt_state \<times> sync_rejection list" where
  "merge_op security ctx op = merge_cell security ctx (fst (fst op)) (snd (fst op), snd op)"

text \<open>The two nested loops visit the cells of the payload in order.\<close>

lemma merge_rows_flat:
  "foldM (merge_row security ctx) (changes p) st = foldM (merge_op security ctx) (payload_cells p) st"
proof -
  have "foldM (merge_row security ctx) (changes p) st =
      foldM (\<lambda>row. foldM (merge_op security ctx) (row_cells row)) (changes p) st"
    by (rule foldM_cong)
      (simp_all add: merge_row_def merge_op_def row_cells_def foldM_map case_prod_beta)
  then show ?thesis by (simp add: foldM_concat foldM_map payload_cells_def)
qed

lemma merge_op_cases:
  assumes "merge_op security ctx (key, c) (s, rjs) = Inr (s', rjs')"
  obtains (denied) kind why where
      "hook_result security ctx (bt_get (cells s)) (key, c) = Inr (Some (kind, why))"
      "reason_ok why" "s' = s" "rjs' = rjs @ rejections_of security ctx (bt_get (cells s)) (key, c)"
  | (stored) "permitted security ctx (bt_get (cells s)) (key, c)"
      "lww_apply (bt_get (cells s) key) c = Inr True" "s' = store_cell key c s" "rjs' = rjs"
  | (kept) "permitted security ctx (bt_get (cells s)) (key, c)"
      "lww_apply (bt_get (cells s) key) c = Inr False" "s' = s" "rjs' = rjs"
proof -
  let ?cur = "bt_get (cells s) key"
  obtain row col where key: "key = (row, col)" by fastforce
  obtain d where d: "hook_result security ctx (bt_get (cells s)) (key, c) = Inr d"
    and rest: "(case d of
         Some (kind, why) \<Rightarrow>
           rbind (sync_rejection_new row col kind why (cvalue c) (cmeta c))
             (\<lambda>r. Inr (s, rjs @ [r]))
       | None \<Rightarrow> rbind (lww_apply ?cur c) (\<lambda>apply. Inr (if apply then store_cell key c s else s, rjs))) =
       Inr (s', rjs')"
    using assms unfolding key
    by (auto simp: merge_op_def merge_cell_def hook_result_def Let_def)
  show thesis
  proof (cases d)
    case None
    with d have "permitted security ctx (bt_get (cells s)) (key, c)" by (simp add: permitted_def)
    moreover obtain b where "lww_apply ?cur c = Inr b" "s' = (if b then store_cell key c s else s)"
        "rjs' = rjs"
      using rest None by auto
    ultimately show thesis by (cases b) (auto intro: that(2,3))
  next
    case (Some kw)
    obtain kind why where "kw = (kind, why)" by fastforce
    with Some d rest show thesis
      by (intro that(1) [of kind why]) (auto simp: sync_rejection_new_ok rejections_of_def key)
  qed
qed

lemma cells_store_cell [simp]: "bt_get (cells (store_cell key c s)) = (bt_get (cells s))(key \<mapsto> c)"
  by (simp add: store_cell_def Let_def)

lemma merge_op_put:
  assumes "merge_op security ctx op (s, rjs) = Inr (s', rjs')"
  shows "(if permitted security ctx (bt_get (cells s)) op then lww.put op (bt_get (cells s)) = Inr (bt_get (cells s'))
      else bt_get (cells s') = bt_get (cells s) \<and> rejections_of security ctx (bt_get (cells s)) op \<noteq> []) \<and>
     rjs' = rjs @ rejections_of security ctx (bt_get (cells s)) op"
proof -
  obtain key c where op: "op = (key, c)" by fastforce
  from assms have "merge_op security ctx (key, c) (s, rjs) = Inr (s', rjs')" by (simp add: op)
  then show ?thesis
    by (cases rule: merge_op_cases)
      (auto simp: op permitted_def lww.put_def rejections_of_def)
qed

interpretation ref_loop: merge_loop security ctx "merge_op security ctx" "\<lambda>s. bt_get (cells s)" for security ctx
proof
  fix op s rjs s' rjs'
  assume "merge_op security ctx op (s, rjs) = Inr (s', rjs')"
  then show "(if permitted security ctx (bt_get (cells s)) op then lww.put op (bt_get (cells s)) = Inr (bt_get (cells s'))
      else bt_get (cells s') = bt_get (cells s) \<and> rejections_of security ctx (bt_get (cells s)) op \<noteq> []) \<and>
     rjs' = rjs @ rejections_of security ctx (bt_get (cells s)) op"
    by (rule merge_op_put)
next
  fix op s rjs s' rjs'
  assume step: "merge_op security ctx op (s, rjs) = Inr (s', rjs')"
  obtain k c where op: "op = (k, c)" by fastforce
  show "\<forall>r\<in>set (rejections_of security ctx (bt_get (cells s)) op). reason_ok (rj_reason r)"
    using step unfolding op by (cases rule: merge_op_cases) (auto simp: rejections_of_def permitted_def)
qed

section \<open>The state invariant\<close>

text \<open>Cell keys are pairs; quantifiers over them are kept whole.\<close>

declare split_paired_All [simp del]
declare split_paired_Ex [simp del]

text \<open>\<open>feed_inv\<close>: every cell has a write number of its own, from one up to the counter.
  \<open>cells_inv\<close>: the cells are what validation accepts, with clocks the server has reached.\<close>

definition feed_inv :: "crdt_state \<Rightarrow> bool" where
  "feed_inv s \<longleftrightarrow>
     bt_wf (cells s) \<and> bt_wf (cell_seq s) \<and> set (bt_keys (cell_seq s)) = set (bt_keys (cells s)) \<and>
     (\<forall>k q. bt_get (cell_seq s) k = Some q \<longrightarrow> 0 < unat q \<and> unat q \<le> unat (write_seq s)) \<and>
     inj_on (bt_get (cell_seq s)) (set (bt_keys (cells s)))"

definition stored_ok :: "table_def \<Rightarrow> u64 \<Rightarrow> cell_key \<Rightarrow> crdt_column \<Rightarrow> bool" where
  "stored_ok t bound key c \<longleftrightarrow>
     identifier_ok (fst key) \<and> cell_ok t (snd key) c \<and> device_id (cmeta c) \<noteq> SERVER_DEVICE_ID \<and>
     lamport_clock (cmeta c) \<le> bound"

definition cells_inv :: "u64 \<Rightarrow> crdt_state \<Rightarrow> bool" where
  "cells_inv bound s \<longleftrightarrow>
     (\<forall>k c. bt_get (cells s) k = Some c \<longrightarrow> stored_ok (state_table s) bound k c)"

definition cursors_inv :: "crdt_state \<Rightarrow> bool" where
  "cursors_inv s \<longleftrightarrow>
     bt_wf (issued_cursors s) \<and>
     (\<forall>d c. bt_get (issued_cursors s) d = Some c \<longrightarrow> 0 \<le> c \<and> c \<le> i64_or_max (write_seq s))"

definition state_inv :: "crdt_state \<Rightarrow> bool" where
  "state_inv s \<longleftrightarrow> feed_inv s \<and> cells_inv (global_lamport s) s \<and> cursors_inv s"

lemma state_inv_new: "state_inv (crdt_state_new t)"
  by (simp add: state_inv_def feed_inv_def cells_inv_def cursors_inv_def crdt_state_new_def)

lemma store_cell_sel [simp]:
  "global_lamport (store_cell key c s) = global_lamport s"
  "state_table (store_cell key c s) = state_table s"
  "write_seq (store_cell key c s) = write_seq s + 1"
  "issued_cursors (store_cell key c s) = issued_cursors s"
  "bt_get (cell_seq (store_cell key c s)) = (bt_get (cell_seq s))(key \<mapsto> write_seq s + 1)"
  by (simp_all add: store_cell_def Let_def)

lemma store_cell_keys:
  "set (bt_keys (cells (store_cell key c s))) = insert key (set (bt_keys (cells s)))"
  "set (bt_keys (cell_seq (store_cell key c s))) = insert key (set (bt_keys (cell_seq s)))"
  by (simp_all add: store_cell_def Let_def del: set_map)

lemma store_cell_wf:
  "bt_wf (cells s) \<Longrightarrow> bt_wf (cells (store_cell key c s))"
  "bt_wf (cell_seq s) \<Longrightarrow> bt_wf (cell_seq (store_cell key c s))"
  by (simp_all add: store_cell_def Let_def)

lemma unat_Suc_u64: "unat (w :: u64) + 1 < 2 ^ 64 \<Longrightarrow> unat (w + 1) = unat w + 1"
  by (simp add: unat_word_ariths)

lemma feed_inv_store_cell:
  assumes "feed_inv s" "unat (write_seq s) + 1 < 2 ^ 64"
  shows "feed_inv (store_cell key c s)"
proof -
  have q: "unat (write_seq s + 1) = unat (write_seq s) + 1" by (rule unat_Suc_u64 [OF assms(2)])
  have old: "0 < unat q \<and> unat q \<le> unat (write_seq s)" if "bt_get (cell_seq s) k = Some q" for k q
    using assms(1) that by (simp add: feed_inv_def)
  have fresh: "bt_get (cell_seq s) k \<noteq> Some (write_seq s + 1)" for k
    using old [of k "write_seq s + 1"] q by auto
  have inj: "inj_on (bt_get (cell_seq s)) (set (bt_keys (cells s)))"
    using assms(1) by (simp add: feed_inv_def)
  have "inj_on (bt_get (cell_seq (store_cell key c s))) (insert key (set (bt_keys (cells s))))"
    using inj fresh by (auto simp: inj_on_def) metis+
  moreover have "0 < unat p \<and> unat p \<le> unat (write_seq (store_cell key c s))"
    if "bt_get (cell_seq (store_cell key c s)) k = Some p" for k p
    using that old [of k p] q by (auto split: if_splits)
  ultimately show ?thesis
    using assms(1) unfolding feed_inv_def store_cell_keys by (blast intro: store_cell_wf)
qed

lemma cells_inv_store_cell:
  "cells_inv b s \<Longrightarrow> stored_ok (state_table s) b key c \<Longrightarrow> cells_inv b (store_cell key c s)"
  by (auto simp: cells_inv_def)

lemma cells_inv_mono: "cells_inv b s \<Longrightarrow> b \<le> b' \<Longrightarrow> cells_inv b' s"
  unfolding cells_inv_def stored_ok_def by (meson order.trans)

text \<open>What the merge loop keeps, and how far it moves the write counter.\<close>

definition loop_ok :: "crdt_state \<Rightarrow> u64 \<Rightarrow> nat \<Rightarrow> crdt_state \<Rightarrow> bool" where
  "loop_ok s b n s' \<longleftrightarrow>
     feed_inv s' \<and> cells_inv b s' \<and> global_lamport s' = global_lamport s \<and>
     state_table s' = state_table s \<and> issued_cursors s' = issued_cursors s \<and>
     unat (write_seq s) \<le> unat (write_seq s') \<and> unat (write_seq s') \<le> unat (write_seq s) + n"

lemma merge_op_loop_ok:
  assumes "merge_op security ctx (k, c) (s1, rjs) = Inr (s2, rjs')" "loop_ok s b n s1"
    and "stored_ok (state_table s) b k c" "unat (write_seq s) + Suc n < 2 ^ 64"
  shows "loop_ok s b (Suc n) s2"
  using assms(1)
proof (cases rule: merge_op_cases)
  case stored
  have lim: "unat (write_seq s1) + 1 < 2 ^ 64" using assms(2,4) by (simp add: loop_ok_def)
  show ?thesis
    using assms(2,3) stored(3) feed_inv_store_cell [OF _ lim] unat_Suc_u64 [OF lim]
    by (simp add: loop_ok_def cells_inv_store_cell)
qed (use assms(2) in \<open>auto simp: loop_ok_def\<close>)

lemma merge_ops_loop_ok:
  assumes "foldM (merge_op security ctx) ops (s1, rjs) = Inr (s', rjs')" "loop_ok s b n s1"
    and "\<forall>(k, c)\<in>set ops. stored_ok (state_table s) b k c" "unat (write_seq s) + (n + length ops) < 2 ^ 64"
  shows "loop_ok s b (n + length ops) s'"
  using assms
proof (induction ops arbitrary: s1 rjs n)
  case (Cons op ops)
  obtain k c where op: "op = (k, c)" by fastforce
  obtain s2 rjs2 where "merge_op security ctx (k, c) (s1, rjs) = Inr (s2, rjs2)"
    and rest: "foldM (merge_op security ctx) ops (s2, rjs2) = Inr (s', rjs')"
    using Cons.prems(1) by (auto simp: op)
  then have "loop_ok s b (Suc n) s2"
    using Cons.prems(2-4) by (intro merge_op_loop_ok) (auto simp: op)
  from Cons.IH [OF rest this] Cons.prems(3,4) show ?case by simp
qed simp

section \<open>The change feed\<close>

lemma i64_or_max_small: "unat w < 2 ^ 63 \<Longrightarrow> i64_or_max w = int (unat w)"
  by (simp add: i64_or_max_def i64_try_from_unat)

lemma i64_or_max_nonneg [simp]: "0 \<le> i64_or_max w"
  by (auto simp: i64_or_max_def i64_try_from_unat i64_MAX_def)

lemma rows_of_cells:
  assumes "nested_wf m"
  shows "((r, n), c) \<in> set (rows_cells (rows_of m)) \<longleftrightarrow> nested_get m r n = Some c"
  using nested_get_iff [OF assms, of r n c] by (force simp: rows_of_def row_cells_def)

lemma todo_ids_rows_of [simp]: "map todo_id (rows_of m) = bt_keys m"
  by (simp add: rows_of_def comp_def case_prod_beta)

lemma rows_of_distinct:
  assumes "nested_wf m"
  shows "distinct (map fst (rows_cells (rows_of m)))"
proof (rule rows_cells_distinct)
  show "\<forall>row\<in>set (rows_of m). bt_wf (row_columns row)"
    using assms by (auto simp: rows_of_def nested_wf_def)
  show "distinct (map todo_id (rows_of m))"
    using assms bt_wf_distinct by (auto simp: nested_wf_def simp del: distinct_map)
qed

text \<open>Grouping entries with distinct keys yields exactly these entries.\<close>

lemma group_cells_entries:
  assumes "distinct (map fst es)"
  shows "set (rows_cells (rows_of (group_cells es []))) = set es"
proof -
  have "((r, n), c) \<in> set (rows_cells (rows_of (group_cells es []))) \<longleftrightarrow> ((r, n), c) \<in> set es" for r n c
  proof -
    have "((r, n), c) \<in> set (rows_cells (rows_of (group_cells es []))) \<longleftrightarrow>
        nested_get (group_cells es []) r n = Some c"
      by (rule rows_of_cells) simp
    also have "\<dots> \<longleftrightarrow> map_of es (r, n) = Some c"
      using nested_get_group_cells [OF assms, of "[]" r n] by (cases "map_of es (r, n)") simp_all
    also have "\<dots> \<longleftrightarrow> ((r, n), c) \<in> set es"
      using assms by (rule map_of_eq_Some_iff)
    finally show ?thesis .
  qed
  then show ?thesis by (intro set_eqI) (metis prod.collapse)
qed

lemma group_cells_length:
  assumes "distinct (map fst es)"
  shows "length (rows_cells (rows_of (group_cells es []))) = length es"
proof -
  let ?cs = "rows_cells (rows_of (group_cells es []))"
  have "distinct (map fst ?cs)" by (simp add: rows_of_distinct)
  then have "distinct ?cs" "distinct es" using assms by (simp_all add: distinct_map)
  then show ?thesis using group_cells_entries [OF assms] by (metis distinct_card)
qed

lemma rows_of_length:
  assumes "nested_wf m"
  shows "length (rows_of m) \<le> length (rows_cells (rows_of m))"
proof -
  have "length rows \<le> length (rows_cells rows)" if "\<forall>row\<in>set rows. row_columns row \<noteq> []" for rows
    using that
  proof (induction rows)
    case (Cons row rows)
    then show ?case by (cases "row_columns row") auto
  qed simp
  moreover have "\<forall>row\<in>set (rows_of m). row_columns row \<noteq> []"
    using assms by (auto simp: rows_of_def nested_wf_def)
  ultimately show ?thesis by blast
qed

text \<open>The page is a prefix of the candidates; it is empty only when there are none.\<close>

lemma fill_page_prefix:
  assumes "fill_page json_len cs pg = Inr pg'" "included pg \<le> MAX_RESPONSE_CELLS"
  shows "\<exists>taken rest. cs = taken @ rest \<and>
    response_rows pg' = group_cells (map snd taken) (response_rows pg) \<and>
    included pg' = included pg + length taken \<and> included pg' \<le> MAX_RESPONSE_CELLS \<and>
    next_cursor pg' = (if taken = [] then next_cursor pg else i64_or_max (fst (last taken))) \<and>
    (included pg = 0 \<and> cs \<noteq> [] \<longrightarrow> taken \<noteq> [])"
  using assms
proof (induction json_len cs pg arbitrary: pg' rule: fill_page.induct)
  case (2 json_len q row column_name column rest pg)
  let ?op = "(q, (row, column_name), column)"
  obtain n where n: "json_len column = Inr n" using 2(2) by auto
  let ?b = "n + length row + length column_name"
  let ?pg = "\<lparr>response_rows = group_insert row column_name column (response_rows pg),
      response_bytes = response_bytes pg + ?b, next_cursor = i64_or_max q, included = included pg + 1\<rparr>"
  show ?case
  proof (cases "included pg \<ge> MAX_RESPONSE_CELLS \<or>
      included pg > 0 \<and> response_bytes pg + ?b > MAX_RESPONSE_BYTES")
    case True
    then have "pg' = pg" using 2(2) n by (auto simp: Let_def split: if_splits)
    moreover have "included pg \<noteq> 0" using True by (auto simp: MAX_RESPONSE_CELLS_def)
    ultimately show ?thesis using 2(3) by (intro exI [of _ "[]"] exI [of _ "?op # rest"]) simp
  next
    case False
    then have "fill_page json_len rest ?pg = Inr pg'" using 2(2) n by (simp add: Let_def split: if_splits)
    with 2(1) [OF n refl] False obtain taken rest' where IH: "rest = taken @ rest'"
      "response_rows pg' = group_cells (map snd taken) (response_rows ?pg)"
      "included pg' = included ?pg + length taken" "included pg' \<le> MAX_RESPONSE_CELLS"
      "next_cursor pg' = (if taken = [] then next_cursor ?pg else i64_or_max (fst (last taken)))"
      by force
    then show ?thesis by (intro exI [of _ "?op # taken"] exI [of _ rest']) simp
  qed
qed simp

text \<open>The byte budget: a page of more than one cell stays within it.\<close>

definition cell_bytes :: "json_len \<Rightarrow> u64 \<times> cell_key \<times> crdt_column \<Rightarrow> nat" where
  "cell_bytes json_len e =
     (case e of (q, (row, column_name), column) \<Rightarrow>
        (case json_len column of Inl _ \<Rightarrow> 0 | Inr n \<Rightarrow> n) + length row + length column_name)"

lemma fill_page_bytes:
  assumes "fill_page json_len cs pg = Inr pg'"
    and "included pg > 1 \<longrightarrow> response_bytes pg \<le> MAX_RESPONSE_BYTES"
  shows "included pg' > 1 \<longrightarrow> response_bytes pg' \<le> MAX_RESPONSE_BYTES"
  using assms
proof (induction json_len cs pg arbitrary: pg' rule: fill_page.induct)
  case (2 json_len q row column_name column rest pg)
  obtain n where n: "json_len column = Inr n" using 2(2) by auto
  show ?case
  proof (cases "included pg \<ge> MAX_RESPONSE_CELLS \<or>
      included pg > 0 \<and> response_bytes pg + (n + length row + length column_name) > MAX_RESPONSE_BYTES")
    case True
    then show ?thesis using 2(2,3) n by (auto simp: Let_def split: if_splits)
  next
    case False
    then have "fill_page json_len rest
        \<lparr>response_rows = group_insert row column_name column (response_rows pg),
         response_bytes = response_bytes pg + (n + length row + length column_name),
         next_cursor = i64_or_max q, included = included pg + 1\<rparr> = Inr pg'"
      using 2(2) n by (simp add: Let_def split: if_splits)
    from 2(1) [OF n refl False this] show ?thesis using False by fastforce
  qed
qed simp

text \<open>Write numbers as integers; \<open>headroom\<close> is the range in which they are exact cursors.\<close>

definition write_no :: "crdt_state \<Rightarrow> cell_key \<Rightarrow> nat" where
  "write_no s k = unat (seq_of s k)"

definition last_write :: "crdt_state \<Rightarrow> nat" where
  "last_write s = unat (write_seq s)"

definition headroom :: "nat \<Rightarrow> crdt_state \<Rightarrow> bool" where
  "headroom n s \<longleftrightarrow> last_write s + n < 2 ^ 63"

lemma seq_of_bounds:
  assumes "feed_inv s" "bt_get (cells s) k = Some c"
  shows "0 < write_no s k" "write_no s k \<le> last_write s"
proof -
  have "k \<in> set (bt_keys (cell_seq s))"
    using assms bt_get_None [of "cells s" k] by (auto simp: feed_inv_def simp del: set_map)
  then obtain q where q: "bt_get (cell_seq s) k = Some q"
    using bt_get_None [of "cell_seq s" k] by (auto simp del: set_map)
  then have "0 < unat q \<and> unat q \<le> unat (write_seq s)" using assms(1) by (simp add: feed_inv_def)
  with q show "0 < write_no s k" "write_no s k \<le> last_write s"
    by (simp_all add: seq_of_def write_no_def last_write_def)
qed

lemma seq_of_inj:
  assumes "feed_inv s" "bt_get (cells s) k = Some c" "bt_get (cells s) k' = Some c'"
    and "seq_of s k = seq_of s k'"
  shows "k = k'"
proof -
  have mem: "k \<in> set (bt_keys (cells s))" "k' \<in> set (bt_keys (cells s))"
    using assms(2,3) bt_get_None [of "cells s"] by (metis option.distinct(1))+
  then have "k \<in> set (bt_keys (cell_seq s))" "k' \<in> set (bt_keys (cell_seq s))"
    using assms(1) by (simp_all add: feed_inv_def del: set_map)
  then have "bt_get (cell_seq s) k = bt_get (cell_seq s) k'"
    using assms(4) bt_get_None [of "cell_seq s"] by (fastforce simp: seq_of_def split: option.splits)
  then show ?thesis using assms(1) mem by (simp add: feed_inv_def inj_on_def del: set_map)
qed

lemma i64_seq_of:
  assumes "feed_inv s" "headroom 0 s" "bt_get (cells s) k = Some c"
  shows "i64_or_max (seq_of s k) = int (write_no s k)"
  using seq_of_bounds [OF assms(1,3)] assms(2) i64_or_max_small [of "seq_of s k"]
  by (simp only: headroom_def write_no_def)

lemma i64_write_seq: "headroom 0 s \<Longrightarrow> i64_or_max (write_seq s) = int (last_write s)"
  using i64_or_max_small [of "write_seq s"] by (simp only: headroom_def last_write_def add_0_right)

lemma in_feed_candidates:
  assumes "feed_inv s" "headroom 0 s"
  shows "e \<in> set (feed_candidates s eff) \<longleftrightarrow>
    (\<exists>k c. e = (seq_of s k, k, c) \<and> bt_get (cells s) k = Some c \<and> eff < int (write_no s k))"
proof -
  have wf: "bt_wf (cells s)" using assms(1) by (simp add: feed_inv_def)
  have "e \<in> set (feed_candidates s eff) \<longleftrightarrow>
    (\<exists>k c. e = (seq_of s k, k, c) \<and> bt_get (cells s) k = Some c \<and> eff < i64_or_max (seq_of s k))"
    by (auto simp: feed_candidates_def bt_get_iff [OF wf, symmetric])
  then show ?thesis using i64_seq_of [OF assms] by auto
qed

lemma feed_candidates_distinct:
  assumes "feed_inv s"
  shows "distinct (map (fst \<circ> snd) (feed_candidates s eff))"
proof -
  let ?l = "map (\<lambda>(key, column). (seq_of s key, key, column)) (cells s)"
  have "distinct (map (fst \<circ> snd) ?l)"
    using assms bt_wf_distinct [of "cells s"] by (simp add: feed_inv_def comp_def case_prod_beta)
  then have "distinct (map (fst \<circ> snd) (filter (\<lambda>(q, _). i64_or_max q > eff) ?l))"
    by (rule distinct_map_filter)
  then show ?thesis
    unfolding feed_candidates_def by (simp add: distinct_map)
qed

lemma feed_candidates_sorted:
  assumes "feed_inv s" "headroom 0 s"
  shows "sorted_wrt (<) (map fst (feed_candidates s eff))"
proof -
  have "e = e'" if mem: "e \<in> set (feed_candidates s eff)" "e' \<in> set (feed_candidates s eff)"
    and eq: "fst e = fst e'" for e e'
  proof -
    obtain k c where k: "e = (seq_of s k, k, c)" "bt_get (cells s) k = Some c"
      using mem(1) unfolding in_feed_candidates [OF assms] by blast
    obtain k' c' where k': "e' = (seq_of s k', k', c')" "bt_get (cells s) k' = Some c'"
      using mem(2) unfolding in_feed_candidates [OF assms] by blast
    have "k = k'" using seq_of_inj [OF assms(1) k(2) k'(2)] eq k(1) k'(1) by simp
    with k k' show ?thesis by simp
  qed
  moreover have "distinct (feed_candidates s eff)"
    using feed_candidates_distinct [OF assms(1), of eff] by (simp add: distinct_map)
  ultimately have "distinct (map fst (feed_candidates s eff))"
    by (auto simp: distinct_map inj_on_def)
  moreover have "sorted (map fst (feed_candidates s eff))"
    unfolding feed_candidates_def by (rule sorted_sort_key)
  ultimately show ?thesis by (simp add: strict_sorted_iff)
qed

text \<open>A page ends at a write number: it has the candidates up to it and none above.\<close>

lemma page_is_initial:
  assumes "sorted_wrt (<) (map fst (taken @ rest))" "rest \<noteq> [] \<Longrightarrow> taken \<noteq> []"
    and "\<forall>e\<in>set (taken @ rest). fst e \<le> (hi :: u64)"
    and next_no: "next_no = (if rest \<noteq> [] then unat (fst (last taken)) else unat hi)"
  shows "e \<in> set taken \<longleftrightarrow> e \<in> set (taken @ rest) \<and> unat (fst e) \<le> next_no"
proof (cases "rest = []")
  case True
  have "unat (fst e) \<le> unat hi" if "e \<in> set taken"
    using bspec [OF assms(3), of e] that by (simp add: word_le_nat_alt)
  with True show ?thesis using next_no by auto
next
  case False
  then have mem: "last taken \<in> set taken" using assms(2) by simp
  have above: "fst (last taken) < fst e" if "e \<in> set rest"
  proof -
    have "\<forall>x\<in>set taken. \<forall>y\<in>set rest. fst x < fst y"
      using assms(1) by (simp add: sorted_wrt_append)
    with mem that show ?thesis by blast
  qed
  have "sorted (map fst taken)"
    using assms(1) by (simp add: sorted_wrt_append strict_sorted_imp_sorted)
  then have below: "fst e \<le> fst (last taken)" if "e \<in> set taken"
    using that by (cases taken rule: rev_cases) (auto simp: sorted_append)
  show ?thesis
    using False next_no above below
    by (auto simp: word_le_nat_alt word_less_nat_alt)
qed

lemma effective_cursor_bounds:
  assumes "headroom 0 s" "0 \<le> c"
  shows "0 \<le> effective_cursor s device c" "effective_cursor s device c \<le> int (last_write s)"
  using assms i64_write_seq [OF assms(1)] by (auto simp: effective_cursor_def cursor_valid_def)

text \<open>What a response contains: \<open>page_of s eff resp\<close> says that \<open>resp\<close> carries exactly the cells
  written after the cursor \<open>eff\<close> and up to its own cursor, all of them when no more are announced,
  and otherwise at least one.\<close>

definition page_of :: "crdt_state \<Rightarrow> int \<Rightarrow> sync_payload \<Rightarrow> bool" where
  "page_of s eff resp \<longleftrightarrow>
     (\<forall>k c. (k, c) \<in> set (payload_cells resp) \<longleftrightarrow>
        bt_get (cells s) k = Some c \<and> eff < int (write_no s k) \<and> int (write_no s k) \<le> cursor resp) \<and>
     (has_more resp \<longrightarrow> eff < cursor resp \<and> cursor resp < int (last_write s) \<and> changes resp \<noteq> []) \<and>
     (\<not> has_more resp \<longrightarrow> cursor resp = int (last_write s)) \<and>
     length (payload_cells resp) \<le> MAX_RESPONSE_CELLS"

lemma feed_page:
  assumes inv: "feed_inv s" "headroom 0 s" and cands: "feed_candidates s eff = taken @ rest"
    and prog: "rest \<noteq> [] \<Longrightarrow> taken \<noteq> []"
    and next_c: "next_c = (if rest \<noteq> [] then i64_or_max (fst (last taken)) else i64_or_max (write_seq s))"
  shows "(k, c) \<in> set (map snd taken) \<longleftrightarrow>
      bt_get (cells s) k = Some c \<and> eff < int (write_no s k) \<and> int (write_no s k) \<le> next_c"
    and "rest \<noteq> [] \<Longrightarrow> eff < next_c \<and> next_c < int (last_write s)"
proof -
  let ?n = "if rest \<noteq> [] then unat (fst (last taken)) else unat (write_seq s)"
  have entry: "fst e = seq_of s (fst (snd e))" "unat (fst e) = write_no s (fst (snd e))"
    "bt_get (cells s) (fst (snd e)) = Some (snd (snd e))" "eff < int (write_no s (fst (snd e)))"
    if "e \<in> set (taken @ rest)" for e
    using that in_feed_candidates [OF inv, of e eff] unfolding cands by (auto simp: write_no_def)
  have bound: "\<forall>e\<in>set (taken @ rest). fst e \<le> write_seq s"
    using entry seq_of_bounds(2) [OF inv(1)] by (metis last_write_def word_le_nat_alt)
  have sorted: "sorted_wrt (<) (map fst (taken @ rest))"
    using feed_candidates_sorted [OF inv, of eff] by (simp only: cands)
  have mem: "e \<in> set taken \<longleftrightarrow> e \<in> set (taken @ rest) \<and> unat (fst e) \<le> ?n" for e
    by (rule page_is_initial [OF sorted prog bound refl])
  have last: "last taken \<in> set (taken @ rest)" if "rest \<noteq> []" using prog that by simp
  have n: "next_c = int ?n"
  proof (cases "rest = []")
    case True
    then show ?thesis using next_c i64_write_seq [OF inv(2)] by (simp add: last_write_def)
  next
    case False
    have "i64_or_max (fst (last taken)) = int (unat (fst (last taken)))"
      using entry [OF last [OF False]] i64_seq_of [OF inv] by simp
    with False next_c show ?thesis by simp
  qed
  have "(k, c) \<in> set (map snd taken) \<longleftrightarrow> (seq_of s k, k, c) \<in> set taken"
    using entry(1) by force
  also have "\<dots> \<longleftrightarrow> bt_get (cells s) k = Some c \<and> eff < int (write_no s k) \<and> write_no s k \<le> ?n"
    unfolding mem using in_feed_candidates [OF inv, of "(seq_of s k, k, c)" eff]
    unfolding cands by (auto simp: write_no_def)
  finally show "(k, c) \<in> set (map snd taken) \<longleftrightarrow>
      bt_get (cells s) k = Some c \<and> eff < int (write_no s k) \<and> int (write_no s k) \<le> next_c"
    using n by simp
  show "eff < next_c \<and> next_c < int (last_write s)" if r: "rest \<noteq> []"
  proof -
    obtain e where e: "e \<in> set rest" using r by (cases rest) auto
    then have "e \<in> set (taken @ rest)" by simp
    have "fst (last taken) < fst e"
      using sorted e prog r by (auto simp: sorted_wrt_append)
    moreover have "unat (fst e) \<le> last_write s"
      using bound e by (auto simp: word_le_nat_alt last_write_def)
    ultimately have "unat (fst (last taken)) < last_write s" by (simp add: word_less_nat_alt)
    then show ?thesis using n r entry(2,4) [OF last [OF r]] by simp
  qed
qed

lemma build_response_inv:
  assumes "build_response json_len p device rjs s = Inr (s', resp)"
  obtains pg where
    "fill_page json_len (feed_candidates s (effective_cursor s device (cursor p)))
       \<lparr>response_rows = [], response_bytes = 0, next_cursor = effective_cursor s device (cursor p),
        included = 0\<rparr> = Inr pg"
    "has_more resp \<longleftrightarrow> included pg < length (feed_candidates s (effective_cursor s device (cursor p)))"
    "cursor resp = (if has_more resp then next_cursor pg else i64_or_max (write_seq s))"
    "changes resp = rows_of (response_rows pg)"
  using assms by (auto simp: build_response_def Let_def)

lemma build_response_fields:
  assumes "build_response json_len p device rjs s = Inr (s', resp)"
  shows "s' = issue_cursor device (cursor resp) s" "protocol_version resp = protocol_version p"
    "schema_fingerprint resp = table_fingerprint (state_table s)"
    "source_device_id resp = SERVER_DEVICE_ID" "source_lamport resp = global_lamport s"
    "cursor_reset resp \<longleftrightarrow> cursor p \<noteq> 0 \<and> \<not> cursor_valid s device (cursor p)"
    "cursor_token resp = None" "server_epoch resp = None" "rejections resp = rjs"
  using assms by (auto simp: build_response_def Let_def)

lemma build_response_page:
  assumes br: "build_response json_len p device rjs s = Inr (s', resp)"
    and inv: "feed_inv s" "headroom 0 s"
  shows "page_of s (effective_cursor s device (cursor p)) resp"
    and "\<exists>m. nested_wf m \<and> changes resp = rows_of m"
proof -
  let ?eff = "effective_cursor s device (cursor p)"
  let ?cands = "feed_candidates s ?eff"
  let ?pg0 = "\<lparr>response_rows = [], response_bytes = 0, next_cursor = ?eff, included = 0\<rparr>"
  obtain pg where pg: "fill_page json_len ?cands ?pg0 = Inr pg"
    and more: "has_more resp \<longleftrightarrow> included pg < length ?cands"
    and cur: "cursor resp = (if has_more resp then next_cursor pg else i64_or_max (write_seq s))"
    and rows: "changes resp = rows_of (response_rows pg)"
    using br by (rule build_response_inv)
  have "included ?pg0 \<le> MAX_RESPONSE_CELLS" by simp
  from fill_page_prefix [OF pg this] obtain taken rest where cands: "?cands = taken @ rest"
    and grp: "response_rows pg = group_cells (map snd taken) (response_rows ?pg0)"
    and inc: "included pg = included ?pg0 + length taken" "included pg \<le> MAX_RESPONSE_CELLS"
    and nxt: "next_cursor pg = (if taken = [] then next_cursor ?pg0 else i64_or_max (fst (last taken)))"
    and prog: "included ?pg0 = 0 \<and> ?cands \<noteq> [] \<longrightarrow> taken \<noteq> []"
    by blast
  have more': "has_more resp \<longleftrightarrow> rest \<noteq> []" using more inc(1) by (simp add: cands)
  have prog': "rest \<noteq> [] \<Longrightarrow> taken \<noteq> []" using prog by (simp add: cands)
  have cur': "cursor resp = (if rest \<noteq> [] then i64_or_max (fst (last taken)) else i64_or_max (write_seq s))"
    using cur more' nxt prog' by simp
  have dist: "distinct (map fst (map snd taken))"
    using feed_candidates_distinct [OF inv(1), of ?eff] unfolding cands by simp
  have pcells: "payload_cells resp = rows_cells (rows_of (group_cells (map snd taken) []))"
    by (simp add: payload_cells_def rows grp)
  have set_cells: "set (payload_cells resp) = set (map snd taken)"
    unfolding pcells by (rule group_cells_entries [OF dist])
  have len: "length (payload_cells resp) = length taken"
    unfolding pcells group_cells_length [OF dist] by simp
  note page = feed_page [OF inv cands prog' cur']
  have some: "changes resp \<noteq> []" if "rest \<noteq> []"
    using prog' [OF that] len by (auto simp: payload_cells_def)
  have "\<forall>k c. (k, c) \<in> set (payload_cells resp) \<longleftrightarrow>
      bt_get (cells s) k = Some c \<and> ?eff < int (write_no s k) \<and> int (write_no s k) \<le> cursor resp"
    unfolding set_cells by (intro allI page(1))
  moreover have "has_more resp \<longrightarrow> ?eff < cursor resp \<and> cursor resp < int (last_write s) \<and> changes resp \<noteq> []"
    using page(2) more' some by blast
  moreover have "\<not> has_more resp \<longrightarrow> cursor resp = int (last_write s)"
    using more' cur' i64_write_seq [OF inv(2)] by simp
  ultimately show "page_of s ?eff resp"
    using len inc unfolding page_of_def by simp
  show "\<exists>m. nested_wf m \<and> changes resp = rows_of m"
    by (intro exI [of _ "response_rows pg"]) (simp add: rows grp)
qed

lemma issue_cursor_sel [simp]:
  "global_lamport (issue_cursor d c s) = global_lamport s" "cells (issue_cursor d c s) = cells s"
  "state_table (issue_cursor d c s) = state_table s" "write_seq (issue_cursor d c s) = write_seq s"
  "cell_seq (issue_cursor d c s) = cell_seq s"
  by (simp_all add: issue_cursor_def)

lemma issue_cursor_cong [simp]:
  "feed_inv (issue_cursor d c s) = feed_inv s" "cells_inv b (issue_cursor d c s) = cells_inv b s"
  "write_no (issue_cursor d c s) = write_no s" "last_write (issue_cursor d c s) = last_write s"
  "page_of (issue_cursor d c s) = page_of s"
  by (simp_all add: feed_inv_def cells_inv_def write_no_def last_write_def seq_of_def page_of_def fun_eq_iff)

lemma cursors_inv_issue:
  assumes "cursors_inv s" "0 \<le> c" "c \<le> i64_or_max (write_seq s)"
  shows "cursors_inv (issue_cursor d c s)"
proof -
  have old: "0 \<le> i \<and> i \<le> i64_or_max (write_seq s)" if "bt_get (issued_cursors s) e = Some i" for e i
    using assms(1) that by (simp add: cursors_inv_def)
  have "0 \<le> i \<and> i \<le> i64_or_max (write_seq s)"
    if "bt_get (issued_cursors (issue_cursor d c s)) e = Some i" for e i
    using that assms(2,3) old [of e i] old [of d]
    by (auto simp: issue_cursor_def split: if_splits option.splits)
  then show ?thesis
    using assms(1) by (simp add: cursors_inv_def) (simp add: issue_cursor_def)
qed

lemma max_issued_issue: "max_issued_cursor (issue_cursor d c s) d \<ge> c"
  by (simp add: max_issued_cursor_def issue_cursor_def split: option.splits)

section \<open>The merge as a whole\<close>

lemma merge_inner_inv:
  assumes "merge_inner json_len p device security s = Inr (s', resp)"
  obtains s1 rjs clock where
    "client_request_ok (state_table s) device p"
    "unat (source_lamport p) \<le> unat (global_lamport s) + 1000000"
    "foldM (merge_op security (reference_context s device)) (payload_cells p) (s, []) = Inr (s1, rjs)"
    "checked_add_u64 (max (global_lamport s1) (source_lamport p)) 1 = Some clock"
    "build_response json_len p device rjs (s1\<lparr>global_lamport := clock\<rparr>) = Inr (s', resp)"
proof -
  have ok: "client_request_ok (state_table s) device p"
    using assms by (auto simp: merge_inner_def validate_client_request_iff)
  note obs = client_request_observed [OF ok]
  obtain s1 rjs where "unat (source_lamport p) \<le> unat (global_lamport s) + 1000000"
    "foldM (merge_op security (reference_context s device)) (payload_cells p) (s, []) = Inr (s1, rjs)"
    "(case checked_add_u64 (max (global_lamport s1) (source_lamport p)) 1 of
       None \<Rightarrow> Inl ClockOverflow
     | Some clock \<Rightarrow> build_response json_len p device rjs (s1\<lparr>global_lamport := clock\<rparr>)) = Inr (s', resp)"
    using assms by (auto simp: merge_inner_def obs Let_def merge_rows_flat validate_clock_advance_ok)
  with ok that show thesis by (auto split: option.splits)
qed

lemma request_stored_ok:
  assumes "client_request_ok t device p" "(k, c) \<in> set (payload_cells p)"
  shows "stored_ok t (max g (source_lamport p)) k c"
proof -
  obtain row n where k: "k = (row, n)" by fastforce
  have "payload_ok t p" "device \<noteq> SERVER_DEVICE_ID"
    and attr: "\<forall>(key, cell)\<in>set (payload_cells p).
        device_id (cmeta cell) = device \<and> lamport_clock (cmeta cell) \<le> source_lamport p"
    using assms(1) by (simp_all add: client_request_ok_def)
  moreover have "identifier_ok row"
    using \<open>payload_ok t p\<close> assms(2) unfolding k payload_cells_iff by (auto simp: payload_ok_def)
  moreover have "cell_ok t n c"
    using \<open>payload_ok t p\<close> assms(2) unfolding k by (auto simp: payload_ok_def)
  moreover have "device_id (cmeta c) = device" "lamport_clock (cmeta c) \<le> source_lamport p"
    using attr assms(2) by auto
  ultimately show ?thesis by (simp add: stored_ok_def k le_max_iff_disj)
qed

lemma request_cells_bounded: "client_request_ok t device p \<Longrightarrow> length (payload_cells p) \<le> 20000"
  by (simp add: client_request_ok_def payload_ok_def)

lemma request_cells_distinct: "client_request_ok t device p \<Longrightarrow> distinct (map fst (payload_cells p))"
  by (simp add: client_request_ok_def payload_ok_def)

lemma merge_op_loop:
  assumes ok: "client_request_ok (state_table s) device p"
    and loop: "foldM (merge_op security ctx) (payload_cells p) (s, []) = Inr (s1, rjs)"
    and inv: "state_inv s" "headroom 20000 s"
  shows "loop_ok s (max (global_lamport s) (source_lamport p)) (length (payload_cells p)) s1"
proof -
  let ?b = "max (global_lamport s) (source_lamport p)"
  have "loop_ok s ?b 0 s"
    using inv(1) cells_inv_mono [of "global_lamport s" s ?b] by (simp add: loop_ok_def state_inv_def)
  moreover have "\<forall>(k, c)\<in>set (payload_cells p). stored_ok (state_table s) ?b k c"
    using request_stored_ok [OF ok] by auto
  moreover have "unat (write_seq s) + (0 + length (payload_cells p)) < 2 ^ 64"
    using inv(2) request_cells_bounded [OF ok] by (simp add: headroom_def last_write_def)
  ultimately show ?thesis using merge_ops_loop_ok [OF loop, of s ?b 0] by simp
qed

lemma effective_cursor_stable:
  assumes "cursors_inv s" "headroom 0 s" "headroom 0 s1" "last_write s \<le> last_write s1"
    and "issued_cursors s1 = issued_cursors s"
  shows "cursor_valid s1 device c \<longleftrightarrow> cursor_valid s device c"
    and "effective_cursor s1 device c = effective_cursor s device c"
proof -
  have "max_issued_cursor s device \<le> i64_or_max (write_seq s)"
    using assms(1) by (auto simp: max_issued_cursor_def cursors_inv_def split: option.splits)
  moreover have "i64_or_max (write_seq s) \<le> i64_or_max (write_seq s1)"
    using assms(2-4) by (simp add: i64_write_seq)
  moreover have "max_issued_cursor s1 device = max_issued_cursor s device"
    by (simp add: max_issued_cursor_def assms(5))
  ultimately show valid: "cursor_valid s1 device c \<longleftrightarrow> cursor_valid s device c"
    by (auto simp: cursor_valid_def)
  then show "effective_cursor s1 device c = effective_cursor s device c"
    by (simp add: effective_cursor_def)
qed

text \<open>The state \<open>s2\<close> in which the response is built: cells merged, clock advanced.\<close>

lemma merge_inner_steps:
  assumes mi: "merge_inner json_len p device security s = Inr (s', resp)"
    and inv: "state_inv s" "headroom 20000 s"
  obtains s1 s2 rjs where "client_request_ok (state_table s) device p"
    "foldM (merge_op security (reference_context s device)) (payload_cells p) (s, []) = Inr (s1, rjs)"
    "build_response json_len p device rjs s2 = Inr (s', resp)"
    "feed_inv s2" "cells_inv (global_lamport s2) s2" "cursors_inv s2" "headroom 0 s" "headroom 0 s2"
    "cells s2 = cells s1" "state_table s2 = state_table s" "issued_cursors s2 = issued_cursors s"
    "last_write s \<le> last_write s2" "last_write s2 \<le> last_write s + length (payload_cells p)"
    "unat (global_lamport s2) = max (unat (global_lamport s)) (unat (source_lamport p)) + 1"
proof -
  let ?ctx = "reference_context s device"
  obtain s1 rjs clock where ok: "client_request_ok (state_table s) device p"
    and loop: "foldM (merge_op security ?ctx) (payload_cells p) (s, []) = Inr (s1, rjs)"
    and clock: "checked_add_u64 (max (global_lamport s1) (source_lamport p)) 1 = Some clock"
    and br: "build_response json_len p device rjs (s1\<lparr>global_lamport := clock\<rparr>) = Inr (s', resp)"
    using mi by (rule merge_inner_inv)
  let ?s2 = "s1\<lparr>global_lamport := clock\<rparr>" and ?b = "max (global_lamport s) (source_lamport p)"
  have L: "feed_inv s1" "cells_inv ?b s1" "global_lamport s1 = global_lamport s"
    "state_table s1 = state_table s" "issued_cursors s1 = issued_cursors s"
    "last_write s \<le> last_write s1" "last_write s1 \<le> last_write s + length (payload_cells p)"
    using merge_op_loop [OF ok loop inv] by (simp_all add: loop_ok_def last_write_def)
  have head: "headroom 0 s" "headroom 0 ?s2"
    using inv(2) L(7) request_cells_bounded [OF ok] by (simp_all add: headroom_def last_write_def)
  have "?b \<le> clock" using checked_add_u64_less [OF clock] L(3) by (metis less_imp_le)
  then have cells: "cells_inv clock ?s2"
    using cells_inv_mono [OF L(2)] by (simp add: cells_inv_def)
  have seqs: "i64_or_max (write_seq s) \<le> i64_or_max (write_seq ?s2)"
    unfolding i64_write_seq [OF head(1)] i64_write_seq [OF head(2)] of_nat_le_iff
    using L(6) by (simp add: last_write_def)
  have "cursors_inv s" using inv(1) by (simp add: state_inv_def)
  then have curs: "cursors_inv ?s2"
    unfolding cursors_inv_def using seqs L(5) by (auto intro: order_trans)
  show thesis
    by (rule that [OF ok loop br _ _ curs head])
      (use L cells checked_add_u64_Some [OF clock] in
        \<open>simp_all add: feed_inv_def last_write_def\<close>)
qed

text \<open>The facts about a successful merge on which the properties rest.\<close>

lemma merge_inner_spec:
  assumes mi: "merge_inner json_len p device security s = Inr (s', resp)"
    and inv: "state_inv s" "headroom 20000 s"
  shows "state_inv s'"
    and "state_table s' = state_table s"
    and "unat (global_lamport s') = max (unat (global_lamport s)) (unat (source_lamport p)) + 1"
    and "last_write s \<le> last_write s' \<and> last_write s' \<le> last_write s + length (payload_cells p)"
    and "lww.run (filter (permitted security (reference_context s device) (bt_get (cells s))) (payload_cells p))
           (bt_get (cells s)) = Inr (bt_get (cells s'))"
    and "rejections resp =
           concat (map (rejections_of security (reference_context s device) (bt_get (cells s))) (payload_cells p))"
    and "page_of s' (effective_cursor s device (cursor p)) resp"
    and "cursor_reset resp \<longleftrightarrow> cursor p \<noteq> 0 \<and> \<not> cursor_valid s device (cursor p)"
    and "source_lamport resp = global_lamport s'"
    and "max_issued_cursor s' device \<ge> cursor resp"
    and "0 \<le> cursor resp"
proof -
  let ?ctx = "reference_context s device"
  obtain s1 s2 rjs where ok: "client_request_ok (state_table s) device p"
    and loop: "foldM (merge_op security ?ctx) (payload_cells p) (s, []) = Inr (s1, rjs)"
    and br: "build_response json_len p device rjs s2 = Inr (s', resp)"
    and inv2: "feed_inv s2" "cells_inv (global_lamport s2) s2" "cursors_inv s2"
    and head: "headroom 0 s" "headroom 0 s2"
    and s2: "cells s2 = cells s1" "state_table s2 = state_table s" "issued_cursors s2 = issued_cursors s"
    and cnt: "last_write s \<le> last_write s2" "last_write s2 \<le> last_write s + length (payload_cells p)"
    and clk: "unat (global_lamport s2) = max (unat (global_lamport s)) (unat (source_lamport p)) + 1"
    using merge_inner_steps [OF assms] .
  note s' = build_response_fields(1) [OF br]
  have "cursors_inv s" using inv(1) by (simp add: state_inv_def)
  note stable = effective_cursor_stable [OF this head cnt(1) s2(3)]
  have page: "page_of s2 (effective_cursor s device (cursor p)) resp"
    using build_response_page(1) [OF br inv2(1) head(2)] stable(2) by simp
  have "0 \<le> cursor p" using ok by (simp add: client_request_ok_def payload_ok_def)
  note eff = effective_cursor_bounds [OF head(1) this, of device]
  show c0: "0 \<le> cursor resp"
    using page eff(1) by (cases "has_more resp"; simp add: page_of_def)
  have "cursor resp \<le> i64_or_max (write_seq s2)"
    using page i64_write_seq [OF head(2)] by (cases "has_more resp"; simp add: page_of_def)
  then show "state_inv s'"
    using inv2 c0 cursors_inv_issue by (simp add: state_inv_def s')
  have run: "lww.run (filter (permitted security ?ctx (bt_get (cells s))) (payload_cells p)) (bt_get (cells s)) =
      Inr (bt_get (cells s1)) \<and>
    rjs = [] @ concat (map (rejections_of security ?ctx (bt_get (cells s))) (payload_cells p))"
    using ref_loop.loop_run [OF loop request_cells_distinct [OF ok], of "bt_get (cells s)"] by simp
  then show "lww.run (filter (permitted security ?ctx (bt_get (cells s))) (payload_cells p)) (bt_get (cells s)) =
      Inr (bt_get (cells s'))"
    by (simp add: s' s2)
  show "rejections resp = concat (map (rejections_of security ?ctx (bt_get (cells s))) (payload_cells p))"
    using run build_response_fields(9) [OF br] by simp
  show "cursor_reset resp \<longleftrightarrow> cursor p \<noteq> 0 \<and> \<not> cursor_valid s device (cursor p)"
    using build_response_fields(6) [OF br] stable(1) by simp
  show "page_of s' (effective_cursor s device (cursor p)) resp" using page by (simp add: s')
  show "source_lamport resp = global_lamport s'" using build_response_fields(5) [OF br] by (simp add: s')
  show "state_table s' = state_table s" by (simp add: s' s2)
  show "unat (global_lamport s') = max (unat (global_lamport s)) (unat (source_lamport p)) + 1"
    by (simp add: s' clk)
  show "last_write s \<le> last_write s' \<and> last_write s' \<le> last_write s + length (payload_cells p)"
    by (simp add: s' cnt)
  show "max_issued_cursor s' device \<ge> cursor resp" by (simp add: s' max_issued_issue)
qed

end
