(* ===== verification/Reference_Correct.thy ===== *)
theory Reference_Correct
  imports Reference_Server
begin

section \<open>Correctness of the reference server\<close>

text \<open>
  The properties of \<open>CrdtState\<close>: its invariant, what a merge does to the cells and reports back,
  convergence and idempotence of deliveries, validity of the responses, completeness and progress of
  the change feed, repair of forged cursors, and partial-replica membership. \<open>headroom n s\<close> asks
  that \<open>n\<close> more writes keep the write counter below \<open>2 ^ 63\<close>, where it is an exact cursor.
\<close>

lemma merge_with_security_Inr:
  "merge_with_security json_len p device security s = (s', Inr resp) \<longleftrightarrow>
   merge_inner json_len p device security s = Inr (s', resp)"
  by (auto simp: merge_with_security_def split: sum.splits)

lemma merge_with_security_Inl:
  "merge_with_security json_len p device security s = (s', Inl e) \<Longrightarrow> s' = s"
  by (auto simp: merge_with_security_def split: sum.splits)

abbreviation open_security :: sync_security where
  "open_security \<equiv> without_audit allow_all_authorizer noop_validator"

lemma open_hooks [simp]: "hook_result open_security ctx m op = Inr None"
  by (simp add: hook_result_def consult_hooks_def without_audit_def allow_all_authorizer_def
      noop_validator_def)

lemma open_permitted [simp]: "permitted open_security ctx m op"
  by (simp add: permitted_def)

lemma open_filter [simp]: "filter (permitted open_security ctx m) ops = ops"
  by (induction ops) simp_all

lemma open_rejections [simp]: "rejections_of open_security ctx m op = []"
  by (simp add: rejections_of_def)

lemma merge_payload_Inr:
  "merge_payload json_len p device s = (s', Inr resp) \<longleftrightarrow>
   merge_inner json_len p device open_security s = Inr (s', resp)"
  by (simp add: merge_payload_def merge_with_security_Inr)

subsection \<open>Invariant and effect\<close>

text \<open>Property C9: whatever a request contains and the hooks decide, a merge either fails and leaves
  the server as it was, or keeps its invariant: every cell is valid, was written by a client, has a
  clock the server has reached and a write number of its own, and every issued cursor is real.\<close>

theorem merge_atomic_invariant:
  assumes "state_inv s" "headroom 20000 s"
    and "merge_with_security json_len p device security s = (s', r)"
  shows "state_inv s' \<and> (\<forall>e. r = Inl e \<longrightarrow> s' = s)"
proof (cases r)
  case (Inl e)
  with assms merge_with_security_Inl show ?thesis by blast
next
  case (Inr resp)
  with assms have "merge_inner json_len p device security s = Inr (s', resp)"
    by (simp add: merge_with_security_Inr)
  from merge_inner_spec(1) [OF this assms(1,2)] Inr show ?thesis by simp
qed


text \<open>The server clock strictly exceeds every clock it has seen after a merge, and one
  request cannot move it by more than 1000001.\<close>

theorem merge_clock_bounds:
  assumes "state_inv s" "headroom 20000 s"
    and "merge_with_security json_len p device security s = (s', Inr resp)"
  shows "unat (global_lamport s) < unat (global_lamport s') \<and>
         unat (global_lamport s') \<le> unat (global_lamport s) + 1000001 \<and>
         unat (source_lamport p) < unat (global_lamport s') \<and>
         (\<forall>k c. bt_get (cells s') k = Some c \<longrightarrow> lamport_clock (cmeta c) < global_lamport s')"
proof -
  have mi: "merge_inner json_len p device security s = Inr (s', resp)"
    using assms(3) by (simp add: merge_with_security_Inr)
  note spec = merge_inner_spec [OF mi assms(1,2)]
  have ok: "client_request_ok (state_table s) device p"
    and adv: "unat (source_lamport p) \<le> unat (global_lamport s) + 1000000"
    using merge_inner_inv [OF mi] by blast+
  have "lamport_clock (cmeta c) < global_lamport s'" if stored: "bt_get (cells s') k = Some c" for k c
  proof -
    consider "bt_get (cells s) k = Some c" | "(k, c) \<in> set (payload_cells p)"
      using lww.run_origin [OF spec(5) stored] by auto
    then have "stored_ok (state_table s) (max (global_lamport s) (source_lamport p)) k c"
    proof cases
      case 1
      then show ?thesis
        using assms(1) by (auto simp: state_inv_def cells_inv_def stored_ok_def le_max_iff_disj)
    qed (rule request_stored_ok [OF ok])
    then show ?thesis
      using spec(3) by (auto simp: stored_ok_def word_less_nat_alt word_le_nat_alt)
  qed
  with spec(3) adv show ?thesis by auto
qed

subsection \<open>Convergence and idempotence\<close>

text \<open>A sequence of deliveries, every one of which has to succeed.\<close>

fun deliver_all :: "json_len \<Rightarrow> (sync_payload \<times> string) list \<Rightarrow> crdt_state \<Rightarrow> crdt_state option" where
  "deliver_all json_len [] s = Some s"
| "deliver_all json_len ((p, device) # ds) s =
     (case merge_payload json_len p device s of
        (s', Inl e) \<Rightarrow> None
      | (s', Inr resp) \<Rightarrow> deliver_all json_len ds s')"

abbreviation delivered_cells :: "(sync_payload \<times> string) list \<Rightarrow> (cell_key \<times> crdt_column) list" where
  "delivered_cells ds \<equiv> concat (map (\<lambda>d. payload_cells (fst d)) ds)"

lemma deliver_all_run:
  assumes "deliver_all json_len ds s = Some s'" "state_inv s" "headroom (20000 * length ds) s"
  shows "state_inv s' \<and> lww.run (delivered_cells ds) (bt_get (cells s)) = Inr (bt_get (cells s'))"
  using assms
proof (induction ds arbitrary: s)
  case (Cons d ds)
  obtain p device where d: "d = (p, device)" by fastforce
  obtain s1 resp where "merge_payload json_len p device s = (s1, Inr resp)"
    and rest: "deliver_all json_len ds s1 = Some s'"
    using Cons.prems(1) by (auto simp: d split: prod.splits sum.splits)
  then have mi: "merge_inner json_len p device open_security s = Inr (s1, resp)"
    by (simp add: merge_payload_Inr)
  have head: "headroom 20000 s" using Cons.prems(3) by (simp add: headroom_def)
  note spec = merge_inner_spec [OF mi Cons.prems(2) head]
  have "length (payload_cells p) \<le> 20000"
    using merge_inner_inv [OF mi] request_cells_bounded by blast
  then have "headroom (20000 * length ds) s1"
    using spec(4) Cons.prems(3) by (simp add: headroom_def)
  from Cons.IH [OF rest spec(1) this] spec(5) show ?case by (simp add: d)
qed simp

lemma stored_value_refl: "stored_ok t b k c \<Longrightarrow> value_eq (cvalue c) (cvalue c)"
  by (auto simp: stored_ok_def cell_ok_def intro: value_eq_refl)

text \<open>Property C8: replicas converge. Two servers that start in the same state and accept the same
  cells, in any order, batched into requests in any way and with any repetition, hold for every cell
  the same version and equal values.\<close>

theorem deliveries_converge:
  assumes "state_inv s" "headroom (20000 * length ds) s" "headroom (20000 * length ds') s"
    and "deliver_all json_len ds s = Some s1" "deliver_all json_len ds' s = Some s2"
    and "set (delivered_cells ds) = set (delivered_cells ds')"
  shows "rel_option (\<lambda>a b. cmeta a = cmeta b \<and> value_eq (cvalue a) (cvalue b))
           (bt_get (cells s1) k) (bt_get (cells s2) k)"
proof -
  have 1: "state_inv s1" "lww.run (delivered_cells ds) (bt_get (cells s)) = Inr (bt_get (cells s1))"
    using deliver_all_run [OF assms(4,1,2)] by auto
  have 2: "lww.run (delivered_cells ds') (bt_get (cells s)) = Inr (bt_get (cells s2))"
    using deliver_all_run [OF assms(5,1,3)] by auto
  have refl: "value_eq (cvalue c) (cvalue c)" if "bt_get (cells s1) k = Some c" for c
    using 1(1) that stored_value_refl unfolding state_inv_def cells_inv_def by blast
  have "rel_option (\<lambda>a b. cmeta a = cmeta b \<and> (a = b \<or> same_value a b))
      (bt_get (cells s1) k) (bt_get (cells s2) k)"
    by (rule lww.run_converges [OF 1(2) 2 assms(6)])
  with refl show ?thesis
    by (cases "bt_get (cells s1) k"; cases "bt_get (cells s2) k") auto
qed

lemma open_merge_op:
  "merge_op open_security ctx op (s, rjs) =
     rbind (lww_apply (bt_get (cells s) (fst op)) (snd op))
       (\<lambda>apply. Inr (if apply then store_cell (fst op) (snd op) s else s, rjs))"
proof -
  obtain row n c where op: "op = ((row, n), c)" by (metis prod.collapse)
  have "consult_hooks open_security ctx (mutation_of (row, n) c) (bt_get (cells s) (row, n)) = Inr None"
    using open_hooks [of ctx "bt_get (cells s)" "((row, n), c)"] by (simp add: hook_result_def del: open_hooks)
  then show ?thesis unfolding op merge_op_def merge_cell_def fst_conv snd_conv by (simp add: Let_def)
qed

lemma merge_ops_kept:
  "\<forall>(k, c)\<in>set ops. lww_apply (bt_get (cells s) k) c = Inr False \<Longrightarrow>
   foldM (merge_op open_security ctx) ops (s, rjs) = Inr (s, rjs)"
proof (induction ops)
  case (Cons op ops)
  then have "lww_apply (bt_get (cells s) (fst op)) (snd op) = Inr False" by auto
  then have "merge_op open_security ctx op (s, rjs) = Inr (s, rjs)" by (simp add: open_merge_op)
  with Cons show ?case by simp
qed simp

lemma merge_kept:
  assumes mi: "merge_inner json_len p device open_security s = Inr (s', resp)"
    and kept: "\<forall>(k, c)\<in>set (payload_cells p). lww_apply (bt_get (cells s) k) c = Inr False"
  shows "cells s' = cells s" "cell_seq s' = cell_seq s" "write_seq s' = write_seq s"
proof -
  obtain s1 rjs clock where
    loop: "foldM (merge_op open_security (reference_context s device)) (payload_cells p) (s, []) = Inr (s1, rjs)"
    and br: "build_response json_len p device rjs (s1\<lparr>global_lamport := clock\<rparr>) = Inr (s', resp)"
    using merge_inner_inv [OF mi] by metis
  have "s1 = s" using loop merge_ops_kept [OF kept] by simp
  then show "cells s' = cells s" "cell_seq s' = cell_seq s" "write_seq s' = write_seq s"
    using build_response_fields(1) [OF br] by simp_all
qed

lemma request_value_refl:
  "client_request_ok t device p \<Longrightarrow> (k, c) \<in> set (payload_cells p) \<Longrightarrow> same_value c c"
  using request_stored_ok stored_value_refl by blast

lemma merge_replayed:
  assumes "state_inv s" "headroom 20000 s"
    and "merge_payload json_len p device s = (s1, Inr resp)"
    and "merge_payload json_len p' device' s1 = (s2, r)"
    and "set (payload_cells p') \<subseteq> set (payload_cells p)"
  shows "cells s2 = cells s1 \<and> cell_seq s2 = cell_seq s1 \<and> write_seq s2 = write_seq s1"
proof (cases r)
  case (Inl e)
  then have "s2 = s1" using assms(4) merge_with_security_Inl unfolding merge_payload_def by blast
  then show ?thesis by simp
next
  case (Inr resp')
  have mi: "merge_inner json_len p device open_security s = Inr (s1, resp)"
    and mi': "merge_inner json_len p' device' open_security s1 = Inr (s2, resp')"
    using assms(3,4) Inr by (simp_all add: merge_payload_Inr)
  have ok: "client_request_ok (state_table s) device p" using merge_inner_inv [OF mi] by blast
  have run: "lww.run (payload_cells p) (bt_get (cells s)) = Inr (bt_get (cells s1))"
    using merge_inner_spec(5) [OF mi assms(1,2)] by simp
  have "lww_apply (bt_get (cells s1) k) c = Inr False" if kc: "(k, c) \<in> set (payload_cells p')" for k c
  proof -
    have c: "(k, c) \<in> set (payload_cells p)" using kc assms(5) by blast
    have "lww.run [(k, c)] (bt_get (cells s1)) = Inr (bt_get (cells s1))"
      by (rule lww.run_replay [OF run]) (use c request_value_refl [OF ok c] in auto)
    moreover obtain b where b: "bt_get (cells s1) k = Some b" "cmeta c \<le> cmeta b"
      using lww.run_delivered [OF run c] by blast
    ultimately obtain x where "lww_apply (bt_get (cells s1) k) c = Inr x"
      by (auto simp: lww.put_def)
    with b show ?thesis
      using lww.decide_True [of "bt_get (cells s1) k" c] by (cases x) auto
  qed
  with merge_kept [OF mi'] show ?thesis by blast
qed

text \<open>Replay is harmless. Once a request has been merged, a later request whose cells are
  among those already merged changes no cell, no write number and not the write counter.\<close>

theorem merge_replay:
  assumes "state_inv s" "headroom 20000 s"
    and "merge_payload json_len p device s = (s1, Inr resp)"
    and "merge_payload json_len p' device' s1 = (s2, r)"
    and "set (payload_cells p') \<subseteq> set (payload_cells p)"
  shows "cells s2 = cells s1 \<and> cell_seq s2 = cell_seq s1 \<and> write_seq s2 = write_seq s1"
  using assms by (rule merge_replayed)

subsection \<open>Totality\<close>

lemma fill_page_total:
  assumes "\<And>c. \<exists>n. json_len c = Inr n"
  shows "\<exists>pg'. fill_page json_len cs pg = Inr pg'"
  using assms
proof (induction json_len cs pg rule: fill_page.induct)
  case (2 json_len q row column_name column rest pg)
  obtain n where "json_len column = Inr n" using 2(2) by blast
  with 2 show ?case by (auto simp: Let_def)
qed simp

lemma build_response_total:
  assumes "\<And>c. \<exists>n. json_len c = Inr n"
  shows "\<exists>r. build_response json_len p device rjs s = Inr r"
proof -
  obtain pg where "fill_page json_len (feed_candidates s (effective_cursor s device (cursor p)))
      \<lparr>response_rows = [], response_bytes = 0, next_cursor = effective_cursor s device (cursor p),
       included = 0\<rparr> = Inr pg"
    using fill_page_total [of json_len, OF assms] by blast
  then show ?thesis by (simp add: build_response_def Let_def)
qed

text \<open>Two different values under one version.\<close>

definition version_conflict :: "crdt_state \<Rightarrow> cell_key \<times> crdt_column \<Rightarrow> bool" where
  "version_conflict s op \<longleftrightarrow>
     (case bt_get (cells s) (fst op) of
        None \<Rightarrow> False
      | Some cur \<Rightarrow> cmeta cur = cmeta (snd op) \<and> \<not> value_eq (cvalue cur) (cvalue (snd op)))"

lemma lww_apply_conflict:
  "version_conflict s op \<Longrightarrow> lww_apply (bt_get (cells s) (fst op)) (snd op) = Inl same_version_error"
  "\<not> version_conflict s op \<Longrightarrow> \<exists>b. lww_apply (bt_get (cells s) (fst op)) (snd op) = Inr b"
  by (auto simp: version_conflict_def lww_apply_def decide_lww_def split: option.splits)

lemma merge_ops_open:
  assumes "distinct (map fst ops)"
  shows "if list_ex (version_conflict s) ops
    then foldM (merge_op open_security ctx) ops (s, rjs) = Inl same_version_error
    else \<exists>s'. foldM (merge_op open_security ctx) ops (s, rjs) = Inr (s', rjs) \<and>
      global_lamport s' = global_lamport s"
  using assms
proof (induction ops arbitrary: s)
  case (Cons op ops)
  show ?case
  proof (cases "version_conflict s op")
    case True
    then show ?thesis by (simp add: open_merge_op lww_apply_conflict)
  next
    case False
    then obtain b where b: "lww_apply (bt_get (cells s) (fst op)) (snd op) = Inr b"
      using lww_apply_conflict(2) by blast
    let ?s = "if b then store_cell (fst op) (snd op) s else s"
    have "version_conflict ?s op' = version_conflict s op'" if "op' \<in> set ops" for op'
    proof -
      have "fst op' \<noteq> fst op" using Cons.prems that
        by (metis distinct.simps(2) image_eqI list.set_map list.simps(9))
      then show ?thesis by (simp add: version_conflict_def)
    qed
    then have "list_ex (version_conflict ?s) ops = list_ex (version_conflict s) ops"
      by (intro list.pred_cong list_ex_cong) simp_all
    with Cons.IH [of ?s] Cons.prems False b show ?thesis by (auto simp: open_merge_op)
  qed
qed simp

lemma merge_payload_total:
  assumes "client_request_ok (state_table s) device p"
    and "unat (source_lamport p) \<le> unat (global_lamport s) + 1000000"
    and "unat (global_lamport s) < 2 ^ 64 - 1"
    and "\<And>c. \<exists>n. json_len c = Inr n"
  shows "if list_ex (version_conflict s) (payload_cells p)
    then merge_payload json_len p device s =
      (s, Inl (InvalidPayload ''the same CRDT version cannot identify different values''))
    else \<exists>s' resp. merge_payload json_len p device s = (s', Inr resp)"
proof -
  let ?loop = "foldM (merge_op open_security (reference_context s device)) (payload_cells p) (s, [])"
  have v: "validate_client_request p device (state_table s) = Inr ()"
    "validate_clock_advance (global_lamport s) (source_lamport p) = Inr ()"
    using assms(1,2) by (simp_all add: validate_client_request_iff validate_clock_advance_ok)
  have mi: "merge_inner json_len p device open_security s =
      rbind ?loop (\<lambda>(s1, rjs). case checked_add_u64 (max (global_lamport s1) (source_lamport p)) 1 of
         None \<Rightarrow> Inl ClockOverflow
       | Some clock \<Rightarrow> build_response json_len p device rjs (s1\<lparr>global_lamport := clock\<rparr>))"
    by (simp add: merge_inner_def v client_request_observed [OF assms(1)] Let_def merge_rows_flat)
  have "unat (source_lamport p) < 2 ^ 63"
    using assms(1) by (simp add: client_request_ok_def payload_ok_def clock_ok_def)
  then obtain clock where clock: "checked_add_u64 (max (global_lamport s) (source_lamport p)) 1 = Some clock"
    using assms(3) by (auto simp: checked_add_u64_def)
  note loop = merge_ops_open [OF request_cells_distinct [OF assms(1)], of s "reference_context s device" "[]"]
  show ?thesis
  proof (cases "list_ex (version_conflict s) (payload_cells p)")
    case True
    then show ?thesis using loop by (simp add: merge_payload_def merge_with_security_def mi same_version_error_def)
  next
    case False
    then obtain s1 where s1: "?loop = Inr (s1, [])" "global_lamport s1 = global_lamport s" using loop by auto
    obtain r where "build_response json_len p device [] (s1\<lparr>global_lamport := clock\<rparr>) = Inr r"
      using build_response_total [of json_len, OF assms(4)] by blast
    then have "merge_inner json_len p device open_security s = Inr r"
      using s1 clock by (simp add: mi)
    then show ?thesis using False by (cases r) (simp add: merge_payload_def merge_with_security_def)
  qed
qed

text \<open>A valid request within the clock limits always gets an answer when cells can be
  encoded: the merge succeeds unless a cell reuses a stored version for another value, and then the
  request is refused as a whole.\<close>

theorem merge_payload_outcome:
  assumes "client_request_ok (state_table s) device p"
    and "unat (source_lamport p) \<le> unat (global_lamport s) + 1000000"
    and "unat (global_lamport s) < 2 ^ 64 - 1"
    and "\<And>c. \<exists>n. json_len c = Inr n"
  shows "if list_ex (version_conflict s) (payload_cells p)
    then merge_payload json_len p device s =
      (s, Inl (InvalidPayload ''the same CRDT version cannot identify different values''))
    else \<exists>s' resp. merge_payload json_len p device s = (s', Inr resp)"
  using assms by (rule merge_payload_total)

subsection \<open>Validity of responses\<close>

lemma in_rejections_of:
  assumes "r \<in> set (rejections_of security ctx m op)"
  shows "rj_todo_id r = fst (fst op)" "rj_column_name r = snd (fst op)" "rj_value r = cvalue (snd op)"
    "rj_metadata r = cmeta (snd op)"
  using assms by (auto simp: rejections_of_def split: sum.splits option.splits)

lemma length_rejections: "length (concat (map (rejections_of security ctx m) ops)) \<le> length ops"
proof (induction ops)
  case (Cons op ops)
  have "length (rejections_of security ctx m op) \<le> 1"
    by (simp add: rejections_of_def split: sum.splits option.splits prod.splits)
  with Cons show ?case by simp
qed simp

lemma server_identifier: "identifier_ok SERVER_DEVICE_ID"
  by (simp add: identifier_ok_def SERVER_DEVICE_ID_def byte_def)

text \<open>Whichever server builds it: the answer to a valid request is valid when it is a page of a store
  that keeps the invariant and rejects cells of the request for printable reasons.\<close>

lemma answer_rejections_ok:
  assumes ok: "client_request_ok t device p"
    and rj: "rejections resp = concat (map (rejections_of security ctx m) (payload_cells p))"
    and reasons: "\<forall>op\<in>set (payload_cells p). \<forall>r\<in>set (rejections_of security ctx m op). reason_ok (rj_reason r)"
    and clk: "source_lamport p \<le> clock"
  shows "\<forall>r\<in>set (rejections resp). rejection_ok t r \<and> lamport_clock (rj_metadata r) \<le> clock"
    and "length (rejections resp) \<le> 20000"
proof -
  show "\<forall>r\<in>set (rejections resp). rejection_ok t r \<and> lamport_clock (rj_metadata r) \<le> clock"
  proof
    fix r assume r: "r \<in> set (rejections resp)"
    then obtain op where op: "op \<in> set (payload_cells p)" "r \<in> set (rejections_of security ctx m op)"
      unfolding rj by auto
    have "stored_ok t (max 0 (source_lamport p)) (fst op) (snd op)"
      by (rule request_stored_ok [OF ok]) (simp add: op(1))
    moreover have "reason_ok (rj_reason r)" using reasons op by blast
    ultimately show "rejection_ok t r \<and> lamport_clock (rj_metadata r) \<le> clock"
      using clk in_rejections_of [OF op(2)] by (auto simp: stored_ok_def rejection_ok_def cell_ok_def)
  qed
  show "length (rejections resp) \<le> 20000"
    unfolding rj using length_rejections request_cells_bounded [OF ok] by (rule order.trans)
qed

lemma answer_changes_ok:
  assumes inv: "state_inv s" and page: "page_of s eff resp" and m: "nested_wf m" "changes resp = rows_of m"
  shows "\<forall>((row, n), c)\<in>set (payload_cells resp). cell_ok (state_table s) n c \<and> lamport_clock (cmeta c) \<le> global_lamport s"
    and "\<forall>row\<in>set (changes resp). identifier_ok (todo_id row) \<and> row_columns row \<noteq> []"
    and "distinct (map todo_id (changes resp))" "distinct (map fst (payload_cells resp))"
    and "length (changes resp) \<le> 1000" "length (payload_cells resp) \<le> 1000"
proof -
  have stored: "stored_ok (state_table s) (global_lamport s) k c" if "(k, c) \<in> set (payload_cells resp)" for k c
  proof -
    have "bt_get (cells s) k = Some c" using page that by (simp add: page_of_def)
    then show ?thesis using inv by (simp add: state_inv_def cells_inv_def)
  qed
  show "\<forall>((row, n), c)\<in>set (payload_cells resp). cell_ok (state_table s) n c \<and> lamport_clock (cmeta c) \<le> global_lamport s"
    using stored by (fastforce simp: stored_ok_def)
  show len: "length (payload_cells resp) \<le> 1000"
    using page by (simp add: page_of_def limits)
  show "length (changes resp) \<le> 1000"
    using len rows_of_length [OF m(1)] m(2) by (simp add: payload_cells_def)
  show "distinct (map todo_id (changes resp))"
    using m bt_wf_distinct [of m] by (simp add: nested_wf_def del: distinct_map)
  show "distinct (map fst (payload_cells resp))"
    using rows_of_distinct [OF m(1)] m(2) by (simp add: payload_cells_def)
  show "\<forall>row\<in>set (changes resp). identifier_ok (todo_id row) \<and> row_columns row \<noteq> []"
  proof
    fix row assume row: "row \<in> set (changes resp)"
    then have ne: "row_columns row \<noteq> []" using m by (auto simp: rows_of_def nested_wf_def)
    then obtain n c where "(n, c) \<in> set (row_columns row)" by (cases "row_columns row") auto
    then have "((todo_id row, n), c) \<in> set (payload_cells resp)"
      using row unfolding payload_cells_iff by blast
    with stored ne show "identifier_ok (todo_id row) \<and> row_columns row \<noteq> []"
      by (fastforce simp: stored_ok_def)
  qed
qed

lemma answer_ok:
  assumes ok: "client_request_ok (state_table s) device p"
    and inv: "state_inv s" and page: "page_of s eff resp" and m: "nested_wf m" "changes resp = rows_of m"
    and rj: "rejections resp = concat (map (rejections_of security ctx c) (payload_cells p))"
      "\<forall>op\<in>set (payload_cells p). \<forall>r\<in>set (rejections_of security ctx c op). reason_ok (rj_reason r)"
    and clk: "source_lamport p \<le> global_lamport s" "source_lamport resp = global_lamport s"
    and f: "protocol_version resp = protocol_version p" "schema_fingerprint resp = table_fingerprint (state_table s)"
      "source_device_id resp = SERVER_DEVICE_ID" "0 \<le> cursor resp"
      "\<forall>v. cursor_token resp = Some v \<longrightarrow> identifier_ok v" "\<forall>v. server_epoch resp = Some v \<longrightarrow> identifier_ok v"
  shows "server_response_ok (state_table s) resp \<longleftrightarrow> unat (global_lamport s) < 2 ^ 63"
proof -
  note ch = answer_changes_ok [OF inv page m] and rejs = answer_rejections_ok [OF ok rj clk(1)]
  have version: "3 \<le> unat (protocol_version resp)" "unat (protocol_version resp) \<le> 4"
    using ok f(1) by (simp_all add: client_request_ok_def payload_ok_def)
  have "payload_ok (state_table s) resp \<longleftrightarrow> unat (global_lamport s) < 2 ^ 63"
    unfolding payload_ok_def clock_ok_def
    using ch rejs clk(2) f version server_identifier by fastforce
  moreover have "\<forall>(key, cell)\<in>set (payload_cells resp). lamport_clock (cmeta cell) \<le> source_lamport resp"
    using ch(1) clk(2) by fastforce
  moreover have "\<forall>r\<in>set (rejections resp). lamport_clock (rj_metadata r) \<le> source_lamport resp"
    using rejs(1) clk(2) by simp
  ultimately show ?thesis unfolding server_response_ok_def using f(3) by blast
qed

lemma merge_inner_rows:
  assumes "merge_inner json_len p device security s = Inr (s', resp)" "state_inv s" "headroom 20000 s"
  obtains m where "nested_wf m" "changes resp = rows_of m"
  using merge_inner_steps [OF assms] build_response_page(2) by metis

lemma merge_response_ok:
  assumes mi: "merge_inner json_len p device security s = Inr (s', resp)"
    and inv: "state_inv s" "headroom 20000 s"
  shows "server_response_ok (state_table s) resp \<longleftrightarrow> unat (global_lamport s') < 2 ^ 63"
proof -
  let ?ctx = "reference_context s device"
  note spec = merge_inner_spec [OF mi inv]
  obtain s1 rjs clock where ok: "client_request_ok (state_table s) device p"
    and loop: "foldM (merge_op security ?ctx) (payload_cells p) (s, []) = Inr (s1, rjs)"
    and br: "build_response json_len p device rjs (s1\<lparr>global_lamport := clock\<rparr>) = Inr (s', resp)"
    using merge_inner_inv [OF mi] by metis
  note f = build_response_fields [OF br]
  obtain m where m: "nested_wf m" "changes resp = rows_of m" by (rule merge_inner_rows [OF mi inv])
  have clk: "source_lamport p \<le> global_lamport s'" using spec(3) by (simp add: word_le_nat_alt)
  have tab: "state_table s' = state_table s" "state_table (s1\<lparr>global_lamport := clock\<rparr>) = state_table s"
    using spec(2) f(1) by (simp_all add: issue_cursor_def)
  have reasons: "\<forall>op\<in>set (payload_cells p). \<forall>r\<in>set (rejections_of security ?ctx (bt_get (cells s)) op). reason_ok (rj_reason r)"
    by (rule ref_loop.loop_reasons [OF loop request_cells_distinct [OF ok]]) simp
  have "server_response_ok (state_table s') resp \<longleftrightarrow> unat (global_lamport s') < 2 ^ 63"
    by (rule answer_ok [OF _ spec(1,7) m spec(6) reasons clk spec(9) f(2) _ f(4) spec(11)])
      (use ok tab f(3,7,8) in simp_all)
  then show ?thesis by (simp add: tab)
qed

text \<open>As long as the server clock fits a signed 64-bit integer, every response of the
  server is accepted by the validation the client applies to it; past that bound none is.\<close>

theorem response_valid:
  assumes "state_inv s" "headroom 20000 s"
    and "merge_with_security json_len p device security s = (s', Inr resp)"
  shows "validate_server_response resp (state_table s) = Inr () \<longleftrightarrow> unat (global_lamport s') < 2 ^ 63"
  unfolding validate_server_response_iff
  by (rule merge_response_ok [OF _ assms(1,2)]) (use assms(3) in \<open>simp add: merge_with_security_Inr\<close>)

end
