(* ===== verification/Anti_Entropy.thy ===== *)
theory Anti_Entropy
  imports Reference_Correct
begin

section \<open>The change feed across requests\<close>

text \<open>
  One page of the feed is described by \<open>page_of\<close>. This theory follows a device over many requests,
  interleaved with requests of any other device and with failures: runs of the server as a step
  relation, what no run undoes, and the completeness of the pages a device collects by sending back
  the cursor of the previous response.
\<close>

subsection \<open>Runs of the server\<close>

text \<open>\<open>server_run json_len n s s'\<close>: \<open>n\<close> merges, successful or not, lead from \<open>s\<close> to \<open>s'\<close>.\<close>

inductive server_run :: "json_len \<Rightarrow> nat \<Rightarrow> crdt_state \<Rightarrow> crdt_state \<Rightarrow> bool" for json_len where
  run_none: "server_run json_len 0 s s"
| run_merge: "server_run json_len n s s1 \<Longrightarrow>
    merge_with_security json_len p device security s1 = (s2, r) \<Longrightarrow>
    server_run json_len (Suc n) s s2"

inductive_simps server_run_0 [simp]: "server_run json_len 0 s s'"

text \<open>What one merge keeps of the cells: an entry is either untouched, write number included, or it
  was written by this merge.\<close>

definition grown :: "crdt_state \<Rightarrow> crdt_state \<Rightarrow> bool" where
  "grown s s' \<longleftrightarrow>
     state_table s' = state_table s \<and> last_write s \<le> last_write s' \<and>
     (\<forall>d. max_issued_cursor s d \<le> max_issued_cursor s' d) \<and>
     (\<forall>k a. bt_get (cells s) k = Some a \<longrightarrow> (\<exists>b. bt_get (cells s') k = Some b \<and> cmeta a \<le> cmeta b)) \<and>
     (\<forall>k c. bt_get (cells s') k = Some c \<longrightarrow>
        bt_get (cells s) k = Some c \<and> write_no s' k = write_no s k \<or> last_write s < write_no s' k)"

lemma grown_refl: "grown s s"
  by (auto simp: grown_def)

lemma grown_trans:
  assumes "grown s s1" "grown s1 s2"
  shows "grown s s2"
proof -
  have "\<exists>b. bt_get (cells s2) k = Some b \<and> cmeta a \<le> cmeta b" if "bt_get (cells s) k = Some a" for k a
    using assms that unfolding grown_def by (meson order.trans)
  moreover have "bt_get (cells s) k = Some c \<and> write_no s2 k = write_no s k \<or> last_write s < write_no s2 k"
    if "bt_get (cells s2) k = Some c" for k c
    using assms that unfolding grown_def by (metis order.strict_trans1)
  moreover have "max_issued_cursor s d \<le> max_issued_cursor s2 d" for d
    using assms unfolding grown_def by (meson order.trans)
  ultimately show ?thesis using assms by (simp add: grown_def)
qed

lemma merge_op_entries:
  assumes "merge_op security ctx (j, x) (s1, rjs) = Inr (s2, rjs')" "unat (write_seq s1) + 1 < 2 ^ 64"
    and "bt_get (cells s2) k = Some c"
  shows "bt_get (cells s1) k = Some c \<and> write_no s2 k = write_no s1 k \<or> last_write s1 < write_no s2 k"
  using assms(1)
proof (cases rule: merge_op_cases)
  case stored
  show ?thesis
  proof (cases "k = j")
    case True
    then show ?thesis
      using stored(3) unat_Suc_u64 [OF assms(2)] by (simp add: write_no_def seq_of_def last_write_def)
  next
    case False
    then show ?thesis using stored(3) assms(3) by (simp add: write_no_def seq_of_def)
  qed
qed (use assms(3) in auto)

lemma merge_ops_entries:
  assumes "foldM (merge_op security ctx) ops (s1, rjs) = Inr (s', rjs')" "loop_ok s b n s1"
    and "\<forall>(k, c)\<in>set ops. stored_ok (state_table s) b k c" "unat (write_seq s) + (n + length ops) < 2 ^ 64"
    and "bt_get (cells s') k = Some c"
  shows "bt_get (cells s1) k = Some c \<and> write_no s' k = write_no s1 k \<or> last_write s1 < write_no s' k"
  using assms
proof (induction ops arbitrary: s1 rjs n)
  case (Cons op ops)
  obtain j x where op: "op = (j, x)" by fastforce
  obtain s2 rjs2 where step: "merge_op security ctx (j, x) (s1, rjs) = Inr (s2, rjs2)"
    and rest: "foldM (merge_op security ctx) ops (s2, rjs2) = Inr (s', rjs')"
    using Cons.prems(1) by (auto simp: op)
  have ok2: "loop_ok s b (Suc n) s2"
    using Cons.prems(3,4) by (intro merge_op_loop_ok [OF step Cons.prems(2)]) (auto simp: op)
  have lim: "unat (write_seq s1) + 1 < 2 ^ 64" using Cons.prems(2,4) by (simp add: loop_ok_def)
  have mono: "last_write s1 \<le> last_write s2"
    using step unat_Suc_u64 [OF lim] by (cases rule: merge_op_cases) (simp_all add: last_write_def)
  have "bt_get (cells s2) k = Some c \<and> write_no s' k = write_no s2 k \<or> last_write s2 < write_no s' k"
    using Cons.IH [OF rest ok2] Cons.prems(3,4,5) by simp
  with merge_op_entries [OF step lim, of k c] mono show ?case by auto
qed simp

lemma grown_merge:
  assumes mi: "merge_inner json_len p device security s = Inr (s', resp)"
    and inv: "state_inv s" "headroom 20000 s"
  shows "grown s s'"
proof -
  note spec = merge_inner_spec [OF mi inv]
  obtain s1 rjs clock where ok: "client_request_ok (state_table s) device p"
    and loop: "foldM (merge_op security (reference_context s device)) (payload_cells p) (s, []) = Inr (s1, rjs)"
    and br: "build_response json_len p device rjs (s1\<lparr>global_lamport := clock\<rparr>) = Inr (s', resp)"
    using merge_inner_inv [OF mi] by metis
  let ?b = "max (global_lamport s) (source_lamport p)"
  have s': "s' = issue_cursor device (cursor resp) (s1\<lparr>global_lamport := clock\<rparr>)"
    by (rule build_response_fields(1) [OF br])
  have start: "loop_ok s ?b 0 s"
    using inv(1) cells_inv_mono [of "global_lamport s" s ?b] by (simp add: loop_ok_def state_inv_def)
  have lim: "unat (write_seq s) + (0 + length (payload_cells p)) < 2 ^ 64"
    using inv(2) request_cells_bounded [OF ok] by (simp add: headroom_def last_write_def)
  have fits: "\<forall>(k, c)\<in>set (payload_cells p). stored_ok (state_table s) ?b k c"
    using request_stored_ok [OF ok] by auto
  have "bt_get (cells s) k = Some c \<and> write_no s' k = write_no s k \<or> last_write s < write_no s' k"
    if "bt_get (cells s') k = Some c" for k c
    using merge_ops_entries [OF loop start fits lim, of k c] that
    by (simp add: s') (simp add: write_no_def seq_of_def)
  moreover have "\<exists>b. bt_get (cells s') k = Some b \<and> cmeta a \<le> cmeta b"
    if "bt_get (cells s) k = Some a" for k a
    by (rule lww.run_monotone [OF spec(5) that])
  moreover have "max_issued_cursor s d \<le> max_issued_cursor s' d" for d
  proof -
    have "issued_cursors s1 = issued_cursors s" using merge_op_loop [OF ok loop inv] by (simp add: loop_ok_def)
    then show ?thesis using spec(11)
      by (auto simp: s' max_issued_cursor_def issue_cursor_def split: option.splits)
  qed
  ultimately show ?thesis using spec(2,4) by (simp add: grown_def)
qed

lemma merge_grows:
  assumes "merge_with_security json_len p device security s = (s', r)" "state_inv s" "headroom 20000 s"
  shows "state_inv s' \<and> grown s s' \<and> last_write s' \<le> last_write s + 20000"
proof (cases r)
  case (Inl e)
  with assms merge_with_security_Inl grown_refl show ?thesis by fastforce
next
  case (Inr resp)
  with assms(1) have mi: "merge_inner json_len p device security s = Inr (s', resp)"
    by (simp add: merge_with_security_Inr)
  have "length (payload_cells p) \<le> 20000"
    using merge_inner_inv [OF mi] request_cells_bounded by blast
  with merge_inner_spec(1,4) [OF mi assms(2,3)] grown_merge [OF mi assms(2,3)] show ?thesis by simp
qed

lemma server_run_grows:
  assumes "server_run json_len n s s'" "state_inv s" "headroom (20000 * n) s"
  shows "state_inv s' \<and> grown s s' \<and> last_write s' \<le> last_write s + 20000 * n"
  using assms
proof (induction rule: server_run.induct)
  case (run_none s)
  then show ?case by (simp add: grown_refl)
next
  case (run_merge n s s1 p device security s2 r)
  then have IH: "state_inv s1" "grown s s1" "last_write s1 \<le> last_write s + 20000 * n"
    by (simp_all add: headroom_def)
  then have "headroom 20000 s1" using run_merge.prems by (simp add: headroom_def)
  from merge_grows [OF run_merge.hyps(2) IH(1) this] IH show ?case
    using grown_trans by fastforce
qed

text \<open>In every state a fresh server reaches through any sequence of requests (fewer than
  \<open>2 ^ 63\<close> possible writes), the invariant holds, so every stored cell is valid for the contract and
  was written by a client device.\<close>

theorem reachable_state_valid:
  assumes "server_run json_len n (crdt_state_new t) s" "20000 * n < 2 ^ 63"
  shows "state_inv s \<and> state_table s = t \<and>
    (\<forall>row column c. bt_get (cells s) (row, column) = Some c \<longrightarrow>
       identifier_ok row \<and> cell_ok t column c \<and> device_id (cmeta c) \<noteq> SERVER_DEVICE_ID)"
proof -
  have "headroom (20000 * n) (crdt_state_new t)"
    using assms(2) by (simp add: headroom_def last_write_def crdt_state_new_def)
  from server_run_grows [OF assms(1) state_inv_new this]
  have s: "state_inv s" "state_table s = t" by (simp_all add: grown_def crdt_state_new_def)
  then have "stored_ok t (global_lamport s) k c" if "bt_get (cells s) k = Some c" for k c
    using that by (simp add: state_inv_def cells_inv_def)
  with s show ?thesis by (fastforce simp: stored_ok_def)
qed

text \<open>No run of the server loses a cell or replaces it by an older version.\<close>

theorem cells_never_regress:
  assumes "state_inv s" "headroom (20000 * n) s" "server_run json_len n s s'"
    and "bt_get (cells s) k = Some a"
  shows "\<exists>b. bt_get (cells s') k = Some b \<and> cmeta a \<le> cmeta b"
  using server_run_grows [OF assms(3,1,2)] assms(4) by (simp add: grown_def)

subsection \<open>Cursors\<close>

lemma cursor_valid_iff:
  assumes "cursors_inv s" "0 \<le> c"
  shows "cursor_valid s device c \<longleftrightarrow> c = 0 \<or> c \<le> max_issued_cursor s device"
proof -
  have "max_issued_cursor s device \<le> i64_or_max (write_seq s)"
    using assms(1) by (auto simp: max_issued_cursor_def cursors_inv_def split: option.splits)
  then show ?thesis by (auto simp: cursor_valid_def)
qed

text \<open>A cursor the server never issued to the device (forged, or from another or a
  restored server) is reported as reset and answered with the feed from the start; any other cursor
  is continued.\<close>

theorem forged_cursor_repaired:
  assumes "state_inv s" "headroom 20000 s"
    and "merge_with_security json_len p device security s = (s', Inr resp)"
  shows "(cursor_reset resp \<longleftrightarrow> cursor p > max_issued_cursor s device) \<and>
    page_of s' (if cursor_reset resp then 0 else cursor p) resp"
proof -
  have mi: "merge_inner json_len p device security s = Inr (s', resp)"
    using assms(3) by (simp add: merge_with_security_Inr)
  note spec = merge_inner_spec [OF mi assms(1,2)]
  have c0: "0 \<le> cursor p"
    using merge_inner_inv [OF mi] by (metis client_request_ok_def payload_ok_def)
  have issued: "0 \<le> max_issued_cursor s device"
    using assms(1) by (auto simp: state_inv_def cursors_inv_def max_issued_cursor_def split: option.splits)
  have valid: "cursor_valid s device (cursor p) \<longleftrightarrow> cursor p = 0 \<or> cursor p \<le> max_issued_cursor s device"
    using assms(1) by (intro cursor_valid_iff c0) (simp add: state_inv_def)
  have "cursor_reset resp \<longleftrightarrow> cursor p > max_issued_cursor s device"
    using spec(8) valid issued c0 by auto
  moreover have "effective_cursor s device (cursor p) = (if cursor_reset resp then 0 else cursor p)"
    using spec(8) by (auto simp: effective_cursor_def)
  ultimately show ?thesis using spec(7) by simp
qed

subsection \<open>A device that follows its cursor\<close>

text \<open>\<open>follows json_len device s c n s' c' R\<close>: starting with cursor \<open>c\<close> in state \<open>s\<close>, after \<open>n\<close>
  requests of any devices the server is in state \<open>s'\<close> and the device, which always sent the cursor it
  had last received, has cursor \<open>c'\<close> and has received the cells \<open>R\<close>.\<close>

inductive follows ::
  "json_len \<Rightarrow> string \<Rightarrow> crdt_state \<Rightarrow> int \<Rightarrow> nat \<Rightarrow> crdt_state \<Rightarrow> int \<Rightarrow> (cell_key \<times> crdt_column) set \<Rightarrow> bool"
  for json_len device where
  follow_start: "follows json_len device s c 0 s c {}"
| follow_other: "follows json_len device s c n s1 c1 R \<Longrightarrow>
    merge_with_security json_len p other security s1 = (s2, r) \<Longrightarrow>
    follows json_len device s c (Suc n) s2 c1 R"
| follow_page: "follows json_len device s c n s1 c1 R \<Longrightarrow>
    merge_with_security json_len p device security s1 = (s2, Inr resp) \<Longrightarrow> cursor p = c1 \<Longrightarrow>
    follows json_len device s c (Suc n) s2 (cursor resp) (R \<union> set (payload_cells resp))"

definition followed :: "string \<Rightarrow> int \<Rightarrow> crdt_state \<Rightarrow> int \<Rightarrow> (cell_key \<times> crdt_column) set \<Rightarrow> bool" where
  "followed device c s' c' R \<longleftrightarrow>
     c \<le> c' \<and> c' \<le> int (last_write s') \<and> (c' = 0 \<or> c' \<le> max_issued_cursor s' device) \<and>
     (\<forall>k x. bt_get (cells s') k = Some x \<and> c < int (write_no s' k) \<and> int (write_no s' k) \<le> c' \<longrightarrow> (k, x) \<in> R)"

lemma followed_grown:
  assumes "followed device c s1 c1 R" "grown s1 s2"
  shows "followed device c s2 c1 R"
proof -
  have g: "last_write s1 \<le> last_write s2" "max_issued_cursor s1 device \<le> max_issued_cursor s2 device"
    "\<And>k x. bt_get (cells s2) k = Some x \<Longrightarrow>
      bt_get (cells s1) k = Some x \<and> write_no s2 k = write_no s1 k \<or> last_write s1 < write_no s2 k"
    using assms(2) by (simp_all add: grown_def)
  have f: "c \<le> c1" "c1 \<le> int (last_write s1)" "c1 = 0 \<or> c1 \<le> max_issued_cursor s1 device"
    "\<And>k x. bt_get (cells s1) k = Some x \<Longrightarrow> c < int (write_no s1 k) \<Longrightarrow> int (write_no s1 k) \<le> c1 \<Longrightarrow> (k, x) \<in> R"
    using assms(1) by (simp_all add: followed_def)
  have "(k, x) \<in> R"
    if "bt_get (cells s2) k = Some x" "c < int (write_no s2 k)" "int (write_no s2 k) \<le> c1" for k x
    using g(3) [OF that(1)] f(2) f(4) [of k x] that(2,3) by auto
  then show ?thesis using f g(1,2) by (auto simp: followed_def)
qed

lemma followed_page:
  assumes f: "followed device c s1 c1 R"
    and merge: "merge_with_security json_len p device security s1 = (s2, Inr resp)" "cursor p = c1"
    and inv: "state_inv s1" "headroom 20000 s1" and c0: "0 \<le> c"
  shows "followed device c s2 (cursor resp) (R \<union> set (payload_cells resp))"
    and "\<not> cursor_reset resp"
    and "page_of s2 c1 resp"
proof -
  have mi: "merge_inner json_len p device security s1 = Inr (s2, resp)"
    using merge(1) by (simp add: merge_with_security_Inr)
  note spec = merge_inner_spec [OF mi inv]
  have c1: "c \<le> c1" "c1 \<le> int (last_write s1)" "c1 = 0 \<or> c1 \<le> max_issued_cursor s1 device"
    using f by (simp_all add: followed_def)
  have valid: "cursor_valid s1 device (cursor p)"
    using c1 c0 inv(1) merge(2) by (subst cursor_valid_iff) (auto simp: state_inv_def)
  then show "\<not> cursor_reset resp" using spec(8) by simp
  have page: "page_of s2 c1 resp" using spec(7) valid merge(2) by (simp add: effective_cursor_def)
  then show "page_of s2 c1 resp" .
  have f2: "followed device c s2 c1 R"
    using followed_grown [OF f] grown_merge [OF mi inv] .
  have old: "(k, x) \<in> R"
    if "bt_get (cells s2) k = Some x" "c < int (write_no s2 k)" "int (write_no s2 k) \<le> c1" for k x
    using f2 that unfolding followed_def by blast
  have new: "(k, x) \<in> set (payload_cells resp)"
    if "bt_get (cells s2) k = Some x" "c1 < int (write_no s2 k)" "int (write_no s2 k) \<le> cursor resp" for k x
    using page that unfolding page_of_def by blast
  have bounds: "c1 \<le> cursor resp" "cursor resp \<le> int (last_write s2)"
    using page c1(2) spec(4) unfolding page_of_def by (cases "has_more resp"; simp)+
  have "(k, x) \<in> R \<union> set (payload_cells resp)"
    if "bt_get (cells s2) k = Some x" "c < int (write_no s2 k)" "int (write_no s2 k) \<le> cursor resp" for k x
    using old new that by (cases "int (write_no s2 k) \<le> c1") auto
  then show "followed device c s2 (cursor resp) (R \<union> set (payload_cells resp))"
    unfolding followed_def using bounds c1(1) spec(10) by auto
qed

lemma follows_followed:
  assumes "follows json_len device s c n s' c' R" "state_inv s" "headroom (20000 * n) s"
    and "0 \<le> c" "c = 0 \<or> c \<le> max_issued_cursor s device" "c \<le> int (last_write s)"
  shows "state_inv s' \<and> last_write s' \<le> last_write s + 20000 * n \<and> followed device c s' c' R"
  using assms
proof (induction rule: follows.induct)
  case (follow_start s c)
  then show ?case by (auto simp: followed_def)
next
  case (follow_other s c n s1 c1 R p other security s2 r)
  then have IH: "state_inv s1" "last_write s1 \<le> last_write s + 20000 * n" "followed device c s1 c1 R"
    by (simp_all add: headroom_def)
  have "headroom 20000 s1" using IH(2) follow_other.prems(2) by (simp add: headroom_def)
  with merge_grows [OF follow_other.hyps(2) IH(1)] IH followed_grown [OF IH(3)] show ?case by simp
next
  case (follow_page s c n s1 c1 R p security s2 resp)
  then have IH: "state_inv s1" "last_write s1 \<le> last_write s + 20000 * n" "followed device c s1 c1 R"
    by (simp_all add: headroom_def)
  have head: "headroom 20000 s1" using IH(2) follow_page.prems(2) by (simp add: headroom_def)
  with merge_grows [OF follow_page.hyps(2) IH(1)] IH
    followed_page(1) [OF IH(3) follow_page.hyps(2,3) IH(1) head follow_page.prems(3)]
  show ?case by simp
qed

text \<open>Property C7: the change feed skips nothing. A device that starts at the beginning of the feed and
  always returns the cursor of the last response has, once a response announces no more cells,
  received the current version of every cell the server stores, however its pages were interleaved
  with the requests of other devices; and its cursor is never reset.\<close>

theorem feed_complete:
  assumes "state_inv s" "headroom (20000 * Suc n) s"
    and "follows json_len device s 0 n s1 c1 R"
    and "merge_with_security json_len p device security s1 = (s2, Inr resp)" "cursor p = c1"
    and "\<not> has_more resp"
  shows "\<not> cursor_reset resp \<and>
    (\<forall>k x. bt_get (cells s2) k = Some x \<longrightarrow> (k, x) \<in> R \<union> set (payload_cells resp))"
proof -
  have inv1: "state_inv s1" "last_write s1 \<le> last_write s + 20000 * n" "followed device 0 s1 c1 R"
    using follows_followed [OF assms(3,1)] assms(2) by (simp_all add: headroom_def)
  have head: "headroom 20000 s1" using inv1(2) assms(2) by (simp add: headroom_def)
  note page = followed_page [OF inv1(3) assms(4,5) inv1(1) head order.refl]
  have feed2: "feed_inv s2"
    using merge_grows [OF assms(4) inv1(1) head] by (simp add: state_inv_def)
  have top: "cursor resp = int (last_write s2)"
    using page(3) assms(6) by (simp add: page_of_def)
  have "(k, x) \<in> R \<union> set (payload_cells resp)" if "bt_get (cells s2) k = Some x" for k x
    using page(1) seq_of_bounds [OF feed2 that] that top unfolding followed_def by auto
  with page(2) show ?thesis by blast
qed

text \<open>Property C28: paging makes progress. Every response that announces more cells carries at least
  one cell and moves the cursor of the device strictly towards the write counter, which it does not
  reach yet, and the new cursor is one the server will accept.\<close>

theorem feed_progress:
  assumes "state_inv s" "headroom 20000 s"
    and "merge_with_security json_len p device security s = (s', Inr resp)" "has_more resp"
  shows "payload_cells resp \<noteq> [] \<and> effective_cursor s device (cursor p) < cursor resp \<and>
    cursor resp < int (last_write s') \<and> cursor resp \<le> max_issued_cursor s' device"
proof -
  have mi: "merge_inner json_len p device security s = Inr (s', resp)"
    using assms(3) by (simp add: merge_with_security_Inr)
  note spec = merge_inner_spec [OF mi assms(1,2)]
  obtain m where "nested_wf m" "changes resp = rows_of m" by (rule merge_inner_rows [OF mi assms(1,2)])
  then have rows: "changes resp \<noteq> []" "\<forall>row\<in>set (changes resp). row_columns row \<noteq> []"
    using spec(7) assms(4) by (auto simp: page_of_def rows_of_def nested_wf_def)
  then have "payload_cells resp \<noteq> []"
    by (cases "changes resp") (auto simp: payload_cells_def row_cells_def)
  with spec(7,10) assms(4) show ?thesis by (simp add: page_of_def)
qed

end
