(* ===== verification/Partial_Replica.thy ===== *)
theory Partial_Replica
  imports Anti_Entropy
begin

section \<open>Authoritative partial replicas\<close>

text \<open>
  What \<open>merge_partial\<close> of the reference server returns: the members of a scope are exactly the live
  rows that satisfy the interest after the merge, the snapshot carries exactly their cells, and the
  evicted rows are the known rows that are no longer members.
\<close>

definition in_scope :: "replica_interest \<Rightarrow> crdt_state \<Rightarrow> string \<Rightarrow> bool" where
  "in_scope i s row \<longleftrightarrow>
     (\<exists>n c. bt_get (cells s) (row, n) = Some c) \<and>
     (\<forall>c. bt_get (cells s) (row, DELETED_COLUMN) = Some c \<longrightarrow> cvalue c \<noteq> VBoolean True) \<and>
     (\<forall>pr\<in>set (predicates i).
        case pr of
          IdEquals e \<Rightarrow> row = e
        | IdPrefix prefix \<Rightarrow> (\<exists>rest. row = prefix @ rest)
        | ColumnEquals column v \<Rightarrow>
            (\<exists>c. bt_get (cells s) (row, column) = Some c \<and> value_eq (cvalue c) v))"

lemma value_eq_true [simp]: "value_eq v (VBoolean b) \<longleftrightarrow> v = VBoolean b"
  by (cases v) auto

lemma values_by_row_get:
  assumes "bt_wf (cells s)"
  shows "nested_get (values_by_row s) r n = map_option cvalue (bt_get (cells s) (r, n))"
proof -
  let ?es = "map (\<lambda>(key, column). (key, cvalue column)) (cells s)"
  have keys: "map fst ?es = bt_keys (cells s)" by (simp add: comp_def case_prod_beta)
  have "distinct (map fst ?es)" unfolding keys by (rule bt_wf_distinct [OF assms])
  then have "nested_get (values_by_row s) r n = map_of ?es (r, n)"
    unfolding values_by_row_def by (subst nested_get_group_cells) (auto split: option.splits)
  then show ?thesis by (simp add: map_of_map [unfolded comp_def] case_prod_beta)
qed

lemma values_by_row_wf: "nested_wf (values_by_row s)"
  by (simp add: values_by_row_def)

lemma values_by_row_rows: "set (bt_keys (values_by_row s)) = fst ` set (bt_keys (cells s))"
  unfolding values_by_row_def group_cells_keys by (force simp: image_iff)

lemma row_values:
  assumes "bt_wf (cells s)" "bt_get (values_by_row s) row = Some vals"
  shows "bt_get vals n = map_option cvalue (bt_get (cells s) (row, n))"
  using values_by_row_get [OF assms(1), of row n] assms(2) by (simp add: nested_get_def)

lemma row_in_scope:
  assumes wf: "bt_wf (cells s)" and row: "bt_get (values_by_row s) row = Some vals"
  shows "live_values vals \<and> interest_matches i row vals \<longleftrightarrow> in_scope i s row"
proof -
  note get = row_values [OF wf row]
  have "row \<in> set (bt_keys (values_by_row s))"
    using row bt_get_None [of "values_by_row s" row] by (auto simp del: set_map)
  then have "\<exists>n. (row, n) \<in> set (bt_keys (cells s))"
    unfolding values_by_row_rows by force
  then have ex: "\<exists>n c. bt_get (cells s) (row, n) = Some c"
    using bt_get_None [of "cells s"] by (metis not_None_eq)
  have "predicate_matches row vals pr \<longleftrightarrow>
      (case pr of
          IdEquals e \<Rightarrow> row = e
        | IdPrefix prefix \<Rightarrow> (\<exists>rest. row = prefix @ rest)
        | ColumnEquals column v \<Rightarrow>
            (\<exists>c. bt_get (cells s) (row, column) = Some c \<and> value_eq (cvalue c) v))" for pr
    by (cases pr) (auto simp: predicate_matches_def starts_with_iff get split: option.splits)
  moreover have "live_values vals \<longleftrightarrow>
      (\<forall>c. bt_get (cells s) (row, DELETED_COLUMN) = Some c \<longrightarrow> cvalue c \<noteq> VBoolean True)"
    by (auto simp: live_values_def get split: option.splits)
  ultimately show ?thesis
    using ex by (simp add: in_scope_def interest_matches_def list_all_iff)
qed

lemma scope_members_iff:
  assumes "bt_wf (cells s)"
  shows "row \<in> set (scope_members i s) \<longleftrightarrow> in_scope i s row"
proof -
  have wf: "bt_wf (values_by_row s)" using values_by_row_wf [of s] by (simp add: nested_wf_def)
  have "row \<in> set (scope_members i s) \<longleftrightarrow>
      (\<exists>vals. bt_get (values_by_row s) row = Some vals \<and> live_values vals \<and> interest_matches i row vals)"
    unfolding scope_members_def by (auto simp: bt_get_iff [OF wf] image_iff intro: bt_get_SomeD)
  also have "\<dots> \<longleftrightarrow> in_scope i s row"
  proof
    assume scope: "in_scope i s row"
    then obtain n c where "bt_get (cells s) (row, n) = Some c" by (auto simp: in_scope_def)
    then have "row \<in> set (bt_keys (values_by_row s))"
      unfolding values_by_row_rows by (force dest: bt_get_SomeD)
    then obtain vals where "bt_get (values_by_row s) row = Some vals"
      using bt_get_None [of "values_by_row s" row] by (auto simp del: set_map)
    with row_in_scope [OF assms] scope show "\<exists>vals. bt_get (values_by_row s) row = Some vals \<and>
        live_values vals \<and> interest_matches i row vals" by blast
  qed (use row_in_scope [OF assms] in blast)
  finally show ?thesis .
qed

lemma scope_members_sorted: "sorted_wrt (<) (scope_members i s)"
proof -
  have "bt_wf (filter (\<lambda>(_, vals). live_values vals) (values_by_row s))"
    using values_by_row_wf [of s] by (intro bt_wf_filter) (simp add: nested_wf_def)
  then show ?thesis
    unfolding scope_members_def bt_wf_def by (intro sorted_wrt_filter)
qed

lemma snapshot_loop_spec:
  assumes "snapshot_loop json_len members es st = Inr (m, bytes)" "sorted_wrt (<) members"
    and "snd st \<le> MAX_RESPONSE_BYTES"
  shows "m = group_cells (filter (\<lambda>e. fst (fst e) \<in> set members) es) (fst st) \<and> bytes \<le> MAX_RESPONSE_BYTES"
  using assms
proof (induction json_len members es st arbitrary: m bytes rule: snapshot_loop.induct)
  case (2 json_len members row column_name column rest st)
  show ?case
  proof (cases "row \<in> set members")
    case True
    with 2 show ?thesis by (auto simp: Let_def split: if_splits)
  next
    case False
    with 2 show ?thesis by simp
  qed
qed auto

lemma merge_partial_inv:
  assumes "merge_partial json_len rq device s = (s', Inr rs)"
  obtains sync snapshot bytes where
    "request_ok (state_table s) device rq"
    "merge_inner json_len (rq_sync rq) device open_security s = Inr (s', sync)"
    "length (scope_members (rq_interest rq) s') \<le> unat (interest_limit (rq_interest rq))"
    "snapshot_loop json_len (scope_members (rq_interest rq) s') (cells s') ([], 0) = Inr (snapshot, bytes)"
    "rs = \<lparr>rs_scope_id = rq_scope_id rq, rs_scope_version = rq_scope_version rq,
        rs_member_ids = scope_members (rq_interest rq) s',
        rs_evicted_row_ids = filter (\<lambda>row. \<not> binary_search (scope_members (rq_interest rq) s') row)
          (rq_known_member_ids rq),
        rs_sync = sync\<lparr>changes := rows_of snapshot, has_more := False\<rparr>\<rparr>"
    "response_ok (state_table s') rs"
proof -
  have mp: "merge_partial_inner json_len rq device s = Inr (s', rs)"
    using assms by (auto simp: merge_partial_def split: sum.splits)
  obtain s1 merged where m: "merge_payload json_len (rq_sync rq) device s = (s1, merged)" by fastforce
  with mp obtain sync where sync: "merged = Inr sync"
    by (auto simp: merge_partial_inner_def)
  let ?ms = "scope_members (rq_interest rq) s1"
  from mp m sync have lim: "\<not> length ?ms > unat (interest_limit (rq_interest rq))"
    by (auto simp: merge_partial_inner_def Let_def split: if_splits)
  from mp m sync lim obtain snapshot bytes where
    snap: "snapshot_loop json_len ?ms (cells s1) ([], 0) = Inr (snapshot, bytes)"
    by (auto simp: merge_partial_inner_def Let_def)
  have rq: "request_ok (state_table s) device rq"
    using mp by (auto simp: merge_partial_inner_def request_validate_iff)
  have "s' = s1" "response_ok (state_table s1) rs"
    "rs = \<lparr>rs_scope_id = rq_scope_id rq, rs_scope_version = rq_scope_version rq, rs_member_ids = ?ms,
        rs_evicted_row_ids = filter (\<lambda>row. \<not> binary_search ?ms row) (rq_known_member_ids rq),
        rs_sync = sync\<lparr>changes := rows_of snapshot, has_more := False\<rparr>\<rparr>"
    using mp m sync lim snap by (auto simp: merge_partial_inner_def Let_def response_validate_iff)
  then show thesis
    using that [OF rq] m sync lim snap by (simp add: merge_payload_Inr)
qed

text \<open>Property C11: a partial-replica answer is authoritative. Its members are exactly the rows that
  after the merge have a cell, are not deleted and satisfy every predicate of the interest; they do
  not exceed the declared limit; the snapshot has exactly the cells of the members; the evicted rows
  are the known rows that are not members; and the answer passes the validation of the client.\<close>

theorem merge_partial_correct:
  assumes "state_inv s" "headroom 20000 s" "merge_partial json_len rq device s = (s', Inr rs)"
  shows "(\<forall>row. row \<in> set (rs_member_ids rs) \<longleftrightarrow> in_scope (rq_interest rq) s' row) \<and>
    length (rs_member_ids rs) \<le> unat (interest_limit (rq_interest rq)) \<and>
    (\<forall>row n c. ((row, n), c) \<in> set (payload_cells (rs_sync rs)) \<longleftrightarrow>
       row \<in> set (rs_member_ids rs) \<and> bt_get (cells s') (row, n) = Some c) \<and>
    set (rs_evicted_row_ids rs) = set (rq_known_member_ids rq) - set (rs_member_ids rs) \<and>
    response_ok (state_table s) rs \<and> state_inv s'"
proof -
  let ?ms = "scope_members (rq_interest rq) s'"
  obtain sync snapshot bytes where
    mi: "merge_inner json_len (rq_sync rq) device open_security s = Inr (s', sync)"
    and lim: "length ?ms \<le> unat (interest_limit (rq_interest rq))"
    and snap: "snapshot_loop json_len ?ms (cells s') ([], 0) = Inr (snapshot, bytes)"
    and rs: "rs = \<lparr>rs_scope_id = rq_scope_id rq, rs_scope_version = rq_scope_version rq,
        rs_member_ids = ?ms,
        rs_evicted_row_ids = filter (\<lambda>row. \<not> binary_search ?ms row) (rq_known_member_ids rq),
        rs_sync = sync\<lparr>changes := rows_of snapshot, has_more := False\<rparr>\<rparr>"
    and ok: "response_ok (state_table s') rs"
    using merge_partial_inv [OF assms(3)] by metis
  note spec = merge_inner_spec(1,2) [OF mi assms(1,2)]
  have wf: "bt_wf (cells s')" using spec(1) by (simp add: state_inv_def feed_inv_def)
  let ?es = "filter (\<lambda>e. fst (fst e) \<in> set ?ms) (cells s')"
  have "snapshot = group_cells ?es []"
    using snapshot_loop_spec [OF snap scope_members_sorted] by simp
  moreover have "distinct (map fst ?es)"
    using bt_wf_distinct [of ?es] wf by simp
  ultimately have "set (payload_cells (rs_sync rs)) = set ?es"
    using group_cells_entries [of ?es] by (simp add: rs payload_cells_def)
  then have snapshot: "\<forall>row n c. ((row, n), c) \<in> set (payload_cells (rs_sync rs)) \<longleftrightarrow>
      row \<in> set (rs_member_ids rs) \<and> bt_get (cells s') (row, n) = Some c"
    by (auto simp: rs bt_get_iff [OF wf])
  have "set (rs_evicted_row_ids rs) = set (rq_known_member_ids rq) - set (rs_member_ids rs)"
    by (auto simp: rs binary_search_sorted [OF scope_members_sorted])
  with snapshot show ?thesis
    using lim ok spec scope_members_iff [OF wf] by (simp add: rs)
qed

end
