(* ===== verification/Pg_Server.thy ===== *)
theory Pg_Server
  imports Explain Partial_Replica
begin

section \<open>The PostgreSQL adapter (server.rs)\<close>

text \<open>
  The tables of the server database as a record, and one definition per function of server.rs. Tables
  that are keyed by tenant are split by tenant, because every statement of the adapter runs under
  row-level security or names its tenant. A transaction is a function from the database to an error or
  the new database; the caller drops it on an error, which rolls the tables back.

  Parameters of the model: \<open>gen_random_uuid()\<close>, the length of an encoded value
  (\<open>serde_json::to_vec(&value)?.len()\<close>), the time \<open>clock_timestamp()\<close> and the collation of the database,
  that is the order \<open>ORDER BY id\<close> puts row identifiers in, and whether the role of the server bypasses
  row-level security. A \<open>JSONB\<close> column holds the value it encodes.
  PostgreSQL stores no zero byte, neither in a text nor in a \<open>JSONB\<close> string.
\<close>

record pg_env =
  pg_uuid :: "nat \<Rightarrow> string"
  pg_json_len :: "crdt_value \<Rightarrow> sync_error + nat"
  pg_order_by :: "string list \<Rightarrow> string list"
  pg_bypass :: bool

type_synonym pg_row = "(string, crdt_value) btree_map"

record pg_cell =
  pc_value :: crdt_value
  pc_clock :: int
  pc_device :: string
  pc_seq :: int

record pg_lease =
  le_max_issued :: int
  le_token :: string
  le_epoch :: string
  le_seen :: int

record pg_audit =
  au_tenant :: string
  au_table :: string
  au_todo :: string
  au_column :: string
  au_device :: string
  au_outcome :: string
  au_reason :: string
  au_incoming_value :: crdt_value
  au_incoming_lamport :: int
  au_incoming_device :: string
  au_current_value :: "crdt_value option"
  au_current_lamport :: "int option"
  au_current_device :: "string option"

text \<open>\<open>loomabase_state\<close>, the application tables and the change logs (by table and tenant),
  \<open>loomabase_cursor_lease\<close> (by tenant and log table, then by device), \<open>loomabase_server_state\<close>,
  \<open>loomabase_audit_log\<close>, the last value of the sequence \<open>loomabase_seq\<close>, and how many identifiers
  \<open>gen_random_uuid\<close> has produced.\<close>

record pg_db =
  pg_clocks :: "string \<Rightarrow> int option"
  pg_app :: "string \<times> string \<Rightarrow> (string, pg_row) btree_map"
  pg_log :: "string \<times> string \<Rightarrow> (cell_key, pg_cell) btree_map"
  pg_leases :: "(string \<times> string, (string, pg_lease) btree_map) btree_map"
  pg_epoch :: string
  pg_audits :: "pg_audit list"
  pg_seq :: int
  pg_uuids :: nat

subsection \<open>Clocks, sequence and identifiers\<close>

definition server_clock_from_i64 :: "int \<Rightarrow> sync_error + u64" where
  "server_clock_from_i64 c =
     (case u64_try_from c of
        None \<Rightarrow> Inl (InvalidPayload ''negative clock stored in database'')
      | Some w \<Rightarrow> Inr w)"

definition server_clock_to_i64 :: "u64 \<Rightarrow> sync_error + int" where
  "server_clock_to_i64 c = (case i64_try_from c of None \<Rightarrow> Inl ClockOverflow | Some i \<Rightarrow> Inr i)"

definition nextval :: "pg_db \<Rightarrow> sync_error + pg_db \<times> int" where
  "nextval db =
     (if pg_seq db \<ge> i64_MAX then Inl (Postgres ''nextval: reached maximum value of sequence'')
      else Inr (db\<lparr>pg_seq := pg_seq db + 1\<rparr>, pg_seq db + 1))"

definition bind_text :: "string \<Rightarrow> sync_error + unit" where
  "bind_text s =
     (if CHR 0x00 \<in> set s then Inl (Postgres ''invalid byte sequence for encoding UTF8: 0x00'') else Inr ())"

definition bind_json :: "crdt_value \<Rightarrow> sync_error + unit" where
  "bind_json v =
     (case v of
        VText s \<Rightarrow>
          if CHR 0x00 \<in> set s then Inl (Postgres ''unsupported Unicode escape sequence'') else Inr ()
      | _ \<Rightarrow> Inr ())"

subsection \<open>The application table\<close>

definition pg_default :: "column_type \<Rightarrow> crdt_value" where
  "pg_default k =
     (case k of TyText \<Rightarrow> VText [] | TyInteger \<Rightarrow> VInteger 0 | TyReal \<Rightarrow> VReal 0 | TyBoolean \<Rightarrow> VBoolean False)"

definition pg_default_row :: "table_def \<Rightarrow> pg_row" where
  "pg_default_row t = foldl (\<lambda>m c. bt_insert (cname c) (pg_default (cty c)) m) [] (synchronized_columns t)"

text \<open>\<open>INSERT INTO table(tenant_id, id) VALUES ($1, $2) ON CONFLICT DO NOTHING\<close>.\<close>

definition pg_ensure_row :: "table_def \<Rightarrow> string \<Rightarrow> string \<Rightarrow> pg_db \<Rightarrow> pg_db" where
  "pg_ensure_row t tenant row db =
     (let k = (tname t, tenant) in
      if bt_get (pg_app db k) row \<noteq> None then db
      else db\<lparr>pg_app := (pg_app db)(k := bt_insert row (pg_default_row t) (pg_app db k))\<rparr>)"

definition pg_update :: "table_def \<Rightarrow> string \<Rightarrow> string \<Rightarrow> string \<Rightarrow> crdt_value \<Rightarrow> pg_db \<Rightarrow> pg_db" where
  "pg_update t tenant row column v db =
     (let k = (tname t, tenant) in
      case bt_get (pg_app db k) row of
        None \<Rightarrow> db
      | Some vals \<Rightarrow>
          db\<lparr>pg_app := (pg_app db)(k := bt_insert row (bt_insert column v vals) (pg_app db k))\<rparr>)"

definition write_server_todo_column ::
  "table_def \<Rightarrow> string \<Rightarrow> string \<Rightarrow> string \<Rightarrow> crdt_value \<Rightarrow> pg_db \<Rightarrow> sync_error + pg_db" where
  "write_server_todo_column t tenant row column v db =
     (case table_column_type t column of
        None \<Rightarrow> Inl (InvalidPayload (''column is not synchronizable: '' @ column))
      | Some ty \<Rightarrow>
          (case (ty, v) of
             (TyText, VText s) \<Rightarrow> rbind (bind_text s) (\<lambda>_. Inr (pg_update t tenant row column v db))
           | (TyInteger, VInteger _) \<Rightarrow> Inr (pg_update t tenant row column v db)
           | (TyReal, VReal _) \<Rightarrow> Inr (pg_update t tenant row column v db)
           | (TyBoolean, VBoolean _) \<Rightarrow> Inr (pg_update t tenant row column v db)
           | _ \<Rightarrow> Inl (InvalidPayload (''value type is incompatible with column '' @ column))))"

subsection \<open>Audit\<close>

definition rejection_audit_outcome :: "sync_rejection_kind \<Rightarrow> sync_audit_outcome" where
  "rejection_audit_outcome kind =
     (case kind of AuthorizationDenied \<Rightarrow> RejectedAuthorization | ValidationFailed \<Rightarrow> RejectedValidation)"

definition write_audit_event :: "string \<Rightarrow> sync_audit_event \<Rightarrow> pg_db \<Rightarrow> sync_error + pg_db" where
  "write_audit_event tenant ev db =
     rbind (server_clock_to_i64 (lamport_clock (ev_incoming_metadata ev))) (\<lambda>incoming.
     rbind (case ev_current_metadata ev of
              None \<Rightarrow> Inr None
            | Some m \<Rightarrow> rbind (server_clock_to_i64 (lamport_clock m)) (\<lambda>c. Inr (Some c))) (\<lambda>current.
     rbind (bind_text (ev_reason ev)) (\<lambda>_.
     rbind (bind_json (ev_incoming_value ev)) (\<lambda>_.
     rbind (case ev_current_value ev of None \<Rightarrow> Inr () | Some v \<Rightarrow> bind_json v) (\<lambda>_.
       Inr (db\<lparr>pg_audits := pg_audits db @
         [\<lparr>au_tenant = tenant, au_table = ev_table_name ev, au_todo = ev_todo_id ev,
           au_column = ev_column_name ev, au_device = device_id (ev_incoming_metadata ev),
           au_outcome = audit_outcome_str (ev_outcome ev), au_reason = ev_reason ev,
           au_incoming_value = ev_incoming_value ev, au_incoming_lamport = incoming,
           au_incoming_device = device_id (ev_incoming_metadata ev),
           au_current_value = ev_current_value ev, au_current_lamport = current,
           au_current_device = map_option device_id (ev_current_metadata ev)\<rparr>]\<rparr>))))))"

definition record_audit_if_enabled ::
  "string \<Rightarrow> sync_security \<Rightarrow> sync_audit_event \<Rightarrow> pg_db \<Rightarrow> sync_error + pg_db" where
  "record_audit_if_enabled tenant security ev db =
     (if audit_mode security = Disabled then Inr db else write_audit_event tenant ev db)"

subsection \<open>Merging the cells of a request\<close>

definition pg_column :: "pg_cell \<Rightarrow> sync_error + crdt_column" where
  "pg_column c =
     rbind (server_clock_from_i64 (pc_clock c)) (\<lambda>clock.
       Inr \<lparr>cvalue = pc_value c, cmeta = ColumnMetadata clock (pc_device c)\<rparr>)"

definition pg_current :: "table_def \<Rightarrow> string \<Rightarrow> cell_key \<Rightarrow> pg_db \<Rightarrow> sync_error + crdt_column option" where
  "pg_current t tenant key db =
     (case bt_get (pg_log db (crdt_table t, tenant)) key of
        None \<Rightarrow> Inr None
      | Some c \<Rightarrow> rbind (pg_column c) (\<lambda>col. Inr (Some col)))"

text \<open>A denied cell: the rejection is pushed, then the audit event is built and recorded.\<close>

definition pg_reject ::
  "sync_security \<Rightarrow> sync_context \<Rightarrow> cell_key \<Rightarrow> crdt_column \<Rightarrow> crdt_column option \<Rightarrow> sync_rejection_kind \<Rightarrow> string \<Rightarrow>
   pg_db \<times> sync_rejection list \<Rightarrow> sync_error + pg_db \<times> sync_rejection list" where
  "pg_reject security ctx key incoming current kind why st =
     rbind (sync_rejection_new (fst key) (snd key) kind why (cvalue incoming) (cmeta incoming)) (\<lambda>r.
     rbind (sync_audit_event_new ctx (mutation_of key incoming) current (rejection_audit_outcome kind) why) (\<lambda>ev.
     rbind (record_audit_if_enabled (tenant_id ctx) security ev (fst st)) (\<lambda>db.
       Inr (db, snd st @ [r]))))"

definition pg_decide :: "crdt_column option \<Rightarrow> crdt_column \<Rightarrow> sync_error + bool \<times> sync_audit_outcome" where
  "pg_decide current incoming =
     (case current of
        None \<Rightarrow> Inr (True, Accepted)
      | Some cur \<Rightarrow>
          (case decide_lww (cmeta cur) (cmeta incoming) of
             AcceptIncoming \<Rightarrow> Inr (True, Accepted)
           | KeepCurrent \<Rightarrow> Inr (False, KeptCurrent)
           | Equal \<Rightarrow>
               if value_eq (cvalue cur) (cvalue incoming) then Inr (False, Idempotent)
               else Inl (InvalidPayload ''the same CRDT version cannot identify different values'')))"

definition pg_upsert_cell :: "table_def \<Rightarrow> string \<Rightarrow> cell_key \<Rightarrow> crdt_column \<Rightarrow> pg_db \<Rightarrow> sync_error + pg_db" where
  "pg_upsert_cell t tenant key incoming db =
     rbind (server_clock_to_i64 (lamport_clock (cmeta incoming))) (\<lambda>clock.
     rbind (bind_json (cvalue incoming)) (\<lambda>_.
     rbind (nextval db) (\<lambda>(db, q).
     let k = (crdt_table t, tenant) in
       Inr (db\<lparr>pg_log := (pg_log db)(k := bt_insert key
         \<lparr>pc_value = cvalue incoming, pc_clock = clock, pc_device = device_id (cmeta incoming), pc_seq = q\<rparr>
         (pg_log db k))\<rparr>))))"

definition pg_merge_cell ::
  "sync_security \<Rightarrow> sync_context \<Rightarrow> table_def \<Rightarrow> string \<Rightarrow> string \<times> crdt_column \<Rightarrow>
   pg_db \<times> sync_rejection list \<Rightarrow> sync_error + pg_db \<times> sync_rejection list" where
  "pg_merge_cell security ctx t row e st =
     (case e of (column_name, incoming) \<Rightarrow> case st of (db, rjs) \<Rightarrow>
       let key = (row, column_name); tenant = tenant_id ctx in
       rbind (pg_current t tenant key db) (\<lambda>current.
       rbind (consult_hooks security ctx (mutation_of key incoming) current) (\<lambda>denied.
         case denied of
           Some (kind, why) \<Rightarrow> pg_reject security ctx key incoming current kind why (db, rjs)
         | None \<Rightarrow>
             rbind (pg_decide current incoming) (\<lambda>(should_apply, outcome).
             rbind (if should_apply
                    then rbind (write_server_todo_column t tenant row column_name (cvalue incoming) db)
                           (pg_upsert_cell t tenant key incoming)
                    else Inr db) (\<lambda>db.
             rbind (sync_audit_event_new ctx (mutation_of key incoming) current outcome
                     (summary (explain_lww current incoming))) (\<lambda>ev.
             rbind (record_audit_if_enabled tenant security ev db) (\<lambda>db.
               Inr (db, rjs))))))))"

definition pg_merge_row ::
  "sync_security \<Rightarrow> sync_context \<Rightarrow> table_def \<Rightarrow> row_change \<Rightarrow>
   pg_db \<times> sync_rejection list \<Rightarrow> sync_error + pg_db \<times> sync_rejection list" where
  "pg_merge_row security ctx t row st =
     foldM (pg_merge_cell security ctx t (todo_id row)) (row_columns row)
       (pg_ensure_row t (tenant_id ctx) (todo_id row) (fst st), snd st)"

subsection \<open>Cursors and the change feed\<close>

definition tenant_max_cursor :: "table_def \<Rightarrow> string \<Rightarrow> pg_db \<Rightarrow> int" where
  "tenant_max_cursor t tenant db =
     foldl max 0 (map (\<lambda>e. pc_seq (snd e)) (pg_log db (crdt_table t, tenant)))"

definition tenant_leases :: "table_def \<Rightarrow> string \<Rightarrow> pg_db \<Rightarrow> (string, pg_lease) btree_map" where
  "tenant_leases t tenant db =
     (case bt_get (pg_leases db) (tenant, crdt_table t) of None \<Rightarrow> [] | Some m \<Rightarrow> m)"

definition pg_cursor_valid :: "table_def \<Rightarrow> string \<Rightarrow> string \<Rightarrow> sync_payload \<Rightarrow> pg_db \<Rightarrow> bool" where
  "pg_cursor_valid t tenant device p db \<longleftrightarrow>
     cursor p = 0 \<or>
     (case bt_get (tenant_leases t tenant db) device of
        None \<Rightarrow> False
      | Some l \<Rightarrow>
          cursor p \<le> tenant_max_cursor t tenant db \<and> cursor p \<le> le_max_issued l \<and>
          (protocol_version p < 4 \<or>
           cursor_token p = Some (le_token l) \<and> server_epoch p = Some (le_epoch l) \<and>
           le_epoch l = pg_epoch db))"

text \<open>\<open>SELECT ... WHERE tenant_id = $1 AND seq > $2 ORDER BY seq LIMIT 1001\<close>.\<close>

definition pg_feed :: "table_def \<Rightarrow> string \<Rightarrow> int \<Rightarrow> pg_db \<Rightarrow> (cell_key \<times> pg_cell) list" where
  "pg_feed t tenant eff db =
     take (MAX_RESPONSE_CELLS + 1)
       (sort_key (\<lambda>e. pc_seq (snd e))
         (filter (\<lambda>e. pc_seq (snd e) > eff) (pg_log db (crdt_table t, tenant))))"

fun pg_fill_page ::
  "pg_env \<Rightarrow> (cell_key \<times> pg_cell) list \<Rightarrow> page_state \<Rightarrow> sync_error + page_state \<times> bool" where
  "pg_fill_page env [] pg = Inr (pg, False)"
| "pg_fill_page env (((row, column_name), c) # rest) pg =
     rbind (pg_column c) (\<lambda>column.
     rbind (pg_json_len env (cvalue column)) (\<lambda>n.
       let cell_bytes = n + length row + length column_name + length (device_id (cmeta column)) in
       if included pg \<ge> MAX_RESPONSE_CELLS \<or>
          included pg > 0 \<and> response_bytes pg + cell_bytes > MAX_RESPONSE_BYTES
       then Inr (pg, True)
       else pg_fill_page env rest
         \<lparr>response_rows = group_insert row column_name column (response_rows pg),
          response_bytes = response_bytes pg + cell_bytes,
          next_cursor = pc_seq c,
          included = included pg + 1\<rparr>))"

text \<open>\<open>INSERT INTO loomabase_cursor_lease ... ON CONFLICT DO UPDATE ... RETURNING cursor_token\<close>.\<close>

definition pg_issue_lease ::
  "pg_env \<Rightarrow> int \<Rightarrow> table_def \<Rightarrow> string \<Rightarrow> string \<Rightarrow> int \<Rightarrow> string \<Rightarrow> pg_db \<Rightarrow> pg_db \<times> string" where
  "pg_issue_lease env now t tenant device next epoch db =
     (let fresh = pg_uuid env (pg_uuids db);
          l = (case bt_get (tenant_leases t tenant db) device of
                 None \<Rightarrow> \<lparr>le_max_issued = next, le_token = fresh, le_epoch = epoch, le_seen = now\<rparr>
               | Some old \<Rightarrow>
                   \<lparr>le_max_issued = max (le_max_issued old) next,
                    le_token = (if le_epoch old = epoch then le_token old else fresh),
                    le_epoch = epoch, le_seen = now\<rparr>)
      in (db\<lparr>pg_leases := bt_insert (tenant, crdt_table t) (bt_insert device l (tenant_leases t tenant db)) (pg_leases db),
             pg_uuids := pg_uuids db + 1\<rparr>, le_token l))"

subsection \<open>The merge\<close>

definition pg_build_response ::
  "pg_env \<Rightarrow> int \<Rightarrow> sync_payload \<Rightarrow> string \<Rightarrow> string \<Rightarrow> table_def \<Rightarrow> u64 \<Rightarrow> sync_rejection list \<Rightarrow> pg_db \<Rightarrow>
   sync_error + pg_db \<times> sync_payload" where
  "pg_build_response env now p device tenant t clock rjs db =
     (let top = tenant_max_cursor t tenant db;
          epoch = pg_epoch db;
          valid = pg_cursor_valid t tenant device p db;
          eff = (if valid then cursor p else 0)
      in rbind (pg_fill_page env (pg_feed t tenant eff db)
                 \<lparr>response_rows = [], response_bytes = 0, next_cursor = eff, included = 0\<rparr>) (\<lambda>(pg, more).
         let next = (if more then next_cursor pg else top) in
         case pg_issue_lease env now t tenant device next epoch db of (db, token) \<Rightarrow>
           Inr (db,
             \<lparr>protocol_version = protocol_version p,
              schema_fingerprint = table_fingerprint t,
              source_device_id = SERVER_DEVICE_ID,
              source_lamport = clock,
              changes = rows_of (response_rows pg),
              cursor = next,
              has_more = more,
              cursor_reset = (cursor p \<noteq> 0 \<and> \<not> valid),
              cursor_token = Some token,
              server_epoch = Some epoch,
              rejections = rjs\<rparr>)))"

definition pg_context :: "string \<Rightarrow> string \<Rightarrow> table_def \<Rightarrow> sync_context" where
  "pg_context tenant device t = \<lparr>tenant_id = tenant, authenticated_device_id = device, context_table = t\<rparr>"

definition merge_crdt_states_with_security ::
  "pg_env \<Rightarrow> int \<Rightarrow> sync_payload \<Rightarrow> string \<Rightarrow> string \<Rightarrow> table_def \<Rightarrow> sync_security \<Rightarrow> pg_db \<Rightarrow>
   sync_error + pg_db \<times> sync_payload" where
  "merge_crdt_states_with_security env now p device tenant t security db =
     rbind (validate_identifier ''tenant_id'' tenant) (\<lambda>_.
     rbind (validate_client_request p device t) (\<lambda>_.
     let observed = max_observed_clock p;
         stored = (case pg_clocks db tenant of None \<Rightarrow> 0 | Some c \<Rightarrow> c);
         db = db\<lparr>pg_clocks := (pg_clocks db)(tenant \<mapsto> stored)\<rparr> in
     rbind (server_clock_from_i64 stored) (\<lambda>server_clock.
     rbind (validate_clock_advance server_clock observed) (\<lambda>_.
     rbind (foldM (pg_merge_row security (pg_context tenant device t) t) (changes p) (db, [])) (\<lambda>(db, rjs).
     case checked_add_u64 (max server_clock observed) 1 of
       None \<Rightarrow> Inl ClockOverflow
     | Some clock \<Rightarrow>
         rbind (server_clock_to_i64 clock) (\<lambda>c.
           pg_build_response env now p device tenant t clock rjs
             (db\<lparr>pg_clocks := (pg_clocks db)(tenant \<mapsto> c)\<rparr>)))))))"

definition merge_crdt_states ::
  "pg_env \<Rightarrow> int \<Rightarrow> sync_payload \<Rightarrow> string \<Rightarrow> string \<Rightarrow> table_def \<Rightarrow> pg_db \<Rightarrow> sync_error + pg_db \<times> sync_payload" where
  "merge_crdt_states env now p device tenant t db =
     merge_crdt_states_with_security env now p device tenant t sync_security_default db"

subsection \<open>Partial replicas\<close>

text \<open>The membership query. Building it fails on a value no predicate can have; executing it fails on
  a text parameter with a zero byte.\<close>

definition pg_push_predicate :: "replica_predicate \<Rightarrow> sync_error + unit" where
  "pg_push_predicate pr =
     (case pr of
        ColumnEquals column v \<Rightarrow>
          (case v of
             VNull \<Rightarrow> Inl (InvalidPayload (''invalid partial-replica predicate value for '' @ column))
           | VBlob _ \<Rightarrow> Inl (InvalidPayload (''invalid partial-replica predicate value for '' @ column))
           | _ \<Rightarrow> Inr ())
      | _ \<Rightarrow> Inr ())"

definition pg_bind_predicate :: "replica_predicate \<Rightarrow> sync_error + unit" where
  "pg_bind_predicate pr =
     (case pr of
        IdEquals v \<Rightarrow> bind_text v
      | IdPrefix v \<Rightarrow> bind_text v
      | ColumnEquals _ v \<Rightarrow> (case v of VText s \<Rightarrow> bind_text s | _ \<Rightarrow> Inr ()))"

definition pg_row_matches :: "replica_interest \<Rightarrow> string \<Rightarrow> pg_row \<Rightarrow> bool" where
  "pg_row_matches i row vals \<longleftrightarrow>
     (case bt_get vals LIVENESS_COLUMN of None \<Rightarrow> False | Some v \<Rightarrow> value_eq v (VBoolean False)) \<and>
     list_all (predicate_matches row vals) (predicates i)"

definition pg_members :: "pg_env \<Rightarrow> table_def \<Rightarrow> string \<Rightarrow> replica_interest \<Rightarrow> pg_db \<Rightarrow> sync_error + string list" where
  "pg_members env t tenant i db =
     rbind (forM_check pg_push_predicate (predicates i)) (\<lambda>_.
     rbind (forM_check pg_bind_predicate (predicates i)) (\<lambda>_.
       Inr (take (unat (interest_limit i) + 1)
         (pg_order_by env
           (map fst (filter (\<lambda>(row, vals). pg_row_matches i row vals) (pg_app db (tname t, tenant))))))))"

fun pg_snapshot_loop ::
  "pg_env \<Rightarrow> (cell_key \<times> pg_cell) list \<Rightarrow> nat \<Rightarrow> (string, string, crdt_column) nested_map \<times> nat \<Rightarrow>
   sync_error + (string, string, crdt_column) nested_map" where
  "pg_snapshot_loop env [] n st = Inr (fst st)"
| "pg_snapshot_loop env (((row, column_name), c) # rest) n st =
     (if n + 1 > MAX_PAYLOAD_CELLS
      then Inl (InvalidPayload (''partial replica snapshot exceeds the '' @ show_nat MAX_PAYLOAD_CELLS @ '' cell limit''))
      else
        rbind (pg_column c) (\<lambda>column.
        rbind (pg_json_len env (cvalue column)) (\<lambda>len.
          let bytes = snd st + (len + length row + length column_name + length (device_id (cmeta column))) in
          if bytes > MAX_RESPONSE_BYTES
          then Inl (InvalidPayload (''partial replica snapshot exceeds the '' @
            show_nat MAX_RESPONSE_BYTES @ ''-byte limit''))
          else pg_snapshot_loop env rest (n + 1) (group_insert row column_name column (fst st), bytes))))"

definition merge_partial_replica_with_security ::
  "pg_env \<Rightarrow> int \<Rightarrow> partial_replica_request \<Rightarrow> string \<Rightarrow> string \<Rightarrow> table_def \<Rightarrow> sync_security \<Rightarrow> pg_db \<Rightarrow>
   sync_error + pg_db \<times> partial_replica_response" where
  "merge_partial_replica_with_security env now rq device tenant t security db =
     rbind (request_validate rq t device) (\<lambda>_.
     rbind (merge_crdt_states_with_security env now (rq_sync rq) device tenant t security db) (\<lambda>(db, sync).
     rbind (pg_members env t tenant (rq_interest rq) db) (\<lambda>members.
     if length members > unat (interest_limit (rq_interest rq))
     then Inl (InvalidPayload (''partial replica scope exceeds its declared limit of '' @
       show_nat (unat (interest_limit (rq_interest rq))) @
       '' rows; narrow the interest or increase the limit''))
     else
     rbind (validate_member_ids members) (\<lambda>_.
     rbind (pg_snapshot_loop env
              (filter (\<lambda>e. fst (fst e) \<in> set members) (pg_log db (crdt_table t, tenant))) 0 ([], 0)) (\<lambda>snapshot.
     let response =
       \<lparr>rs_scope_id = rq_scope_id rq, rs_scope_version = rq_scope_version rq,
        rs_member_ids = members,
        rs_evicted_row_ids = filter (\<lambda>row. \<not> binary_search members row) (rq_known_member_ids rq),
        rs_sync = sync\<lparr>changes := rows_of snapshot, has_more := False\<rparr>\<rparr>
     in rbind (response_validate response t) (\<lambda>_. Inr (db, response)))))))"

definition merge_partial_replica ::
  "pg_env \<Rightarrow> int \<Rightarrow> partial_replica_request \<Rightarrow> string \<Rightarrow> string \<Rightarrow> table_def \<Rightarrow> pg_db \<Rightarrow>
   sync_error + pg_db \<times> partial_replica_response" where
  "merge_partial_replica env now rq device tenant t db =
     merge_partial_replica_with_security env now rq device tenant t sync_security_default db"

subsection \<open>Maintenance\<close>

text \<open>Maintenance sets no tenant. The policies of schema.rs are forced, so unless the role bypasses
  row-level security the two \<open>DELETE\<close> statements see no lease. Times are in seconds. The number of
  deleted leases is returned.\<close>

definition expire_cursor_leases :: "pg_env \<Rightarrow> int \<Rightarrow> u64 \<Rightarrow> pg_db \<Rightarrow> sync_error + pg_db \<times> nat" where
  "expire_cursor_leases env now inactive_secs db =
     (case i64_try_from inactive_secs of
        None \<Rightarrow> Inl (InvalidPayload ''lease TTL is too large'')
      | Some seconds \<Rightarrow>
          let stale = (\<lambda>l. pg_bypass env \<and> le_seen l < now - seconds) in
          Inr (db\<lparr>pg_leases := map (\<lambda>(k, m). (k, filter (\<lambda>e. \<not> stale (snd e)) m)) (pg_leases db)\<rparr>,
               sum_list (map (\<lambda>(k, m). length (filter (\<lambda>e. stale (snd e)) m)) (pg_leases db))))"

definition rotate_server_epoch :: "pg_env \<Rightarrow> pg_db \<Rightarrow> pg_db \<times> string" where
  "rotate_server_epoch env db =
     (let epoch = pg_uuid env (pg_uuids db) in
      (db\<lparr>pg_epoch := epoch, pg_leases := (if pg_bypass env then [] else pg_leases db), pg_uuids := pg_uuids db + 1\<rparr>, epoch))"

end
