(* ===== verification/Pg_Loop.thy ===== *)
theory Pg_Loop
  imports Pg_Server
begin

section \<open>The merge loop of the PostgreSQL adapter\<close>

text \<open>
  What one cell of a request does to the database, and that the loop of the adapter meets the contract
  \<open>merge_loop\<close>, with the tenant's change log read as a store of registers.
\<close>

definition pg_cell_col :: "pg_cell \<Rightarrow> crdt_column" where
  "pg_cell_col c = \<lparr>cvalue = pc_value c, cmeta = ColumnMetadata (word_of_int (pc_clock c)) (pc_device c)\<rparr>"

definition pg_view :: "table_def \<Rightarrow> string \<Rightarrow> pg_db \<Rightarrow> cell_key \<Rightarrow> crdt_column option" where
  "pg_view t tenant db k = map_option pg_cell_col (bt_get (pg_log db (crdt_table t, tenant)) k)"

lemma server_clock_from_ok: "0 \<le> c \<Longrightarrow> server_clock_from_i64 c = Inr (word_of_int c)"
  by (simp add: server_clock_from_i64_def u64_try_from_def)

lemma server_clock_to_Inr: "server_clock_to_i64 w = Inr i \<longleftrightarrow> i = int (unat w) \<and> i \<le> i64_MAX"
  by (auto simp: server_clock_to_i64_def i64_try_from_def split: option.splits)

lemma pg_column_ok: "0 \<le> pc_clock c \<Longrightarrow> pg_column c = Inr (pg_cell_col c)"
  by (simp add: pg_column_def pg_cell_col_def server_clock_from_ok)

lemma pg_current_Inr: "pg_current t tenant key db = Inr cur \<Longrightarrow> cur = pg_view t tenant db key"
  by (auto simp: pg_current_def pg_view_def pg_column_def pg_cell_col_def server_clock_from_i64_def u64_try_from_def
      split: option.splits if_splits)

text \<open>The decision of the adapter is the one of the protocol, with the outcome for the audit.\<close>

definition outcome_of :: "crdt_column option \<Rightarrow> crdt_column \<Rightarrow> sync_audit_outcome" where
  "outcome_of current incoming =
     (case current of
        None \<Rightarrow> Accepted
      | Some cur \<Rightarrow>
          (case decide_lww (cmeta cur) (cmeta incoming) of
             AcceptIncoming \<Rightarrow> Accepted | KeepCurrent \<Rightarrow> KeptCurrent | Equal \<Rightarrow> Idempotent))"

lemma pg_decide_lww:
  "pg_decide current incoming = rbind (lww_apply current incoming) (\<lambda>apply. Inr (apply, outcome_of current incoming))"
  by (auto simp: pg_decide_def lww_apply_def outcome_of_def same_version_error_def split: option.split merge_decision.split)

subsection \<open>Audit\<close>

definition audit_row ::
  "sync_context \<Rightarrow> cell_key \<Rightarrow> crdt_column \<Rightarrow> crdt_column option \<Rightarrow> sync_audit_outcome \<Rightarrow> string \<Rightarrow> pg_audit" where
  "audit_row ctx key incoming current out why =
     \<lparr>au_tenant = tenant_id ctx, au_table = tname (context_table ctx), au_todo = fst key, au_column = snd key,
      au_device = device_id (cmeta incoming), au_outcome = audit_outcome_str out, au_reason = why,
      au_incoming_value = cvalue incoming, au_incoming_lamport = int (unat (lamport_clock (cmeta incoming))),
      au_incoming_device = device_id (cmeta incoming), au_current_value = map_option cvalue current,
      au_current_lamport = map_option (\<lambda>c. int (unat (lamport_clock (cmeta c)))) current,
      au_current_device = map_option (\<lambda>c. device_id (cmeta c)) current\<rparr>"

definition audited :: "sync_security \<Rightarrow> pg_audit list \<Rightarrow> pg_db \<Rightarrow> pg_db" where
  "audited security rows db =
     (if audit_mode security = Disabled then db else db\<lparr>pg_audits := pg_audits db @ rows\<rparr>)"

lemma audited_sel [simp]:
  "pg_clocks (audited sec rs db) = pg_clocks db" "pg_app (audited sec rs db) = pg_app db"
  "pg_log (audited sec rs db) = pg_log db" "pg_leases (audited sec rs db) = pg_leases db"
  "pg_epoch (audited sec rs db) = pg_epoch db" "pg_seq (audited sec rs db) = pg_seq db"
  "pg_uuids (audited sec rs db) = pg_uuids db"
  "pg_audits (audited sec rs db) = pg_audits db @ (if audit_mode sec = Disabled then [] else rs)"
  by (simp_all add: audited_def)

lemma audited_audited [simp]: "audited sec rs' (audited sec rs db) = audited sec (rs @ rs') db"
  by (simp add: audited_def)

lemma audited_Nil [simp]: "audited sec [] db = db"
  by (simp add: audited_def)

lemma record_audit:
  assumes "sync_audit_event_new ctx (mutation_of key incoming) current out why = Inr ev"
    and "record_audit_if_enabled (tenant_id ctx) security ev db = Inr db'"
  shows "db' = audited security [audit_row ctx key incoming current out why] db"
proof -
  have ev: "ev_table_name ev = tname (context_table ctx)" "ev_todo_id ev = fst key" "ev_column_name ev = snd key"
    "ev_outcome ev = out" "ev_reason ev = why" "ev_incoming_value ev = cvalue incoming"
    "ev_incoming_metadata ev = cmeta incoming" "ev_current_value ev = map_option cvalue current"
    "ev_current_metadata ev = map_option cmeta current"
    using assms(1) by (auto simp: sync_audit_event_new_def mutation_of_def)
  show ?thesis
    using assms(2)
    by (cases current)
      (auto simp: record_audit_if_enabled_def write_audit_event_def audited_def audit_row_def ev server_clock_to_Inr
        split: if_splits)
qed

subsection \<open>One cell\<close>

definition pg_put :: "table_def \<Rightarrow> string \<Rightarrow> cell_key \<Rightarrow> crdt_column \<Rightarrow> pg_db \<Rightarrow> pg_db" where
  "pg_put t tenant key c db =
     (let k = (crdt_table t, tenant) in
      (pg_update t tenant (fst key) (snd key) (cvalue c) db)
        \<lparr>pg_seq := pg_seq db + 1,
         pg_log := (pg_log db)(k := bt_insert key
           \<lparr>pc_value = cvalue c, pc_clock = int (unat (lamport_clock (cmeta c))), pc_device = device_id (cmeta c),
            pc_seq = pg_seq db + 1\<rparr> (pg_log db k))\<rparr>)"

lemma pg_update_sel [simp]:
  "pg_clocks (pg_update t tenant row n v db) = pg_clocks db" "pg_log (pg_update t tenant row n v db) = pg_log db"
  "pg_leases (pg_update t tenant row n v db) = pg_leases db" "pg_epoch (pg_update t tenant row n v db) = pg_epoch db"
  "pg_audits (pg_update t tenant row n v db) = pg_audits db" "pg_seq (pg_update t tenant row n v db) = pg_seq db"
  "pg_uuids (pg_update t tenant row n v db) = pg_uuids db"
  by (simp_all add: pg_update_def Let_def split: option.split)

lemma write_column_Inr:
  assumes "write_server_todo_column t tenant row n v db = Inr db'"
  shows "db' = pg_update t tenant row n v db" "\<forall>s. v = VText s \<longrightarrow> CHR 0x00 \<notin> set s"
  using assms by (auto simp: write_server_todo_column_def bind_text_def
      split: option.splits column_type.splits crdt_value.splits if_splits)

lemma store_Inr:
  assumes "rbind (write_server_todo_column t tenant row n (cvalue c) db) (pg_upsert_cell t tenant (row, n) c) = Inr db'"
  shows "db' = pg_put t tenant (row, n) c db" "pg_seq db < i64_MAX" "clock_ok (lamport_clock (cmeta c))"
proof -
  obtain db1 where w: "write_server_todo_column t tenant row n (cvalue c) db = Inr db1"
    and u: "pg_upsert_cell t tenant (row, n) c db1 = Inr db'" using assms by auto
  have db1: "db1 = pg_update t tenant row n (cvalue c) db" by (rule write_column_Inr(1) [OF w])
  show "db' = pg_put t tenant (row, n) c db" "pg_seq db < i64_MAX" "clock_ok (lamport_clock (cmeta c))"
    using u unfolding db1
    by (auto simp: pg_upsert_cell_def nextval_def pg_put_def Let_def server_clock_to_Inr clock_ok_def i64_MAX_def
        simp del: of_nat_unat split: if_splits)
qed

text \<open>The audit row a cell leaves.\<close>

definition cell_audit ::
  "sync_security \<Rightarrow> sync_context \<Rightarrow> (cell_key \<Rightarrow> crdt_column option) \<Rightarrow> cell_key \<times> crdt_column \<Rightarrow> pg_audit" where
  "cell_audit security ctx m op =
     (case hook_result security ctx m op of
        Inr (Some (kind, why)) \<Rightarrow> audit_row ctx (fst op) (snd op) (m (fst op)) (rejection_audit_outcome kind) why
      | _ \<Rightarrow> audit_row ctx (fst op) (snd op) (m (fst op)) (outcome_of (m (fst op)) (snd op))
          (summary (explain_lww (m (fst op)) (snd op))))"

lemma pg_merge_cell_cases:
  assumes merge: "pg_merge_cell security ctx t row (n, c) (db, rjs) = Inr (db', rjs')"
  defines "m \<equiv> pg_view t (tenant_id ctx) db"
  obtains (denied) kind why where "hook_result security ctx m ((row, n), c) = Inr (Some (kind, why))"
      "db' = audited security [cell_audit security ctx m ((row, n), c)] db"
      "rjs' = rjs @ rejections_of security ctx m ((row, n), c)" "reason_ok why"
  | (stored) "permitted security ctx m ((row, n), c)" "lww_apply (m (row, n)) c = Inr True"
      "db' = audited security [cell_audit security ctx m ((row, n), c)] (pg_put t (tenant_id ctx) (row, n) c db)"
      "rjs' = rjs" "pg_seq db < i64_MAX" "clock_ok (lamport_clock (cmeta c))"
  | (kept) "permitted security ctx m ((row, n), c)" "lww_apply (m (row, n)) c = Inr False"
      "db' = audited security [cell_audit security ctx m ((row, n), c)] db" "rjs' = rjs"
proof -
  let ?key = "(row, n)"
  obtain d where d: "hook_result security ctx m (?key, c) = Inr d"
    and rest: "(case d of
        Some (kind, why) \<Rightarrow> pg_reject security ctx ?key c (m ?key) kind why (db, rjs)
      | None \<Rightarrow>
          rbind (pg_decide (m ?key) c) (\<lambda>(should_apply, outcome).
          rbind (if should_apply
                 then rbind (write_server_todo_column t (tenant_id ctx) row n (cvalue c) db)
                        (pg_upsert_cell t (tenant_id ctx) ?key c)
                 else Inr db) (\<lambda>db.
          rbind (sync_audit_event_new ctx (mutation_of ?key c) (m ?key) outcome (summary (explain_lww (m ?key) c))) (\<lambda>ev.
          rbind (record_audit_if_enabled (tenant_id ctx) security ev db) (\<lambda>db. Inr (db, rjs)))))) = Inr (db', rjs')"
    using merge unfolding m_def
    by (auto simp: pg_merge_cell_def Let_def hook_result_def dest!: pg_current_Inr)
  show thesis
  proof (cases d)
    case (Some kw)
    obtain kind why where kw: "kw = (kind, why)" by fastforce
    then obtain r ev where r: "sync_rejection_new row n kind why (cvalue c) (cmeta c) = Inr r"
      "sync_audit_event_new ctx (mutation_of ?key c) (m ?key) (rejection_audit_outcome kind) why = Inr ev"
      "record_audit_if_enabled (tenant_id ctx) security ev db = Inr db'" "rjs' = rjs @ [r]"
      using rest Some by (auto simp: pg_reject_def)
    have "rjs' = rjs @ rejections_of security ctx m (?key, c)"
      using r(1,4) d Some kw by (auto simp: sync_rejection_new_ok rejections_of_def)
    moreover have "db' = audited security [cell_audit security ctx m (?key, c)] db"
      using record_audit [OF r(2,3)] d Some kw by (simp add: cell_audit_def)
    moreover have "reason_ok why" using r(1) by (simp add: sync_rejection_new_ok)
    ultimately show thesis using that(1) d Some kw by blast
  next
    case None
    then have perm: "permitted security ctx m (?key, c)" using d by (simp add: permitted_def)
    obtain b db1 ev where b: "lww_apply (m ?key) c = Inr b"
      "(if b then rbind (write_server_todo_column t (tenant_id ctx) row n (cvalue c) db)
          (pg_upsert_cell t (tenant_id ctx) ?key c) else Inr db) = Inr db1"
      "sync_audit_event_new ctx (mutation_of ?key c) (m ?key) (outcome_of (m ?key) c) (summary (explain_lww (m ?key) c)) = Inr ev"
      "record_audit_if_enabled (tenant_id ctx) security ev db1 = Inr db'" "rjs' = rjs"
      using rest None by (auto simp: pg_decide_lww)
    have aud: "db' = audited security [cell_audit security ctx m (?key, c)] db1"
      using record_audit [OF b(3,4)] d None by (simp add: cell_audit_def)
    show thesis
    proof (cases b)
      case True
      then have "rbind (write_server_todo_column t (tenant_id ctx) row n (cvalue c) db)
          (pg_upsert_cell t (tenant_id ctx) ?key c) = Inr db1" using b(2) by simp
      from store_Inr [OF this] show thesis using that(2) perm b(1,5) aud True by simp
    next
      case False
      then show thesis using that(3) perm b(1,2,5) aud by simp
    qed
  qed
qed

subsection \<open>The loop\<close>

text \<open>Creating the application row before each of its cells is the same as creating it once.\<close>

definition pg_merge_op ::
  "sync_security \<Rightarrow> sync_context \<Rightarrow> table_def \<Rightarrow> cell_key \<times> crdt_column \<Rightarrow>
   pg_db \<times> sync_rejection list \<Rightarrow> sync_error + pg_db \<times> sync_rejection list" where
  "pg_merge_op security ctx t op st =
     pg_merge_cell security ctx t (fst (fst op)) (snd (fst op), snd op)
       (pg_ensure_row t (tenant_id ctx) (fst (fst op)) (fst st), snd st)"

lemma pg_ensure_sel [simp]:
  "pg_clocks (pg_ensure_row t tenant row db) = pg_clocks db" "pg_log (pg_ensure_row t tenant row db) = pg_log db"
  "pg_leases (pg_ensure_row t tenant row db) = pg_leases db" "pg_epoch (pg_ensure_row t tenant row db) = pg_epoch db"
  "pg_audits (pg_ensure_row t tenant row db) = pg_audits db" "pg_seq (pg_ensure_row t tenant row db) = pg_seq db"
  "pg_uuids (pg_ensure_row t tenant row db) = pg_uuids db"
  by (simp_all add: pg_ensure_row_def Let_def)

lemma pg_view_cong: "pg_log db' = pg_log db \<Longrightarrow> pg_view t tenant db' = pg_view t tenant db"
  by (simp add: pg_view_def fun_eq_iff)

lemma pg_put_sel [simp]:
  "pg_clocks (pg_put t tenant k c db) = pg_clocks db" "pg_leases (pg_put t tenant k c db) = pg_leases db"
  "pg_epoch (pg_put t tenant k c db) = pg_epoch db" "pg_audits (pg_put t tenant k c db) = pg_audits db"
  "pg_seq (pg_put t tenant k c db) = pg_seq db + 1" "pg_uuids (pg_put t tenant k c db) = pg_uuids db"
  "pg_app (pg_put t tenant k c db) = pg_app (pg_update t tenant (fst k) (snd k) (cvalue c) db)"
  by (simp_all add: pg_put_def Let_def)

lemma pg_view_put [simp]: "pg_view t tenant (pg_put t tenant k c db) = (pg_view t tenant db)(k \<mapsto> c)"
  by (cases c; cases "cmeta c") (auto simp: pg_view_def pg_put_def Let_def pg_cell_col_def fun_eq_iff)

lemma pg_row_stays:
  assumes "pg_merge_cell security ctx t row e st = Inr st'" "bt_get (pg_app (fst st) (tname t, tenant_id ctx)) r \<noteq> None"
  shows "bt_get (pg_app (fst st') (tname t, tenant_id ctx)) r \<noteq> None"
proof -
  obtain n c db rjs db' rjs' where e: "e = (n, c)" "st = (db, rjs)" "st' = (db', rjs')" by (metis surj_pair)
  from assms(1) have "pg_merge_cell security ctx t row (n, c) (db, rjs) = Inr (db', rjs')" by (simp add: e)
  then show ?thesis
    using assms(2)
    by (cases rule: pg_merge_cell_cases) (auto simp: e pg_update_def Let_def split: option.split)
qed

lemma pg_ensure_idem: "bt_get (pg_app db (tname t, tenant)) row \<noteq> None \<Longrightarrow> pg_ensure_row t tenant row db = db"
  by (simp add: pg_ensure_row_def Let_def)

lemma pg_ensured: "bt_get (pg_app (pg_ensure_row t tenant row db) (tname t, tenant)) row \<noteq> None"
  by (auto simp: pg_ensure_row_def Let_def)

lemma pg_cells_flat:
  assumes "bt_get (pg_app (fst st) (tname t, tenant_id ctx)) row \<noteq> None"
  shows "foldM (pg_merge_cell security ctx t row) cs st =
    foldM (\<lambda>e. pg_merge_op security ctx t ((row, fst e), snd e)) cs st"
  using assms
proof (induction cs arbitrary: st)
  case (Cons e cs)
  have eq: "pg_merge_op security ctx t ((row, fst e), snd e) st = pg_merge_cell security ctx t row e st"
    using Cons.prems by (simp add: pg_merge_op_def pg_ensure_idem)
  show ?case
  proof (cases "pg_merge_cell security ctx t row e st")
    case (Inr st1)
    from Cons.IH [OF pg_row_stays [OF Inr Cons.prems]] show ?thesis by (simp add: eq Inr)
  qed (simp add: eq)
qed simp

lemma pg_merge_row_flat:
  assumes "row_columns row \<noteq> []"
  shows "pg_merge_row security ctx t row st = foldM (pg_merge_op security ctx t) (row_cells row) st"
proof -
  obtain e cs where cs: "row_columns row = e # cs" using assms by (cases "row_columns row") auto
  let ?st = "(pg_ensure_row t (tenant_id ctx) (todo_id row) (fst st), snd st)"
  have "pg_merge_row security ctx t row st =
      foldM (\<lambda>e. pg_merge_op security ctx t ((todo_id row, fst e), snd e)) (e # cs) ?st"
    unfolding pg_merge_row_def cs by (rule pg_cells_flat) (simp add: pg_ensured)
  also have "pg_merge_op security ctx t ((todo_id row, fst e), snd e) ?st =
      pg_merge_op security ctx t ((todo_id row, fst e), snd e) st"
    by (simp add: pg_merge_op_def pg_ensure_idem [OF pg_ensured])
  then have "foldM (\<lambda>e. pg_merge_op security ctx t ((todo_id row, fst e), snd e)) (e # cs) ?st =
      foldM (\<lambda>e. pg_merge_op security ctx t ((todo_id row, fst e), snd e)) (e # cs) st" by simp
  finally show ?thesis unfolding row_cells_def cs foldM_map by (simp add: case_prod_beta)
qed

lemma pg_merge_rows_flat:
  assumes "\<forall>row\<in>set (changes p). row_columns row \<noteq> []"
  shows "foldM (pg_merge_row security ctx t) (changes p) st = foldM (pg_merge_op security ctx t) (payload_cells p) st"
proof -
  have "foldM (pg_merge_row security ctx t) (changes p) st =
      foldM (\<lambda>row. foldM (pg_merge_op security ctx t) (row_cells row)) (changes p) st"
    by (rule foldM_cong) (use assms pg_merge_row_flat in auto)
  then show ?thesis by (simp add: foldM_concat foldM_map payload_cells_def)
qed

interpretation pg_loop: merge_loop security ctx "pg_merge_op security ctx t" "pg_view t (tenant_id ctx)"
  for security ctx t
proof
  fix op db rjs db' rjs'
  assume op: "pg_merge_op security ctx t op (db, rjs) = Inr (db', rjs')"
  obtain row n c where key: "op = ((row, n), c)" by (metis surj_pair)
  let ?db = "pg_ensure_row t (tenant_id ctx) row db"
  have view: "pg_view t (tenant_id ctx) ?db = pg_view t (tenant_id ctx) db" by (rule pg_view_cong) simp
  have "pg_merge_cell security ctx t row (n, c) (?db, rjs) = Inr (db', rjs')"
    using op by (simp add: pg_merge_op_def key)
  then show "(if permitted security ctx (pg_view t (tenant_id ctx) db) op
       then lww.put op (pg_view t (tenant_id ctx) db) = Inr (pg_view t (tenant_id ctx) db')
       else pg_view t (tenant_id ctx) db' = pg_view t (tenant_id ctx) db \<and>
         rejections_of security ctx (pg_view t (tenant_id ctx) db) op \<noteq> []) \<and>
      rjs' = rjs @ rejections_of security ctx (pg_view t (tenant_id ctx) db) op"
  proof (cases rule: pg_merge_cell_cases)
    case (denied kind why)
    have "pg_view t (tenant_id ctx) db' = pg_view t (tenant_id ctx) db" by (rule pg_view_cong) (simp add: denied(2))
    with denied show ?thesis by (simp add: key view permitted_def rejections_of_def)
  next
    case stored
    have "pg_view t (tenant_id ctx) db' = pg_view t (tenant_id ctx) (pg_put t (tenant_id ctx) (row, n) c ?db)"
      by (rule pg_view_cong) (simp add: stored(3))
    then show ?thesis using stored by (simp add: key view lww.put_def permitted_def rejections_of_def)
  next
    case kept
    have "pg_view t (tenant_id ctx) db' = pg_view t (tenant_id ctx) db" by (rule pg_view_cong) (simp add: kept(3))
    with kept show ?thesis by (simp add: key view lww.put_def permitted_def rejections_of_def)
  qed
next
  fix op db rjs db' rjs'
  assume op: "pg_merge_op security ctx t op (db, rjs) = Inr (db', rjs')"
  obtain row n c where key: "op = ((row, n), c)" by (metis surj_pair)
  let ?db = "pg_ensure_row t (tenant_id ctx) row db"
  have view: "pg_view t (tenant_id ctx) ?db = pg_view t (tenant_id ctx) db" by (rule pg_view_cong) simp
  have "pg_merge_cell security ctx t row (n, c) (?db, rjs) = Inr (db', rjs')"
    using op by (simp add: pg_merge_op_def key)
  then show "\<forall>r\<in>set (rejections_of security ctx (pg_view t (tenant_id ctx) db) op). reason_ok (rj_reason r)"
    by (cases rule: pg_merge_cell_cases) (auto simp: key view rejections_of_def permitted_def)
qed

end
