(* ===== verification/Pg_Inv.thy ===== *)
theory Pg_Inv
  imports Pg_Loop
begin

section \<open>The invariant of a tenant\<close>

text \<open>
  \<open>log_good\<close>: the change log holds cells that validation accepts, with clocks up to the tenant's clock
  and sequence numbers of their own up to the sequence. \<open>app_good\<close>: the application table shows exactly
  the values of the log, and the column default where the log has no cell.
\<close>

definition log_good :: "table_def \<Rightarrow> int \<Rightarrow> int \<Rightarrow> (cell_key, pg_cell) btree_map \<Rightarrow> bool" where
  "log_good t clock seq m \<longleftrightarrow>
     bt_wf m \<and>
     (\<forall>k c. bt_get m k = Some c \<longrightarrow>
        identifier_ok (fst k) \<and> cell_ok t (snd k) (pg_cell_col c) \<and> pc_device c \<noteq> SERVER_DEVICE_ID \<and>
        0 \<le> pc_clock c \<and> pc_clock c \<le> clock \<and> 0 < pc_seq c \<and> pc_seq c \<le> seq) \<and>
     (\<forall>k k' c c'. bt_get m k = Some c \<and> bt_get m k' = Some c' \<and> pc_seq c = pc_seq c' \<longrightarrow> k = k')"

definition app_good :: "table_def \<Rightarrow> (string, pg_row) btree_map \<Rightarrow> (cell_key, pg_cell) btree_map \<Rightarrow> bool" where
  "app_good t app log \<longleftrightarrow>
     bt_wf app \<and>
     (\<forall>k c. bt_get log k = Some c \<longrightarrow> bt_get app (fst k) \<noteq> None) \<and>
     (\<forall>row vals. bt_get app row = Some vals \<longrightarrow>
        (\<forall>n. bt_get vals n =
           (case table_column_type t n of
              None \<Rightarrow> None
            | Some ty \<Rightarrow> Some (case bt_get log (row, n) of None \<Rightarrow> pg_default ty | Some c \<Rightarrow> pc_value c))))"

definition tenant_clock :: "string \<Rightarrow> pg_db \<Rightarrow> int" where
  "tenant_clock tenant db = (case pg_clocks db tenant of None \<Rightarrow> 0 | Some c \<Rightarrow> c)"

definition loop_good :: "table_def \<Rightarrow> string \<Rightarrow> int \<Rightarrow> pg_db \<Rightarrow> bool" where
  "loop_good t tenant b db \<longleftrightarrow>
     0 \<le> pg_seq db \<and> pg_seq db \<le> i64_MAX \<and>
     log_good t b (pg_seq db) (pg_log db (crdt_table t, tenant)) \<and>
     app_good t (pg_app db (tname t, tenant)) (pg_log db (crdt_table t, tenant))"

definition lease_good :: "table_def \<Rightarrow> string \<Rightarrow> pg_db \<Rightarrow> bool" where
  "lease_good t tenant db \<longleftrightarrow>
     bt_wf (tenant_leases t tenant db) \<and>
     (\<forall>d l. bt_get (tenant_leases t tenant db) d = Some l \<longrightarrow>
        0 \<le> le_max_issued l \<and> le_max_issued l \<le> tenant_max_cursor t tenant db \<and>
        identifier_ok (le_token l) \<and> identifier_ok (le_epoch l))"

definition tenant_inv :: "table_def \<Rightarrow> string \<Rightarrow> pg_db \<Rightarrow> bool" where
  "tenant_inv t tenant db \<longleftrightarrow>
     0 \<le> tenant_clock tenant db \<and> tenant_clock tenant db \<le> i64_MAX \<and>
     loop_good t tenant (tenant_clock tenant db) db \<and> lease_good t tenant db \<and> identifier_ok (pg_epoch db)"

definition uuids_ok :: "pg_env \<Rightarrow> bool" where
  "uuids_ok env \<longleftrightarrow> (\<forall>n. identifier_ok (pg_uuid env n))"

text \<open>What a merge may change: everything outside the tenant's rows of the two tables stays, and a
  changed log entry has a sequence number that was drawn after the start.\<close>

definition pg_moved :: "table_def \<Rightarrow> string \<Rightarrow> pg_db \<Rightarrow> pg_db \<Rightarrow> bool" where
  "pg_moved t tenant db db' \<longleftrightarrow>
     pg_clocks db' = pg_clocks db \<and> pg_leases db' = pg_leases db \<and> pg_epoch db' = pg_epoch db \<and>
     pg_uuids db' = pg_uuids db \<and> pg_seq db \<le> pg_seq db' \<and>
     (\<forall>k. k \<noteq> (crdt_table t, tenant) \<longrightarrow> pg_log db' k = pg_log db k) \<and>
     (\<forall>k. k \<noteq> (tname t, tenant) \<longrightarrow> pg_app db' k = pg_app db k) \<and>
     (\<exists>rows. pg_audits db' = pg_audits db @ rows \<and> (\<forall>r\<in>set rows. au_tenant r = tenant)) \<and>
     (\<forall>k c. bt_get (pg_log db' (crdt_table t, tenant)) k = Some c \<longrightarrow>
        bt_get (pg_log db (crdt_table t, tenant)) k = Some c \<or> pg_seq db < pc_seq c) \<and>
     (\<forall>k. bt_get (pg_log db (crdt_table t, tenant)) k \<noteq> None \<longrightarrow>
        bt_get (pg_log db' (crdt_table t, tenant)) k \<noteq> None)"

lemma pg_moved_refl [simp]: "pg_moved t tenant db db"
  by (auto simp: pg_moved_def)

lemma pg_moved_trans:
  assumes a: "pg_moved t tenant db db1" and b: "pg_moved t tenant db1 db2"
  shows "pg_moved t tenant db db2"
proof -
  obtain r1 r2 where rows: "pg_audits db1 = pg_audits db @ r1" "pg_audits db2 = pg_audits db1 @ r2"
    "\<forall>r\<in>set r1. au_tenant r = tenant" "\<forall>r\<in>set r2. au_tenant r = tenant"
  proof -
    have "\<exists>rows. pg_audits db1 = pg_audits db @ rows \<and> (\<forall>r\<in>set rows. au_tenant r = tenant)"
      using a by (simp add: pg_moved_def)
    moreover have "\<exists>rows. pg_audits db2 = pg_audits db1 @ rows \<and> (\<forall>r\<in>set rows. au_tenant r = tenant)"
      using b by (simp add: pg_moved_def)
    ultimately show thesis using that by blast
  qed
  then have "\<exists>rows. pg_audits db2 = pg_audits db @ rows \<and> (\<forall>r\<in>set rows. au_tenant r = tenant)"
    by (intro exI [of _ "r1 @ r2"]) auto
  moreover have "bt_get (pg_log db (crdt_table t, tenant)) k = Some c \<or> pg_seq db < pc_seq c"
    if c: "bt_get (pg_log db2 (crdt_table t, tenant)) k = Some c" for k c
  proof -
    have "bt_get (pg_log db1 (crdt_table t, tenant)) k = Some c \<or> pg_seq db1 < pc_seq c"
      "bt_get (pg_log db1 (crdt_table t, tenant)) k = Some c \<Longrightarrow>
         bt_get (pg_log db (crdt_table t, tenant)) k = Some c \<or> pg_seq db < pc_seq c"
      "pg_seq db \<le> pg_seq db1"
      using a b c by (simp_all add: pg_moved_def)
    then show ?thesis by auto
  qed
  ultimately show ?thesis using a b by (simp add: pg_moved_def)
qed

subsection \<open>One cell keeps the invariant\<close>

lemma default_row_foldl:
  assumes "distinct (map cname cs)"
  shows "bt_get (foldl (\<lambda>m c. bt_insert (cname c) (pg_default (cty c)) m) m0 cs) n =
    (case map_of (map (\<lambda>c. (cname c, cty c)) cs) n of None \<Rightarrow> bt_get m0 n | Some ty \<Rightarrow> Some (pg_default ty))"
  using assms
proof (induction cs arbitrary: m0)
  case (Cons c cs)
  then have "map_of (map (\<lambda>c. (cname c, cty c)) cs) (cname c) = None" by (auto simp: map_of_eq_None_iff)
  then show ?case using Cons by (auto split: option.split)
qed simp

lemma pg_default_row_get:
  assumes "valid_table t"
  shows "bt_get (pg_default_row t) n = map_option pg_default (table_column_type t n)"
proof -
  let ?cs = "synchronized_columns t"
  have dist: "distinct (map cname ?cs)" by (rule distinct_synchronized [OF assms])
  have rec: "n = cname c \<and> k = cty c \<longleftrightarrow> c = \<lparr>cname = n, cty = k\<rparr>" for k c by (cases c) auto
  have "map_of (map (\<lambda>c. (cname c, cty c)) ?cs) n = Some k \<longleftrightarrow> \<lparr>cname = n, cty = k\<rparr> \<in> set ?cs" for k
    using dist by (subst map_of_eq_Some_iff) (simp_all add: comp_def image_iff rec)
  then have "map_of (map (\<lambda>c. (cname c, cty c)) ?cs) n = table_column_type t n"
    using table_column_type_iff [OF assms, of n] by (metis not_Some_eq)
  then show ?thesis by (simp add: pg_default_row_def default_row_foldl [OF dist] split: option.split)
qed

lemma app_good_ensure:
  assumes "app_good t app log" "bt_get app row = None" "valid_table t"
  shows "app_good t (bt_insert row (pg_default_row t) app) log"
proof -
  have "bt_get log (row, n) = None" for n
    using assms(1,2) unfolding app_good_def by (metis fst_conv not_Some_eq)
  then show ?thesis
    using assms pg_default_row_get [OF assms(3)] by (auto simp: app_good_def split: option.split)
qed

lemma loop_good_ensure:
  assumes "loop_good t tenant b db" "valid_table t"
  shows "loop_good t tenant b (pg_ensure_row t tenant row db)"
proof (cases "bt_get (pg_app db (tname t, tenant)) row")
  case None
  then show ?thesis
    using assms app_good_ensure [OF _ None assms(2)] by (simp add: loop_good_def pg_ensure_row_def Let_def)
next
  case (Some vals)
  then show ?thesis using assms by (simp add: pg_ensure_idem)
qed

lemma pg_moved_ensure: "pg_moved t tenant db (pg_ensure_row t tenant row db)"
  by (auto simp: pg_moved_def pg_ensure_row_def Let_def)

lemma log_good_put:
  assumes "log_good t b q m" and cell: "identifier_ok (fst k)" "cell_ok t (snd k) (pg_cell_col c)"
    "pc_device c \<noteq> SERVER_DEVICE_ID" "0 \<le> pc_clock c" "pc_clock c \<le> b" "pc_seq c = q + 1" "0 \<le> q"
  shows "log_good t b (q + 1) (bt_insert k c m)"
proof -
  have old: "pc_seq d \<le> q" if "bt_get m j = Some d" for j d
    using assms(1) that by (simp add: log_good_def)
  have uniq: "j = j'" if "bt_get (bt_insert k c m) j = Some d" "bt_get (bt_insert k c m) j' = Some d'" "pc_seq d = pc_seq d'"
    for j j' d d'
  proof (cases "j = k \<or> j' = k")
    case True
    then show ?thesis using that old [of j d] old [of j' d'] cell(6) by (cases "j = k"; cases "j' = k") auto
  next
    case False
    then show ?thesis using that assms(1) unfolding log_good_def by auto
  qed
  have each: "identifier_ok (fst j) \<and> cell_ok t (snd j) (pg_cell_col d) \<and> pc_device d \<noteq> SERVER_DEVICE_ID \<and>
      0 \<le> pc_clock d \<and> pc_clock d \<le> b \<and> 0 < pc_seq d \<and> pc_seq d \<le> q + 1"
    if "bt_get (bt_insert k c m) j = Some d" for j d
    using that assms(1) cell by (fastforce simp: log_good_def split: if_splits)
  have "bt_wf (bt_insert k c m)" using assms(1) by (simp add: log_good_def)
  with uniq each show ?thesis unfolding log_good_def by blast
qed

lemma app_good_put:
  assumes "app_good t app log" "bt_get app row = Some vals" "table_column_type t n \<noteq> None" "pc_value c = v"
  shows "app_good t (bt_insert row (bt_insert n v vals) app) (bt_insert (row, n) c log)"
  using assms by (auto simp: app_good_def split: option.split)

lemma loop_good_put:
  assumes good: "loop_good t tenant b db" and row: "bt_get (pg_app db (tname t, tenant)) (fst k) \<noteq> None"
    and cell: "identifier_ok (fst k)" "cell_ok t (snd k) c" "device_id (cmeta c) \<noteq> SERVER_DEVICE_ID"
      "int (unat (lamport_clock (cmeta c))) \<le> b"
    and seq: "pg_seq db < i64_MAX"
  shows "loop_good t tenant b (pg_put t tenant k c db)" "pg_moved t tenant db (pg_put t tenant k c db)"
proof -
  obtain vals where vals: "bt_get (pg_app db (tname t, tenant)) (fst k) = Some vals" using row by auto
  let ?c = "\<lparr>pc_value = cvalue c, pc_clock = int (unat (lamport_clock (cmeta c))), pc_device = device_id (cmeta c),
    pc_seq = pg_seq db + 1\<rparr>"
  have col: "pg_cell_col ?c = c" by (cases c; cases "cmeta c") (simp add: pg_cell_col_def)
  have "log_good t b (pg_seq db + 1) (bt_insert k ?c (pg_log db (crdt_table t, tenant)))"
    by (rule log_good_put) (use good cell in \<open>simp_all add: loop_good_def col del: of_nat_unat\<close>)
  moreover have "table_column_type t (snd k) \<noteq> None"
    using cell(2) value_ok_column by (auto simp: cell_ok_def)
  then have "app_good t (bt_insert (fst k) (bt_insert (snd k) (cvalue c) vals) (pg_app db (tname t, tenant)))
      (bt_insert (fst k, snd k) ?c (pg_log db (crdt_table t, tenant)))"
    by (intro app_good_put [OF _ vals]) (use good in \<open>simp_all add: loop_good_def\<close>)
  ultimately show "loop_good t tenant b (pg_put t tenant k c db)"
    using good seq by (simp add: loop_good_def pg_put_def Let_def pg_update_def vals del: of_nat_unat)
  show "pg_moved t tenant db (pg_put t tenant k c db)"
    by (auto simp: pg_moved_def pg_put_def Let_def pg_update_def vals)
qed

lemma cell_audit_tenant [simp]: "au_tenant (cell_audit security ctx m op) = tenant_id ctx"
  by (simp add: cell_audit_def audit_row_def split: sum.split option.split prod.split)

lemma audited_moved: "\<forall>r\<in>set rows. au_tenant r = tenant \<Longrightarrow> pg_moved t tenant db (audited security rows db)"
  by (auto simp: pg_moved_def)

lemma audited_good [simp]: "loop_good t tenant b (audited security rows db) = loop_good t tenant b db"
  by (simp add: loop_good_def)

lemma pg_merge_op_good:
  assumes op: "pg_merge_op security ctx t (k, c) (db, rjs) = Inr (db', rjs')"
    and good: "loop_good t (tenant_id ctx) b db" "valid_table t"
    and cell: "identifier_ok (fst k)" "cell_ok t (snd k) c" "device_id (cmeta c) \<noteq> SERVER_DEVICE_ID"
      "int (unat (lamport_clock (cmeta c))) \<le> b"
  shows "loop_good t (tenant_id ctx) b db'" "pg_moved t (tenant_id ctx) db db'"
    "pg_audits db' = pg_audits db @
       (if audit_mode security = Disabled then [] else [cell_audit security ctx (pg_view t (tenant_id ctx) db) (k, c)])"
    "bt_get (pg_app db' (tname t, tenant_id ctx)) (fst k) \<noteq> None"
proof -
  let ?tn = "tenant_id ctx"
  let ?db = "pg_ensure_row t ?tn (fst k) db"
  have view: "pg_view t ?tn ?db = pg_view t ?tn db" by (rule pg_view_cong) simp
  have good1: "loop_good t ?tn b ?db" by (rule loop_good_ensure [OF good])
  have mv: "pg_moved t ?tn db ?db" by (rule pg_moved_ensure)
  note row = pg_ensured [of t ?tn "fst k" db]
  note put = loop_good_put [OF good1 row cell]
  have run: "pg_merge_cell security ctx t (fst k) (snd k, c) (?db, rjs) = Inr (db', rjs')"
    using op by (simp add: pg_merge_op_def)
  let ?a = "cell_audit security ctx (pg_view t ?tn db) (k, c)"
  have aud: "pg_moved t ?tn d (audited security [?a] d)" for d by (rule audited_moved) simp
  consider "db' = audited security [?a] ?db"
    | "db' = audited security [?a] (pg_put t ?tn k c ?db)" "pg_seq ?db < i64_MAX"
    using run by (cases rule: pg_merge_cell_cases) (simp_all add: view)
  then have "loop_good t ?tn b db' \<and> pg_moved t ?tn db db' \<and>
    pg_audits db' = pg_audits db @ (if audit_mode security = Disabled then [] else [?a])"
  proof cases
    case 1
    then show ?thesis using good1 pg_moved_trans [OF mv aud] by simp
  next
    case 2
    then show ?thesis using put pg_moved_trans [OF pg_moved_trans [OF mv put(2)] aud] by simp
  qed
  then show "loop_good t ?tn b db'" "pg_moved t ?tn db db'"
    "pg_audits db' = pg_audits db @ (if audit_mode security = Disabled then [] else [?a])"
    by simp_all
  show "bt_get (pg_app db' (tname t, ?tn)) (fst k) \<noteq> None" using pg_row_stays [OF run] row by simp
qed

subsection \<open>The whole loop\<close>

definition request_op_ok :: "table_def \<Rightarrow> int \<Rightarrow> cell_key \<times> crdt_column \<Rightarrow> bool" where
  "request_op_ok t b op \<longleftrightarrow>
     identifier_ok (fst (fst op)) \<and> cell_ok t (snd (fst op)) (snd op) \<and>
     device_id (cmeta (snd op)) \<noteq> SERVER_DEVICE_ID \<and> int (unat (lamport_clock (cmeta (snd op)))) \<le> b"

lemma cell_audit_cong:
  "m (fst op) = m' (fst op) \<Longrightarrow> cell_audit security ctx m op = cell_audit security ctx m' op"
  unfolding cell_audit_def hook_result_def by presburger

lemma pg_loop_good:
  assumes "foldM (pg_merge_op security ctx t) ops (db, rjs) = Inr (db', rjs')"
    and "loop_good t (tenant_id ctx) b db" "valid_table t" "\<forall>op\<in>set ops. request_op_ok t b op"
    and "distinct (map fst ops)" "\<forall>k\<in>fst ` set ops. m k = pg_view t (tenant_id ctx) db k"
  shows "loop_good t (tenant_id ctx) b db' \<and> pg_moved t (tenant_id ctx) db db' \<and>
    pg_audits db' = pg_audits db @ (if audit_mode security = Disabled then [] else map (cell_audit security ctx m) ops)"
  using assms
proof (induction ops arbitrary: db rjs)
  case (Cons op ops)
  obtain k c where op: "op = (k, c)" by fastforce
  obtain db1 rjs1 where step: "pg_merge_op security ctx t (k, c) (db, rjs) = Inr (db1, rjs1)"
    and rest: "foldM (pg_merge_op security ctx t) ops (db1, rjs1) = Inr (db', rjs')"
    using Cons.prems(1) by (auto simp: op)
  have ok: "identifier_ok (fst k)" "cell_ok t (snd k) c" "device_id (cmeta c) \<noteq> SERVER_DEVICE_ID"
    "int (unat (lamport_clock (cmeta c))) \<le> b"
    using Cons.prems(4) by (simp_all add: request_op_ok_def op del: of_nat_unat)
  note one = pg_merge_op_good [OF step Cons.prems(2,3) ok]
  have "\<forall>j\<in>fst ` set ops. m j = pg_view t (tenant_id ctx) db1 j"
  proof
    fix j assume j: "j \<in> fst ` set ops"
    then have "j \<noteq> fst (k, c)" using Cons.prems(5) by (auto simp: op)
    then have "pg_view t (tenant_id ctx) db1 j = pg_view t (tenant_id ctx) db j" by (rule pg_loop.step_other [OF step])
    with j Cons.prems(6) show "m j = pg_view t (tenant_id ctx) db1 j" by auto
  qed
  with Cons.IH [OF rest one(1)] Cons.prems(3-5)
  have IH: "loop_good t (tenant_id ctx) b db'" "pg_moved t (tenant_id ctx) db1 db'"
    "pg_audits db' = pg_audits db1 @ (if audit_mode security = Disabled then [] else map (cell_audit security ctx m) ops)"
    by simp_all
  have "cell_audit security ctx (pg_view t (tenant_id ctx) db) op = cell_audit security ctx m op"
    by (rule cell_audit_cong) (use Cons.prems(6) in simp)
  with IH one(3) pg_moved_trans [OF one(2) IH(2)] show ?case by (simp add: op)
qed simp

lemma request_ops_ok:
  assumes "client_request_ok t device p" "op \<in> set (payload_cells p)" "int (unat (source_lamport p)) \<le> b"
  shows "request_op_ok t b op"
proof -
  obtain k c where op: "op = (k, c)" by fastforce
  have "stored_ok t (source_lamport p) k c"
    using request_stored_ok [OF assms(1), of k c 0] assms(2) by (simp add: op word_le_def max_def)
  then show ?thesis
    using assms(3) by (auto simp: op stored_ok_def request_op_ok_def word_le_def)
qed

end
