(* ===== verification/Pg_Feed.thy ===== *)
theory Pg_Feed
  imports Pg_Inv
begin

section \<open>A tenant of the database as a state of the reference server\<close>

text \<open>
  \<open>pg_abs\<close> reads the rows of one tenant and one table as a state of the reference server: the change
  log gives the cells and their write numbers, the largest sequence number of the tenant stands for the
  write counter, the leases for the issued cursors. On that reading the response of the adapter is the
  response of the reference.
\<close>

definition pg_abs :: "table_def \<Rightarrow> string \<Rightarrow> pg_db \<Rightarrow> crdt_state" where
  "pg_abs t tenant db =
     \<lparr>global_lamport = word_of_int (tenant_clock tenant db),
      cells = map (\<lambda>(k, c). (k, pg_cell_col c)) (pg_log db (crdt_table t, tenant)),
      state_table = t,
      write_seq = word_of_int (tenant_max_cursor t tenant db),
      cell_seq = map (\<lambda>(k, c). (k, word_of_int (pc_seq c))) (pg_log db (crdt_table t, tenant)),
      issued_cursors = map (\<lambda>(d, l). (d, le_max_issued l)) (tenant_leases t tenant db)\<rparr>"

lemma bt_get_map_values: "bt_get (map (\<lambda>(k, v). (k, f v)) m) k = map_option f (bt_get m k)"
  by (simp add: map_of_map)

lemma bt_wf_map_values [simp]: "bt_wf (map (\<lambda>(k, v). (k, f v)) m) = bt_wf m"
  by (simp add: bt_wf_def comp_def case_prod_beta)

lemma pg_abs_sel [simp]:
  "bt_get (cells (pg_abs t tenant db)) = pg_view t tenant db"
  "state_table (pg_abs t tenant db) = t"
  "max_issued_cursor (pg_abs t tenant db) device =
     (case bt_get (tenant_leases t tenant db) device of None \<Rightarrow> 0 | Some l \<Rightarrow> le_max_issued l)"
  by (auto simp: pg_abs_def pg_view_def fun_eq_iff map_of_map max_issued_cursor_def split: option.split)

subsection \<open>The largest sequence number\<close>

lemma foldl_max:
  "a \<le> foldl max a (xs :: int list)" "x \<in> set xs \<Longrightarrow> x \<le> foldl max a xs"
  "foldl max a xs = a \<or> foldl max a xs \<in> set xs"
proof (induction xs arbitrary: a)
  case (Cons y ys)
  {
    case 1
    show ?case using Cons.IH(1) [of "max a y"] by simp
  next
    case 2
    then show ?case using Cons.IH(1) [of "max a y"] Cons.IH(2) [of "max a y"] by auto
  next
    case 3
    show ?case using Cons.IH(3) [of "max a y"] by (auto simp: max_def)
  }
qed simp_all

lemma tenant_max_bounds:
  assumes "log_good t b q (pg_log db (crdt_table t, tenant))" "0 \<le> q"
  shows "0 \<le> tenant_max_cursor t tenant db" "tenant_max_cursor t tenant db \<le> q"
    "bt_get (pg_log db (crdt_table t, tenant)) k = Some c \<Longrightarrow> pc_seq c \<le> tenant_max_cursor t tenant db"
proof -
  let ?m = "pg_log db (crdt_table t, tenant)" and ?xs = "map (\<lambda>e. pc_seq (snd e)) (pg_log db (crdt_table t, tenant))"
  have wf: "bt_wf ?m" using assms(1) by (simp add: log_good_def)
  show "0 \<le> tenant_max_cursor t tenant db" unfolding tenant_max_cursor_def by (rule foldl_max(1))
  show "tenant_max_cursor t tenant db \<le> q"
    using foldl_max(3) [of 0 ?xs] assms unfolding tenant_max_cursor_def
    by (auto simp: bt_get_iff [OF wf] log_good_def)
  show "pc_seq c \<le> tenant_max_cursor t tenant db" if "bt_get ?m k = Some c"
    unfolding tenant_max_cursor_def by (rule foldl_max(2)) (use bt_get_SomeD [OF that] in force)
qed

subsection \<open>The invariant of the reference server holds\<close>

lemma unat_seq: "0 \<le> q \<Longrightarrow> q \<le> i64_MAX \<Longrightarrow> unat (word_of_int q :: u64) = nat q"
  using unat_clock [of q] by linarith

lemma pg_abs_counts:
  assumes "loop_good t tenant b db"
  shows "int (last_write (pg_abs t tenant db)) = tenant_max_cursor t tenant db"
    "bt_get (pg_log db (crdt_table t, tenant)) k = Some c \<Longrightarrow> int (write_no (pg_abs t tenant db) k) = pc_seq c"
    "headroom 0 (pg_abs t tenant db)"
    "i64_or_max (write_seq (pg_abs t tenant db)) = tenant_max_cursor t tenant db"
proof -
  have log: "log_good t b (pg_seq db) (pg_log db (crdt_table t, tenant))" "0 \<le> pg_seq db" "pg_seq db \<le> i64_MAX"
    using assms by (simp_all add: loop_good_def)
  note max = tenant_max_bounds [OF log(1,2)]
  show last: "int (last_write (pg_abs t tenant db)) = tenant_max_cursor t tenant db"
    using max(1,2) log(3) unat_clock by (simp add: last_write_def pg_abs_def del: of_nat_unat)
  show head: "headroom 0 (pg_abs t tenant db)"
    using last max(2) log(3) by (simp add: headroom_def i64_MAX_def)
  show "i64_or_max (write_seq (pg_abs t tenant db)) = tenant_max_cursor t tenant db"
    using i64_write_seq [OF head] last by simp
  show "int (write_no (pg_abs t tenant db) k) = pc_seq c" if c: "bt_get (pg_log db (crdt_table t, tenant)) k = Some c"
  proof -
    have "0 < pc_seq c" "pc_seq c \<le> pg_seq db" using log(1) c by (auto simp: log_good_def)
    then show ?thesis
      using c log(3) unat_clock [of "pc_seq c"]
      by (simp add: write_no_def seq_of_def pg_abs_def map_of_map del: of_nat_unat)
  qed
qed

lemma word_of_int_le:
  "0 \<le> a \<Longrightarrow> a \<le> b \<Longrightarrow> b \<le> i64_MAX \<Longrightarrow> (word_of_int a :: u64) \<le> word_of_int b"
  using unat_clock [of a] unat_clock [of b] by (simp add: word_le_nat_alt del: of_nat_unat)

lemma pg_abs_feed_inv:
  assumes "loop_good t tenant b db"
  shows "feed_inv (pg_abs t tenant db)"
proof -
  let ?m = "pg_log db (crdt_table t, tenant)" and ?s = "pg_abs t tenant db"
  have log: "log_good t b (pg_seq db) ?m" "0 \<le> pg_seq db" "pg_seq db \<le> i64_MAX"
    using assms by (simp_all add: loop_good_def)
  note max = tenant_max_bounds [OF log(1,2)]
  have seq: "bt_get (cell_seq ?s) k = map_option (\<lambda>c. word_of_int (pc_seq c)) (bt_get ?m k)" for k
    by (simp add: pg_abs_def map_of_map)
  have num: "unat (word_of_int (pc_seq c) :: u64) = nat (pc_seq c)" "0 < pc_seq c" "pc_seq c \<le> tenant_max_cursor t tenant db"
    if "bt_get ?m k = Some c" for k c
  proof -
    have "0 < pc_seq c" "pc_seq c \<le> pg_seq db" using log(1) that by (auto simp: log_good_def)
    then show "unat (word_of_int (pc_seq c) :: u64) = nat (pc_seq c)" "0 < pc_seq c"
      using log(3) by (simp_all add: unat_seq)
    show "pc_seq c \<le> tenant_max_cursor t tenant db" by (rule max(3) [OF that])
  qed
  have top: "unat (write_seq ?s) = nat (tenant_max_cursor t tenant db)"
    using max(1,2) log(3) by (simp add: pg_abs_def unat_seq)
  have bounds: "0 < unat q \<and> unat q \<le> unat (write_seq ?s)" if q: "bt_get (cell_seq ?s) k = Some q" for k q
  proof -
    obtain c where c: "bt_get ?m k = Some c" "q = word_of_int (pc_seq c)" using q by (auto simp: seq)
    show ?thesis using num [OF c(1)] top c(2) by simp
  qed
  have keys: "bt_keys (cell_seq ?s) = bt_keys ?m" "bt_keys (cells ?s) = bt_keys ?m"
    by (simp_all add: pg_abs_def comp_def case_prod_beta)
  have "inj_on (bt_get (cell_seq ?s)) (set (bt_keys ?m))"
  proof (rule inj_onI)
    fix k k' assume k: "k \<in> set (bt_keys ?m)" "k' \<in> set (bt_keys ?m)" and eq: "bt_get (cell_seq ?s) k = bt_get (cell_seq ?s) k'"
    then obtain c c' where c: "bt_get ?m k = Some c" "bt_get ?m k' = Some c'" by (metis bt_get_None not_Some_eq)
    then have "(word_of_int (pc_seq c) :: u64) = word_of_int (pc_seq c')" using eq by (simp add: seq)
    then have "nat (pc_seq c) = nat (pc_seq c')" using num(1) c by metis
    then have "pc_seq c = pc_seq c'" using num(2) c by (metis eq_nat_nat_iff less_imp_le)
    then show "k = k'" using log(1) c unfolding log_good_def by blast
  qed
  moreover have "bt_wf (cells ?s)" "bt_wf (cell_seq ?s)" using log(1) by (simp_all add: pg_abs_def log_good_def)
  ultimately show ?thesis using bounds by (simp add: feed_inv_def keys)
qed

lemma pg_abs_cells_inv:
  assumes "loop_good t tenant b db" "b \<le> i64_MAX"
  shows "cells_inv (word_of_int b) (pg_abs t tenant db)"
  unfolding cells_inv_def
proof (intro allI impI)
  fix k x assume "bt_get (cells (pg_abs t tenant db)) k = Some x"
  then obtain c where c: "bt_get (pg_log db (crdt_table t, tenant)) k = Some c" "x = pg_cell_col c"
    by (auto simp: pg_view_def)
  then have ok: "identifier_ok (fst k)" "cell_ok t (snd k) (pg_cell_col c)" "pc_device c \<noteq> SERVER_DEVICE_ID"
    "0 \<le> pc_clock c" "pc_clock c \<le> b"
    using assms(1) by (auto simp: loop_good_def log_good_def)
  then have "(word_of_int (pc_clock c) :: u64) \<le> word_of_int b" using word_of_int_le assms(2) by blast
  with ok show "stored_ok (state_table (pg_abs t tenant db)) (word_of_int b) k x"
    by (simp add: stored_ok_def c(2)) (simp add: pg_cell_col_def)
qed

lemma pg_abs_state_inv:
  assumes "tenant_inv t tenant db"
  shows "state_inv (pg_abs t tenant db)"
proof -
  have inv: "loop_good t tenant (tenant_clock tenant db) db" "tenant_clock tenant db \<le> i64_MAX" "lease_good t tenant db"
    using assms by (simp_all add: tenant_inv_def)
  have "cursors_inv (pg_abs t tenant db)"
    using inv(3) pg_abs_counts(4) [OF inv(1)]
    by (auto simp: cursors_inv_def lease_good_def) (auto simp: pg_abs_def map_of_map)
  moreover have "global_lamport (pg_abs t tenant db) = word_of_int (tenant_clock tenant db)" by (simp add: pg_abs_def)
  ultimately show ?thesis
    using pg_abs_feed_inv [OF inv(1)] pg_abs_cells_inv [OF inv(1,2)] by (simp add: state_inv_def)
qed

subsection \<open>The change feed\<close>

lemma insort_key_map:
  assumes "\<And>y. y \<in> insert x (set xs) \<Longrightarrow> g (h x) \<le> g (h y) \<longleftrightarrow> f x \<le> f y"
  shows "insort_key g (h x) (map h xs) = map h (insort_key f x xs)"
  using assms by (induction xs) auto

lemma sort_key_map:
  assumes "\<And>x y. x \<in> set xs \<Longrightarrow> y \<in> set xs \<Longrightarrow> g (h x) \<le> g (h y) \<longleftrightarrow> f x \<le> f y"
  shows "sort_key g (map h xs) = map h (sort_key f xs)"
  using assms
proof (induction xs)
  case (Cons x xs)
  then have "insort_key g (h x) (map h (sort_key f xs)) = map h (insort_key f x (sort_key f xs))"
    by (intro insort_key_map) auto
  with Cons show ?case by simp
qed simp

definition feed_entry :: "cell_key \<times> pg_cell \<Rightarrow> u64 \<times> cell_key \<times> crdt_column" where
  "feed_entry e = (word_of_int (pc_seq (snd e)), fst e, pg_cell_col (snd e))"

lemma pg_feed_candidates:
  assumes "loop_good t tenant b db"
  shows "feed_candidates (pg_abs t tenant db) eff =
    map feed_entry (sort_key (\<lambda>e. pc_seq (snd e)) (filter (\<lambda>e. pc_seq (snd e) > eff) (pg_log db (crdt_table t, tenant))))"
proof -
  let ?m = "pg_log db (crdt_table t, tenant)" and ?s = "pg_abs t tenant db"
  have log: "log_good t b (pg_seq db) ?m" "pg_seq db \<le> i64_MAX" using assms by (simp_all add: loop_good_def)
  then have wf: "bt_wf ?m" by (simp add: log_good_def)
  have seq: "0 < pc_seq (snd e)" "pc_seq (snd e) \<le> i64_MAX" if "e \<in> set ?m" for e
  proof -
    have "bt_get ?m (fst e) = Some (snd e)" using that bt_get_iff [OF wf] by (metis prod.collapse)
    then have "0 < pc_seq (snd e) \<and> pc_seq (snd e) \<le> pg_seq db" using log(1) unfolding log_good_def by blast
    then show "0 < pc_seq (snd e)" "pc_seq (snd e) \<le> i64_MAX" using log(2) by simp_all
  qed
  have word: "i64_or_max (word_of_int (pc_seq (snd e))) = pc_seq (snd e)" if "e \<in> set ?m" for e
  proof -
    have "int (unat (word_of_int (pc_seq (snd e)) :: u64)) = pc_seq (snd e)"
      using seq [OF that] by (intro unat_clock) simp_all
    then show ?thesis
      using i64_or_max_small [of "word_of_int (pc_seq (snd e))"] seq [OF that]
      by (simp add: i64_MAX_def del: of_nat_unat)
  qed
  have entry: "(seq_of ?s (fst e), fst e, pg_cell_col (snd e)) = feed_entry e" if "e \<in> set ?m" for e
    using that bt_get_iff [OF wf, of "fst e" "snd e"] by (simp add: feed_entry_def seq_of_def pg_abs_def map_of_map)
  have "map (\<lambda>(key, column). (seq_of ?s key, key, column)) (cells ?s) = map feed_entry ?m"
    using entry by (simp add: pg_abs_def case_prod_beta)
  then have "feed_candidates ?s eff = sort_key fst (filter (\<lambda>(q, _). i64_or_max q > eff) (map feed_entry ?m))"
    by (simp add: feed_candidates_def)
  also have "filter (\<lambda>(q, _). i64_or_max q > eff) (map feed_entry ?m) = map feed_entry (filter (\<lambda>e. pc_seq (snd e) > eff) ?m)"
    by (simp add: filter_map comp_def) (rule arg_cong [of _ _ "map feed_entry"], rule filter_cong, simp_all add: feed_entry_def word)
  also have "sort_key fst \<dots> = map feed_entry (sort_key (\<lambda>e. pc_seq (snd e)) (filter (\<lambda>e. pc_seq (snd e) > eff) ?m))"
  proof (rule sort_key_map)
    fix x y assume "x \<in> set (filter (\<lambda>e. pc_seq (snd e) > eff) ?m)" "y \<in> set (filter (\<lambda>e. pc_seq (snd e) > eff) ?m)"
    then have "0 < pc_seq (snd x)" "pc_seq (snd x) \<le> i64_MAX" "0 < pc_seq (snd y)" "pc_seq (snd y) \<le> i64_MAX"
      using seq by simp_all
    then show "fst (feed_entry x) \<le> fst (feed_entry y) \<longleftrightarrow> pc_seq (snd x) \<le> pc_seq (snd y)"
      by (simp add: feed_entry_def word_le_nat_alt unat_seq nat_le_eq_zle)
  qed
  finally show ?thesis .
qed

text \<open>The adapter counts the bytes of a cell as the reference does, with another measure of a cell.\<close>

definition pg_len :: "pg_env \<Rightarrow> json_len" where
  "pg_len env c = rbind (pg_json_len env (cvalue c)) (\<lambda>n. Inr (n + length (device_id (cmeta c))))"

lemma pg_fill_page_ref:
  assumes "\<forall>e\<in>set cs. 0 \<le> pc_clock (snd e) \<and> i64_or_max (word_of_int (pc_seq (snd e))) = pc_seq (snd e)"
    and "pg_fill_page env cs pg = Inr (pg', mo)"
  shows "fill_page (pg_len env) (map feed_entry cs) pg = Inr pg'"
    "mo \<longleftrightarrow> included pg' < included pg + length cs"
  using assms
proof (atomize(full), induction env cs pg arbitrary: pg' mo rule: pg_fill_page.induct)
  case (2 env row column_name c rest pg)
  have col: "pg_column c = Inr (pg_cell_col c)" using 2(2) by (simp add: pg_column_ok)
  obtain n where n: "pg_json_len env (cvalue (pg_cell_col c)) = Inr n" using 2(3) col by auto
  have sum: "n + length (device_id (cmeta (pg_cell_col c))) + length row + length column_name =
      n + length row + length column_name + length (device_id (cmeta (pg_cell_col c)))" by simp
  show ?case
  proof (cases "included pg \<ge> MAX_RESPONSE_CELLS \<or> included pg > 0 \<and>
      response_bytes pg + (n + length row + length column_name + length (device_id (cmeta (pg_cell_col c)))) > MAX_RESPONSE_BYTES")
    case True
    then show ?thesis using 2(3) col n by (auto simp: feed_entry_def pg_len_def Let_def sum)
  next
    case False
    let ?pg = "\<lparr>response_rows = group_insert row column_name (pg_cell_col c) (response_rows pg),
        response_bytes = response_bytes pg + (n + length row + length column_name + length (device_id (cmeta (pg_cell_col c)))),
        next_cursor = pc_seq c, included = included pg + 1\<rparr>"
    have "pg_fill_page env rest ?pg = Inr (pg', mo)" using 2(3) False col n by (simp add: Let_def)
    with 2(1) [OF col n refl False] 2(2)
    have IH: "fill_page (pg_len env) (map feed_entry rest) ?pg = Inr pg'" "mo \<longleftrightarrow> included pg' < included ?pg + length rest"
      by simp_all
    have "fill_page (pg_len env) (map feed_entry (((row, column_name), c) # rest)) pg =
        fill_page (pg_len env) (map feed_entry rest) ?pg"
      using False n 2(2) by (auto simp: feed_entry_def pg_len_def Let_def sum)
    with IH show ?thesis by simp
  qed
qed auto

text \<open>A page never needs more than one cell beyond its limit.\<close>

lemma fill_page_take:
  assumes "included pg + n = MAX_RESPONSE_CELLS"
  shows "fill_page json_len (take (n + 1) cs) pg = fill_page json_len cs pg"
  using assms
proof (induction n arbitrary: cs pg)
  case 0
  then show ?case by (cases cs; cases "hd cs") (auto simp: Let_def)
next
  case (Suc n)
  show ?case
  proof (cases cs)
    case (Cons e rest)
    obtain q row col x where e: "e = (q, (row, col), x)" by (metis surj_pair)
    show ?thesis using Suc by (cases "json_len x") (auto simp: Cons e Let_def)
  qed simp
qed

lemma pg_page:
  assumes good: "loop_good t tenant b db"
    and pg: "pg_fill_page env (pg_feed t tenant eff db)
      \<lparr>response_rows = [], response_bytes = 0, next_cursor = eff, included = 0\<rparr> = Inr (pg, mo)"
  shows "fill_page (pg_len env) (feed_candidates (pg_abs t tenant db) eff)
      \<lparr>response_rows = [], response_bytes = 0, next_cursor = eff, included = 0\<rparr> = Inr pg"
    "mo \<longleftrightarrow> included pg < length (feed_candidates (pg_abs t tenant db) eff)"
proof -
  let ?pg0 = "\<lparr>response_rows = [], response_bytes = 0, next_cursor = eff, included = 0\<rparr>"
  let ?L = "sort_key (\<lambda>e. pc_seq (snd e)) (filter (\<lambda>e. pc_seq (snd e) > eff) (pg_log db (crdt_table t, tenant)))"
  have feed: "pg_feed t tenant eff db = take (MAX_RESPONSE_CELLS + 1) ?L" by (simp add: pg_feed_def)
  have cands: "feed_candidates (pg_abs t tenant db) eff = map feed_entry ?L" by (rule pg_feed_candidates [OF good])
  have ok: "\<forall>e\<in>set (pg_feed t tenant eff db). 0 \<le> pc_clock (snd e) \<and> i64_or_max (word_of_int (pc_seq (snd e))) = pc_seq (snd e)"
  proof
    fix e assume "e \<in> set (pg_feed t tenant eff db)"
    then have "e \<in> set (pg_log db (crdt_table t, tenant))" unfolding feed using set_take_subset by fastforce
    then have e: "bt_get (pg_log db (crdt_table t, tenant)) (fst e) = Some (snd e)"
      using good bt_get_iff by (metis log_good_def loop_good_def prod.collapse)
    then have bounds: "0 \<le> pc_clock (snd e)" "0 < pc_seq (snd e)" "pc_seq (snd e) \<le> i64_MAX"
      using good by (fastforce simp: loop_good_def log_good_def)+
    then have "int (unat (word_of_int (pc_seq (snd e)) :: u64)) = pc_seq (snd e)" by (intro unat_clock) simp_all
    with bounds show "0 \<le> pc_clock (snd e) \<and> i64_or_max (word_of_int (pc_seq (snd e))) = pc_seq (snd e)"
      using i64_or_max_small [of "word_of_int (pc_seq (snd e))"] by (simp add: i64_MAX_def del: of_nat_unat)
  qed
  note ref = pg_fill_page_ref [OF ok pg]
  have "fill_page (pg_len env) (map feed_entry ?L) ?pg0 = fill_page (pg_len env) (take (MAX_RESPONSE_CELLS + 1) (map feed_entry ?L)) ?pg0"
    by (rule fill_page_take [symmetric]) simp
  then show fill: "fill_page (pg_len env) (feed_candidates (pg_abs t tenant db) eff) ?pg0 = Inr pg"
    using ref(1) by (simp add: cands feed take_map)
  have "included pg \<le> MAX_RESPONSE_CELLS" using fill_page_prefix [OF fill] by auto
  then show "mo \<longleftrightarrow> included pg < length (feed_candidates (pg_abs t tenant db) eff)"
    using ref(2) by (auto simp: cands feed)
qed

text \<open>Issuing a lease is issuing a cursor.\<close>

lemma tenant_leases_issue:
  assumes "pg_issue_lease env now t tenant device c epoch db = (db', token)"
  shows "tenant_leases t tenant db' = bt_insert device
      (case bt_get (tenant_leases t tenant db) device of
         None \<Rightarrow> \<lparr>le_max_issued = c, le_token = pg_uuid env (pg_uuids db), le_epoch = epoch, le_seen = now\<rparr>
       | Some old \<Rightarrow> \<lparr>le_max_issued = max (le_max_issued old) c,
           le_token = (if le_epoch old = epoch then le_token old else pg_uuid env (pg_uuids db)),
           le_epoch = epoch, le_seen = now\<rparr>) (tenant_leases t tenant db)"
    "\<exists>l. bt_get (tenant_leases t tenant db') device = Some l \<and> le_token l = token \<and> le_epoch l = epoch \<and> c \<le> le_max_issued l"
    "pg_clocks db' = pg_clocks db" "pg_app db' = pg_app db" "pg_log db' = pg_log db" "pg_epoch db' = pg_epoch db"
    "pg_audits db' = pg_audits db" "pg_seq db' = pg_seq db" "pg_uuids db' = pg_uuids db + 1"
  using assms by (auto simp: pg_issue_lease_def Let_def tenant_leases_def split: option.splits)

lemma map_bt_insert_values: "map (\<lambda>(k, v). (k, f v)) (bt_insert k v m) = bt_insert k (f v) (map (\<lambda>(k, v). (k, f v)) m)"
  by (induction m) auto

lemma pg_abs_issue:
  assumes "pg_issue_lease env now t tenant device c epoch db = (db', token)"
  shows "pg_abs t tenant db' = issue_cursor device c (pg_abs t tenant db)"
  using tenant_leases_issue [OF assms]
  by (simp add: pg_abs_def issue_cursor_def tenant_clock_def tenant_max_cursor_def map_bt_insert_values map_of_map
      split: option.split)

end
