(* ===== verification/Pg_Merge.thy ===== *)
theory Pg_Merge
  imports Pg_Feed
begin

section \<open>A merge of the PostgreSQL adapter\<close>

text \<open>
  What a successful \<open>merge_crdt_states_with_security\<close> does, in terms of \<open>pg_abs\<close>: the same contract as
  a merge of the reference server, with cursors that are accepted only together with the token and the
  epoch of their lease.
\<close>

subsection \<open>The response\<close>

lemma pg_cursor_valid_bounds:
  assumes "pg_cursor_valid t tenant device p db" "loop_good t tenant b db"
  shows "cursor_valid (pg_abs t tenant db) device (cursor p)"
  using assms pg_abs_counts(4) [OF assms(2)]
  by (auto simp: pg_cursor_valid_def cursor_valid_def split: option.splits)

lemma pg_build_response_Inr:
  assumes "pg_build_response env now p device tenant t clock rjs db = Inr (db', resp)"
  obtains pg mo token where
    "pg_fill_page env (pg_feed t tenant (if pg_cursor_valid t tenant device p db then cursor p else 0) db)
      \<lparr>response_rows = [], response_bytes = 0,
       next_cursor = (if pg_cursor_valid t tenant device p db then cursor p else 0), included = 0\<rparr> = Inr (pg, mo)"
    "pg_issue_lease env now t tenant device (cursor resp) (pg_epoch db) db = (db', token)"
    "protocol_version resp = protocol_version p" "schema_fingerprint resp = table_fingerprint t"
    "source_device_id resp = SERVER_DEVICE_ID" "source_lamport resp = clock"
    "changes resp = rows_of (response_rows pg)"
    "cursor resp = (if mo then next_cursor pg else tenant_max_cursor t tenant db)" "has_more resp = mo"
    "cursor_reset resp \<longleftrightarrow> cursor p \<noteq> 0 \<and> \<not> pg_cursor_valid t tenant device p db"
    "cursor_token resp = Some token" "server_epoch resp = Some (pg_epoch db)" "rejections resp = rjs"
proof -
  let ?eff = "if pg_cursor_valid t tenant device p db then cursor p else 0"
  obtain pg mo where pg: "pg_fill_page env (pg_feed t tenant ?eff db)
      \<lparr>response_rows = [], response_bytes = 0, next_cursor = ?eff, included = 0\<rparr> = Inr (pg, mo)"
    using assms by (auto simp: pg_build_response_def Let_def)
  obtain db1 token where lease: "pg_issue_lease env now t tenant device
      (if mo then next_cursor pg else tenant_max_cursor t tenant db) (pg_epoch db) db = (db1, token)"
    by fastforce
  have "db1 = db'" and resp: "resp = \<lparr>protocol_version = protocol_version p, schema_fingerprint = table_fingerprint t,
      source_device_id = SERVER_DEVICE_ID, source_lamport = clock, changes = rows_of (response_rows pg),
      cursor = (if mo then next_cursor pg else tenant_max_cursor t tenant db), has_more = mo,
      cursor_reset = (cursor p \<noteq> 0 \<and> \<not> pg_cursor_valid t tenant device p db), cursor_token = Some token,
      server_epoch = Some (pg_epoch db), rejections = rjs\<rparr>"
    using assms by (simp_all add: pg_build_response_def Let_def pg lease)
  with pg lease show thesis by (intro that) (simp_all add: resp)
qed

text \<open>The adapter answers as the reference answers the request with its accepted cursor.\<close>

lemma pg_build_response_ref:
  assumes br: "pg_build_response env now p device tenant t clock rjs db = Inr (db', resp)"
    and good: "loop_good t tenant b db" and clock: "clock = word_of_int (tenant_clock tenant db)"
  defines "eff \<equiv> if pg_cursor_valid t tenant device p db then cursor p else 0"
  shows "build_response (pg_len env) (p\<lparr>cursor := eff\<rparr>) device rjs (pg_abs t tenant db) =
    Inr (pg_abs t tenant db', resp\<lparr>cursor_reset := False, cursor_token := None, server_epoch := None\<rparr>)"
    "effective_cursor (pg_abs t tenant db) device eff = eff"
proof -
  let ?s = "pg_abs t tenant db" and ?pg0 = "\<lparr>response_rows = [], response_bytes = 0, next_cursor = eff, included = 0\<rparr>"
  obtain pg mo token where pg: "pg_fill_page env (pg_feed t tenant eff db) ?pg0 = Inr (pg, mo)"
    and lease: "pg_issue_lease env now t tenant device (cursor resp) (pg_epoch db) db = (db', token)"
    and r: "protocol_version resp = protocol_version p" "schema_fingerprint resp = table_fingerprint t"
    "source_device_id resp = SERVER_DEVICE_ID" "source_lamport resp = clock"
    "changes resp = rows_of (response_rows pg)"
    "cursor resp = (if mo then next_cursor pg else tenant_max_cursor t tenant db)" "has_more resp = mo" "rejections resp = rjs"
    by (rule pg_build_response_Inr [OF br, folded eff_def]) blast
  have valid: "cursor_valid ?s device eff"
  proof (cases "pg_cursor_valid t tenant device p db")
    case True
    then show ?thesis using pg_cursor_valid_bounds [OF True good] by (simp add: eff_def)
  qed (simp add: eff_def cursor_valid_def)
  then show eff: "effective_cursor ?s device eff = eff" by (simp add: effective_cursor_def)
  note page = pg_page [OF good pg]
  have top: "i64_or_max (write_seq ?s) = tenant_max_cursor t tenant db" by (rule pg_abs_counts(4) [OF good])
  have "global_lamport ?s = clock" by (simp add: pg_abs_def clock)
  then show "build_response (pg_len env) (p\<lparr>cursor := eff\<rparr>) device rjs ?s =
    Inr (pg_abs t tenant db', resp\<lparr>cursor_reset := False, cursor_token := None, server_epoch := None\<rparr>)"
    using page(1) r page(2) top valid eff
    by (simp add: build_response_def Let_def pg_abs_issue [OF lease])
qed

subsection \<open>The steps of a merge\<close>

lemma pg_merge_steps:
  assumes "merge_crdt_states_with_security env now p device tenant t security db = Inr (db', resp)"
  obtains w db1 rjs clock c where "identifier_ok tenant" "client_request_ok t device p"
    "server_clock_from_i64 (tenant_clock tenant db) = Inr w" "unat (source_lamport p) \<le> unat w + 1000000"
    "foldM (pg_merge_op security (pg_context tenant device t) t) (payload_cells p)
      (db\<lparr>pg_clocks := (pg_clocks db)(tenant \<mapsto> tenant_clock tenant db)\<rparr>, []) = Inr (db1, rjs)"
    "checked_add_u64 (max w (source_lamport p)) 1 = Some clock" "server_clock_to_i64 clock = Inr c"
    "pg_build_response env now p device tenant t clock rjs (db1\<lparr>pg_clocks := (pg_clocks db1)(tenant \<mapsto> c)\<rparr>) = Inr (db', resp)"
proof -
  have ok: "client_request_ok t device p" and tid: "identifier_ok tenant"
    using assms by (auto simp: merge_crdt_states_with_security_def validate_client_request_iff)
  have obs: "max_observed_clock p = source_lamport p"
    by (rule max_observed_clock_eq) (use ok in \<open>simp add: client_request_ok_def; blast\<close>)
  have rows: "\<forall>row\<in>set (changes p). row_columns row \<noteq> []" using ok by (simp add: client_request_ok_def payload_ok_def)
  show thesis
    using assms that ok tid
    unfolding merge_crdt_states_with_security_def pg_merge_rows_flat [OF rows] tenant_clock_def [symmetric] Let_def obs
    by (auto simp: validate_clock_advance_ok split: option.splits)
qed

subsection \<open>What stays\<close>

lemma pg_clocks_frame [simp]:
  "loop_good t tenant b (db\<lparr>pg_clocks := f\<rparr>) = loop_good t tenant b db"
  "pg_view t tenant (db\<lparr>pg_clocks := f\<rparr>) = pg_view t tenant db"
  "tenant_leases t tenant (db\<lparr>pg_clocks := f\<rparr>) = tenant_leases t tenant db"
  "tenant_max_cursor t tenant (db\<lparr>pg_clocks := f\<rparr>) = tenant_max_cursor t tenant db"
  "pg_cursor_valid t tenant device p (db\<lparr>pg_clocks := f\<rparr>) = pg_cursor_valid t tenant device p db"
  by (simp_all add: loop_good_def pg_view_def fun_eq_iff tenant_leases_def tenant_max_cursor_def pg_cursor_valid_def
      split: option.split)

lemma loop_good_mono: "loop_good t tenant b db \<Longrightarrow> b \<le> b' \<Longrightarrow> loop_good t tenant b' db"
  by (fastforce simp: loop_good_def log_good_def)

lemma tenant_max_mono:
  assumes "pg_moved t tenant db db'" "loop_good t tenant b db" "loop_good t tenant b' db'"
  shows "tenant_max_cursor t tenant db \<le> tenant_max_cursor t tenant db'"
proof -
  let ?m = "pg_log db (crdt_table t, tenant)" and ?m' = "pg_log db' (crdt_table t, tenant)"
  have good: "log_good t b (pg_seq db) ?m" "0 \<le> pg_seq db" "log_good t b' (pg_seq db') ?m'" "0 \<le> pg_seq db'"
    using assms(2,3) by (simp_all add: loop_good_def)
  have wf: "bt_wf ?m" using good(1) by (simp add: log_good_def)
  note max' = tenant_max_bounds [OF good(3,4)]
  consider "tenant_max_cursor t tenant db = 0" | e where "e \<in> set ?m" "tenant_max_cursor t tenant db = pc_seq (snd e)"
    using foldl_max(3) [of 0 "map (\<lambda>e. pc_seq (snd e)) ?m"] unfolding tenant_max_cursor_def by auto
  then show ?thesis
  proof cases
    case 1
    then show ?thesis using max'(1) by simp
  next
    case 2
    then have old: "bt_get ?m (fst e) = Some (snd e)" using bt_get_iff [OF wf] by (metis prod.collapse)
    then obtain c where c: "bt_get ?m' (fst e) = Some c" using assms(1) unfolding pg_moved_def by (metis not_Some_eq)
    then have "bt_get ?m (fst e) = Some c \<or> pg_seq db < pc_seq c" using assms(1) by (simp add: pg_moved_def)
    then have "pc_seq (snd e) \<le> pc_seq c"
      using old good(1) by (fastforce simp: log_good_def)
    with 2(2) max'(3) [OF c] show ?thesis by simp
  qed
qed

lemma lease_good_moved:
  assumes "lease_good t tenant db" "tenant_leases t tenant db' = tenant_leases t tenant db"
    "tenant_max_cursor t tenant db \<le> tenant_max_cursor t tenant db'"
  shows "lease_good t tenant db'"
  using assms by (fastforce simp: lease_good_def)

lemma pg_cursor_valid_moved:
  assumes "lease_good t tenant db" "tenant_leases t tenant db' = tenant_leases t tenant db"
    "tenant_max_cursor t tenant db \<le> tenant_max_cursor t tenant db'" "pg_epoch db' = pg_epoch db"
  shows "pg_cursor_valid t tenant device p db' \<longleftrightarrow> pg_cursor_valid t tenant device p db"
proof (cases "bt_get (tenant_leases t tenant db) device")
  case (Some l)
  then have "le_max_issued l \<le> tenant_max_cursor t tenant db" using assms(1) by (simp add: lease_good_def)
  then show ?thesis using assms Some by (auto simp: pg_cursor_valid_def)
qed (simp add: pg_cursor_valid_def assms)

lemma grown_moved:
  assumes mv: "pg_moved t tenant db db'" and good: "loop_good t tenant b db" "loop_good t tenant b' db'"
    and run: "lww.run ops (pg_view t tenant db) = Inr (pg_view t tenant db')"
  shows "grown (pg_abs t tenant db) (pg_abs t tenant db')"
proof -
  let ?m = "pg_log db (crdt_table t, tenant)" and ?m' = "pg_log db' (crdt_table t, tenant)"
  have seq: "0 \<le> pg_seq db" "log_good t b (pg_seq db) ?m" using good(1) by (simp_all add: loop_good_def)
  note n = pg_abs_counts [OF good(1)] and n' = pg_abs_counts [OF good(2)]
  have lease: "tenant_leases t tenant db' = tenant_leases t tenant db" using mv by (simp add: pg_moved_def tenant_leases_def)
  have "last_write (pg_abs t tenant db) \<le> last_write (pg_abs t tenant db')"
    using tenant_max_mono [OF mv good] n(1) n'(1) by linarith
  moreover have "bt_get (cells (pg_abs t tenant db)) k = Some x \<and> write_no (pg_abs t tenant db') k = write_no (pg_abs t tenant db) k \<or>
      last_write (pg_abs t tenant db) < write_no (pg_abs t tenant db') k"
    if x: "bt_get (cells (pg_abs t tenant db')) k = Some x" for k x
  proof -
    obtain c where c: "bt_get ?m' k = Some c" "x = pg_cell_col c" using x by (auto simp: pg_view_def)
    have w: "int (write_no (pg_abs t tenant db') k) = pc_seq c" by (rule n'(2) [OF c(1)])
    have "bt_get ?m k = Some c \<or> pg_seq db < pc_seq c" using mv c(1) by (simp add: pg_moved_def)
    then show ?thesis
    proof
      assume old: "bt_get ?m k = Some c"
      then show ?thesis using n(2) [OF old] w c(2) by (auto simp: pg_view_def)
    next
      assume "pg_seq db < pc_seq c"
      then have "int (last_write (pg_abs t tenant db)) < int (write_no (pg_abs t tenant db') k)"
        using n(1) w tenant_max_bounds(2) [OF seq(2,1)] by simp
      then show ?thesis by simp
    qed
  qed
  moreover have "\<exists>y. bt_get (cells (pg_abs t tenant db')) k = Some y \<and> cmeta a \<le> cmeta y"
    if "bt_get (cells (pg_abs t tenant db)) k = Some a" for k a
    using lww.run_monotone [OF run] that by simp
  ultimately show ?thesis by (simp add: grown_def lease)
qed

lemma grown_issue: "0 \<le> c \<Longrightarrow> grown s (issue_cursor d c s)"
  by (auto simp: grown_def max_issued_cursor_def issue_cursor_def write_no_def seq_of_def last_write_def split: option.split)

lemma grown_clock: "grown s (s\<lparr>global_lamport := w\<rparr>)"
  by (auto simp: grown_def max_issued_cursor_def write_no_def seq_of_def last_write_def)

text \<open>What a transaction of one tenant on one table leaves alone.\<close>

definition elsewhere :: "table_def \<Rightarrow> string \<Rightarrow> pg_db \<Rightarrow> pg_db \<Rightarrow> bool" where
  "elsewhere t tenant db db' \<longleftrightarrow>
     (\<forall>k. k \<noteq> (crdt_table t, tenant) \<longrightarrow> pg_log db' k = pg_log db k) \<and>
     (\<forall>k. k \<noteq> (tname t, tenant) \<longrightarrow> pg_app db' k = pg_app db k) \<and>
     (\<forall>other. other \<noteq> tenant \<longrightarrow> pg_clocks db' other = pg_clocks db other) \<and>
     (\<forall>k. k \<noteq> (tenant, crdt_table t) \<longrightarrow> bt_get (pg_leases db') k = bt_get (pg_leases db) k) \<and>
     pg_epoch db' = pg_epoch db \<and> pg_seq db \<le> pg_seq db' \<and>
     (\<exists>rows. pg_audits db' = pg_audits db @ rows \<and> (\<forall>r\<in>set rows. au_tenant r = tenant))"

lemma elsewhere_moved:
  assumes "pg_moved t tenant (db\<lparr>pg_clocks := (pg_clocks db)(tenant \<mapsto> x)\<rparr>) db1"
  shows "elsewhere t tenant db (db1\<lparr>pg_clocks := (pg_clocks db1)(tenant \<mapsto> c)\<rparr>)"
  using assms by (simp add: pg_moved_def elsewhere_def)

lemma elsewhere_issue:
  assumes "elsewhere t tenant db db2" "pg_issue_lease env now t tenant device c epoch db2 = (db', token)"
  shows "elsewhere t tenant db db'"
proof -
  have "bt_get (pg_leases db') k = bt_get (pg_leases db2) k" if "k \<noteq> (tenant, crdt_table t)" for k
    using assms(2) that by (auto simp: pg_issue_lease_def Let_def)
  then show ?thesis using assms(1) tenant_leases_issue(3-8) [OF assms(2)] by (simp add: elsewhere_def)
qed

subsection \<open>The state after the loop\<close>

lemma pg_merge_loop:
  assumes merge: "merge_crdt_states_with_security env now p device tenant t security db = Inr (db', resp)"
    and inv: "tenant_inv t tenant db" "valid_table t"
  obtains db2 rjs clock where "client_request_ok t device p" "identifier_ok tenant"
    "pg_build_response env now p device tenant t clock rjs db2 = Inr (db', resp)"
    "loop_good t tenant (tenant_clock tenant db2) db2" "clock = word_of_int (tenant_clock tenant db2)"
    "tenant_clock tenant db2 = max (tenant_clock tenant db) (int (unat (source_lamport p))) + 1"
    "tenant_clock tenant db2 \<le> i64_MAX"
    "foldM (pg_merge_op security (pg_context tenant device t) t) (payload_cells p)
      (db\<lparr>pg_clocks := (pg_clocks db)(tenant \<mapsto> tenant_clock tenant db)\<rparr>, []) =
      Inr (db2\<lparr>pg_clocks := (pg_clocks db)(tenant \<mapsto> tenant_clock tenant db)\<rparr>, rjs)"
    "pg_audits db2 = pg_audits db @ (if audit_mode security = Disabled then []
       else map (cell_audit security (pg_context tenant device t) (pg_view t tenant db)) (payload_cells p))"
    "pg_moved t tenant (db\<lparr>pg_clocks := (pg_clocks db)(tenant \<mapsto> tenant_clock tenant db)\<rparr>)
       (db2\<lparr>pg_clocks := (pg_clocks db)(tenant \<mapsto> tenant_clock tenant db)\<rparr>)"
    "elsewhere t tenant db db2"
proof -
  let ?ctx = "pg_context tenant device t" and ?tc = "tenant_clock tenant db"
  let ?cl = "(pg_clocks db)(tenant \<mapsto> tenant_clock tenant db)"
  let ?db0 = "db\<lparr>pg_clocks := (pg_clocks db)(tenant \<mapsto> tenant_clock tenant db)\<rparr>"
  have ctx: "tenant_id ?ctx = tenant" by (simp add: pg_context_def)
  have tc: "0 \<le> ?tc" "?tc \<le> i64_MAX" "loop_good t tenant ?tc db" using inv(1) by (simp_all add: tenant_inv_def)
  obtain w db1 rjs clock c where st: "identifier_ok tenant" "client_request_ok t device p"
    "server_clock_from_i64 ?tc = Inr w"
    and loop: "foldM (pg_merge_op security ?ctx t) (payload_cells p) (?db0, []) = Inr (db1, rjs)"
    and clk: "checked_add_u64 (max w (source_lamport p)) 1 = Some clock" "server_clock_to_i64 clock = Inr c"
    and br: "pg_build_response env now p device tenant t clock rjs (db1\<lparr>pg_clocks := (pg_clocks db1)(tenant \<mapsto> c)\<rparr>) = Inr (db', resp)"
    using pg_merge_steps [OF merge] .
  have w: "w = word_of_int ?tc" "int (unat w) = ?tc"
    using st(3) tc(1,2) unat_clock [OF tc(1,2)] by (auto simp: server_clock_from_ok simp del: of_nat_unat)
  let ?b = "max ?tc (int (unat (source_lamport p)))"
  have b: "int (unat (max w (source_lamport p))) = ?b"
    using w(2) by (simp add: max_def word_le_nat_alt del: of_nat_unat)
  have c: "c = ?b + 1" "c \<le> i64_MAX" "int (unat clock) = c"
    using clk(2) checked_add_u64_Some [OF clk(1)] b by (simp_all add: server_clock_to_Inr del: of_nat_unat)
  have start: "loop_good t (tenant_id ?ctx) ?b ?db0" using loop_good_mono [OF tc(3)] by (simp add: ctx)
  have inc: "\<forall>op\<in>set (payload_cells p). request_op_ok t ?b op" using request_ops_ok [OF st(2)] by simp
  have dist: "distinct (map fst (payload_cells p))" using st(2) by (rule request_cells_distinct)
  from pg_loop_good [OF loop start inv(2) inc dist, of "pg_view t tenant db"]
  have l: "loop_good t tenant ?b db1" "pg_moved t tenant ?db0 db1"
    "pg_audits db1 = pg_audits db @ (if audit_mode security = Disabled then []
       else map (cell_audit security ?ctx (pg_view t tenant db)) (payload_cells p))"
    by (simp_all add: ctx)
  let ?db2 = "db1\<lparr>pg_clocks := (pg_clocks db1)(tenant \<mapsto> c)\<rparr>"
  have tc2: "tenant_clock tenant ?db2 = c" by (simp add: tenant_clock_def)
  have undo: "db1\<lparr>pg_clocks := ?cl\<rparr> = db1" using l(2) by (simp add: pg_moved_def)
  have "clock = word_of_int c" using c(3) by (metis word_of_int_uint uint_nat)
  moreover have "loop_good t tenant c ?db2" using loop_good_mono [OF l(1), of c] c(1) by simp
  ultimately show thesis
    using st(1,2) br c(1) [symmetric] c(2) loop l(2,3) elsewhere_moved [OF l(2), of c]
    by (intro that [of clock rjs ?db2]) (simp_all add: tc2 undo del: of_nat_unat)
qed

text \<open>The same in terms of the contract of the loop.\<close>

lemma pg_merge_mid:
  assumes merge: "merge_crdt_states_with_security env now p device tenant t security db = Inr (db', resp)"
    and inv: "tenant_inv t tenant db" "valid_table t"
  defines "ctx \<equiv> pg_context tenant device t"
  obtains db2 rjs clock where "client_request_ok t device p"
    "pg_build_response env now p device tenant t clock rjs db2 = Inr (db', resp)"
    "loop_good t tenant (tenant_clock tenant db2) db2" "clock = word_of_int (tenant_clock tenant db2)"
    "tenant_clock tenant db2 = max (tenant_clock tenant db) (int (unat (source_lamport p))) + 1"
    "tenant_clock tenant db2 \<le> i64_MAX"
    "lww.run (filter (permitted security ctx (pg_view t tenant db)) (payload_cells p)) (pg_view t tenant db) =
       Inr (pg_view t tenant db2)"
    "rjs = concat (map (rejections_of security ctx (pg_view t tenant db)) (payload_cells p))"
    "\<forall>op\<in>set (payload_cells p). permitted security ctx (pg_view t tenant db) op \<or>
       rejections_of security ctx (pg_view t tenant db) op \<noteq> []"
    "pg_audits db2 = pg_audits db @ (if audit_mode security = Disabled then []
       else map (cell_audit security ctx (pg_view t tenant db)) (payload_cells p))"
    "grown (pg_abs t tenant db) (pg_abs t tenant db2)" "lease_good t tenant db2"
    "pg_cursor_valid t tenant device p db2 \<longleftrightarrow> pg_cursor_valid t tenant device p db"
    "elsewhere t tenant db db2"
proof -
  let ?cl = "(pg_clocks db)(tenant \<mapsto> tenant_clock tenant db)"
  obtain db2 rjs clock where ok: "client_request_ok t device p"
    and br: "pg_build_response env now p device tenant t clock rjs db2 = Inr (db', resp)"
    and good: "loop_good t tenant (tenant_clock tenant db2) db2" "clock = word_of_int (tenant_clock tenant db2)"
    and tc: "tenant_clock tenant db2 = max (tenant_clock tenant db) (int (unat (source_lamport p))) + 1"
      "tenant_clock tenant db2 \<le> i64_MAX"
    and loop: "foldM (pg_merge_op security ctx t) (payload_cells p) (db\<lparr>pg_clocks := ?cl\<rparr>, []) = Inr (db2\<lparr>pg_clocks := ?cl\<rparr>, rjs)"
    and aud: "pg_audits db2 = pg_audits db @ (if audit_mode security = Disabled then []
       else map (cell_audit security ctx (pg_view t tenant db)) (payload_cells p))"
    and mv: "pg_moved t tenant (db\<lparr>pg_clocks := ?cl\<rparr>) (db2\<lparr>pg_clocks := ?cl\<rparr>)"
    and other: "elsewhere t tenant db db2"
    unfolding ctx_def using pg_merge_loop [OF merge inv] .
  have tid: "tenant_id ctx = tenant" by (simp add: ctx_def pg_context_def)
  have old: "loop_good t tenant (tenant_clock tenant db) db" "lease_good t tenant db"
    using inv(1) by (simp_all add: tenant_inv_def)
  have dist: "distinct (map fst (payload_cells p))" using ok by (rule request_cells_distinct)
  note run = pg_loop.loop_run [OF loop dist, of "pg_view t tenant db", simplified tid, simplified]
  have mono: "tenant_max_cursor t tenant db \<le> tenant_max_cursor t tenant db2"
    using tenant_max_mono [OF mv] old(1) good(1) by simp
  have same: "tenant_leases t tenant db2 = tenant_leases t tenant db" "pg_epoch db2 = pg_epoch db"
    using mv by (simp_all add: pg_moved_def tenant_leases_def)
  have mv': "pg_moved t tenant db (db2\<lparr>pg_clocks := pg_clocks db\<rparr>)" using mv by (simp add: pg_moved_def)
  have "grown (pg_abs t tenant db) (pg_abs t tenant (db2\<lparr>pg_clocks := pg_clocks db\<rparr>))"
    by (rule grown_moved [OF mv' old(1), where b' = "tenant_clock tenant db2"]) (use good(1) run in auto)
  moreover have "pg_abs t tenant db2 =
      (pg_abs t tenant (db2\<lparr>pg_clocks := pg_clocks db\<rparr>))\<lparr>global_lamport := word_of_int (tenant_clock tenant db2)\<rparr>"
    by (simp add: pg_abs_def)
  ultimately have grown: "grown (pg_abs t tenant db) (pg_abs t tenant db2)" using grown_clock grown_trans by metis
  show thesis
    by (rule that [OF ok br good tc _ _ _ aud grown lease_good_moved [OF old(2) same(1) mono]
          pg_cursor_valid_moved [OF old(2) same(1) mono same(2)] other]) (use run in blast)+
qed

subsection \<open>The contract\<close>

lemma pg_merge_spec:
  assumes merge: "merge_crdt_states_with_security env now p device tenant t security db = Inr (db', resp)"
    and inv: "tenant_inv t tenant db" "valid_table t" "uuids_ok env"
  defines "ctx \<equiv> pg_context tenant device t" and "valid \<equiv> pg_cursor_valid t tenant device p db"
  shows "tenant_inv t tenant db'"
    and "client_request_ok t device p"
    and "tenant_clock tenant db' = max (tenant_clock tenant db) (int (unat (source_lamport p))) + 1"
    and "lww.run (filter (permitted security ctx (pg_view t tenant db)) (payload_cells p)) (pg_view t tenant db) =
       Inr (pg_view t tenant db')"
    and "rejections resp = concat (map (rejections_of security ctx (pg_view t tenant db)) (payload_cells p))"
    and "\<forall>op\<in>set (payload_cells p). permitted security ctx (pg_view t tenant db) op \<or>
       rejections_of security ctx (pg_view t tenant db) op \<noteq> []"
    and "page_of (pg_abs t tenant db') (if valid then cursor p else 0) resp"
    and "cursor_reset resp \<longleftrightarrow> cursor p \<noteq> 0 \<and> \<not> valid"
    and "int (unat (source_lamport resp)) = tenant_clock tenant db'"
    and "grown (pg_abs t tenant db) (pg_abs t tenant db')"
    and "\<exists>l. bt_get (tenant_leases t tenant db') device = Some l \<and> cursor_token resp = Some (le_token l) \<and>
       server_epoch resp = Some (le_epoch l) \<and> le_epoch l = pg_epoch db' \<and> cursor resp \<le> le_max_issued l"
    and "pg_audits db' = pg_audits db @ (if audit_mode security = Disabled then []
       else map (cell_audit security ctx (pg_view t tenant db)) (payload_cells p))"
    and "elsewhere t tenant db db'"
proof -
  obtain db2 rjs clock where ok: "client_request_ok t device p"
    and br: "pg_build_response env now p device tenant t clock rjs db2 = Inr (db', resp)"
    and good: "loop_good t tenant (tenant_clock tenant db2) db2" "clock = word_of_int (tenant_clock tenant db2)"
    and tc: "tenant_clock tenant db2 = max (tenant_clock tenant db) (int (unat (source_lamport p))) + 1"
      "tenant_clock tenant db2 \<le> i64_MAX"
    and run: "lww.run (filter (permitted security ctx (pg_view t tenant db)) (payload_cells p)) (pg_view t tenant db) =
       Inr (pg_view t tenant db2)"
    and rjs: "rjs = concat (map (rejections_of security ctx (pg_view t tenant db)) (payload_cells p))"
    and dec: "\<forall>op\<in>set (payload_cells p). permitted security ctx (pg_view t tenant db) op \<or>
       rejections_of security ctx (pg_view t tenant db) op \<noteq> []"
    and aud: "pg_audits db2 = pg_audits db @ (if audit_mode security = Disabled then []
       else map (cell_audit security ctx (pg_view t tenant db)) (payload_cells p))"
    and grown: "grown (pg_abs t tenant db) (pg_abs t tenant db2)" and lease2: "lease_good t tenant db2"
    and valid2: "pg_cursor_valid t tenant device p db2 \<longleftrightarrow> valid" and other: "elsewhere t tenant db db2"
    unfolding ctx_def valid_def using pg_merge_mid [OF merge inv(1,2)] .
  obtain pg mo token where lease: "pg_issue_lease env now t tenant device (cursor resp) (pg_epoch db2) db2 = (db', token)"
    and r: "source_lamport resp = clock" "cursor_reset resp \<longleftrightarrow> cursor p \<noteq> 0 \<and> \<not> pg_cursor_valid t tenant device p db2"
      "cursor_token resp = Some token" "server_epoch resp = Some (pg_epoch db2)" "rejections resp = rjs"
    by (rule pg_build_response_Inr [OF br]) blast
  note iss = tenant_leases_issue [OF lease] and ref = pg_build_response_ref [OF br good, unfolded valid2]
  have epoch: "identifier_ok (pg_epoch db2)" "0 \<le> tenant_clock tenant db"
    using inv(1) other by (simp_all add: tenant_inv_def elsewhere_def)
  have page2: "page_of (pg_abs t tenant db2) (if valid then cursor p else 0) resp"
    using build_response_page(1) [OF ref(1) pg_abs_feed_inv [OF good(1)] pg_abs_counts(3) [OF good(1)]] ref(2)
    by (simp add: page_of_def payload_cells_def)
  then show "page_of (pg_abs t tenant db') (if valid then cursor p else 0) resp" by (simp add: pg_abs_issue [OF lease])
  have c0: "0 \<le> cursor resp" "cursor resp \<le> tenant_max_cursor t tenant db2"
  proof -
    have "0 \<le> cursor p" using ok by (simp add: client_request_ok_def payload_ok_def)
    moreover have "if has_more resp then (if valid then cursor p else 0) < cursor resp \<and> cursor resp < tenant_max_cursor t tenant db2
        else cursor resp = tenant_max_cursor t tenant db2"
      using page2 unfolding page_of_def pg_abs_counts(1) [OF good(1)] by simp
    moreover have "0 \<le> tenant_max_cursor t tenant db2" unfolding tenant_max_cursor_def by (rule foldl_max(1))
    ultimately show "0 \<le> cursor resp" "cursor resp \<le> tenant_max_cursor t tenant db2" by (auto split: if_splits)
  qed
  have tc': "tenant_clock tenant db' = tenant_clock tenant db2" using iss(3) by (simp add: tenant_clock_def)
  have "lease_good t tenant db'"
    using lease2 c0 inv(3) epoch(1) iss(1,5)
    by (auto simp: lease_good_def uuids_ok_def tenant_max_cursor_def split: option.splits if_splits)
  moreover have "loop_good t tenant (tenant_clock tenant db') db'" using good(1) iss(4,5,8) by (simp add: loop_good_def tc')
  ultimately show "tenant_inv t tenant db'" using tc tc' epoch iss(6) by (simp add: tenant_inv_def)
  show "tenant_clock tenant db' = max (tenant_clock tenant db) (int (unat (source_lamport p))) + 1"
    using tc(1) tc' by simp
  have "pg_view t tenant db' = pg_view t tenant db2" by (rule pg_view_cong) (simp add: iss)
  then show "lww.run (filter (permitted security ctx (pg_view t tenant db)) (payload_cells p)) (pg_view t tenant db) =
       Inr (pg_view t tenant db')" using run by simp
  show "grown (pg_abs t tenant db) (pg_abs t tenant db')"
    using grown_trans [OF grown grown_issue [OF c0(1)]] by (simp add: pg_abs_issue [OF lease])
  show "int (unat (source_lamport resp)) = tenant_clock tenant db'"
    using good(2) tc tc' r(1) unat_clock [of "tenant_clock tenant db2"] epoch(2) by (simp del: of_nat_unat)
  show "elsewhere t tenant db db'" by (rule elsewhere_issue [OF other lease])
  show "\<exists>l. bt_get (tenant_leases t tenant db') device = Some l \<and> cursor_token resp = Some (le_token l) \<and>
       server_epoch resp = Some (le_epoch l) \<and> le_epoch l = pg_epoch db' \<and> cursor resp \<le> le_max_issued l"
    using iss(2,6) r(3,4) by auto
  show "client_request_ok t device p" by (rule ok)
  show "rejections resp = concat (map (rejections_of security ctx (pg_view t tenant db)) (payload_cells p))"
    using r(5) rjs by simp
  show "\<forall>op\<in>set (payload_cells p). permitted security ctx (pg_view t tenant db) op \<or>
       rejections_of security ctx (pg_view t tenant db) op \<noteq> []" by (rule dec)
  show "cursor_reset resp \<longleftrightarrow> cursor p \<noteq> 0 \<and> \<not> valid" using r(2) valid2 by simp
  show "pg_audits db' = pg_audits db @ (if audit_mode security = Disabled then []
       else map (cell_audit security ctx (pg_view t tenant db)) (payload_cells p))" using aud iss(7) by simp
qed

end
