(* ===== verification/Client_Db.thy ===== *)
theory Client_Db
  imports Partial_Replica
begin

section \<open>The SQLite client: database, capture triggers and local writes (client.rs)\<close>

text \<open>
  The edge database of one synchronized table: the device row of \<open>client_state\<close>, the cursor row, the
  application rows, the change log \<open><table>_crdt\<close> and the three scope tables. The triggers of
  \<open>sqlite_schema\<close> are the functions \<open>after_insert\<close> and the second half of \<open>update_column\<close>; a
  statement that aborts inside a transaction leaves the database as it was (\<open>run_tx\<close>).

  Conversions that SQLite and the standard library perform are parameters, collected in
  \<open>sqlite_env\<close>: the text of a \<open>f64\<close> (\<open>to_string\<close>), its parser, and SQLite's \<open>CAST(x AS TEXT)\<close> of a
  REAL. Errors raised inside SQLite carry a label in place of SQLite's message.
\<close>

record sqlite_env =
  real_to_string :: "f64 \<Rightarrow> string"
  parse_f64 :: "string \<Rightarrow> f64 option"
  cast_real :: "f64 \<Rightarrow> string"

datatype sql_value = SqlInteger i64 | SqlReal f64 | SqlText string

record log_cell =
  lg_value :: string
  lg_clock :: int
  lg_device :: string
  lg_dirty :: bool

record cursor_row =
  cu_cursor :: int
  cu_token :: "string option"
  cu_epoch :: "string option"

type_synonym app_row = "(string, sql_value) btree_map"

record client_db =
  d_device :: string
  d_lamport :: int
  d_applying :: bool
  d_cursor :: "cursor_row option"
  d_rows :: "(string, app_row) btree_map"
  d_log :: "(cell_key, log_cell) btree_map"
  d_scopes :: "(string, int \<times> bool) btree_map"
  d_members :: "(string \<times> string, unit) btree_map"
  d_evictions :: "(string \<times> string, unit) btree_map"

definition client_db_new :: "string \<Rightarrow> client_db" where
  "client_db_new device =
     \<lparr>d_device = device, d_lamport = 0, d_applying = False, d_cursor = None, d_rows = [], d_log = [],
      d_scopes = [], d_members = [], d_evictions = []\<rparr>"

text \<open>A transaction: an error rolls every change back.\<close>

definition run_tx :: "(client_db \<Rightarrow> sync_error + client_db \<times> 'a) \<Rightarrow> client_db \<Rightarrow> client_db \<times> (sync_error + 'a)" where
  "run_tx f db = (case f db of Inl e \<Rightarrow> (db, Inl e) | Inr (db', a) \<Rightarrow> (db', Inr a))"

subsection \<open>Values and clocks\<close>

definition crdt_to_sqlite :: "crdt_value \<Rightarrow> sync_error + sql_value" where
  "crdt_to_sqlite v =
     (case v of
        VText s \<Rightarrow> Inr (SqlText s)
      | VInteger i \<Rightarrow> Inr (SqlInteger i)
      | VReal x \<Rightarrow> Inr (SqlReal x)
      | VBoolean b \<Rightarrow> Inr (SqlInteger (if b then 1 else 0))
      | _ \<Rightarrow> Inl (InvalidPayload ''value type cannot be stored in the SQLite edge schema''))"

definition encode_sqlite_value :: "sqlite_env \<Rightarrow> crdt_value \<Rightarrow> sync_error + string" where
  "encode_sqlite_value env v =
     (case v of
        VText s \<Rightarrow> Inr s
      | VInteger i \<Rightarrow> Inr (show_int (sint i))
      | VReal x \<Rightarrow> Inr (real_to_string env x)
      | VBoolean b \<Rightarrow> Inr (if b then ''1'' else ''0'')
      | _ \<Rightarrow> Inl (InvalidPayload ''value type cannot be stored in the SQLite edge schema''))"

text \<open>\<open>str::parse::<i64>\<close>: an optional sign and digits, within the range of the type.\<close>

definition parse_nonempty :: "string \<Rightarrow> nat option" where
  "parse_nonempty s = (if s = [] then None else parse_digits 0 s)"

definition parse_int :: "string \<Rightarrow> int option" where
  "parse_int s =
     (case s of
        [] \<Rightarrow> None
      | c # r \<Rightarrow>
          if c = CHR ''-'' then map_option (\<lambda>n. - int n) (parse_nonempty r)
          else if c = CHR ''+'' then map_option int (parse_nonempty r)
          else map_option int (parse_nonempty s))"

definition parse_i64 :: "string \<Rightarrow> i64 option" where
  "parse_i64 s =
     (case parse_int s of
        None \<Rightarrow> None
      | Some i \<Rightarrow> if - (2 ^ 63) \<le> i \<and> i \<le> i64_MAX then Some (word_of_int i) else None)"

definition decode_sqlite_value :: "sqlite_env \<Rightarrow> table_def \<Rightarrow> string \<Rightarrow> string \<Rightarrow> sync_error + crdt_value" where
  "decode_sqlite_value env t column_name raw =
     (case table_column_type t column_name of
        None \<Rightarrow> Inl (InvalidPayload (''column is not synchronizable: '' @ column_name))
      | Some TyText \<Rightarrow> Inr (VText raw)
      | Some TyInteger \<Rightarrow>
          (case parse_i64 raw of
             None \<Rightarrow> Inl (InvalidPayload ''non-integer value in integer column'')
           | Some i \<Rightarrow> Inr (VInteger i))
      | Some TyReal \<Rightarrow>
          (case parse_f64 env raw of
             None \<Rightarrow> Inl (InvalidPayload ''non-real value in real column'')
           | Some x \<Rightarrow> Inr (VReal x))
      | Some TyBoolean \<Rightarrow>
          if raw = ''0'' then Inr (VBoolean False)
          else if raw = ''1'' then Inr (VBoolean True)
          else Inl (InvalidPayload ''non-canonical SQLite boolean''))"

definition clock_from_i64 :: "int \<Rightarrow> sync_error + u64" where
  "clock_from_i64 c =
     (case u64_try_from c of
        None \<Rightarrow> Inl (InvalidPayload ''negative clock stored in database'')
      | Some w \<Rightarrow> Inr w)"

definition clock_to_i64 :: "u64 \<Rightarrow> sync_error + int" where
  "clock_to_i64 c = (case i64_try_from c of None \<Rightarrow> Inl ClockOverflow | Some i \<Rightarrow> Inr i)"

definition reject_liveness_column :: "string \<Rightarrow> sync_error + unit" where
  "reject_liveness_column column =
     (if column = LIVENESS_COLUMN
      then Inl (InvalidPayload ''use delete() or restore() to change row liveness'') else Inr ())"

definition ensure_one_row :: "nat \<Rightarrow> string \<Rightarrow> sync_error + unit" where
  "ensure_one_row changed message = (if changed = 1 then Inr () else Inl (InvalidPayload message))"

subsection \<open>The capture triggers\<close>

text \<open>\<open>clock_overflow_guard\<close> and the clock update of a trigger.\<close>

definition tick :: "client_db \<Rightarrow> sync_error + client_db" where
  "tick db =
     (if d_lamport db \<ge> i64_MAX then Inl (Sqlite ''lamport clock overflow'')
      else Inr (db\<lparr>d_lamport := d_lamport db + 1\<rparr>))"

text \<open>The captured expression: \<open>NEW.c\<close> for text, \<open>CAST(NEW.c AS TEXT)\<close> otherwise.\<close>

definition capture_text :: "sqlite_env \<Rightarrow> sql_value \<Rightarrow> string" where
  "capture_text env v =
     (case v of SqlText s \<Rightarrow> s | SqlInteger i \<Rightarrow> show_int (sint i) | SqlReal x \<Rightarrow> cast_real env x)"

definition capture_statement :: "sqlite_env \<Rightarrow> string \<Rightarrow> app_row \<Rightarrow> column_def \<Rightarrow> client_db \<Rightarrow> client_db" where
  "capture_statement env row vals column db =
     db\<lparr>d_log := bt_insert (row, cname column)
          \<lparr>lg_value = capture_text env (the (bt_get vals (cname column))), lg_clock = d_lamport db,
           lg_device = d_device db, lg_dirty = True\<rparr>
          (d_log db)\<rparr>"

definition after_insert :: "sqlite_env \<Rightarrow> table_def \<Rightarrow> string \<Rightarrow> app_row \<Rightarrow> client_db \<Rightarrow> sync_error + client_db" where
  "after_insert env t row vals db =
     (if d_applying db then Inr db
      else rbind (tick db) (\<lambda>db.
        Inr (foldl (\<lambda>db column. capture_statement env row vals column db) db (synchronized_columns t))))"

definition default_value :: "column_type \<Rightarrow> sql_value" where
  "default_value k = (case k of TyText \<Rightarrow> SqlText [] | TyReal \<Rightarrow> SqlReal 0 | _ \<Rightarrow> SqlInteger 0)"

definition default_row :: "table_def \<Rightarrow> app_row" where
  "default_row t = foldl (\<lambda>m c. bt_insert (cname c) (default_value (cty c)) m) [] (synchronized_columns t)"

text \<open>\<open>INSERT INTO table(id, columns) VALUES (...)\<close>.\<close>

definition insert_row :: "sqlite_env \<Rightarrow> table_def \<Rightarrow> string \<Rightarrow> (string \<times> sql_value) list \<Rightarrow> client_db \<Rightarrow> sync_error + client_db" where
  "insert_row env t row given db =
     (if bt_get (d_rows db) row \<noteq> None then Inl (Sqlite ''UNIQUE constraint failed'')
      else
        let vals = foldl (\<lambda>m (c, v). bt_insert c v m) (default_row t) given in
        after_insert env t row vals (db\<lparr>d_rows := bt_insert row vals (d_rows db)\<rparr>))"

text \<open>\<open>IS NOT\<close> on values of one column: reals are compared numerically.\<close>

fun sql_is :: "sql_value \<Rightarrow> sql_value \<Rightarrow> bool" where
  "sql_is (SqlReal x) (SqlReal y) = f64_eq x y"
| "sql_is a b = (a = b)"

text \<open>\<open>UPDATE table SET column = value WHERE id = row AND guard\<close>; the result has the number of rows
  changed. The trigger of the column fires when the value differs and no remote change is applied.\<close>

definition update_column ::
  "sqlite_env \<Rightarrow> column_def \<Rightarrow> string \<Rightarrow> (app_row \<Rightarrow> bool) \<Rightarrow> sql_value \<Rightarrow> client_db \<Rightarrow> sync_error + client_db \<times> nat" where
  "update_column env column row guard v db =
     (case bt_get (d_rows db) row of
        None \<Rightarrow> Inr (db, 0)
      | Some old \<Rightarrow>
          if \<not> guard old then Inr (db, 0)
          else
            let vals = bt_insert (cname column) v old;
                db1 = db\<lparr>d_rows := bt_insert row vals (d_rows db)\<rparr>
            in if sql_is (the (bt_get old (cname column))) v \<or> d_applying db then Inr (db1, 1)
               else rbind (tick db1) (\<lambda>db2. Inr (capture_statement env row vals column db2, 1)))"

definition is_deleted :: "bool \<Rightarrow> app_row \<Rightarrow> bool" where
  "is_deleted b vals \<longleftrightarrow> bt_get vals LIVENESS_COLUMN = Some (SqlInteger (if b then 1 else 0))"

subsection \<open>Row operations\<close>

fun bind_values :: "(string, crdt_value) btree_map \<Rightarrow> sync_error + (string \<times> sql_value) list" where
  "bind_values [] = Inr []"
| "bind_values ((c, v) # vs) =
     rbind (crdt_to_sqlite v) (\<lambda>w. rbind (bind_values vs) (\<lambda>ws. Inr ((c, w) # ws)))"

definition client_insert ::
  "sqlite_env \<Rightarrow> table_def \<Rightarrow> string \<Rightarrow> (string, crdt_value) btree_map \<Rightarrow> client_db \<Rightarrow> client_db \<times> (sync_error + unit)" where
  "client_insert env t row vals db =
     (case rbind (validate_identifier ''row_id'' row) (\<lambda>_.
             forM_check (\<lambda>(c, v). rbind (reject_liveness_column c) (\<lambda>_. validate_column t c v)) vals) of
        Inl e \<Rightarrow> (db, Inl e)
      | Inr _ \<Rightarrow>
          run_tx (\<lambda>db. rbind (bind_values vals) (\<lambda>bound.
            rbind (insert_row env t row bound db) (\<lambda>db. Inr (db, ())))) db)"

definition update_one ::
  "sqlite_env \<Rightarrow> column_def \<Rightarrow> string \<Rightarrow> (app_row \<Rightarrow> bool) \<Rightarrow> sql_value \<Rightarrow> string \<Rightarrow> client_db \<Rightarrow> client_db \<times> (sync_error + unit)" where
  "update_one env column row guard v message db =
     run_tx (\<lambda>db. rbind (update_column env column row guard v db) (\<lambda>(db, changed).
       rbind (ensure_one_row changed message) (\<lambda>_. Inr (db, ())))) db"

definition client_set :: "sqlite_env \<Rightarrow> table_def \<Rightarrow> string \<Rightarrow> string \<Rightarrow> crdt_value \<Rightarrow> client_db \<Rightarrow> client_db \<times> (sync_error + unit)" where
  "client_set env t row column v db =
     (case rbind (validate_identifier ''row_id'' row) (\<lambda>_.
           rbind (reject_liveness_column column) (\<lambda>_.
           rbind (validate_column t column v) (\<lambda>_. crdt_to_sqlite v))) of
        Inl e \<Rightarrow> (db, Inl e)
      | Inr w \<Rightarrow>
          update_one env \<lparr>cname = column, cty = the (table_column_type t column)\<rparr> row (is_deleted False) w
            ''row not found or deleted'' db)"

definition liveness_column :: column_def where
  "liveness_column = \<lparr>cname = LIVENESS_COLUMN, cty = TyBoolean\<rparr>"

definition client_delete :: "sqlite_env \<Rightarrow> string \<Rightarrow> client_db \<Rightarrow> client_db \<times> (sync_error + unit)" where
  "client_delete env row db =
     (case validate_identifier ''row_id'' row of
        Inl e \<Rightarrow> (db, Inl e)
      | Inr _ \<Rightarrow>
          update_one env liveness_column row (is_deleted False) (SqlInteger 1)
            ''row not found or already deleted'' db)"

definition client_restore :: "sqlite_env \<Rightarrow> string \<Rightarrow> client_db \<Rightarrow> client_db \<times> (sync_error + unit)" where
  "client_restore env row db =
     (case validate_identifier ''row_id'' row of
        Inl e \<Rightarrow> (db, Inl e)
      | Inr _ \<Rightarrow>
          update_one env liveness_column row (is_deleted True) (SqlInteger 0)
            ''row not found or not deleted'' db)"

definition client_get_cell :: "sqlite_env \<Rightarrow> table_def \<Rightarrow> string \<Rightarrow> string \<Rightarrow> client_db \<Rightarrow> sync_error + crdt_value option" where
  "client_get_cell env t row column db =
     rbind (validate_identifier ''row_id'' row) (\<lambda>_.
       if table_column_type t column = None
       then Inl (InvalidPayload (''column is not synchronizable: '' @ column))
       else
         (case bt_get (d_rows db) row of
            None \<Rightarrow> Inr None
          | Some vals \<Rightarrow>
              if \<not> is_deleted False vals then Inr None
              else
                (case bt_get (d_log db) (row, column) of
                   None \<Rightarrow> Inr None
                 | Some l \<Rightarrow> rbind (decode_sqlite_value env t column (lg_value l)) (\<lambda>v. Inr (Some v)))))"

end
