(* ===== verification/Client_Sync.thy ===== *)
theory Client_Sync
  imports Client_Db
begin

section \<open>The SQLite client: synchronization and scopes (client.rs)\<close>

text \<open>
  The functions that run inside the client's transactions: extraction of the dirty delta,
  acknowledgement of the versions that were sent, application of a server response without firing
  the capture triggers, and the membership tables of partial replicas with deferred evictions.
\<close>

subsection \<open>Delta and acknowledgement\<close>

definition decode_log_cell :: "sqlite_env \<Rightarrow> table_def \<Rightarrow> string \<Rightarrow> log_cell \<Rightarrow> sync_error + crdt_column" where
  "decode_log_cell env t column_name l =
     rbind (decode_sqlite_value env t column_name (lg_value l)) (\<lambda>v.
     rbind (clock_from_i64 (lg_clock l)) (\<lambda>clock.
       Inr \<lparr>cvalue = v, cmeta = ColumnMetadata clock (lg_device l)\<rparr>))"

definition delta_step ::
  "sqlite_env \<Rightarrow> table_def \<Rightarrow> cell_key \<times> log_cell \<Rightarrow> (string, string, crdt_column) nested_map \<Rightarrow>
   sync_error + (string, string, crdt_column) nested_map" where
  "delta_step env t e m =
     (case e of ((row, column_name), l) \<Rightarrow>
        rbind (decode_log_cell env t column_name l) (\<lambda>c. Inr (group_insert row column_name c m)))"

definition get_local_delta :: "sqlite_env \<Rightarrow> table_def \<Rightarrow> client_db \<Rightarrow> sync_error + sync_payload" where
  "get_local_delta env t db =
     rbind (foldM (delta_step env t) (filter (\<lambda>e. lg_dirty (snd e)) (d_log db)) []) (\<lambda>m.
     rbind (clock_from_i64 (d_lamport db)) (\<lambda>clock.
     let cur = (case d_cursor db of
           None \<Rightarrow> \<lparr>cu_cursor = 0, cu_token = None, cu_epoch = None\<rparr> | Some r \<Rightarrow> r);
         p = \<lparr>protocol_version = PROTOCOL_VERSION, schema_fingerprint = table_fingerprint t,
              source_device_id = d_device db, source_lamport = clock, changes = rows_of m,
              cursor = cu_cursor cur, has_more = False, cursor_reset = False,
              cursor_token = cu_token cur, server_epoch = cu_epoch cur, rejections = []\<rparr>
     in rbind (validate_client_request p (d_device db) t) (\<lambda>_. Inr p)))"

text \<open>\<open>UPDATE log SET dirty = 0 WHERE\<close> the cell still has the version that was sent.\<close>

definition clear_dirty :: "cell_key \<Rightarrow> int \<Rightarrow> string \<Rightarrow> client_db \<Rightarrow> client_db" where
  "clear_dirty key clock device db =
     (case bt_get (d_log db) key of
        None \<Rightarrow> db
      | Some l \<Rightarrow>
          if lg_clock l = clock \<and> lg_device l = device
          then db\<lparr>d_log := bt_insert key (l\<lparr>lg_dirty := False\<rparr>) (d_log db)\<rparr> else db)"

definition acknowledge_cell :: "(cell_key \<times> column_metadata) set \<Rightarrow> cell_key \<times> crdt_column \<Rightarrow> client_db \<Rightarrow> sync_error + client_db" where
  "acknowledge_cell rejected e db =
     (case e of (key, c) \<Rightarrow>
        if (key, cmeta c) \<in> rejected then Inr db
        else rbind (clock_to_i64 (lamport_clock (cmeta c))) (\<lambda>clock.
          Inr (clear_dirty key clock (device_id (cmeta c)) db)))"

text \<open>Deferred evictions: a pending row is kept while a scope has it as a member or a local write of
  it is unacknowledged; otherwise it is deleted, its log entries by cascade.\<close>

definition evict_row :: "string \<Rightarrow> client_db \<Rightarrow> client_db" where
  "evict_row row db =
     (let unmark = (\<lambda>db. db\<lparr>d_evictions := filter (\<lambda>e. snd (fst e) \<noteq> row) (d_evictions db)\<rparr>) in
      if list_ex (\<lambda>e. snd (fst e) = row) (d_members db) then unmark db
      else if list_ex (\<lambda>e. fst (fst e) = row \<and> lg_dirty (snd e)) (d_log db) then db
      else unmark (db\<lparr>d_applying := False, d_rows := bt_remove row (d_rows db),
                      d_log := filter (\<lambda>e. fst (fst e) \<noteq> row) (d_log db)\<rparr>))"

definition pending_evictions :: "client_db \<Rightarrow> string list" where
  "pending_evictions db = sort (remdups (map (\<lambda>e. snd (fst e)) (d_evictions db)))"

definition cleanup_pending_evictions :: "client_db \<Rightarrow> client_db" where
  "cleanup_pending_evictions db = foldl (\<lambda>db row. evict_row row db) db (pending_evictions db)"

definition acknowledge_cells ::
  "(cell_key \<times> column_metadata) set \<Rightarrow> sync_payload \<Rightarrow> client_db \<Rightarrow> sync_error + client_db" where
  "acknowledge_cells rejected sent db =
     rbind (foldM (\<lambda>row. foldM (acknowledge_cell rejected) (row_cells row)) (changes sent) db) (\<lambda>db.
       Inr (cleanup_pending_evictions db))"

definition acknowledge_local_delta :: "table_def \<Rightarrow> sync_payload \<Rightarrow> client_db \<Rightarrow> sync_error + client_db" where
  "acknowledge_local_delta t p db =
     rbind (validate_client_request p (d_device db) t) (\<lambda>_. acknowledge_cells {} p db)"

definition rejected_versions :: "sync_payload \<Rightarrow> (cell_key \<times> column_metadata) set" where
  "rejected_versions p = set (map (\<lambda>r. ((rj_todo_id r, rj_column_name r), rj_metadata r)) (rejections p))"

definition acknowledge_with_response ::
  "table_def \<Rightarrow> sync_payload \<Rightarrow> sync_payload \<Rightarrow> client_db \<Rightarrow> sync_error + client_db" where
  "acknowledge_with_response t sent response db =
     rbind (validate_server_response response t) (\<lambda>_.
     rbind (validate_client_request sent (d_device db) t) (\<lambda>_.
       acknowledge_cells (rejected_versions response) sent db))"

subsection \<open>Applying a response\<close>

definition read_local_crdt_column ::
  "sqlite_env \<Rightarrow> table_def \<Rightarrow> cell_key \<Rightarrow> client_db \<Rightarrow> sync_error + crdt_column option" where
  "read_local_crdt_column env t key db =
     (case bt_get (d_log db) key of
        None \<Rightarrow> Inr None
      | Some l \<Rightarrow> rbind (decode_log_cell env t (snd key) l) (\<lambda>c. Inr (Some c)))"

definition typed_match :: "column_type \<Rightarrow> crdt_value \<Rightarrow> bool" where
  "typed_match k v =
     (case (k, v) of
        (TyText, VText _) \<Rightarrow> True
      | (TyInteger, VInteger _) \<Rightarrow> True
      | (TyReal, VReal _) \<Rightarrow> True
      | (TyBoolean, VBoolean _) \<Rightarrow> True
      | _ \<Rightarrow> False)"

definition write_todo_column ::
  "sqlite_env \<Rightarrow> table_def \<Rightarrow> cell_key \<Rightarrow> crdt_value \<Rightarrow> client_db \<Rightarrow> sync_error + client_db" where
  "write_todo_column env t key v db =
     (case table_column_type t (snd key) of
        None \<Rightarrow> Inl (InvalidPayload (''column is not synchronizable: '' @ snd key))
      | Some k \<Rightarrow>
          if \<not> typed_match k v
          then Inl (InvalidPayload (''value type is incompatible with column '' @ snd key))
          else
            rbind (crdt_to_sqlite v) (\<lambda>w.
            rbind (update_column env \<lparr>cname = snd key, cty = k\<rparr> (fst key) (\<lambda>_. True) w db) (\<lambda>r.
              Inr (fst r))))"

text \<open>\<open>INSERT INTO table(id) VALUES (row) ON CONFLICT(id) DO NOTHING\<close>.\<close>

definition ensure_row :: "sqlite_env \<Rightarrow> table_def \<Rightarrow> string \<Rightarrow> client_db \<Rightarrow> sync_error + client_db" where
  "ensure_row env t row db =
     (if bt_get (d_rows db) row \<noteq> None then Inr db else insert_row env t row [] db)"

definition apply_cell ::
  "sqlite_env \<Rightarrow> table_def \<Rightarrow> cell_key \<times> crdt_column \<Rightarrow> client_db \<Rightarrow> sync_error + client_db" where
  "apply_cell env t e db =
     (case e of (key, incoming) \<Rightarrow>
        rbind (read_local_crdt_column env t key db) (\<lambda>current.
        rbind (lww_apply current incoming) (\<lambda>should_apply.
          if \<not> should_apply then Inr db
          else
            rbind (write_todo_column env t key (cvalue incoming) db) (\<lambda>db.
            rbind (encode_sqlite_value env (cvalue incoming)) (\<lambda>text.
            rbind (clock_to_i64 (lamport_clock (cmeta incoming))) (\<lambda>clock.
              Inr (db\<lparr>d_log := bt_insert key
                       \<lparr>lg_value = text, lg_clock = clock, lg_device = device_id (cmeta incoming),
                        lg_dirty = False\<rparr> (d_log db)\<rparr>)))))))"

definition apply_row :: "sqlite_env \<Rightarrow> table_def \<Rightarrow> row_change \<Rightarrow> client_db \<Rightarrow> sync_error + client_db" where
  "apply_row env t row db =
     rbind (ensure_row env t (todo_id row) db) (\<lambda>db. foldM (apply_cell env t) (row_cells row) db)"

text \<open>The cursor row after a response: replaced when the server reset it, else never moved back.\<close>

definition next_cursor_row :: "sync_payload \<Rightarrow> cursor_row option \<Rightarrow> cursor_row" where
  "next_cursor_row p old =
     \<lparr>cu_cursor = (case old of
          None \<Rightarrow> cursor p
        | Some r \<Rightarrow> if cursor_reset p then cursor p else max (cu_cursor r) (cursor p)),
      cu_token = cursor_token p, cu_epoch = server_epoch p\<rparr>"

definition apply_remote_payload :: "sqlite_env \<Rightarrow> table_def \<Rightarrow> sync_payload \<Rightarrow> client_db \<Rightarrow> sync_error + client_db" where
  "apply_remote_payload env t p db =
     rbind (validate_server_response p t) (\<lambda>_.
     rbind (clock_from_i64 (d_lamport db)) (\<lambda>current_clock.
     rbind (foldM (apply_row env t) (changes p) (db\<lparr>d_applying := True\<rparr>)) (\<lambda>db.
     case checked_add_u64 (max current_clock (max_observed_clock p)) 1 of
       None \<Rightarrow> Inl ClockOverflow
     | Some next_clock \<Rightarrow>
         rbind (clock_to_i64 next_clock) (\<lambda>clock.
           Inr (db\<lparr>d_lamport := clock, d_applying := False,
                   d_cursor := Some (next_cursor_row p (d_cursor db))\<rparr>)))))"

subsection \<open>Client operations\<close>

abbreviation in_tx :: "(client_db \<Rightarrow> sync_error + client_db) \<Rightarrow> client_db \<Rightarrow> client_db \<times> (sync_error + unit)" where
  "in_tx f \<equiv> run_tx (\<lambda>db. rbind (f db) (\<lambda>db. Inr (db, ())))"

definition client_local_delta :: "sqlite_env \<Rightarrow> table_def \<Rightarrow> client_db \<Rightarrow> client_db \<times> (sync_error + sync_payload)" where
  "client_local_delta env t = run_tx (\<lambda>db. rbind (get_local_delta env t db) (\<lambda>p. Inr (db, p)))"

definition client_acknowledge :: "table_def \<Rightarrow> sync_payload \<Rightarrow> client_db \<Rightarrow> client_db \<times> (sync_error + unit)" where
  "client_acknowledge t p = in_tx (acknowledge_local_delta t p)"

definition client_apply_remote :: "sqlite_env \<Rightarrow> table_def \<Rightarrow> sync_payload \<Rightarrow> client_db \<Rightarrow> client_db \<times> (sync_error + unit)" where
  "client_apply_remote env t p = in_tx (apply_remote_payload env t p)"

definition complete_sync ::
  "sqlite_env \<Rightarrow> table_def \<Rightarrow> sync_payload \<Rightarrow> sync_payload \<Rightarrow> client_db \<Rightarrow> client_db \<times> (sync_error + unit)" where
  "complete_sync env t sent response =
     in_tx (\<lambda>db. rbind (acknowledge_with_response t sent response db) (apply_remote_payload env t response))"

text \<open>The transport is a function on a state of its own (the network and the server); it runs
  outside every client transaction.\<close>

definition sync_with ::
  "sqlite_env \<Rightarrow> table_def \<Rightarrow> (sync_payload \<Rightarrow> 'net \<Rightarrow> 'net \<times> (sync_error + sync_payload)) \<Rightarrow>
   client_db \<times> 'net \<Rightarrow> (client_db \<times> 'net) \<times> (sync_error + sync_payload)" where
  "sync_with env t transport st =
     (case client_local_delta env t (fst st) of
        (db, Inl e) \<Rightarrow> ((db, snd st), Inl e)
      | (db, Inr outbound) \<Rightarrow>
          (case transport outbound (snd st) of
             (net, Inl e) \<Rightarrow> ((db, net), Inl e)
           | (net, Inr response) \<Rightarrow>
               (case complete_sync env t outbound response db of
                  (db, Inl e) \<Rightarrow> ((db, net), Inl e)
                | (db, Inr _) \<Rightarrow> ((db, net), Inr response))))"

definition MAX_SYNC_PAGES_PER_CALL :: nat where
  [limits]: "MAX_SYNC_PAGES_PER_CALL = 100"

fun sync_pages ::
  "nat \<Rightarrow> sqlite_env \<Rightarrow> table_def \<Rightarrow> (sync_payload \<Rightarrow> 'net \<Rightarrow> 'net \<times> (sync_error + sync_payload)) \<Rightarrow>
   client_db \<times> 'net \<Rightarrow> (client_db \<times> 'net) \<times> (sync_error + sync_payload)" where
  "sync_pages 0 env t transport st = (st, Inl SyncPageBudgetExhausted)"
| "sync_pages (Suc n) env t transport st =
     (case sync_with env t transport st of
        (st, Inl e) \<Rightarrow> (st, Inl e)
      | (st, Inr response) \<Rightarrow>
          if \<not> has_more response then (st, Inr response)
          else sync_pages n env t transport st)"

definition sync_until_caught_up ::
  "sqlite_env \<Rightarrow> table_def \<Rightarrow> (sync_payload \<Rightarrow> 'net \<Rightarrow> 'net \<times> (sync_error + sync_payload)) \<Rightarrow>
   client_db \<times> 'net \<Rightarrow> (client_db \<times> 'net) \<times> (sync_error + sync_payload)" where
  "sync_until_caught_up = sync_pages MAX_SYNC_PAGES_PER_CALL"

definition reset_cursor :: "client_db \<Rightarrow> client_db" where
  "reset_cursor db = db\<lparr>d_cursor := Some \<lparr>cu_cursor = 0, cu_token = None, cu_epoch = None\<rparr>\<rparr>"

subsection \<open>Scopes of partial replicas\<close>

definition scope_member_ids :: "string \<Rightarrow> client_db \<Rightarrow> string list" where
  "scope_member_ids scope db = map (\<lambda>e. snd (fst e)) (filter (\<lambda>e. fst (fst e) = scope) (d_members db))"

text \<open>\<open>current_version.unwrap_or(0).checked_add(1)\<close> on the \<open>i64\<close> revision of a scope.\<close>

definition next_scope_version :: "string \<Rightarrow> client_db \<Rightarrow> sync_error + int" where
  "next_scope_version scope db =
     (let v = (case bt_get (d_scopes db) scope of None \<Rightarrow> 0 | Some (v, _) \<Rightarrow> v) in
      if v + 1 > i64_MAX then Inl ClockOverflow else Inr (v + 1))"

definition get_partial_replica_request ::
  "sqlite_env \<Rightarrow> table_def \<Rightarrow> string \<Rightarrow> replica_interest \<Rightarrow> client_db \<Rightarrow>
   sync_error + client_db \<times> partial_replica_request" where
  "get_partial_replica_request env t scope interest db =
     rbind (validate_identifier ''scope_id'' scope) (\<lambda>_.
     rbind (interest_validate interest t) (\<lambda>_.
     rbind (next_scope_version scope db) (\<lambda>version.
     let db = db\<lparr>d_scopes := bt_insert scope (version, True) (d_scopes db)\<rparr> in
     rbind (clock_from_i64 version) (\<lambda>scope_version.
     rbind (get_local_delta env t db) (\<lambda>sync.
     let request =
       \<lparr>rq_scope_id = scope, rq_scope_version = scope_version, rq_interest = interest,
        rq_known_member_ids = scope_member_ids scope db, rq_sync = sync\<rparr>
     in rbind (request_validate request t (source_device_id sync)) (\<lambda>_. Inr (db, request)))))))"

definition replace_members :: "string \<Rightarrow> string list \<Rightarrow> client_db \<Rightarrow> sync_error + client_db" where
  "replace_members scope members db =
     foldM (\<lambda>row db.
         if bt_get (d_members db) (scope, row) \<noteq> None then Inl (Sqlite ''UNIQUE constraint failed'')
         else Inr (db\<lparr>d_members := bt_insert (scope, row) () (d_members db),
                      d_evictions := bt_remove (scope, row) (d_evictions db)\<rparr>))
       members (db\<lparr>d_members := filter (\<lambda>e. fst (fst e) \<noteq> scope) (d_members db)\<rparr>)"

definition mark_evictions :: "string \<Rightarrow> string list \<Rightarrow> client_db \<Rightarrow> client_db" where
  "mark_evictions scope rows db =
     db\<lparr>d_evictions := foldl (\<lambda>m row. bt_insert (scope, row) () m) (d_evictions db) rows\<rparr>"

definition apply_partial_replica_response ::
  "sqlite_env \<Rightarrow> table_def \<Rightarrow> partial_replica_request \<Rightarrow> partial_replica_response \<Rightarrow> client_db \<Rightarrow>
   sync_error + client_db" where
  "apply_partial_replica_response env t sent response db =
     rbind (request_validate sent t (d_device db)) (\<lambda>_.
     rbind (response_validate response t) (\<lambda>_.
     if rq_scope_id sent \<noteq> rs_scope_id response \<or> rq_scope_version sent \<noteq> rs_scope_version response
     then Inl (InvalidPayload ''partial replica response does not match the request scope revision'')
     else
     rbind (clock_to_i64 (rq_scope_version sent)) (\<lambda>version.
     if bt_get (d_scopes db) (rq_scope_id sent) \<noteq> Some (version, True)
     then Inl (InvalidPayload ''stale partial replica response rejected'')
     else if filter (\<lambda>row. \<not> binary_search (rs_member_ids response) row) (rq_known_member_ids sent)
       \<noteq> rs_evicted_row_ids response
     then Inl (InvalidPayload ''partial replica response contains an inconsistent eviction set'')
     else
     rbind (acknowledge_with_response t (rq_sync sent) (rs_sync response) db) (\<lambda>db.
     rbind (apply_remote_payload env t (rs_sync response) db) (\<lambda>db.
     rbind (replace_members (rq_scope_id sent) (rs_member_ids response) db) (\<lambda>db.
       Inr (cleanup_pending_evictions
         (mark_evictions (rq_scope_id sent) (rs_evicted_row_ids response) db))))))))"

definition remove_partial_replica_scope :: "string \<Rightarrow> client_db \<Rightarrow> sync_error + client_db" where
  "remove_partial_replica_scope scope db =
     rbind (validate_identifier ''scope_id'' scope) (\<lambda>_.
     rbind (next_scope_version scope db) (\<lambda>version.
     let db = db\<lparr>d_scopes := bt_insert scope (version, False) (d_scopes db)\<rparr>;
         members = scope_member_ids scope db;
         db = db\<lparr>d_members := filter (\<lambda>e. fst (fst e) \<noteq> scope) (d_members db)\<rparr>
     in Inr (cleanup_pending_evictions (mark_evictions scope members db))))"

definition client_partial_request ::
  "sqlite_env \<Rightarrow> table_def \<Rightarrow> string \<Rightarrow> replica_interest \<Rightarrow> client_db \<Rightarrow>
   client_db \<times> (sync_error + partial_replica_request)" where
  "client_partial_request env t scope interest = run_tx (get_partial_replica_request env t scope interest)"

definition complete_partial_replica_sync ::
  "sqlite_env \<Rightarrow> table_def \<Rightarrow> partial_replica_request \<Rightarrow> partial_replica_response \<Rightarrow> client_db \<Rightarrow>
   client_db \<times> (sync_error + unit)" where
  "complete_partial_replica_sync env t sent response = in_tx (apply_partial_replica_response env t sent response)"

definition client_remove_scope :: "string \<Rightarrow> client_db \<Rightarrow> client_db \<times> (sync_error + unit)" where
  "client_remove_scope scope = in_tx (remove_partial_replica_scope scope)"

definition sync_partial_with ::
  "sqlite_env \<Rightarrow> table_def \<Rightarrow> string \<Rightarrow> replica_interest \<Rightarrow>
   (partial_replica_request \<Rightarrow> 'net \<Rightarrow> 'net \<times> (sync_error + partial_replica_response)) \<Rightarrow>
   client_db \<times> 'net \<Rightarrow> (client_db \<times> 'net) \<times> (sync_error + partial_replica_response)" where
  "sync_partial_with env t scope interest transport st =
     (case client_partial_request env t scope interest (fst st) of
        (db, Inl e) \<Rightarrow> ((db, snd st), Inl e)
      | (db, Inr outbound) \<Rightarrow>
          (case transport outbound (snd st) of
             (net, Inl e) \<Rightarrow> ((db, net), Inl e)
           | (net, Inr response) \<Rightarrow>
               (case complete_partial_replica_sync env t outbound response db of
                  (db, Inl e) \<Rightarrow> ((db, net), Inl e)
                | (db, Inr _) \<Rightarrow> ((db, net), Inr response))))"

end
