(* ===== verification/Client_Values.thy ===== *)
theory Client_Values
  imports Client_Sync
begin

section \<open>Values of the edge database\<close>

text \<open>
  Round trips between protocol values, application columns and the text of the change log. The
  hypothesis \<open>reals_exact\<close> is about REAL columns only and vacuous for tables without one: it asks
  that the texts of a finite \<open>f64\<close> parse back to it. The standard library documents this for
  \<open>to_string\<close>; SQLite's \<open>CAST(x AS TEXT)\<close>, which prints fifteen significant digits, meets it only
  for values with such short decimals.
\<close>

definition reals_exact :: "sqlite_env \<Rightarrow> table_def \<Rightarrow> bool" where
  "reals_exact env t \<longleftrightarrow>
     (\<exists>n. table_column_type t n = Some TyReal) \<longrightarrow>
     (\<forall>x. f64_is_finite x \<longrightarrow>
        parse_f64 env (real_to_string env x) = Some x \<and> parse_f64 env (cast_real env x) = Some x)"

lemma parse_show_int: "parse_int (show_int i) = Some i"
proof (cases "i < 0")
  case True
  then show ?thesis by (simp add: parse_int_def show_int_def parse_nonempty_def parse_show_nat)
next
  case False
  obtain c r where cr: "show_nat (nat i) = c # r" by (cases "show_nat (nat i)") auto
  then have "is_digit c" using show_nat_digits [of c "nat i"] by simp
  then have "c \<noteq> CHR ''-''" "c \<noteq> CHR ''+''" by (auto simp: is_digit_def)
  with False cr parse_show_nat [of "nat i"] show ?thesis
    by (simp add: parse_int_def show_int_def parse_nonempty_def)
qed

lemma parse_i64_show: "parse_i64 (show_int (sint (w :: i64))) = Some w"
proof -
  have "- (2 ^ 63) \<le> sint w" "sint w \<le> i64_MAX"
    using sint_greater_eq [of w] sint_less [of w] by (simp_all add: i64_MAX_def)
  then show ?thesis by (simp add: parse_i64_def parse_show_int)
qed

lemma show_int_small: "show_int 0 = ''0''" "show_int 1 = ''1''"
  by code_simp+

lemma sint_bool: "sint (0 :: i64) = 0" "sint (1 :: i64) = 1"
  by simp_all

text \<open>Reading back a stored value by the type of its column.\<close>

definition sql_to_crdt :: "column_type \<Rightarrow> sql_value \<Rightarrow> crdt_value option" where
  "sql_to_crdt k w =
     (case (k, w) of
        (TyText, SqlText s) \<Rightarrow> Some (VText s)
      | (TyInteger, SqlInteger i) \<Rightarrow> Some (VInteger i)
      | (TyReal, SqlReal x) \<Rightarrow> Some (VReal x)
      | (TyBoolean, SqlInteger i) \<Rightarrow>
          if i = 0 then Some (VBoolean False) else if i = 1 then Some (VBoolean True) else None
      | _ \<Rightarrow> None)"

lemma value_ok_typed:
  assumes "value_ok t n v"
  obtains k w where "table_column_type t n = Some k" "typed_match k v" "crdt_to_sqlite v = Inr w"
    "sql_to_crdt k w = Some v"
  using assms
  by (cases v) (auto simp: value_ok_def typed_match_def crdt_to_sqlite_def sql_to_crdt_def split: if_splits)

text \<open>Both texts of a value decode to it: the one written for a remote cell and the one the triggers
  capture.\<close>

lemma decode_encode:
  assumes "value_ok t n v" "reals_exact env t"
  shows "\<exists>s. encode_sqlite_value env v = Inr s \<and> decode_sqlite_value env t n s = Inr v"
  using assms
  by (cases v) (auto simp: value_ok_def encode_sqlite_value_def decode_sqlite_value_def parse_i64_show
      reals_exact_def)

lemma decode_capture:
  assumes "value_ok t n v" "reals_exact env t" "crdt_to_sqlite v = Inr w"
  shows "decode_sqlite_value env t n (capture_text env w) = Inr v"
  using assms
  by (cases v) (auto simp: value_ok_def crdt_to_sqlite_def capture_text_def decode_sqlite_value_def
      parse_i64_show reals_exact_def show_int_small split: if_splits)


lemma clock_from_i64_ok:
  "0 \<le> c \<Longrightarrow> clock_from_i64 c = Inr (word_of_int c)"
  by (simp add: clock_from_i64_def u64_try_from_def)

lemma clock_to_i64_ok: "clock_ok c \<Longrightarrow> clock_to_i64 c = Inr (int (unat c))"
  by (simp add: clock_to_i64_def i64_try_from_unat clock_ok_def)

text \<open>A table without REAL columns and an environment whose conversions are never used on it.\<close>

definition sample_env :: sqlite_env where
  "sample_env = \<lparr>real_to_string = (\<lambda>_. []), parse_f64 = (\<lambda>_. None), cast_real = (\<lambda>_. [])\<rparr>"

lemma todos_reals: "reals_exact env todos_table"
  by (auto simp: reals_exact_def table_column_type_def todos_table_def split: if_splits)


end
