(* ===== verification/Client_Inv.thy ===== *)
theory Client_Inv
  imports Client_Values
begin

section \<open>The invariant of the edge database\<close>

text \<open>
  \<open>row_ok\<close>: an application row has a well-typed value in every column of the contract.
  \<open>log_ok\<close>: an entry of the change log belongs to an existing row, decodes to a valid value that is
  the value of the application column, has a clock the device has reached, and is dirty only when the
  device wrote it. \<open>client_inv\<close> is shown to hold after every local write.
\<close>

definition row_ok :: "table_def \<Rightarrow> app_row \<Rightarrow> bool" where
  "row_ok t vals \<longleftrightarrow>
     bt_wf vals \<and>
     (\<forall>n k. table_column_type t n = Some k \<longrightarrow>
        (\<exists>w v. bt_get vals n = Some w \<and> sql_to_crdt k w = Some v \<and> value_ok t n v))"

definition log_ok :: "sqlite_env \<Rightarrow> table_def \<Rightarrow> client_db \<Rightarrow> cell_key \<Rightarrow> log_cell \<Rightarrow> bool" where
  "log_ok env t db key l \<longleftrightarrow>
     (\<exists>vals v w. bt_get (d_rows db) (fst key) = Some vals \<and>
        decode_sqlite_value env t (snd key) (lg_value l) = Inr v \<and> value_ok t (snd key) v \<and>
        crdt_to_sqlite v = Inr w \<and> sql_is w (the (bt_get vals (snd key)))) \<and>
     0 \<le> lg_clock l \<and> lg_clock l \<le> d_lamport db \<and> identifier_ok (lg_device l) \<and>
     (lg_dirty l \<longrightarrow> lg_device l = d_device db)"

definition device_inv :: "client_db \<Rightarrow> bool" where
  "device_inv db \<longleftrightarrow>
     identifier_ok (d_device db) \<and> d_device db \<noteq> SERVER_DEVICE_ID \<and>
     0 \<le> d_lamport db \<and> d_lamport db \<le> i64_MAX \<and>
     (\<forall>r. d_cursor db = Some r \<longrightarrow>
        0 \<le> cu_cursor r \<and> (\<forall>v. cu_token r = Some v \<longrightarrow> identifier_ok v) \<and>
        (\<forall>v. cu_epoch r = Some v \<longrightarrow> identifier_ok v))"

definition rows_inv :: "table_def \<Rightarrow> client_db \<Rightarrow> bool" where
  "rows_inv t db \<longleftrightarrow>
     bt_wf (d_rows db) \<and>
     (\<forall>row vals. bt_get (d_rows db) row = Some vals \<longrightarrow> identifier_ok row \<and> row_ok t vals)"

definition log_inv :: "sqlite_env \<Rightarrow> table_def \<Rightarrow> client_db \<Rightarrow> bool" where
  "log_inv env t db \<longleftrightarrow>
     bt_wf (d_log db) \<and> (\<forall>key l. bt_get (d_log db) key = Some l \<longrightarrow> log_ok env t db key l)"

definition client_inv :: "sqlite_env \<Rightarrow> table_def \<Rightarrow> client_db \<Rightarrow> bool" where
  "client_inv env t db \<longleftrightarrow>
     device_inv db \<and> rows_inv t db \<and> log_inv env t db \<and> \<not> d_applying db"

lemma client_inv_new:
  "identifier_ok device \<Longrightarrow> device \<noteq> SERVER_DEVICE_ID \<Longrightarrow> client_inv env t (client_db_new device)"
  by (simp add: client_inv_def device_inv_def rows_inv_def log_inv_def client_db_new_def i64_MAX_def)

subsection \<open>Values\<close>

lemma sql_to_crdt_inverse: "sql_to_crdt k w = Some v \<Longrightarrow> crdt_to_sqlite v = Inr w"
  by (auto simp: sql_to_crdt_def crdt_to_sqlite_def split: column_type.splits sql_value.splits if_splits)

lemma sql_is_trans: "sql_is a b \<Longrightarrow> sql_is b c \<Longrightarrow> sql_is a c"
  by (cases a; cases b; cases c) (auto intro: f64_eq_trans)

lemma sql_is_refl:
  assumes "value_ok t n v" "crdt_to_sqlite v = Inr w"
  shows "sql_is w w"
  using assms by (cases v) (auto simp: crdt_to_sqlite_def value_ok_def intro: f64_eq_refl)

lemma default_value_ok:
  assumes "table_column_type t n = Some k"
  shows "\<exists>v. sql_to_crdt k (default_value k) = Some v \<and> value_ok t n v"
proof -
  have "f64_is_finite 0" by (simp add: f64_is_finite_def f64_exponent_def)
  then show ?thesis
    using assms by (cases k) (auto simp: sql_to_crdt_def default_value_def value_ok_def)
qed

lemma default_fold:
  "bt_wf m \<Longrightarrow> bt_wf (foldl (\<lambda>m c. bt_insert (cname c) (default_value (cty c)) m) m cs) \<and>
   bt_get (foldl (\<lambda>m c. bt_insert (cname c) (default_value (cty c)) m) m cs) =
     bt_get m ++ map_of (rev (map (\<lambda>c. (cname c, default_value (cty c))) cs))"
  by (induction cs arbitrary: m) (auto simp: map_add_def fun_eq_iff split: option.splits)

lemma row_ok_default:
  assumes "valid_table t"
  shows "row_ok t (default_row t)"
proof -
  let ?es = "map (\<lambda>c. (cname c, default_value (cty c))) (synchronized_columns t)"
  have get: "bt_wf (default_row t)" "bt_get (default_row t) = map_of (rev ?es)"
    using default_fold [of "[]" "synchronized_columns t"] by (simp_all add: default_row_def)
  have dist: "distinct (map fst (rev ?es))"
    using distinct_synchronized [OF assms] by (simp add: rev_map [symmetric] comp_def)
  have "bt_get (default_row t) n = Some (default_value k)" if "table_column_type t n = Some k" for n k
  proof -
    have "\<lparr>cname = n, cty = k\<rparr> \<in> set (synchronized_columns t)"
      using that table_column_type_iff [OF assms] by blast
    then have "(n, default_value k) \<in> set (rev ?es)" by force
    then show ?thesis unfolding get(2) using dist by (simp add: map_of_eq_Some_iff)
  qed
  with get(1) default_value_ok show ?thesis by (fastforce simp: row_ok_def)
qed

lemma row_ok_insert:
  assumes "row_ok t vals" "table_column_type t n = Some k" "value_ok t n v" "crdt_to_sqlite v = Inr w"
  shows "row_ok t (bt_insert n w vals)"
proof -
  obtain k' w' where "table_column_type t n = Some k'" "crdt_to_sqlite v = Inr w'" "sql_to_crdt k' w' = Some v"
    using value_ok_typed [OF assms(3)] by metis
  then have "sql_to_crdt k w = Some v" using assms(2,4) by simp
  with assms show ?thesis by (auto simp: row_ok_def)
qed

subsection \<open>Capture\<close>

lemma capture_sel [simp]:
  "d_device (capture_statement env row vals c db) = d_device db"
  "d_lamport (capture_statement env row vals c db) = d_lamport db"
  "d_applying (capture_statement env row vals c db) = d_applying db"
  "d_cursor (capture_statement env row vals c db) = d_cursor db"
  "d_rows (capture_statement env row vals c db) = d_rows db"
  "d_scopes (capture_statement env row vals c db) = d_scopes db"
  "d_members (capture_statement env row vals c db) = d_members db"
  "d_evictions (capture_statement env row vals c db) = d_evictions db"
  by (simp_all add: capture_statement_def)

abbreviation captured :: "sqlite_env \<Rightarrow> client_db \<Rightarrow> app_row \<Rightarrow> string \<Rightarrow> log_cell" where
  "captured env db vals n \<equiv>
     \<lparr>lg_value = capture_text env (the (bt_get vals n)), lg_clock = d_lamport db,
      lg_device = d_device db, lg_dirty = True\<rparr>"

lemma log_capture:
  "bt_get (d_log (capture_statement env row vals c db)) =
     (bt_get (d_log db))((row, cname c) \<mapsto> captured env db vals (cname c))"
  by (simp add: capture_statement_def)

lemma log_ok_captured:
  assumes row: "bt_get (d_rows db) row = Some vals" "row_ok t vals" "table_column_type t n = Some k"
    and dev: "device_inv db" and exact: "reals_exact env t"
  shows "log_ok env t db (row, n) (captured env db vals n)"
proof -
  obtain w v where w: "bt_get vals n = Some w" "sql_to_crdt k w = Some v" "value_ok t n v"
    using row(2,3) unfolding row_ok_def by blast
  then have cs: "crdt_to_sqlite v = Inr w" by (simp add: sql_to_crdt_inverse)
  have "decode_sqlite_value env t n (capture_text env w) = Inr v"
    by (rule decode_capture [OF w(3) exact cs])
  then show ?thesis
    using row(1) w cs dev sql_is_refl [OF w(3) cs] by (auto simp: log_ok_def device_inv_def)
qed

lemma log_ok_weaken:
  assumes "log_ok env t db key l" "d_device db' = d_device db" "d_lamport db \<le> d_lamport db'"
    and "bt_get (d_rows db') (fst key) = bt_get (d_rows db) (fst key)"
  shows "log_ok env t db' key l"
  using assms by (auto simp: log_ok_def)

lemma log_inv_capture:
  assumes "log_inv env t db" "bt_get (d_rows db) row = Some vals" "row_ok t vals"
    and "table_column_type t (cname c) = Some k" "device_inv db" "reals_exact env t"
  shows "log_inv env t (capture_statement env row vals c db)"
proof -
  let ?db = "capture_statement env row vals c db"
  have "log_ok env t ?db key l" if "bt_get (d_log ?db) key = Some l" for key l
  proof (cases "key = (row, cname c)")
    case True
    have "log_ok env t db (row, cname c) (captured env db vals (cname c))"
      by (rule log_ok_captured [OF assms(2-6)])
    moreover have "l = captured env db vals (cname c)" using that True by (simp add: log_capture)
    ultimately have "log_ok env t db key l" using True by simp
    then show ?thesis by (rule log_ok_weaken) simp_all
  next
    case False
    then have "bt_get (d_log db) key = Some l" using that by (simp add: log_capture)
    then have "log_ok env t db key l" using assms(1) by (simp add: log_inv_def)
    then show ?thesis by (rule log_ok_weaken) simp_all
  qed
  moreover have "bt_wf (d_log ?db)" using assms(1) by (simp add: log_inv_def capture_statement_def)
  ultimately show ?thesis by (simp add: log_inv_def)
qed

lemma tick_ok: "tick db = Inr db' \<longleftrightarrow> d_lamport db < i64_MAX \<and> db' = db\<lparr>d_lamport := d_lamport db + 1\<rparr>"
  by (auto simp: tick_def)

lemma tick_inv:
  assumes "tick db = Inr db'" "device_inv db" "rows_inv t db" "log_inv env t db"
  shows "device_inv db'" "rows_inv t db'" "log_inv env t db'"
proof -
  show "device_inv db'" "rows_inv t db'"
    using assms by (auto simp: tick_ok device_inv_def rows_inv_def)
  have "log_ok env t db' key l" if "bt_get (d_log db') key = Some l" for key l
  proof -
    have "log_ok env t db key l" using that assms(1,4) by (auto simp: tick_ok log_inv_def)
    then show ?thesis by (rule log_ok_weaken) (use assms(1) in \<open>auto simp: tick_ok\<close>)
  qed
  then show "log_inv env t db'" using assms(1,4) by (auto simp: log_inv_def tick_ok)
qed

subsection \<open>Inserting a row\<close>

abbreviation capture_all :: "sqlite_env \<Rightarrow> string \<Rightarrow> app_row \<Rightarrow> column_def list \<Rightarrow> client_db \<Rightarrow> client_db" where
  "capture_all env row vals cs db \<equiv> foldl (\<lambda>db c. capture_statement env row vals c db) db cs"

lemma capture_all_inv:
  assumes "log_inv env t db" "bt_get (d_rows db) row = Some vals" "row_ok t vals"
    and "\<forall>c\<in>set cs. table_column_type t (cname c) \<noteq> None" "device_inv db" "reals_exact env t"
  shows "log_inv env t (capture_all env row vals cs db)"
  using assms
proof (induction cs arbitrary: db)
  case (Cons c cs)
  obtain k where "table_column_type t (cname c) = Some k" using Cons.prems(4) by auto
  then have "log_inv env t (capture_statement env row vals c db)"
    using Cons.prems(1-3,5,6) by (intro log_inv_capture) assumption+
  moreover have "device_inv (capture_statement env row vals c db)"
    using Cons.prems(5) by (simp add: device_inv_def)
  ultimately show ?case using Cons by simp
qed simp

lemma capture_all_sel [simp]:
  "d_device (capture_all env row vals cs db) = d_device db"
  "d_lamport (capture_all env row vals cs db) = d_lamport db"
  "d_applying (capture_all env row vals cs db) = d_applying db"
  "d_cursor (capture_all env row vals cs db) = d_cursor db"
  "d_rows (capture_all env row vals cs db) = d_rows db"
  by (induction cs arbitrary: db) simp_all

lemma log_capture_all:
  "bt_get (d_log (capture_all env row vals cs db)) (r, n) =
     (if r = row \<and> n \<in> cname ` set cs then Some (captured env db vals n)
      else bt_get (d_log db) (r, n))"
  by (induction cs arbitrary: db) (auto simp: log_capture)

lemma log_inv_new_row:
  assumes "log_inv env t db" "bt_get (d_rows db) row = None"
  shows "log_inv env t (db\<lparr>d_rows := bt_insert row vals (d_rows db)\<rparr>)"
proof -
  have "log_ok env t (db\<lparr>d_rows := bt_insert row vals (d_rows db)\<rparr>) key l"
    if "bt_get (d_log db) key = Some l" for key l
  proof -
    have ok: "log_ok env t db key l" using assms(1) that by (simp add: log_inv_def)
    then have "fst key \<noteq> row" using assms(2) by (auto simp: log_ok_def)
    with ok show ?thesis by - (rule log_ok_weaken, simp_all)
  qed
  then show ?thesis using assms(1) by (simp add: log_inv_def)
qed

lemma rows_inv_insert:
  "rows_inv t db \<Longrightarrow> identifier_ok row \<Longrightarrow> row_ok t vals \<Longrightarrow>
   rows_inv t (db\<lparr>d_rows := bt_insert row vals (d_rows db)\<rparr>)"
  by (auto simp: rows_inv_def)

text \<open>The values an insertion gives: defaults overridden by valid values.\<close>

definition given_ok :: "table_def \<Rightarrow> (string \<times> sql_value) list \<Rightarrow> bool" where
  "given_ok t given \<longleftrightarrow>
     (\<forall>(n, w)\<in>set given. \<exists>v. value_ok t n v \<and> crdt_to_sqlite v = Inr w)"

abbreviation new_row :: "table_def \<Rightarrow> (string \<times> sql_value) list \<Rightarrow> app_row" where
  "new_row t given \<equiv> foldl (\<lambda>m (c, v). bt_insert c v m) (default_row t) given"

lemma row_ok_given:
  assumes "row_ok t vals" "given_ok t given"
  shows "row_ok t (foldl (\<lambda>m (c, v). bt_insert c v m) vals given)"
  using assms
proof (induction given arbitrary: vals)
  case (Cons e given)
  obtain n w where e: "e = (n, w)" by fastforce
  obtain v where v: "value_ok t n v" "crdt_to_sqlite v = Inr w"
    using Cons.prems(2) by (auto simp: given_ok_def e)
  obtain k where "table_column_type t n = Some k" using value_ok_column [OF v(1)] by auto
  from row_ok_insert [OF Cons.prems(1) this v] have "row_ok t (bt_insert n w vals)" .
  with Cons show ?case by (simp add: e given_ok_def)
qed simp

lemma insert_row_inv:
  assumes ins: "insert_row env t row given db = Inr db'"
    and inv: "device_inv db" "rows_inv t db" "log_inv env t db"
    and ok: "identifier_ok row" "given_ok t given" and t: "valid_table t" "reals_exact env t"
  shows "device_inv db'" "rows_inv t db'" "log_inv env t db'" "d_applying db' = d_applying db"
proof -
  let ?vals = "new_row t given" and ?db = "db\<lparr>d_rows := bt_insert row (new_row t given) (d_rows db)\<rparr>"
  have free: "bt_get (d_rows db) row = None" and ai: "after_insert env t row ?vals ?db = Inr db'"
    using ins by (auto simp: insert_row_def Let_def split: if_splits)
  have vals: "row_ok t ?vals" by (rule row_ok_given [OF row_ok_default [OF t(1)] ok(2)])
  have inv1: "device_inv ?db" "rows_inv t ?db" "log_inv env t ?db"
    using inv rows_inv_insert [OF inv(2) ok(1) vals] log_inv_new_row [OF inv(3) free]
    by (simp_all add: device_inv_def)
  have cols: "\<forall>c\<in>set (synchronized_columns t). table_column_type t (cname c) \<noteq> None"
    using table_column_type_iff [OF t(1)] by (metis column_def.surjective old.unit.exhaust option.distinct(1))
  have "device_inv db' \<and> rows_inv t db' \<and> log_inv env t db' \<and> d_applying db' = d_applying db"
  proof (cases "d_applying db")
    case True
    then have "db' = ?db" using ai by (simp add: after_insert_def)
    with True inv1 show ?thesis by simp
  next
    case False
    then obtain db2 where db2: "tick ?db = Inr db2" and db': "db' = capture_all env row ?vals (synchronized_columns t) db2"
      using ai by (auto simp: after_insert_def)
    note inv2 = tick_inv [OF db2 inv1]
    have "bt_get (d_rows db2) row = Some ?vals" "d_applying db2 = d_applying db"
      using db2 by (auto simp: tick_ok)
    with capture_all_inv [OF inv2(3) _ vals cols inv2(1) t(2)] inv2 db' show ?thesis
      by (simp add: device_inv_def rows_inv_def)
  qed
  then show "device_inv db'" "rows_inv t db'" "log_inv env t db'" "d_applying db' = d_applying db" by simp_all
qed

subsection \<open>Updating a column\<close>

abbreviation put_value :: "string \<Rightarrow> string \<Rightarrow> sql_value \<Rightarrow> app_row \<Rightarrow> client_db \<Rightarrow> client_db" where
  "put_value row n w vals db \<equiv> db\<lparr>d_rows := bt_insert row (bt_insert n w vals) (d_rows db)\<rparr>"

lemma log_ok_put_other:
  assumes "log_ok env t db key l" "bt_get (d_rows db) row = Some vals" "key \<noteq> (row, n)"
  shows "log_ok env t (put_value row n w vals db) key l"
proof (cases "fst key = row")
  case True
  then have "snd key \<noteq> n" using assms(3) by (cases key) auto
  with True assms(1,2) show ?thesis by (auto simp: log_ok_def)
next
  case False
  then show ?thesis using assms(1) by (simp add: log_ok_def)
qed

lemma log_ok_put_same:
  assumes "log_ok env t db (row, n) l" "bt_get (d_rows db) row = Some vals"
    and "sql_is (the (bt_get vals n)) w"
  shows "log_ok env t (put_value row n w vals db) (row, n) l"
  using assms sql_is_trans unfolding log_ok_def by fastforce

lemma update_column_cases:
  assumes "update_column env c row guard w db = Inr (db', changed)"
  obtains (none) "db' = db" "changed = 0"
  | (quiet) vals where "bt_get (d_rows db) row = Some vals" "guard vals" "changed = 1"
      "db' = put_value row (cname c) w vals db" "sql_is (the (bt_get vals (cname c))) w \<or> d_applying db"
  | (fired) vals where "bt_get (d_rows db) row = Some vals" "guard vals" "changed = 1"
      "\<not> sql_is (the (bt_get vals (cname c))) w" "\<not> d_applying db" "d_lamport db < i64_MAX"
      "db' = capture_statement env row (bt_insert (cname c) w vals) c
         ((put_value row (cname c) w vals db)\<lparr>d_lamport := d_lamport db + 1\<rparr>)"
proof (cases "bt_get (d_rows db) row")
  case None
  then show thesis using assms that(1) by (simp add: update_column_def)
next
  case (Some vals)
  show thesis
  proof (cases "guard vals")
    case False
    then show thesis using assms Some that(1) by (simp add: update_column_def)
  next
    case True
    show thesis
    proof (cases "sql_is (the (bt_get vals (cname c))) w \<or> d_applying db")
      case quiet: True
      then have "db' = put_value row (cname c) w vals db" "changed = 1"
        using assms Some True by (simp_all add: update_column_def Let_def)
      with quiet Some True that(2) show thesis by blast
    next
      case False
      then have "d_lamport db < i64_MAX" "changed = 1"
        "db' = capture_statement env row (bt_insert (cname c) w vals) c
           ((put_value row (cname c) w vals db)\<lparr>d_lamport := d_lamport db + 1\<rparr>)"
        using assms Some True by (auto simp: update_column_def Let_def tick_ok)
      with False Some True that(3) show thesis by blast
    qed
  qed
qed

lemma update_column_inv:
  assumes upd: "update_column env c row guard w db = Inr (db', changed)" and inv: "client_inv env t db"
    and val: "value_ok t (cname c) v" "crdt_to_sqlite v = Inr w" and t: "reals_exact env t"
  shows "client_inv env t db'"
proof -
  have inv': "device_inv db" "rows_inv t db" "log_inv env t db" "\<not> d_applying db"
    using inv by (simp_all add: client_inv_def)
  obtain k where k: "table_column_type t (cname c) = Some k" using value_ok_column [OF val(1)] by auto
  have put: "rows_inv t (put_value row (cname c) w vals db)" "row_ok t (bt_insert (cname c) w vals)"
    if "bt_get (d_rows db) row = Some vals" for vals
  proof -
    have "identifier_ok row" "row_ok t vals" using inv'(2) that by (simp_all add: rows_inv_def)
    then show "row_ok t (bt_insert (cname c) w vals)" "rows_inv t (put_value row (cname c) w vals db)"
      using row_ok_insert [OF _ k val] rows_inv_insert [OF inv'(2)] by simp_all
  qed
  have log: "log_ok env t db key l" if "bt_get (d_log db) key = Some l" for key l
    using inv'(3) that by (simp add: log_inv_def)
  from upd show ?thesis
  proof (cases rule: update_column_cases)
    case none
    then show ?thesis using inv by simp
  next
    case (quiet vals)
    then have eq: "sql_is (the (bt_get vals (cname c))) w" using inv'(4) by simp
    have "log_ok env t db' key l" if "bt_get (d_log db) key = Some l" for key l
      using log [OF that] log_ok_put_other [OF log [OF that] quiet(1), of "cname c" w]
        log_ok_put_same [OF _ quiet(1) eq] quiet(4)
      by (cases "key = (row, cname c)") simp_all
    then have "log_inv env t db'" using inv'(3) quiet(4) by (simp add: log_inv_def)
    then show ?thesis
      using inv' put(1) [OF quiet(1)] quiet(4) by (simp add: client_inv_def device_inv_def)
  next
    case (fired vals)
    let ?vals = "bt_insert (cname c) w vals"
    let ?db2 = "(put_value row (cname c) w vals db)\<lparr>d_lamport := d_lamport db + 1\<rparr>"
    have dev: "device_inv ?db2" using inv'(1) fired(6) by (simp add: device_inv_def)
    have rows: "rows_inv t db'" using put(1) [OF fired(1)] fired(7) by (simp add: rows_inv_def)
    have cap: "log_ok env t ?db2 (row, cname c) (captured env ?db2 ?vals (cname c))"
      by (rule log_ok_captured [OF _ put(2) [OF fired(1)] k dev t]) simp
    have "log_ok env t db' key l" if "bt_get (d_log db') key = Some l" for key l
    proof (cases "key = (row, cname c)")
      case True
      then have "l = captured env ?db2 ?vals (cname c)" using that fired(7) by (simp add: log_capture)
      with cap True have "log_ok env t ?db2 key l" by simp
      then show ?thesis by (rule log_ok_weaken) (simp_all add: fired(7))
    next
      case False
      then have "bt_get (d_log db) key = Some l" using that fired(7) by (simp add: log_capture)
      from log_ok_put_other [OF log [OF this] fired(1) False, of w]
      show ?thesis by (rule log_ok_weaken) (simp_all add: fired(7))
    qed
    moreover have "bt_wf (d_log db')" using inv'(3) fired(7) by (simp add: log_inv_def capture_statement_def)
    ultimately have "log_inv env t db'" by (simp add: log_inv_def)
    with rows dev fired(5,7) show ?thesis by (simp add: client_inv_def device_inv_def)
  qed
qed

end
