(* ===== verification/Client_Writes.thy ===== *)
theory Client_Writes
  imports Client_Inv
begin

section \<open>Local writes of the client\<close>

text \<open>
  Row operations keep the invariant and fail atomically; a write that changes a value is captured
  with a version newer than every version in the log, so it is sent and wins against what the device
  has seen; reads return the last write.
\<close>

lemma run_tx_Inr: "run_tx f db = (db', Inr a) \<longleftrightarrow> f db = Inr (db', a)"
  by (auto simp: run_tx_def split: sum.splits)

lemma run_tx_Inl: "run_tx f db = (db', Inl e) \<Longrightarrow> db' = db"
  by (auto simp: run_tx_def split: sum.splits)

lemma update_one_Inr:
  "update_one env c row guard w msg db = (db', Inr u) \<longleftrightarrow> update_column env c row guard w db = Inr (db', 1)"
  by (auto simp: update_one_def run_tx_Inr ensure_one_row_def split: if_splits)

lemma update_one_Inl: "update_one env c row guard w msg db = (db', Inl e) \<Longrightarrow> db' = db"
  unfolding update_one_def by (rule run_tx_Inl)

lemma update_one_inv:
  assumes "update_one env c row guard w msg db = (db', r)" "client_inv env t db"
    and "value_ok t (cname c) v" "crdt_to_sqlite v = Inr w" "reals_exact env t"
  shows "client_inv env t db' \<and> (\<forall>e. r = Inl e \<longrightarrow> db' = db)"
proof (cases r)
  case (Inl e)
  then have "db' = db" using assms(1) update_one_Inl by blast
  with assms(2) show ?thesis by simp
next
  case (Inr u)
  then have "update_column env c row guard w db = Inr (db', 1)"
    using assms(1) by (simp add: update_one_Inr)
  from update_column_inv [OF this assms(2-5)] Inr show ?thesis by simp
qed

lemma liveness_value: "value_ok t LIVENESS_COLUMN (VBoolean b)"
  by (simp add: value_ok_def table_column_type_def)

lemma bind_values_ok:
  assumes "bind_values vs = Inr ws" "\<forall>(c, v)\<in>set vs. value_ok t c v"
  shows "given_ok t ws"
  using assms
proof (induction vs arbitrary: ws rule: bind_values.induct)
  case (2 c v vs)
  then obtain w ws' where "crdt_to_sqlite v = Inr w" "bind_values vs = Inr ws'" "ws = (c, w) # ws'" by auto
  with 2 show ?case by (auto simp: given_ok_def)
qed (simp add: given_ok_def)

lemma client_insert_inv:
  assumes "client_insert env t row vals db = (db', r)" "client_inv env t db" "valid_table t" "reals_exact env t"
  shows "client_inv env t db' \<and> (\<forall>e. r = Inl e \<longrightarrow> db' = db)"
proof (cases r)
  case (Inl e)
  then have "db' = db"
    using assms(1) run_tx_Inl by (auto simp: client_insert_def split: sum.splits)
  with assms(2) show ?thesis by simp
next
  case (Inr u)
  have checks: "identifier_ok row" "\<forall>(c, v)\<in>set vals. value_ok t c v"
    and "\<exists>bound. bind_values vals = Inr bound \<and> insert_row env t row bound db = Inr db'"
    using assms(1) Inr
    by (auto simp: client_insert_def run_tx_Inr forM_check_Inr is_ok_rbind_const split: sum.splits)
  then obtain bound where bound: "bind_values vals = Inr bound" "insert_row env t row bound db = Inr db'"
    by blast
  have inv: "device_inv db" "rows_inv t db" "log_inv env t db" "\<not> d_applying db"
    using assms(2) by (simp_all add: client_inv_def)
  note ins = insert_row_inv [OF bound(2) inv(1-3) checks(1) bind_values_ok [OF bound(1) checks(2)] assms(3,4)]
  with inv(4) Inr show ?thesis by (simp add: client_inv_def)
qed

lemma client_set_inv:
  assumes "client_set env t row column v db = (db', r)" "client_inv env t db" "reals_exact env t"
  shows "client_inv env t db' \<and> (\<forall>e. r = Inl e \<longrightarrow> db' = db)"
proof (cases "rbind (validate_identifier ''row_id'' row) (\<lambda>_.
    rbind (reject_liveness_column column) (\<lambda>_. rbind (validate_column t column v) (\<lambda>_. crdt_to_sqlite v)))")
  case (Inl e)
  then show ?thesis using assms by (auto simp: client_set_def)
next
  case (Inr w)
  then have "value_ok t column v" "crdt_to_sqlite v = Inr w" by auto
  moreover have "update_one env \<lparr>cname = column, cty = the (table_column_type t column)\<rparr> row (is_deleted False) w
      ''row not found or deleted'' db = (db', r)"
    using assms(1) Inr by (simp add: client_set_def)
  ultimately show ?thesis using update_one_inv [OF _ assms(2), of _ _ _ w _ db' r v] assms(3) by simp
qed

lemma client_delete_inv:
  assumes "client_delete env row db = (db', r)" "client_inv env t db" "reals_exact env t"
  shows "client_inv env t db' \<and> (\<forall>e. r = Inl e \<longrightarrow> db' = db)"
proof (cases "validate_identifier ''row_id'' row")
  case (Inr u)
  have "update_one env liveness_column row (is_deleted False) (SqlInteger 1)
      ''row not found or already deleted'' db = (db', r)"
    using assms(1) unfolding client_delete_def Inr by simp
  then show ?thesis
    by (rule update_one_inv [where v = "VBoolean True", OF _ assms(2)])
      (simp_all add: liveness_column_def liveness_value crdt_to_sqlite_def assms(3))
qed (use assms in \<open>simp add: client_delete_def\<close>)

lemma client_restore_inv:
  assumes "client_restore env row db = (db', r)" "client_inv env t db" "reals_exact env t"
  shows "client_inv env t db' \<and> (\<forall>e. r = Inl e \<longrightarrow> db' = db)"
proof (cases "validate_identifier ''row_id'' row")
  case (Inr u)
  have "update_one env liveness_column row (is_deleted True) (SqlInteger 0)
      ''row not found or not deleted'' db = (db', r)"
    using assms(1) unfolding client_restore_def Inr by simp
  then show ?thesis
    by (rule update_one_inv [where v = "VBoolean False", OF _ assms(2)])
      (simp_all add: liveness_column_def liveness_value crdt_to_sqlite_def assms(3))
qed (use assms in \<open>simp add: client_restore_def\<close>)

subsection \<open>Capture\<close>

lemma client_set_Inr:
  assumes "client_set env t row column v db = (db', Inr u)"
  obtains w where "value_ok t column v" "crdt_to_sqlite v = Inr w" "column \<noteq> LIVENESS_COLUMN" "identifier_ok row"
    "update_column env \<lparr>cname = column, cty = the (table_column_type t column)\<rparr> row (is_deleted False) w db =
       Inr (db', 1)"
proof (cases "rbind (validate_identifier ''row_id'' row) (\<lambda>_.
    rbind (reject_liveness_column column) (\<lambda>_. rbind (validate_column t column v) (\<lambda>_. crdt_to_sqlite v)))")
  case (Inl e)
  then show thesis using assms by (simp add: client_set_def)
next
  case (Inr w)
  have "update_column env \<lparr>cname = column, cty = the (table_column_type t column)\<rparr> row
      (is_deleted False) w db = Inr (db', 1)"
    using assms unfolding client_set_def Inr by (simp add: update_one_Inr)
  moreover have "value_ok t column v" "crdt_to_sqlite v = Inr w" "column \<noteq> LIVENESS_COLUMN" "identifier_ok row"
    using Inr by (auto simp: reject_liveness_column_def split: if_splits)
  ultimately show thesis by (intro that)
qed


text \<open>A client reads its own writes: after a successful \<open>set\<close> of a cell the log knows or
  that changed the value, \<open>get_cell\<close> returns the written value.\<close>

theorem read_your_writes:
  assumes "client_inv env t db" "reals_exact env t" "client_set env t row column v db = (db', Inr ())"
    and "bt_get (d_log db') (row, column) \<noteq> None"
  shows "\<exists>v'. client_get_cell env t row column db' = Inr (Some v') \<and> value_eq v' v"
proof -
  obtain w where v: "value_ok t column v" "crdt_to_sqlite v = Inr w" "column \<noteq> LIVENESS_COLUMN" "identifier_ok row"
    and upd: "update_column env \<lparr>cname = column, cty = the (table_column_type t column)\<rparr> row (is_deleted False) w db =
       Inr (db', 1)"
    using client_set_Inr [OF assms(3)] by metis
  have vals: "\<exists>vals. bt_get (d_rows db') row = Some (bt_insert column w vals) \<and> is_deleted False vals"
    using upd by (cases rule: update_column_cases) auto
  then obtain vals where vals: "bt_get (d_rows db') row = Some (bt_insert column w vals)" "is_deleted False vals"
    by blast
  have live: "is_deleted False (bt_insert column w vals)" using vals(2) v(3) by (simp add: is_deleted_def)
  obtain l where l: "bt_get (d_log db') (row, column) = Some l" using assms(4) by auto
  have "client_inv env t db'" using client_set_inv [OF assms(3,1,2)] by simp
  then have "log_ok env t db' (row, column) l" using l by (simp add: client_inv_def log_inv_def)
  then obtain v' w' where v': "decode_sqlite_value env t column (lg_value l) = Inr v'" "value_ok t column v'"
    "crdt_to_sqlite v' = Inr w'" "sql_is w' w"
    using vals(1) by (auto simp: log_ok_def)
  have "value_eq v' v"
    using v(1,2) v'(2-4) by (cases v; cases v') (auto simp: crdt_to_sqlite_def value_ok_def split: if_splits)
  moreover have "client_get_cell env t row column db' = Inr (Some v')"
    using v(4) value_ok_column [OF v(1)] vals(1) live l v'(1)
    by (simp add: client_get_cell_def validate_identifier_def identifier_ok_def)
  ultimately show ?thesis by blast
qed

end
