(* ===== verification/Client_Apply.thy ===== *)
theory Client_Apply
  imports Client_Writes
begin

section \<open>Applying a server response: a refinement of the store of registers\<close>

text \<open>
  \<open>log_view\<close> reads the change log as a store of last-writer-wins registers. The loop of
  \<open>apply_remote_payload\<close>, which updates the application table and the change log with the capture
  triggers switched off, is shown to implement \<open>lww.run\<close> on that view, errors included, and to keep
  the invariant. While the loop runs the log may hold clocks the device has not reached yet, so its
  invariant \<open>applying_inv\<close> bounds them by the clock the client takes at the end.
\<close>

definition log_view :: "sqlite_env \<Rightarrow> table_def \<Rightarrow> client_db \<Rightarrow> cell_key \<rightharpoonup> crdt_column" where
  "log_view env t db key =
     (case bt_get (d_log db) key of
        None \<Rightarrow> None
      | Some l \<Rightarrow> (case decode_log_cell env t (snd key) l of Inl _ \<Rightarrow> None | Inr c \<Rightarrow> Some c))"

lemma log_view_cong: "d_log db' = d_log db \<Longrightarrow> log_view env t db' = log_view env t db"
  by (simp add: log_view_def fun_eq_iff)

lemma decode_log_ok:
  assumes "log_ok env t db key l"
  obtains v where "decode_sqlite_value env t (snd key) (lg_value l) = Inr v"
    "decode_log_cell env t (snd key) l =
       Inr \<lparr>cvalue = v, cmeta = ColumnMetadata (word_of_int (lg_clock l)) (lg_device l)\<rparr>"
    "value_ok t (snd key) v"
  using assms by (auto simp: log_ok_def decode_log_cell_def clock_from_i64_ok)

lemma log_view_Some:
  assumes "log_inv env t db" "bt_get (d_log db) key = Some l"
  obtains v where "log_view env t db key =
      Some \<lparr>cvalue = v, cmeta = ColumnMetadata (word_of_int (lg_clock l)) (lg_device l)\<rparr>"
    "decode_sqlite_value env t (snd key) (lg_value l) = Inr v" "value_ok t (snd key) v"
proof -
  have "log_ok env t db key l" using assms by (simp add: log_inv_def)
  then show thesis
    by (rule decode_log_ok) (rule that, simp_all add: log_view_def assms(2))
qed

lemma read_local_view:
  assumes "log_inv env t db"
  shows "read_local_crdt_column env t key db = Inr (log_view env t db key)"
proof (cases "bt_get (d_log db) key")
  case (Some l)
  then have "log_ok env t db key l" using assms by (simp add: log_inv_def)
  then show ?thesis
    by (rule decode_log_ok) (simp add: read_local_crdt_column_def log_view_def Some)
qed (simp add: read_local_crdt_column_def log_view_def)

subsection \<open>One cell\<close>

definition applying_inv :: "sqlite_env \<Rightarrow> table_def \<Rightarrow> int \<Rightarrow> client_db \<Rightarrow> bool" where
  "applying_inv env t b db \<longleftrightarrow>
     d_applying db \<and> rows_inv t db \<and> log_inv env t (db\<lparr>d_lamport := b\<rparr>)"

text \<open>What the loop leaves alone.\<close>

definition same_frame :: "client_db \<Rightarrow> client_db \<Rightarrow> bool" where
  "same_frame db db' \<longleftrightarrow>
     d_device db' = d_device db \<and> d_lamport db' = d_lamport db \<and> d_applying db' = d_applying db \<and>
     d_cursor db' = d_cursor db \<and> d_scopes db' = d_scopes db \<and> d_members db' = d_members db \<and>
     d_evictions db' = d_evictions db \<and>
     (\<forall>row. bt_get (d_rows db) row \<noteq> None \<longrightarrow> bt_get (d_rows db') row \<noteq> None)"

lemma same_frame_refl [simp]: "same_frame db db"
  by (simp add: same_frame_def)

lemma same_frame_trans: "same_frame a b \<Longrightarrow> same_frame b c \<Longrightarrow> same_frame a c"
  by (simp add: same_frame_def)

definition stored_cell :: "sqlite_env \<Rightarrow> crdt_column \<Rightarrow> log_cell" where
  "stored_cell env c =
     \<lparr>lg_value = projr (encode_sqlite_value env (cvalue c)), lg_clock = int (unat (lamport_clock (cmeta c))),
      lg_device = device_id (cmeta c), lg_dirty = False\<rparr>"

abbreviation store_remote :: "sqlite_env \<Rightarrow> cell_key \<Rightarrow> crdt_column \<Rightarrow> sql_value \<Rightarrow> app_row \<Rightarrow> client_db \<Rightarrow> client_db" where
  "store_remote env key c w vals db \<equiv>
     (put_value (fst key) (snd key) w vals db)\<lparr>d_log := bt_insert key (stored_cell env c) (d_log db)\<rparr>"

lemma write_applying:
  assumes "d_applying db" "bt_get (d_rows db) (fst key) = Some vals" "value_ok t (snd key) v"
    and "crdt_to_sqlite v = Inr w"
  shows "write_todo_column env t key v db = Inr (put_value (fst key) (snd key) w vals db)"
proof -
  obtain k where "table_column_type t (snd key) = Some k" "typed_match k v"
    using value_ok_typed [OF assms(3)] by metis
  with assms show ?thesis by (simp add: write_todo_column_def update_column_def Let_def)
qed

lemma apply_cell_eq:
  assumes inv: "applying_inv env t b db" and row: "bt_get (d_rows db) (fst key) = Some vals"
    and cell: "cell_ok t (snd key) c" "crdt_to_sqlite (cvalue c) = Inr w" and exact: "reals_exact env t"
  shows "apply_cell env t (key, c) db =
    rbind (lww_apply (log_view env t db key) c) (\<lambda>yes. Inr (if yes then store_remote env key c w vals db else db))"
proof -
  have read: "read_local_crdt_column env t key db = Inr (log_view env t db key)"
    using read_local_view [of env t "db\<lparr>d_lamport := b\<rparr>" key] inv
    by (simp add: applying_inv_def read_local_crdt_column_def log_view_def)
  have val: "value_ok t (snd key) (cvalue c)" "clock_ok (lamport_clock (cmeta c))"
    using cell(1) by (simp_all add: cell_ok_def meta_ok_def)
  obtain s where s: "encode_sqlite_value env (cvalue c) = Inr s" using decode_encode [OF val(1) exact] by blast
  have wr: "write_todo_column env t key (cvalue c) db = Inr (put_value (fst key) (snd key) w vals db)"
    by (rule write_applying [OF _ row val(1) cell(2)]) (use inv in \<open>simp add: applying_inv_def\<close>)
  show ?thesis
    by (cases "lww_apply (log_view env t db key) c")
      (simp_all add: apply_cell_def read wr s clock_to_i64_ok [OF val(2)] stored_cell_def)
qed

lemma stored_cell_ok:
  assumes cell: "cell_ok t (snd key) c" "crdt_to_sqlite (cvalue c) = Inr w" and exact: "reals_exact env t"
    and row: "bt_get (d_rows db) (fst key) = Some vals" "bt_get vals (snd key) = Some w"
    and clock: "int (unat (lamport_clock (cmeta c))) \<le> d_lamport db"
  shows "log_ok env t db key (stored_cell env c)"
    and "decode_log_cell env t (snd key) (stored_cell env c) = Inr c"
proof -
  have val: "value_ok t (snd key) (cvalue c)" "identifier_ok (device_id (cmeta c))"
    using cell(1) by (simp_all add: cell_ok_def meta_ok_def)
  obtain s where s: "encode_sqlite_value env (cvalue c) = Inr s" "decode_sqlite_value env t (snd key) s = Inr (cvalue c)"
    using decode_encode [OF val(1) exact] by blast
  have "sql_is w w" by (rule sql_is_refl [OF val(1) cell(2)])
  then show "log_ok env t db key (stored_cell env c)"
    using s val row clock cell(2) by (auto simp: log_ok_def stored_cell_def)
  show "decode_log_cell env t (snd key) (stored_cell env c) = Inr c"
    using s by (simp add: decode_log_cell_def stored_cell_def clock_from_i64_ok)
qed

lemma store_remote_inv:
  assumes inv: "applying_inv env t b db" and row: "bt_get (d_rows db) (fst key) = Some vals"
    and cell: "cell_ok t (snd key) c" "crdt_to_sqlite (cvalue c) = Inr w" and exact: "reals_exact env t"
    and clock: "int (unat (lamport_clock (cmeta c))) \<le> b"
  shows "applying_inv env t b (store_remote env key c w vals db)"
    and "log_view env t (store_remote env key c w vals db) = (log_view env t db)(key \<mapsto> c)"
    and "same_frame db (store_remote env key c w vals db)"
proof -
  let ?db = "(store_remote env key c w vals db)\<lparr>d_lamport := b\<rparr>"
  have val: "value_ok t (snd key) (cvalue c)" using cell(1) by (simp add: cell_ok_def)
  obtain k where k: "table_column_type t (snd key) = Some k" using value_ok_column [OF val] by auto
  have old: "rows_inv t db" "log_inv env t (db\<lparr>d_lamport := b\<rparr>)"
    using inv by (simp_all add: applying_inv_def)
  have "identifier_ok (fst key)" "row_ok t vals" using old(1) row by (simp_all add: rows_inv_def)
  then have "rows_inv t (put_value (fst key) (snd key) w vals db)"
    by (intro rows_inv_insert [OF old(1)] row_ok_insert [OF _ k val cell(2)])
  then have rows: "rows_inv t ?db" by (simp add: rows_inv_def)
  have new: "log_ok env t ?db key (stored_cell env c)"
    and dec: "decode_log_cell env t (snd key) (stored_cell env c) = Inr c"
    using stored_cell_ok [OF cell exact, of ?db "bt_insert (snd key) w vals"] clock by simp_all
  have "log_ok env t ?db key' l" if "bt_get (d_log ?db) key' = Some l" for key' l
  proof (cases "key' = key")
    case False
    then have "log_ok env t (db\<lparr>d_lamport := b\<rparr>) key' l" using that old(2) by (simp add: log_inv_def)
    then have "log_ok env t (put_value (fst key) (snd key) w vals (db\<lparr>d_lamport := b\<rparr>)) key' l"
      using row False by (intro log_ok_put_other) simp_all
    then show ?thesis by (rule log_ok_weaken) simp_all
  qed (use that new in simp)
  moreover have "bt_wf (d_log ?db)" using old(2) by (simp add: log_inv_def)
  ultimately have "log_inv env t ?db" by (simp add: log_inv_def)
  with rows inv show "applying_inv env t b (store_remote env key c w vals db)"
    by (simp add: applying_inv_def rows_inv_def)
  show "log_view env t (store_remote env key c w vals db) = (log_view env t db)(key \<mapsto> c)"
    using dec by (simp add: log_view_def fun_eq_iff)
  show "same_frame db (store_remote env key c w vals db)"
    by (simp add: same_frame_def)
qed

text \<open>One cell of the response is one step of the store, errors included.\<close>

lemma apply_cell_refines:
  assumes inv: "applying_inv env t b db" and row: "bt_get (d_rows db) (fst key) \<noteq> None"
    and cell: "cell_ok t (snd key) c" "int (unat (lamport_clock (cmeta c))) \<le> b" and exact: "reals_exact env t"
  shows "rbind (apply_cell env t (key, c) db) (\<lambda>db'. Inr (log_view env t db')) = lww.put (key, c) (log_view env t db)"
    and "apply_cell env t (key, c) db = Inr db' \<Longrightarrow> applying_inv env t b db' \<and> same_frame db db'"
proof -
  obtain vals where vals: "bt_get (d_rows db) (fst key) = Some vals" using row by blast
  obtain w where w: "crdt_to_sqlite (cvalue c) = Inr w"
    using value_ok_typed [of t "snd key" "cvalue c"] cell(1) unfolding cell_ok_def by metis
  note eq = apply_cell_eq [OF inv vals cell(1) w exact]
  note store = store_remote_inv [OF inv vals cell(1) w exact cell(2)]
  show "rbind (apply_cell env t (key, c) db) (\<lambda>db'. Inr (log_view env t db')) = lww.put (key, c) (log_view env t db)"
    unfolding eq lww.put_def using store(2) by (cases "lww_apply (log_view env t db key) c") auto
  show "applying_inv env t b db' \<and> same_frame db db'" if "apply_cell env t (key, c) db = Inr db'"
    using that store(1,3) inv unfolding eq by (auto split: if_splits)
qed

subsection \<open>The loop\<close>

lemma ensure_row_applying:
  assumes inv: "applying_inv env t b db" and row: "identifier_ok row" and t: "valid_table t"
  obtains db' where "ensure_row env t row db = Inr db'" "applying_inv env t b db'" "d_log db' = d_log db"
    "same_frame db db'" "bt_get (d_rows db') row \<noteq> None"
proof (cases "bt_get (d_rows db) row")
  case (Some vals)
  then show thesis using inv by (intro that [of db]) (simp_all add: ensure_row_def)
next
  case None
  let ?db = "db\<lparr>d_rows := bt_insert row (default_row t) (d_rows db)\<rparr>"
  have old: "d_applying db" "rows_inv t db" "log_inv env t (db\<lparr>d_lamport := b\<rparr>)"
    using inv by (simp_all add: applying_inv_def)
  have "log_inv env t (?db\<lparr>d_lamport := b\<rparr>)"
    using log_inv_new_row [OF old(3), of row "default_row t"] None by (simp add: log_inv_def log_ok_def)
  then have "applying_inv env t b ?db"
    using old rows_inv_insert [OF old(2) row row_ok_default [OF t]] by (simp add: applying_inv_def rows_inv_def)
  moreover have "ensure_row env t row db = Inr ?db"
    using None old(1) by (simp add: ensure_row_def insert_row_def after_insert_def)
  ultimately show thesis by (intro that [of ?db]) (simp_all add: same_frame_def)
qed

text \<open>The cells of a response that the loop may meet.\<close>

definition incoming_ok :: "table_def \<Rightarrow> int \<Rightarrow> cell_key \<times> crdt_column \<Rightarrow> bool" where
  "incoming_ok t b e \<longleftrightarrow>
     identifier_ok (fst (fst e)) \<and> cell_ok t (snd (fst e)) (snd e) \<and>
     int (unat (lamport_clock (cmeta (snd e)))) \<le> b"

lemma apply_row_refines:
  assumes inv: "applying_inv env t b db" and row: "identifier_ok (todo_id row)" "\<forall>e\<in>set (row_cells row). incoming_ok t b e"
    and t: "valid_table t" "reals_exact env t"
  shows "rbind (apply_row env t row db) (\<lambda>db'. Inr (log_view env t db')) = lww.run (row_cells row) (log_view env t db)"
    and "apply_row env t row db = Inr db' \<Longrightarrow> applying_inv env t b db' \<and> same_frame db db'"
proof -
  obtain db1 where db1: "ensure_row env t (todo_id row) db = Inr db1" "applying_inv env t b db1"
    "d_log db1 = d_log db" "same_frame db db1" "bt_get (d_rows db1) (todo_id row) \<noteq> None"
    by (rule ensure_row_applying [OF inv row(1) t(1)])
  let ?P = "\<lambda>d. applying_inv env t b d \<and> same_frame db d \<and> bt_get (d_rows d) (todo_id row) \<noteq> None"
  have start: "?P db1" using db1 by simp
  have key: "fst (fst e) = todo_id row" "cell_ok t (snd (fst e)) (snd e)"
    "int (unat (lamport_clock (cmeta (snd e)))) \<le> b" if "e \<in> set (row_cells row)" for e
    using that row(2) by (auto simp: row_cells_def incoming_ok_def)
  have refines: "rbind (apply_cell env t e d) (\<lambda>d. Inr (log_view env t d)) = lww.put e (log_view env t d)"
    if "e \<in> set (row_cells row)" "?P d" for e d
    using apply_cell_refines(1) [of env t b d "fst e" "snd e"] that key [OF that(1)] t(2) by simp
  have step: "?P d'" if "e \<in> set (row_cells row)" "?P d" "apply_cell env t e d = Inr d'" for e d d'
  proof -
    have "applying_inv env t b d' \<and> same_frame d d'"
      using apply_cell_refines(2) [of env t b d "fst e" "snd e" d'] that key [OF that(1)] t(2) by simp
    then show ?thesis using that(2) by (auto simp: same_frame_def)
  qed
  have "rbind (foldM (apply_cell env t) (row_cells row) db1) (\<lambda>d. Inr (log_view env t d)) =
      foldM lww.put (row_cells row) (log_view env t db1)"
    by (rule foldM_refines [where P = ?P]) (fact start, erule refines, assumption, erule step)
  then show "rbind (apply_row env t row db) (\<lambda>db'. Inr (log_view env t db')) = lww.run (row_cells row) (log_view env t db)"
    using db1(1) log_view_cong [OF db1(3)] by (simp add: apply_row_def lww.run_def)
  show "applying_inv env t b db' \<and> same_frame db db'" if "apply_row env t row db = Inr db'"
  proof -
    have "foldM (apply_cell env t) (row_cells row) db1 = Inr db'" using that db1(1) by (simp add: apply_row_def)
    then have "?P db'" by (rule foldM_invariant [where P = ?P, OF _ start step])
    then show ?thesis by simp
  qed
qed

lemma lww_run_concat: "lww.run (concat xss) m = foldM lww.run xss m"
  by (simp add: lww.run_def foldM_concat)

lemma apply_rows_refines:
  assumes inv: "applying_inv env t b db"
    and rows: "\<forall>row\<in>set rows. identifier_ok (todo_id row) \<and> (\<forall>e\<in>set (row_cells row). incoming_ok t b e)"
    and t: "valid_table t" "reals_exact env t"
  shows "rbind (foldM (apply_row env t) rows db) (\<lambda>db'. Inr (log_view env t db')) =
      lww.run (concat (map row_cells rows)) (log_view env t db)"
    and "foldM (apply_row env t) rows db = Inr db' \<Longrightarrow> applying_inv env t b db' \<and> same_frame db db'"
proof -
  let ?P = "\<lambda>d. applying_inv env t b d \<and> same_frame db d"
  have start: "?P db" using inv by simp
  have step: "?P d'" if "row \<in> set rows" "?P d" "apply_row env t row d = Inr d'" for row d d'
    using apply_row_refines(2) [of env t b d row d'] that rows t same_frame_trans by blast
  have refines: "rbind (apply_row env t row d) (\<lambda>d. Inr (log_view env t d)) =
      lww.run (row_cells row) (log_view env t d)" if "row \<in> set rows" "?P d" for row d
    using apply_row_refines(1) [of env t b d row] that rows t by blast
  show "rbind (foldM (apply_row env t) rows db) (\<lambda>db'. Inr (log_view env t db')) =
      lww.run (concat (map row_cells rows)) (log_view env t db)"
    unfolding lww_run_concat foldM_map
    by (rule foldM_refines [where P = ?P]) (fact start, erule refines, assumption, erule step)
  show "applying_inv env t b db' \<and> same_frame db db'" if "foldM (apply_row env t) rows db = Inr db'"
    using that by (rule foldM_invariant [where P = ?P, OF _ start step])
qed

subsection \<open>A whole response\<close>

definition observed :: "client_db \<Rightarrow> sync_payload \<Rightarrow> int" where
  "observed db p = max (d_lamport db) (int (unat (source_lamport p)))"

lemma next_clock_cases:
  assumes "0 \<le> a" "a \<le> i64_MAX" "clock_ok c"
  shows "(case checked_add_u64 (max (word_of_int a) c) 1 of None \<Rightarrow> Inl ClockOverflow
      | Some n \<Rightarrow> rbind (clock_to_i64 n) f) =
    (if max a (int (unat c)) < i64_MAX then f (max a (int (unat c)) + 1) else Inl ClockOverflow)"
proof -
  define m :: u64 where "m = max (word_of_int a) c"
  have m: "int (unat m) = max a (int (unat c))"
    using unat_clock [OF assms(1,2)] by (simp add: m_def max_def word_le_nat_alt del: of_nat_unat)
  moreover have "max a (int (unat c)) \<le> i64_MAX"
    using assms by (simp add: clock_ok_def i64_MAX_def del: of_nat_unat)
  ultimately have "int (unat m) \<le> i64_MAX" by simp
  then have "unat m + 1 \<le> 2 ^ 63" by (simp add: i64_MAX_def del: of_nat_unat)
  then have add: "checked_add_u64 m 1 = Some (m + 1)" by (simp add: checked_add_u64_def)
  then have "unat (m + 1) = Suc (unat m)" by (rule checked_add_u64_Some)
  then have "uint (m + 1) = max a (int (unat c)) + 1" using m by (metis of_nat_Suc of_nat_unat add.commute)
  then have "clock_to_i64 (m + 1) = (if max a (int (unat c)) < i64_MAX then Inr (max a (int (unat c)) + 1) else Inl ClockOverflow)"
    by (simp add: clock_to_i64_def i64_try_from_def del: max_less_iff_conj)
  then show ?thesis unfolding m_def [symmetric] add by simp
qed

lemma apply_remote_eq:
  assumes "client_inv env t db" "server_response_ok t p"
  shows "apply_remote_payload env t p db =
    rbind (foldM (apply_row env t) (changes p) (db\<lparr>d_applying := True\<rparr>)) (\<lambda>db1.
      if observed db p < i64_MAX
      then Inr (db1\<lparr>d_lamport := observed db p + 1, d_applying := False,
             d_cursor := Some (next_cursor_row p (d_cursor db1))\<rparr>)
      else Inl ClockOverflow)"
proof -
  have dev: "0 \<le> d_lamport db" "d_lamport db \<le> i64_MAX"
    using assms(1) by (simp_all add: client_inv_def device_inv_def)
  have clock: "clock_ok (source_lamport p)" using assms(2) by (simp add: server_response_ok_def payload_ok_def)
  have "validate_server_response p t = Inr ()" using assms(2) by (simp add: validate_server_response_iff)
  then show ?thesis
    unfolding apply_remote_payload_def
    by (simp add: clock_from_i64_ok [OF dev(1)] server_response_observed [OF assms(2)]
        next_clock_cases [OF dev clock] observed_def cong: if_cong)
qed

lemma response_incoming:
  assumes "server_response_ok t p" "int (unat (source_lamport p)) \<le> b"
  shows "\<forall>row\<in>set (changes p). identifier_ok (todo_id row) \<and> (\<forall>e\<in>set (row_cells row). incoming_ok t b e)"
proof (intro ballI conjI)
  fix row e
  assume row: "row \<in> set (changes p)"
  then show id: "identifier_ok (todo_id row)" using assms(1) by (simp add: server_response_ok_def payload_ok_def)
  assume e: "e \<in> set (row_cells row)"
  then have "e \<in> set (payload_cells p)" using row by (auto simp: payload_cells_def)
  then have "cell_ok t (snd (fst e)) (snd e)" "lamport_clock (cmeta (snd e)) \<le> source_lamport p"
    using assms(1) by (auto simp: server_response_ok_def payload_ok_def)
  moreover have "fst (fst e) = todo_id row" using e by (auto simp: row_cells_def)
  ultimately show "incoming_ok t b e"
    using id assms(2) by (simp add: incoming_ok_def word_le_nat_alt del: of_nat_unat)
qed

lemma applying_start:
  assumes "client_inv env t db" "d_lamport db \<le> b"
  shows "applying_inv env t b (db\<lparr>d_applying := True\<rparr>)"
proof -
  have inv: "rows_inv t db" "log_inv env t db" using assms(1) by (simp_all add: client_inv_def)
  have "log_ok env t ((db\<lparr>d_applying := True\<rparr>)\<lparr>d_lamport := b\<rparr>) key l" if "bt_get (d_log db) key = Some l" for key l
  proof -
    have "log_ok env t db key l" using inv(2) that by (simp add: log_inv_def)
    then show ?thesis by (rule log_ok_weaken) (simp_all add: assms(2))
  qed
  then show ?thesis using inv by (simp add: applying_inv_def rows_inv_def log_inv_def)
qed

lemma apply_remote_refines:
  assumes "client_inv env t db" "server_response_ok t p" "valid_table t" "reals_exact env t"
  shows "rbind (apply_remote_payload env t p db) (\<lambda>db'. Inr (log_view env t db')) =
    rbind (lww.run (payload_cells p) (log_view env t db)) (\<lambda>m.
      if observed db p < i64_MAX then Inr m else Inl ClockOverflow)"
proof -
  let ?db = "db\<lparr>d_applying := True\<rparr>"
  have view: "log_view env t ?db = log_view env t db" by (rule log_view_cong) simp
  have inv: "applying_inv env t (observed db p) ?db"
    by (rule applying_start [OF assms(1)]) (simp add: observed_def)
  have rows: "\<forall>row\<in>set (changes p). identifier_ok (todo_id row) \<and>
      (\<forall>e\<in>set (row_cells row). incoming_ok t (observed db p) e)"
    by (rule response_incoming [OF assms(2)]) (simp add: observed_def)
  have loop: "rbind (foldM (apply_row env t) (changes p) ?db) (\<lambda>db'. Inr (log_view env t db')) =
      lww.run (payload_cells p) (log_view env t ?db)"
    unfolding payload_cells_def by (rule apply_rows_refines(1) [OF inv rows assms(3,4)])
  show ?thesis
  proof (cases "foldM (apply_row env t) (changes p) ?db")
    case (Inl e)
    then have "lww.run (payload_cells p) (log_view env t db) = Inl e" using loop view by simp
    with Inl show ?thesis unfolding apply_remote_eq [OF assms(1,2)] by simp
  next
    case (Inr db1)
    then have run: "lww.run (payload_cells p) (log_view env t db) = Inr (log_view env t db1)" using loop view by simp
    have "log_view env t (db1\<lparr>d_lamport := observed db p + 1, d_applying := False,
        d_cursor := Some (next_cursor_row p (d_cursor db1))\<rparr>) = log_view env t db1"
      by (rule log_view_cong) simp
    with Inr run show ?thesis unfolding apply_remote_eq [OF assms(1,2)] by simp
  qed
qed

lemma apply_remote_inv:
  assumes "client_inv env t db" "apply_remote_payload env t p db = Inr db'" "valid_table t" "reals_exact env t"
  shows "client_inv env t db'" "d_lamport db' = observed db p + 1"
    "d_cursor db' = Some (next_cursor_row p (d_cursor db))" "d_device db' = d_device db"
    "d_scopes db' = d_scopes db" "d_members db' = d_members db" "d_evictions db' = d_evictions db"
    "bt_get (d_rows db) row \<noteq> None \<Longrightarrow> bt_get (d_rows db') row \<noteq> None"
proof -
  have ok: "server_response_ok t p"
    using assms(2) by (auto simp: apply_remote_payload_def validate_server_response_iff)
  obtain db1 where db1: "foldM (apply_row env t) (changes p) (db\<lparr>d_applying := True\<rparr>) = Inr db1"
    and small: "observed db p < i64_MAX"
    and db': "db' = db1\<lparr>d_lamport := observed db p + 1, d_applying := False,
        d_cursor := Some (next_cursor_row p (d_cursor db1))\<rparr>"
    using assms(2) unfolding apply_remote_eq [OF assms(1) ok] by (auto split: if_splits)
  have loop: "applying_inv env t (observed db p + 1) db1" and frame: "same_frame (db\<lparr>d_applying := True\<rparr>) db1"
    using apply_rows_refines(2) [where b = "observed db p + 1", OF applying_start [OF assms(1)]
        response_incoming [OF ok] assms(3,4) db1]
    by (simp_all add: observed_def del: of_nat_unat)
  have "log_inv env t db'" "rows_inv t db'"
    using loop db' by (simp_all add: applying_inv_def log_inv_def log_ok_def rows_inv_def)
  moreover have "device_inv db'"
    using assms(1) ok frame small
    by (auto simp: db' client_inv_def device_inv_def same_frame_def next_cursor_row_def observed_def
        server_response_ok_def payload_ok_def split: option.splits)
  ultimately show "client_inv env t db'" by (simp add: client_inv_def db')
  show "d_lamport db' = observed db p + 1" "d_cursor db' = Some (next_cursor_row p (d_cursor db))"
    "d_device db' = d_device db" "d_scopes db' = d_scopes db" "d_members db' = d_members db"
    "d_evictions db' = d_evictions db"
    "bt_get (d_rows db) row \<noteq> None \<Longrightarrow> bt_get (d_rows db') row \<noteq> None"
    using frame by (simp_all add: db' same_frame_def)
qed

text \<open>Property C12: applying a server response implements the store of registers. Read as a store, the
  change log after \<open>apply_remote_payload\<close> is the result of delivering the response's cells, in order,
  to the log before it; the call fails exactly when that delivery fails or the Lamport clock is
  exhausted, and when it succeeds the invariant holds again, so the application table shows the
  winning values, and the clock is above everything observed.\<close>

theorem apply_remote_refinement:
  assumes "client_inv env t db" "server_response_ok t p" "valid_table t" "reals_exact env t"
  shows "rbind (apply_remote_payload env t p db) (\<lambda>db'. Inr (log_view env t db')) =
      rbind (lww.run (payload_cells p) (log_view env t db)) (\<lambda>m.
        if observed db p < i64_MAX then Inr m else Inl ClockOverflow) \<and>
    (\<forall>db'. apply_remote_payload env t p db = Inr db' \<longrightarrow>
      client_inv env t db' \<and> d_lamport db' = observed db p + 1 \<and>
      d_cursor db' = Some (next_cursor_row p (d_cursor db)))"
  using apply_remote_refines [OF assms] apply_remote_inv [OF assms(1) _ assms(3,4)] by blast

end
