(* ===== verification/Client_Ack.thy ===== *)
theory Client_Ack
  imports Client_Apply
begin

section \<open>Acknowledgement, deferred evictions and the outgoing delta\<close>

text \<open>
  An acknowledgement clears the dirty bit of exactly the versions that were sent and not rejected;
  it then removes the rows whose eviction is pending, unless a scope still has the row or a local
  write of it is unacknowledged. The outgoing delta holds exactly the dirty cells of the log.
\<close>

lemma bt_get_filter_keys: "bt_get (filter (\<lambda>e. P (fst e)) m) k = (if P k then bt_get m k else None)"
  by (induction m) auto

subsection \<open>Evictions\<close>

definition is_member :: "client_db \<Rightarrow> string \<Rightarrow> bool" where
  "is_member db row \<longleftrightarrow> (\<exists>scope. bt_get (d_members db) (scope, row) \<noteq> None)"

definition row_dirty :: "client_db \<Rightarrow> string \<Rightarrow> bool" where
  "row_dirty db row \<longleftrightarrow> (\<exists>column l. ((row, column), l) \<in> set (d_log db) \<and> lg_dirty l)"

definition is_pending :: "client_db \<Rightarrow> string \<Rightarrow> bool" where
  "is_pending db row \<longleftrightarrow> (\<exists>scope. bt_get (d_evictions db) (scope, row) \<noteq> None)"

lemma exists_key: "list_ex (\<lambda>e. snd (fst e) = row) m \<longleftrightarrow> (\<exists>scope. bt_get m (scope, row) \<noteq> None)"
  by (force simp: list_ex_iff map_of_eq_None_iff)

lemma evict_row_eq:
  "evict_row row db =
     (if \<not> is_member db row \<and> row_dirty db row then db
      else if is_member db row then db\<lparr>d_evictions := filter (\<lambda>e. snd (fst e) \<noteq> row) (d_evictions db)\<rparr>
      else db\<lparr>d_applying := False, d_rows := bt_remove row (d_rows db),
              d_log := filter (\<lambda>e. fst (fst e) \<noteq> row) (d_log db),
              d_evictions := filter (\<lambda>e. snd (fst e) \<noteq> row) (d_evictions db)\<rparr>)"
proof -
  have "list_ex (\<lambda>e. fst (fst e) = row \<and> lg_dirty (snd e)) (d_log db) \<longleftrightarrow> row_dirty db row"
    by (force simp: list_ex_iff row_dirty_def)
  then show ?thesis by (simp add: evict_row_def exists_key is_member_def)
qed

lemma pending_iff: "set (pending_evictions db) = Collect (is_pending db)"
  by (force simp: pending_evictions_def is_pending_def map_of_eq_None_iff image_iff)

text \<open>The rows that go: pending, in no scope, and without an unacknowledged write.\<close>

definition evictable :: "client_db \<Rightarrow> string \<Rightarrow> bool" where
  "evictable db row \<longleftrightarrow> \<not> is_member db row \<and> \<not> row_dirty db row"

lemma evict_row_sel [simp]:
  "d_device (evict_row row db) = d_device db" "d_lamport (evict_row row db) = d_lamport db"
  "d_cursor (evict_row row db) = d_cursor db" "d_scopes (evict_row row db) = d_scopes db"
  "d_members (evict_row row db) = d_members db"
  by (simp_all add: evict_row_eq)

lemma evict_row_get:
  "bt_get (d_rows (evict_row row db)) r = (if r = row \<and> evictable db row then None else bt_get (d_rows db) r)"
  "bt_get (d_log (evict_row row db)) key = (if fst key = row \<and> evictable db row then None else bt_get (d_log db) key)"
  by (simp_all add: evict_row_eq evictable_def bt_get_filter_keys [where P = "\<lambda>k. fst k \<noteq> row"])

lemma evict_row_other: "r \<noteq> row \<Longrightarrow> evictable (evict_row row db) r \<longleftrightarrow> evictable db r"
  by (auto simp: evictable_def evict_row_eq is_member_def row_dirty_def)

abbreviation evict_rows :: "string list \<Rightarrow> client_db \<Rightarrow> client_db" where
  "evict_rows rows db \<equiv> foldl (\<lambda>db row. evict_row row db) db rows"

lemma evict_rows_sel [simp]:
  "d_device (evict_rows rows db) = d_device db" "d_lamport (evict_rows rows db) = d_lamport db"
  "d_cursor (evict_rows rows db) = d_cursor db" "d_scopes (evict_rows rows db) = d_scopes db"
  "d_members (evict_rows rows db) = d_members db"
  by (induction rows arbitrary: db) simp_all

lemma evict_rows_get:
  assumes "distinct rows"
  shows "bt_get (d_rows (evict_rows rows db)) r =
      (if r \<in> set rows \<and> evictable db r then None else bt_get (d_rows db) r)"
    and "bt_get (d_log (evict_rows rows db)) key =
      (if fst key \<in> set rows \<and> evictable db (fst key) then None else bt_get (d_log db) key)"
  using assms
proof (induction rows arbitrary: db)
  case (Cons a rows)
  { case 1
    with Cons.IH(1) [of "evict_row a db"] show ?case
      by (cases "r = a") (auto simp: evict_row_get evict_row_other)
  next
    case 2
    with Cons.IH(2) [of "evict_row a db"] show ?case
      by (cases "fst key = a") (auto simp: evict_row_get evict_row_other) }
qed simp_all

lemma cleanup_sel [simp]:
  "d_device (cleanup_pending_evictions db) = d_device db" "d_lamport (cleanup_pending_evictions db) = d_lamport db"
  "d_cursor (cleanup_pending_evictions db) = d_cursor db" "d_scopes (cleanup_pending_evictions db) = d_scopes db"
  "d_members (cleanup_pending_evictions db) = d_members db"
  by (simp_all add: cleanup_pending_evictions_def)

lemma cleanup_get:
  "bt_get (d_rows (cleanup_pending_evictions db)) row =
     (if is_pending db row \<and> evictable db row then None else bt_get (d_rows db) row)"
  "bt_get (d_log (cleanup_pending_evictions db)) key =
     (if is_pending db (fst key) \<and> evictable db (fst key) then None else bt_get (d_log db) key)"
proof -
  have "distinct (pending_evictions db)" by (simp add: pending_evictions_def)
  then show "bt_get (d_rows (cleanup_pending_evictions db)) row =
     (if is_pending db row \<and> evictable db row then None else bt_get (d_rows db) row)"
    "bt_get (d_log (cleanup_pending_evictions db)) key =
     (if is_pending db (fst key) \<and> evictable db (fst key) then None else bt_get (d_log db) key)"
    by (simp_all add: cleanup_pending_evictions_def evict_rows_get pending_iff)
qed

lemma evict_row_inv:
  assumes "client_inv env t db"
  shows "client_inv env t (evict_row row db)"
proof -
  have inv: "device_inv db" "rows_inv t db" "log_inv env t db" "\<not> d_applying db"
    using assms by (simp_all add: client_inv_def)
  have "log_ok env t (evict_row row db) key l" if "bt_get (d_log (evict_row row db)) key = Some l" for key l
  proof -
    have old: "\<not> (fst key = row \<and> evictable db row)" "bt_get (d_log db) key = Some l"
      using that by (auto simp: evict_row_get split: if_splits)
    then have "log_ok env t db key l" using inv(3) by (simp add: log_inv_def)
    then show ?thesis by (rule log_ok_weaken) (use old(1) in \<open>auto simp: evict_row_get\<close>)
  qed
  moreover have "bt_wf (d_log (evict_row row db))" "rows_inv t (evict_row row db)"
    using inv(2,3) by (auto simp: evict_row_eq log_inv_def rows_inv_def)
  moreover have "\<not> d_applying (evict_row row db)" using inv(4) by (simp add: evict_row_eq)
  ultimately show ?thesis using inv(1) by (simp add: client_inv_def log_inv_def device_inv_def)
qed

lemma cleanup_inv:
  assumes "client_inv env t db"
  shows "client_inv env t (cleanup_pending_evictions db)"
proof -
  have "client_inv env t (evict_rows rows db)" for rows
    using assms by (induction rows arbitrary: db) (simp_all add: evict_row_inv)
  then show ?thesis by (simp add: cleanup_pending_evictions_def)
qed

subsection \<open>Acknowledgement\<close>

lemma clear_dirty_sel [simp]:
  "d_device (clear_dirty key clock device db) = d_device db" "d_lamport (clear_dirty key clock device db) = d_lamport db"
  "d_applying (clear_dirty key clock device db) = d_applying db" "d_cursor (clear_dirty key clock device db) = d_cursor db"
  "d_rows (clear_dirty key clock device db) = d_rows db" "d_scopes (clear_dirty key clock device db) = d_scopes db"
  "d_members (clear_dirty key clock device db) = d_members db"
  "d_evictions (clear_dirty key clock device db) = d_evictions db"
  by (auto simp: clear_dirty_def split: option.splits)

lemma clear_dirty_get:
  "bt_get (d_log (clear_dirty key clock device db)) k =
     map_option (\<lambda>l. if k = key \<and> lg_clock l = clock \<and> lg_device l = device then l\<lparr>lg_dirty := False\<rparr> else l)
       (bt_get (d_log db) k)"
proof (cases "k = key")
  case True
  then show ?thesis by (cases "bt_get (d_log db) key") (simp_all add: clear_dirty_def)
next
  case False
  then have "bt_get (d_log (clear_dirty key clock device db)) k = bt_get (d_log db) k"
    by (cases "bt_get (d_log db) key") (simp_all add: clear_dirty_def)
  with False show ?thesis by (simp add: option.map_ident)
qed

lemma clear_dirty_inv:
  assumes "client_inv env t db"
  shows "client_inv env t (clear_dirty key clock device db)"
proof -
  have inv: "device_inv db" "rows_inv t db" "log_inv env t db" "\<not> d_applying db"
    using assms by (simp_all add: client_inv_def)
  have "log_ok env t (clear_dirty key clock device db) k l"
    if "bt_get (d_log (clear_dirty key clock device db)) k = Some l" for k l
    using that inv(3) by (fastforce simp: clear_dirty_get log_inv_def log_ok_def split: if_splits)
  moreover have "bt_wf (d_log (clear_dirty key clock device db))"
    using inv(3) by (auto simp: clear_dirty_def log_inv_def split: option.splits)
  ultimately show ?thesis using inv by (simp add: client_inv_def log_inv_def device_inv_def rows_inv_def)
qed

text \<open>The entries of the log an acknowledgement covers: those whose version was sent and not
  rejected.\<close>

definition acked :: "(cell_key \<times> column_metadata) set \<Rightarrow> (cell_key \<times> crdt_column) list \<Rightarrow> cell_key \<Rightarrow> log_cell \<Rightarrow> bool" where
  "acked rejected es key l \<longleftrightarrow>
     (\<exists>c. (key, c) \<in> set es \<and> (key, cmeta c) \<notin> rejected \<and>
        lg_clock l = int (unat (lamport_clock (cmeta c))) \<and> lg_device l = device_id (cmeta c))"

definition settle :: "(cell_key \<times> column_metadata) set \<Rightarrow> (cell_key \<times> crdt_column) list \<Rightarrow> cell_key \<Rightarrow> log_cell \<Rightarrow> log_cell" where
  "settle rejected es key l = (if acked rejected es key l then l\<lparr>lg_dirty := False\<rparr> else l)"

lemma settle_sel [simp]:
  "lg_dirty (settle rejected es key l) \<longleftrightarrow> lg_dirty l \<and> \<not> acked rejected es key l"
  "lg_value (settle rejected es key l) = lg_value l" "lg_clock (settle rejected es key l) = lg_clock l"
  "lg_device (settle rejected es key l) = lg_device l"
  by (simp_all add: settle_def)

definition same_but_log :: "client_db \<Rightarrow> client_db \<Rightarrow> bool" where
  "same_but_log db db' \<longleftrightarrow>
     d_device db' = d_device db \<and> d_lamport db' = d_lamport db \<and> d_applying db' = d_applying db \<and>
     d_cursor db' = d_cursor db \<and> d_rows db' = d_rows db \<and> d_scopes db' = d_scopes db \<and>
     d_members db' = d_members db \<and> d_evictions db' = d_evictions db"

lemma acknowledge_loop:
  assumes "\<forall>e\<in>set es. clock_ok (lamport_clock (cmeta (snd e)))"
  shows "\<exists>db'. foldM (acknowledge_cell rejected) es db = Inr db' \<and>
    same_but_log db db' \<and> (\<forall>env t. client_inv env t db \<longrightarrow> client_inv env t db') \<and>
    (\<forall>k. bt_get (d_log db') k = map_option (settle rejected es k) (bt_get (d_log db) k))"
  using assms
proof (induction es arbitrary: db)
  case Nil
  then show ?case by (simp add: settle_def acked_def option.map_ident same_but_log_def)
next
  case (Cons e es)
  obtain key c where e: "e = (key, c)" by fastforce
  let ?clock = "int (unat (lamport_clock (cmeta c)))"
  define db1 where "db1 = (if (key, cmeta c) \<in> rejected then db else clear_dirty key ?clock (device_id (cmeta c)) db)"
  have step: "acknowledge_cell rejected e db = Inr db1"
    using Cons.prems by (simp add: acknowledge_cell_def e db1_def clock_to_i64_ok del: of_nat_unat)
  have db1: "same_but_log db db1" by (simp add: db1_def same_but_log_def)
  have get1: "bt_get (d_log db1) k = map_option (settle rejected [e] k) (bt_get (d_log db) k)" for k
    by (cases "bt_get (d_log db) k") (auto simp: db1_def clear_dirty_get settle_def acked_def e simp del: of_nat_unat)
  have inv1: "client_inv env t db \<Longrightarrow> client_inv env t db1" for env t
    by (simp add: db1_def clear_dirty_inv)
  obtain db' where db': "foldM (acknowledge_cell rejected) es db1 = Inr db'" "same_but_log db1 db'"
    "\<forall>env t. client_inv env t db1 \<longrightarrow> client_inv env t db'"
    "\<forall>k. bt_get (d_log db') k = map_option (settle rejected es k) (bt_get (d_log db1) k)"
    using Cons.IH [of db1] Cons.prems by auto
  have "settle rejected es k (settle rejected [e] k l) = settle rejected (e # es) k l" for k l
    by (auto simp: settle_def acked_def)
  then have "map_option (settle rejected es k) (map_option (settle rejected [e] k) x) =
      map_option (settle rejected (e # es) k) x" for k x
    by (cases x) simp_all
  moreover have "same_but_log db db'" using db'(2) db1 by (simp add: same_but_log_def)
  ultimately show ?case using step db'(1,3,4) get1 inv1 by simp
qed

lemma acknowledge_cells_eq:
  assumes "client_request_ok t device sent"
  obtains db1 where "acknowledge_cells rejected sent db = Inr (cleanup_pending_evictions db1)"
    "same_but_log db db1" "\<And>env t. client_inv env t db \<Longrightarrow> client_inv env t db1"
    "\<And>k. bt_get (d_log db1) k = map_option (settle rejected (payload_cells sent) k) (bt_get (d_log db) k)"
proof -
  have "\<forall>e\<in>set (payload_cells sent). clock_ok (lamport_clock (cmeta (snd e)))"
    using assms by (auto simp: client_request_ok_def payload_ok_def cell_ok_def meta_ok_def)
  from acknowledge_loop [OF this, of rejected db] obtain db1 where db1:
    "foldM (acknowledge_cell rejected) (payload_cells sent) db = Inr db1" "same_but_log db db1"
    "\<forall>env t. client_inv env t db \<longrightarrow> client_inv env t db1"
    "\<forall>k. bt_get (d_log db1) k = map_option (settle rejected (payload_cells sent) k) (bt_get (d_log db) k)"
    by blast
  then have "acknowledge_cells rejected sent db = Inr (cleanup_pending_evictions db1)"
    by (simp add: acknowledge_cells_def payload_cells_def foldM_concat foldM_map)
  with db1 that show thesis by blast
qed

text \<open>The rows an acknowledgement evicts: pending, in no scope, and with every unacknowledged write of
  the row covered.\<close>

definition released :: "(cell_key \<times> column_metadata) set \<Rightarrow> (cell_key \<times> crdt_column) list \<Rightarrow> client_db \<Rightarrow> string \<Rightarrow> bool" where
  "released rejected es db row \<longleftrightarrow>
     is_pending db row \<and> \<not> is_member db row \<and>
     (\<forall>column l. bt_get (d_log db) (row, column) = Some l \<longrightarrow> lg_dirty l \<longrightarrow> acked rejected es (row, column) l)"

lemma row_dirty_get: "bt_wf (d_log db) \<Longrightarrow> row_dirty db row \<longleftrightarrow> (\<exists>column l. bt_get (d_log db) (row, column) = Some l \<and> lg_dirty l)"
  by (simp add: row_dirty_def bt_get_iff)

lemma acknowledge_cells_spec:
  assumes "client_request_ok t device sent" "client_inv env t db" "acknowledge_cells rejected sent db = Inr db'"
  shows "client_inv env t db'"
    and "bt_get (d_rows db') row = (if released rejected (payload_cells sent) db row then None else bt_get (d_rows db) row)"
    and "bt_get (d_log db') key =
      (if released rejected (payload_cells sent) db (fst key) then None
       else map_option (settle rejected (payload_cells sent) key) (bt_get (d_log db) key))"
    and "d_device db' = d_device db" "d_lamport db' = d_lamport db" "d_cursor db' = d_cursor db"
    "d_scopes db' = d_scopes db" "d_members db' = d_members db"
proof -
  obtain db1 where db1: "acknowledge_cells rejected sent db = Inr (cleanup_pending_evictions db1)" "same_but_log db db1"
    "\<And>env t. client_inv env t db \<Longrightarrow> client_inv env t db1"
    "\<And>k. bt_get (d_log db1) k = map_option (settle rejected (payload_cells sent) k) (bt_get (d_log db) k)"
    using acknowledge_cells_eq [OF assms(1), of rejected db] by blast
  have db': "db' = cleanup_pending_evictions db1" using db1(1) assms(3) by simp
  have inv1: "client_inv env t db1" by (rule db1(3) [OF assms(2)])
  then have wf1: "bt_wf (d_log db1)" by (simp add: client_inv_def log_inv_def)
  have "row_dirty db1 r \<longleftrightarrow> (\<exists>column l. bt_get (d_log db) (r, column) = Some l \<and> lg_dirty l \<and>
      \<not> acked rejected (payload_cells sent) (r, column) l)" for r
    by (force simp: row_dirty_get [OF wf1] db1(4))
  then have rel: "is_pending db1 r \<and> evictable db1 r \<longleftrightarrow> released rejected (payload_cells sent) db r" for r
    using db1(2) by (auto simp: released_def evictable_def is_pending_def is_member_def same_but_log_def)
  show "client_inv env t db'" unfolding db' by (rule cleanup_inv [OF inv1])
  show "bt_get (d_rows db') row = (if released rejected (payload_cells sent) db row then None else bt_get (d_rows db) row)"
    unfolding db' cleanup_get rel using db1(2) by (simp add: same_but_log_def)
  show "bt_get (d_log db') key =
      (if released rejected (payload_cells sent) db (fst key) then None
       else map_option (settle rejected (payload_cells sent) key) (bt_get (d_log db) key))"
    unfolding db' cleanup_get rel db1(4) ..
  show "d_device db' = d_device db" "d_lamport db' = d_lamport db" "d_cursor db' = d_cursor db"
    "d_scopes db' = d_scopes db" "d_members db' = d_members db"
    using db1(2) by (simp_all add: db' same_but_log_def)
qed

lemma acknowledge_cells_total:
  assumes "client_request_ok t device sent"
  shows "\<exists>db'. acknowledge_cells rejected sent db = Inr db'"
  using acknowledge_cells_eq [OF assms, of rejected db] by metis

lemma acknowledge_response_Inr:
  "acknowledge_with_response t sent response db = Inr db' \<longleftrightarrow>
     server_response_ok t response \<and> client_request_ok t (d_device db) sent \<and>
     acknowledge_cells (rejected_versions response) sent db = Inr db'"
  by (auto simp: acknowledge_with_response_def validate_server_response_iff validate_client_request_iff)

text \<open>Property C31: an acknowledgement is precise. It is accepted exactly for a valid response and a
  valid request of this device. Afterwards an entry of the change log is clean exactly when it was
  clean before or its version was sent and not rejected, so a write made after the request was built
  stays dirty; values and versions are unchanged; and the only rows that disappear are those whose
  eviction was pending, that no scope has as a member, and whose writes are all acknowledged.\<close>

theorem acknowledge_precise:
  assumes "client_inv env t db"
  shows "(is_ok (acknowledge_with_response t sent response db) \<longleftrightarrow>
      server_response_ok t response \<and> client_request_ok t (d_device db) sent) \<and>
    (\<forall>db'. acknowledge_with_response t sent response db = Inr db' \<longrightarrow>
      client_inv env t db' \<and>
      (\<forall>key. bt_get (d_log db') key =
        (if released (rejected_versions response) (payload_cells sent) db (fst key) then None
         else map_option (settle (rejected_versions response) (payload_cells sent) key) (bt_get (d_log db) key))) \<and>
      (\<forall>row. bt_get (d_rows db') row =
        (if released (rejected_versions response) (payload_cells sent) db row then None else bt_get (d_rows db) row)))"
proof (intro conjI allI impI)
  show "is_ok (acknowledge_with_response t sent response db) \<longleftrightarrow>
      server_response_ok t response \<and> client_request_ok t (d_device db) sent"
    using acknowledge_cells_total by (metis is_ok_iff acknowledge_response_Inr)
qed (use acknowledge_cells_spec [OF _ assms] in \<open>auto simp: acknowledge_response_Inr\<close>)

subsection \<open>The outgoing delta\<close>

definition dirty_keys :: "client_db \<Rightarrow> cell_key set" where
  "dirty_keys db = {key. \<exists>l. bt_get (d_log db) key = Some l \<and> lg_dirty l}"

definition dirty_cells :: "sqlite_env \<Rightarrow> table_def \<Rightarrow> client_db \<Rightarrow> (cell_key \<times> crdt_column) list" where
  "dirty_cells env t db =
     map (\<lambda>e. (fst e, the (log_view env t db (fst e)))) (filter (\<lambda>e. lg_dirty (snd e)) (d_log db))"

lemma delta_loop:
  assumes "\<forall>e\<in>set es. decode_log_cell env t (snd (fst e)) (snd e) = Inr (f (fst e))"
  shows "foldM (delta_step env t) es m = Inr (group_cells (map (\<lambda>e. (fst e, f (fst e))) es) m)"
  using assms
proof (induction es arbitrary: m)
  case (Cons e es)
  obtain r n l where e: "e = ((r, n), l)" by (metis prod.exhaust)
  with Cons show ?case by (simp add: delta_step_def)
qed simp

lemma dirty_decode:
  assumes "log_inv env t db" "e \<in> set (d_log db)"
  shows "decode_log_cell env t (snd (fst e)) (snd e) = Inr (the (log_view env t db (fst e)))"
proof -
  have get: "bt_get (d_log db) (fst e) = Some (snd e)"
    using assms by (simp add: log_inv_def flip: bt_get_iff)
  then have "log_ok env t db (fst e) (snd e)" using assms(1) by (simp add: log_inv_def)
  then show ?thesis by (rule decode_log_ok) (simp add: log_view_def get)
qed

definition local_cursor :: "client_db \<Rightarrow> cursor_row" where
  "local_cursor db = (case d_cursor db of None \<Rightarrow> \<lparr>cu_cursor = 0, cu_token = None, cu_epoch = None\<rparr> | Some r \<Rightarrow> r)"

definition delta_payload :: "sqlite_env \<Rightarrow> table_def \<Rightarrow> client_db \<Rightarrow> sync_payload" where
  "delta_payload env t db =
     \<lparr>protocol_version = PROTOCOL_VERSION, schema_fingerprint = table_fingerprint t,
      source_device_id = d_device db, source_lamport = word_of_int (d_lamport db),
      changes = rows_of (group_cells (dirty_cells env t db) []),
      cursor = cu_cursor (local_cursor db), has_more = False, cursor_reset = False,
      cursor_token = cu_token (local_cursor db), server_epoch = cu_epoch (local_cursor db), rejections = []\<rparr>"

lemma delta_payload_sel [simp]:
  "protocol_version (delta_payload env t db) = PROTOCOL_VERSION"
  "schema_fingerprint (delta_payload env t db) = table_fingerprint t"
  "source_device_id (delta_payload env t db) = d_device db"
  "source_lamport (delta_payload env t db) = word_of_int (d_lamport db)"
  "cursor (delta_payload env t db) = cu_cursor (local_cursor db)"
  "cursor_token (delta_payload env t db) = cu_token (local_cursor db)"
  "server_epoch (delta_payload env t db) = cu_epoch (local_cursor db)"
  "\<not> has_more (delta_payload env t db)" "\<not> cursor_reset (delta_payload env t db)"
  "rejections (delta_payload env t db) = []"
  by (simp_all add: delta_payload_def)

lemma get_local_delta_eq:
  assumes "client_inv env t db"
  shows "get_local_delta env t db = rbind (validate_client_request (delta_payload env t db) (d_device db) t)
    (\<lambda>_. Inr (delta_payload env t db))"
proof -
  have inv: "log_inv env t db" "0 \<le> d_lamport db" using assms by (simp_all add: client_inv_def device_inv_def)
  have "foldM (delta_step env t) (filter (\<lambda>e. lg_dirty (snd e)) (d_log db)) [] =
      Inr (group_cells (dirty_cells env t db) [])"
    unfolding dirty_cells_def by (rule delta_loop) (use dirty_decode [OF inv(1)] in auto)
  then show ?thesis by (simp add: get_local_delta_def clock_from_i64_ok [OF inv(2)] Let_def delta_payload_def local_cursor_def)
qed

lemma dirty_cells_dirty:
  assumes "log_inv env t db"
  shows "distinct (map fst (dirty_cells env t db))" "set (map fst (dirty_cells env t db)) = dirty_keys db"
    "set (dirty_cells env t db) = {(key, c). key \<in> dirty_keys db \<and> log_view env t db key = Some c}"
proof -
  have wf: "bt_wf (d_log db)" using assms by (simp add: log_inv_def)
  have keys: "map fst (dirty_cells env t db) = map fst (filter (\<lambda>e. lg_dirty (snd e)) (d_log db))"
    by (simp add: dirty_cells_def)
  show "distinct (map fst (dirty_cells env t db))" unfolding keys using wf by (simp add: bt_wf_distinct)
  show dk: "set (map fst (dirty_cells env t db)) = dirty_keys db"
    unfolding keys dirty_keys_def using wf by (force simp: bt_get_iff [symmetric])
  have some: "log_view env t db key = Some (the (log_view env t db key))" if key: "key \<in> dirty_keys db" for key
  proof -
    obtain l where "bt_get (d_log db) key = Some l" using key by (auto simp: dirty_keys_def)
    then show ?thesis using log_view_Some [OF assms] by (metis option.sel)
  qed
  have "dirty_cells env t db = map (\<lambda>k. (k, the (log_view env t db k))) (map fst (dirty_cells env t db))"
    by (simp add: dirty_cells_def)
  then have "set (dirty_cells env t db) = (\<lambda>k. (k, the (log_view env t db k))) ` dirty_keys db"
    unfolding dk [symmetric] by (metis set_map)
  then show "set (dirty_cells env t db) = {(key, c). key \<in> dirty_keys db \<and> log_view env t db key = Some c}"
    using some by force
qed

lemma rows_of_card: "nested_wf m \<Longrightarrow> length (rows_of m) = card (set (bt_keys m))"
  by (metis bt_wf_distinct distinct_card length_map nested_wf_def todo_ids_rows_of)

lemma delta_cells:
  assumes "log_inv env t db"
  shows "set (payload_cells (delta_payload env t db)) = {(key, c). key \<in> dirty_keys db \<and> log_view env t db key = Some c}"
    "length (payload_cells (delta_payload env t db)) = card (dirty_keys db)"
    "length (changes (delta_payload env t db)) = card (fst ` dirty_keys db)"
proof -
  note d = dirty_cells_dirty [OF assms]
  have cells: "payload_cells (delta_payload env t db) = rows_cells (rows_of (group_cells (dirty_cells env t db) []))"
    by (simp add: payload_cells_def delta_payload_def)
  show "set (payload_cells (delta_payload env t db)) = {(key, c). key \<in> dirty_keys db \<and> log_view env t db key = Some c}"
    unfolding cells group_cells_entries [OF d(1)] by (rule d(3))
  show "length (payload_cells (delta_payload env t db)) = card (dirty_keys db)"
    unfolding cells group_cells_length [OF d(1)] d(2) [symmetric] using distinct_card [OF d(1)] by simp
  have "set (bt_keys (group_cells (dirty_cells env t db) [])) = fst ` dirty_keys db"
    unfolding group_cells_keys d(2) [symmetric] by (simp add: image_image comp_def)
  then show "length (changes (delta_payload env t db)) = card (fst ` dirty_keys db)"
    by (simp add: delta_payload_def rows_of_card)
qed

lemma delta_cell_ok:
  assumes inv: "client_inv env t db" and cell: "(key, c) \<in> set (payload_cells (delta_payload env t db))"
  shows "cell_ok t (snd key) c" "device_id (cmeta c) = d_device db" "identifier_ok (fst key)"
    "lamport_clock (cmeta c) \<le> word_of_int (d_lamport db)"
proof -
  have inv': "device_inv db" "rows_inv t db" "log_inv env t db" using inv by (simp_all add: client_inv_def)
  obtain l where l: "bt_get (d_log db) key = Some l" "lg_dirty l" and view: "log_view env t db key = Some c"
    using cell unfolding delta_cells(1) [OF inv'(3)] by (auto simp: dirty_keys_def)
  have ok: "log_ok env t db key l" using inv'(3) l(1) by (simp add: log_inv_def)
  obtain v where c: "c = \<lparr>cvalue = v, cmeta = ColumnMetadata (word_of_int (lg_clock l)) (lg_device l)\<rparr>" "value_ok t (snd key) v"
    using log_view_Some [OF inv'(3) l(1)] view by (metis option.inject)
  have clock: "0 \<le> lg_clock l" "lg_clock l \<le> d_lamport db" "d_lamport db \<le> i64_MAX"
    using ok inv'(1) by (simp_all add: log_ok_def device_inv_def)
  then have unat: "int (unat (word_of_int (lg_clock l) :: u64)) = lg_clock l"
    "int (unat (word_of_int (d_lamport db) :: u64)) = d_lamport db"
    by (simp_all only: unat_clock order.trans)
  have "clock_ok (word_of_int (lg_clock l))"
    using unat(1) clock by (simp add: clock_ok_def i64_MAX_def del: of_nat_unat)
  then show "cell_ok t (snd key) c" using c ok by (simp add: cell_ok_def meta_ok_def log_ok_def)
  show "device_id (cmeta c) = d_device db" using c l(2) ok by (simp add: log_ok_def)
  show "identifier_ok (fst key)" using ok inv'(2) by (auto simp: log_ok_def rows_inv_def)
  show "lamport_clock (cmeta c) \<le> word_of_int (d_lamport db)"
    using c unat clock by (simp add: word_le_nat_alt del: of_nat_unat)
qed

lemma delta_request_ok:
  assumes inv: "client_inv env t db"
  shows "client_request_ok t (d_device db) (delta_payload env t db) \<longleftrightarrow>
    card (dirty_keys db) \<le> 20000 \<and> card (fst ` dirty_keys db) \<le> 10000"
proof -
  let ?p = "delta_payload env t db"
  have dev: "device_inv db" and log: "log_inv env t db" using inv by (simp_all add: client_inv_def)
  have rows: "changes ?p = rows_of (group_cells (dirty_cells env t db) [])" by (simp add: delta_payload_def)
  have wf: "nested_wf (group_cells (dirty_cells env t db) [])" by simp
  have dist: "distinct (map todo_id (changes ?p))" "distinct (map fst (payload_cells ?p))"
    unfolding rows payload_cells_def using wf by (simp_all add: rows_of_distinct nested_wf_def bt_wf_distinct)
  have row: "identifier_ok (todo_id row) \<and> row_columns row \<noteq> []" if row: "row \<in> set (changes ?p)" for row
  proof -
    have ne: "row_columns row \<noteq> []" using row wf unfolding rows by (auto simp: rows_of_def nested_wf_def)
    then obtain n c where "((todo_id row, n), c) \<in> set (payload_cells ?p)" by (rule row_has_cell [OF row])
    from delta_cell_ok(3) [OF inv this] ne show ?thesis by simp
  qed
  have cells: "\<forall>((r, n), c)\<in>set (payload_cells ?p). cell_ok t n c"
    using delta_cell_ok(1) [OF inv] by fastforce
  have att: "\<forall>(key, c)\<in>set (payload_cells ?p). device_id (cmeta c) = d_device db \<and> lamport_clock (cmeta c) \<le> source_lamport ?p"
    using delta_cell_ok(2,4) [OF inv] by fastforce
  have clock: "clock_ok (source_lamport ?p)"
  proof -
    have "0 \<le> d_lamport db" "d_lamport db \<le> i64_MAX" using dev by (simp_all add: device_inv_def)
    then show ?thesis using unat_clock [of "d_lamport db"] by (simp add: clock_ok_def i64_MAX_def del: of_nat_unat)
  qed
  have cur: "0 \<le> cursor ?p" "\<forall>v. cursor_token ?p = Some v \<longrightarrow> identifier_ok v"
    "\<forall>v. server_epoch ?p = Some v \<longrightarrow> identifier_ok v"
    using dev by (auto simp: local_cursor_def device_inv_def split: option.splits)
  have id: "identifier_ok (d_device db)" "d_device db \<noteq> SERVER_DEVICE_ID" using dev by (simp_all add: device_inv_def)
  have vers: "3 \<le> unat PROTOCOL_VERSION" "unat PROTOCOL_VERSION \<le> 4" by (simp_all add: limits)
  show ?thesis
    unfolding client_request_ok_def payload_ok_def delta_cells(2,3) [OF log]
    using dist row cells att clock cur id vers by (simp add: conj_commute)
qed

lemma local_delta_Inr:
  assumes "client_inv env t db" "get_local_delta env t db = Inr p"
  shows "p = delta_payload env t db" "client_request_ok t (d_device db) p"
  using assms(2) unfolding get_local_delta_eq [OF assms(1)] by (auto simp: validate_client_request_iff)

text \<open>Property C32: the outgoing delta is exact. It is built exactly when at most 20000 cells in at most
  10000 rows are dirty, and then it is a valid request of this device that carries every dirty cell of
  the log with its value and version and nothing else, under the device's current clock and cursor.\<close>

theorem local_delta_exact:
  assumes "client_inv env t db"
  shows "(is_ok (get_local_delta env t db) \<longleftrightarrow>
      card (dirty_keys db) \<le> 20000 \<and> card (fst ` dirty_keys db) \<le> 10000) \<and>
    (\<forall>p. get_local_delta env t db = Inr p \<longrightarrow>
      client_request_ok t (d_device db) p \<and>
      set (payload_cells p) = {(key, c). key \<in> dirty_keys db \<and> log_view env t db key = Some c} \<and>
      int (unat (source_lamport p)) = d_lamport db \<and>
      cursor p = (case d_cursor db of None \<Rightarrow> 0 | Some r \<Rightarrow> cu_cursor r))"
proof (intro conjI allI impI)
  have log: "log_inv env t db" "0 \<le> d_lamport db" "d_lamport db \<le> i64_MAX"
    using assms by (simp_all add: client_inv_def device_inv_def)
  show "is_ok (get_local_delta env t db) \<longleftrightarrow> card (dirty_keys db) \<le> 20000 \<and> card (fst ` dirty_keys db) \<le> 10000"
    unfolding get_local_delta_eq [OF assms] delta_request_ok [OF assms, symmetric]
    by (auto simp: validate_client_request_iff)
  fix p
  assume "get_local_delta env t db = Inr p"
  from local_delta_Inr [OF assms this]
  have p: "p = delta_payload env t db" "client_request_ok t (d_device db) p" .
  then show "client_request_ok t (d_device db) p" by simp
  show "set (payload_cells p) = {(key, c). key \<in> dirty_keys db \<and> log_view env t db key = Some c}"
    unfolding p(1) by (rule delta_cells(1) [OF log(1)])
  show "int (unat (source_lamport p)) = d_lamport db"
    using unat_clock [OF log(2,3)] by (simp add: p(1))
  show "cursor p = (case d_cursor db of None \<Rightarrow> 0 | Some r \<Rightarrow> cu_cursor r)"
    by (simp add: p(1) local_cursor_def split: option.splits)
qed

end
