(* ===== verification/Client_Correct.thy ===== *)
theory Client_Correct
  imports Client_Ack
begin

section \<open>The client over a whole synchronization\<close>

text \<open>
  What a completed exchange does to the writes of the device: none is lost. The operations of the
  client form a step relation; its invariant holds in every reachable database.
\<close>

subsection \<open>What an applied response does to the log\<close>

definition log_change :: "sqlite_env \<Rightarrow> (cell_key \<times> crdt_column) list \<Rightarrow> client_db \<Rightarrow> client_db \<Rightarrow> bool" where
  "log_change env es db db' \<longleftrightarrow>
     (\<forall>key. bt_get (d_log db') key = bt_get (d_log db) key \<or>
        (\<exists>c. (key, c) \<in> set es \<and> bt_get (d_log db') key = Some (stored_cell env c)))"

lemma log_change_refl [simp]: "log_change env es db db"
  by (simp add: log_change_def)

lemma log_change_trans: "log_change env es a b \<Longrightarrow> log_change env es b c \<Longrightarrow> log_change env es a c"
  unfolding log_change_def by metis

lemma apply_cell_change:
  assumes "apply_cell env t e db = Inr db'" "d_applying db" "e \<in> set es"
  shows "log_change env es db db' \<and> d_applying db'"
proof -
  obtain key c where e: "e = (key, c)" by fastforce
  obtain cur where cur: "read_local_crdt_column env t key db = Inr cur"
    using assms(1) by (auto simp: apply_cell_def e)
  obtain yes where yes: "lww_apply cur c = Inr yes" using assms(1) cur by (auto simp: apply_cell_def e)
  show ?thesis
  proof (cases yes)
    case False
    then show ?thesis using assms cur yes by (simp add: apply_cell_def e)
  next
    case True
    then obtain db1 s i where w: "write_todo_column env t key (cvalue c) db = Inr db1"
      and s: "encode_sqlite_value env (cvalue c) = Inr s" "clock_to_i64 (lamport_clock (cmeta c)) = Inr i"
      and db': "db' = db1\<lparr>d_log := bt_insert key
         \<lparr>lg_value = s, lg_clock = i, lg_device = device_id (cmeta c), lg_dirty = False\<rparr> (d_log db1)\<rparr>"
      using assms(1) cur yes by (auto simp: apply_cell_def e)
    have db1: "d_log db1 = d_log db" "d_applying db1"
      using w assms(2)
      by (auto simp: write_todo_column_def update_column_def Let_def split: option.splits if_splits)
    have "i = int (unat (lamport_clock (cmeta c)))"
      using s(2) by (auto simp: clock_to_i64_def i64_try_from_def split: option.splits if_splits)
    then have "bt_get (d_log db') = (bt_get (d_log db))(key \<mapsto> stored_cell env c)"
      using s(1) db1 by (simp add: db' stored_cell_def)
    with assms(3) e db1(2) db' show ?thesis by (auto simp: log_change_def)
  qed
qed

lemma ensure_row_change:
  assumes "ensure_row env t row db = Inr db'" "d_applying db"
  shows "d_log db' = d_log db \<and> d_applying db'"
  using assms by (auto simp: ensure_row_def insert_row_def after_insert_def Let_def split: if_splits)

lemma apply_row_change:
  assumes "apply_row env t row db = Inr db'" "d_applying db" "set (row_cells row) \<subseteq> set es"
  shows "log_change env es db db' \<and> d_applying db'"
proof -
  obtain db1 where db1: "ensure_row env t (todo_id row) db = Inr db1" "foldM (apply_cell env t) (row_cells row) db1 = Inr db'"
    using assms(1) by (auto simp: apply_row_def)
  note ens = ensure_row_change [OF db1(1) assms(2)]
  let ?P = "\<lambda>d. log_change env es db1 d \<and> d_applying d"
  have step: "?P d'" if "e \<in> set (row_cells row)" "?P d" "apply_cell env t e d = Inr d'" for e d d'
    using apply_cell_change [OF that(3), of es] that(1,2) assms(3) log_change_trans by blast
  have start: "?P db1" using ens by simp
  from db1(2) have "?P db'" by (rule foldM_invariant [where P = ?P, OF _ start step])
  with ens show ?thesis by (simp add: log_change_def)
qed

lemma apply_remote_change:
  assumes "apply_remote_payload env t p db = Inr db'"
  shows "log_change env (payload_cells p) db db'"
proof -
  let ?db = "db\<lparr>d_applying := True\<rparr>"
  obtain db1 where db1: "foldM (apply_row env t) (changes p) ?db = Inr db1" "d_log db' = d_log db1"
    using assms by (auto simp: apply_remote_payload_def split: option.splits)
  let ?P = "\<lambda>d. log_change env (payload_cells p) ?db d \<and> d_applying d"
  have sub: "set (row_cells row) \<subseteq> set (payload_cells p)" if "row \<in> set (changes p)" for row
    using that by (auto simp: payload_cells_def)
  have step: "?P d'" if "row \<in> set (changes p)" "?P d" "apply_row env t row d = Inr d'" for row d d'
    using apply_row_change [OF that(3) _ sub [OF that(1)]] that(2) log_change_trans by blast
  have start: "?P ?db" by simp
  from db1(1) have "?P db1" by (rule foldM_invariant [where P = ?P, OF _ start step])
  with db1(2) show ?thesis by (simp add: log_change_def)
qed

text \<open>The version of an entry of the log.\<close>

definition lg_version :: "log_cell \<Rightarrow> column_metadata" where
  "lg_version l = ColumnMetadata (word_of_int (lg_clock l)) (lg_device l)"

lemma apply_remote_run:
  assumes "client_inv env t db" "apply_remote_payload env t p db = Inr db'" "valid_table t" "reals_exact env t"
  shows "lww.run (payload_cells p) (log_view env t db) = Inr (log_view env t db')"
proof -
  have "server_response_ok t p"
    using assms(2) by (auto simp: apply_remote_payload_def validate_server_response_iff)
  from apply_remote_refines [OF assms(1) this assms(3,4)] assms(2) show ?thesis
    by (cases "lww.run (payload_cells p) (log_view env t db)") (auto split: if_splits)
qed

lemma apply_remote_keeps:
  assumes inv: "client_inv env t db" "valid_table t" "reals_exact env t"
    and app: "apply_remote_payload env t p db = Inr db'" and l: "bt_get (d_log db) key = Some l"
  shows "bt_get (d_log db') key = Some l \<or>
    (\<exists>l'. bt_get (d_log db') key = Some l' \<and> \<not> lg_dirty l' \<and> lg_version l \<le> lg_version l' \<and>
      (\<exists>c. (key, c) \<in> set (payload_cells p) \<and> cmeta c = lg_version l'))"
proof -
  have log: "log_inv env t db" using inv(1) by (simp add: client_inv_def)
  have "client_inv env t db'" by (rule apply_remote_inv(1) [OF inv(1) app inv(2,3)])
  then have log': "log_inv env t db'" by (simp add: client_inv_def)
  have "lww.run (payload_cells p) (log_view env t db) = Inr (log_view env t db')"
    by (rule apply_remote_run [OF inv(1) app inv(2,3)])
  moreover obtain v where "log_view env t db key = Some \<lparr>cvalue = v, cmeta = lg_version l\<rparr>"
    using log_view_Some [OF log l] by (auto simp: lg_version_def)
  ultimately obtain b where b: "log_view env t db' key = Some b" "lg_version l \<le> cmeta b"
    using lww.run_monotone by fastforce
  consider "bt_get (d_log db') key = Some l"
    | c where "(key, c) \<in> set (payload_cells p)" "bt_get (d_log db') key = Some (stored_cell env c)"
    using apply_remote_change [OF app] l by (metis log_change_def)
  then show ?thesis
  proof cases
    case 2
    have m: "lg_version (stored_cell env c) = cmeta c" by (simp add: lg_version_def stored_cell_def)
    obtain v where "log_view env t db' key = Some \<lparr>cvalue = v, cmeta = lg_version (stored_cell env c)\<rparr>"
      using log_view_Some [OF log' 2(2)] unfolding lg_version_def by metis
    then have "cmeta b = cmeta c" using b(1) m by simp
    moreover have "\<not> lg_dirty (stored_cell env c)" by (simp add: stored_cell_def)
    ultimately show ?thesis using 2 b(2) m by metis
  qed simp
qed

subsection \<open>A completed exchange\<close>

lemma complete_sync_Inr:
  "complete_sync env t sent response db = (db', Inr u) \<longleftrightarrow>
     (\<exists>db1. acknowledge_with_response t sent response db = Inr db1 \<and>
        apply_remote_payload env t response db1 = Inr db')"
  by (auto simp: complete_sync_def run_tx_Inr)

lemma complete_sync_inv:
  assumes "client_inv env t db" "valid_table t" "reals_exact env t" "complete_sync env t sent response db = (db', r)"
  shows "client_inv env t db'"
proof (cases r)
  case (Inl e)
  then show ?thesis using assms(1,4) run_tx_Inl unfolding complete_sync_def by blast
next
  case (Inr u)
  then obtain db1 where db1: "acknowledge_with_response t sent response db = Inr db1"
    "apply_remote_payload env t response db1 = Inr db'"
    using assms(4) by (auto simp: complete_sync_Inr)
  from db1(1) have "client_inv env t db1"
    using acknowledge_cells_spec(1) [OF _ assms(1)] by (auto simp: acknowledge_response_Inr)
  then show ?thesis by (rule apply_remote_inv(1) [OF _ db1(2) assms(2,3)])
qed

text \<open>Property C26: no local write is lost in an exchange. When \<open>complete_sync\<close> fails, the database is
  as it was. When it succeeds, every dirty entry of the log was either sent under its version and not
  rejected, or it is still there and dirty, or the response replaced it by a version at least as new.\<close>

theorem complete_sync_no_lost_write:
  assumes "client_inv env t db" "valid_table t" "reals_exact env t" "complete_sync env t sent response db = (db', r)"
  shows "(\<forall>e. r = Inl e \<longrightarrow> db' = db) \<and>
    (is_ok r \<longrightarrow> (\<forall>key l. bt_get (d_log db) key = Some l \<longrightarrow> lg_dirty l \<longrightarrow>
      acked (rejected_versions response) (payload_cells sent) key l \<or>
      bt_get (d_log db') key = Some l \<or>
      (\<exists>l'. bt_get (d_log db') key = Some l' \<and> \<not> lg_dirty l' \<and> lg_version l \<le> lg_version l' \<and>
        (\<exists>c. (key, c) \<in> set (payload_cells response) \<and> cmeta c = lg_version l'))))"
proof (intro conjI allI impI)
  show "db' = db" if "r = Inl e" for e
    using that assms(4) run_tx_Inl unfolding complete_sync_def by blast
  fix key l
  assume "is_ok r" and l: "bt_get (d_log db) key = Some l" "lg_dirty l"
  then obtain db1 where db1: "acknowledge_with_response t sent response db = Inr db1"
    "apply_remote_payload env t response db1 = Inr db'"
    using assms(4) by (auto simp: is_ok_iff complete_sync_Inr)
  let ?rej = "rejected_versions response" and ?es = "payload_cells sent"
  from db1(1) have ack: "client_request_ok t (d_device db) sent" "acknowledge_cells ?rej sent db = Inr db1"
    by (simp_all add: acknowledge_response_Inr)
  note spec = acknowledge_cells_spec [OF ack(1) assms(1) ack(2)]
  show "acked ?rej ?es key l \<or> bt_get (d_log db') key = Some l \<or>
      (\<exists>l'. bt_get (d_log db') key = Some l' \<and> \<not> lg_dirty l' \<and> lg_version l \<le> lg_version l' \<and>
        (\<exists>c. (key, c) \<in> set (payload_cells response) \<and> cmeta c = lg_version l'))"
  proof (cases "acked ?rej ?es key l")
    case False
    then have "\<not> released ?rej ?es db (fst key)"
      using l by (cases key) (auto simp: released_def)
    then have "bt_get (d_log db1) key = Some l" using spec(3) [of key] l(1) False by (simp add: settle_def)
    from apply_remote_keeps [OF spec(1) assms(2,3) db1(2) this] show ?thesis by blast
  qed simp
qed

end
