(* ===== verification/Client_Scopes.thy ===== *)
theory Client_Scopes
  imports Client_Correct
begin

section \<open>Partial replicas on the client\<close>

text \<open>
  The scope tables: revisions of scopes, their members and pending evictions. A response is applied
  only for the current revision of an active scope; it replaces the membership of that scope, and the
  rows it drops are evicted once no scope has them and no local write of them is unacknowledged. The
  operations of the client form the step relation \<open>client_step\<close>.
\<close>

definition scopes_inv :: "client_db \<Rightarrow> bool" where
  "scopes_inv db \<longleftrightarrow>
     bt_wf (d_members db) \<and>
     (\<forall>scope v active. bt_get (d_scopes db) scope = Some (v, active) \<longrightarrow> 0 < v \<and> v \<le> i64_MAX)"

definition scope_version :: "client_db \<Rightarrow> string \<Rightarrow> int" where
  "scope_version db scope = (case bt_get (d_scopes db) scope of None \<Rightarrow> 0 | Some (v, _) \<Rightarrow> v)"

lemma next_scope_version_Inr:
  "next_scope_version scope db = Inr v \<longleftrightarrow> v = scope_version db scope + 1 \<and> v \<le> i64_MAX"
  by (auto simp: next_scope_version_def scope_version_def Let_def)

lemma scope_version_nonneg: "scopes_inv db \<Longrightarrow> 0 \<le> scope_version db scope"
  by (force simp: scopes_inv_def scope_version_def split: option.splits)

text \<open>Only the rows, the log, the device row and the cursor matter for \<open>client_inv\<close>.\<close>

lemma client_inv_scopes:
  "client_inv env t (db\<lparr>d_scopes := x\<rparr>) \<longleftrightarrow> client_inv env t db"
  "client_inv env t (db\<lparr>d_members := y\<rparr>) \<longleftrightarrow> client_inv env t db"
  "client_inv env t (db\<lparr>d_evictions := z\<rparr>) \<longleftrightarrow> client_inv env t db"
  by (simp_all add: client_inv_def device_inv_def rows_inv_def log_inv_def log_ok_def)

subsection \<open>Membership\<close>

lemma replace_loop:
  assumes "distinct rows" "\<forall>row\<in>set rows. bt_get (d_members db) (scope, row) = None"
  obtains db' where
    "foldM (\<lambda>row db.
         if bt_get (d_members db) (scope, row) \<noteq> None then Inl (Sqlite ''UNIQUE constraint failed'')
         else Inr (db\<lparr>d_members := bt_insert (scope, row) () (d_members db),
                      d_evictions := bt_remove (scope, row) (d_evictions db)\<rparr>)) rows db = Inr db'"
    "db' = db\<lparr>d_members := foldl (\<lambda>m row. bt_insert (scope, row) () m) (d_members db) rows,
              d_evictions := foldl (\<lambda>m row. bt_remove (scope, row) m) (d_evictions db) rows\<rparr>"
  using assms
proof (induction rows arbitrary: db thesis)
  case (Cons row rows)
  let ?db = "db\<lparr>d_members := bt_insert (scope, row) () (d_members db),
                d_evictions := bt_remove (scope, row) (d_evictions db)\<rparr>"
  have fresh: "bt_get (d_members db) (scope, row) = None" using Cons.prems by simp
  show ?case
  proof (rule Cons.IH [of ?db])
    show "distinct rows" "\<forall>r\<in>set rows. bt_get (d_members ?db) (scope, r) = None"
      using Cons.prems(2,3) by auto
  qed (rule Cons.prems(1), use fresh in simp_all)
qed simp

lemma foldl_insert_keys:
  "bt_get (foldl (\<lambda>m row. bt_insert (scope, row) () m) m rows) (s, r) =
     (if s = scope \<and> r \<in> set rows then Some () else bt_get m (s, r))"
  by (induction rows arbitrary: m) auto

lemma foldl_remove_keys:
  "bt_get (foldl (\<lambda>m row. bt_remove (scope, row) m) m rows) (s, r) =
     (if s = scope \<and> r \<in> set rows then None else bt_get m (s, r))"
  by (induction rows arbitrary: m) auto

lemma foldl_insert_wf: "bt_wf m \<Longrightarrow> bt_wf (foldl (\<lambda>m row. bt_insert (scope, row) () m) m rows)"
  by (induction rows arbitrary: m) auto

lemma replace_members_eq:
  assumes "distinct rows"
  obtains mem ev where "replace_members scope rows db = Inr (db\<lparr>d_members := mem, d_evictions := ev\<rparr>)"
    "\<And>s r. bt_get mem (s, r) = (if s = scope then (if r \<in> set rows then Some () else None) else bt_get (d_members db) (s, r))"
    "\<And>s r. bt_get ev (s, r) = (if s = scope \<and> r \<in> set rows then None else bt_get (d_evictions db) (s, r))"
    "bt_wf (d_members db) \<Longrightarrow> bt_wf mem"
proof -
  let ?m = "filter (\<lambda>e. fst (fst e) \<noteq> scope) (d_members db)"
  have m: "bt_get ?m (s, r) = (if s = scope then None else bt_get (d_members db) (s, r))" for s r
    using bt_get_filter_keys [of "\<lambda>k. fst k \<noteq> scope" "d_members db" "(s, r)"] by simp
  obtain db' where db': "replace_members scope rows db = Inr db'"
    "db' = db\<lparr>d_members := foldl (\<lambda>m row. bt_insert (scope, row) () m) ?m rows,
              d_evictions := foldl (\<lambda>m row. bt_remove (scope, row) m) (d_evictions db) rows\<rparr>"
    using replace_loop [OF assms, of "db\<lparr>d_members := ?m\<rparr>" scope] m
    by (simp add: replace_members_def) blast
  show thesis
    by (rule that [OF db'(1) [unfolded db'(2)]])
      (simp_all add: foldl_insert_keys foldl_remove_keys m foldl_insert_wf)
qed

text \<open>Two lists of rows in key order with the same elements are equal.\<close>

lemma member_ids_sorted:
  assumes "bt_wf (d_members db)"
  shows "sorted_wrt (<) (scope_member_ids scope db)"
    "set (scope_member_ids scope db) = {row. bt_get (d_members db) (scope, row) \<noteq> None}"
proof -
  let ?es = "filter (\<lambda>e. fst (fst e) = scope) (d_members db)"
  have "sorted_wrt (\<lambda>a b. fst a < fst b) ?es"
    using assms by (simp add: bt_wf_def sorted_wrt_map sorted_wrt_filter)
  then have "sorted_wrt (\<lambda>a b. snd (fst a) < snd (fst b)) ?es"
    by (rule sorted_wrt_mono_rel [rotated]) (auto simp: less_prod_def)
  then show "sorted_wrt (<) (scope_member_ids scope db)" by (simp add: scope_member_ids_def sorted_wrt_map)
  show "set (scope_member_ids scope db) = {row. bt_get (d_members db) (scope, row) \<noteq> None}"
    by (force simp: scope_member_ids_def map_of_eq_None_iff)
qed

subsection \<open>Applying a partial-replica response\<close>

lemma partial_apply_cases:
  assumes "apply_partial_replica_response env t sent response db = Inr db'"
  obtains db1 db2 db3 where
    "request_ok t (d_device db) sent" "response_ok t response"
    "rs_scope_id response = rq_scope_id sent" "rs_scope_version response = rq_scope_version sent"
    "bt_get (d_scopes db) (rq_scope_id sent) = Some (int (unat (rq_scope_version sent)), True)"
    "rs_evicted_row_ids response = filter (\<lambda>row. row \<notin> set (rs_member_ids response)) (rq_known_member_ids sent)"
    "acknowledge_with_response t (rq_sync sent) (rs_sync response) db = Inr db1"
    "apply_remote_payload env t (rs_sync response) db1 = Inr db2"
    "replace_members (rq_scope_id sent) (rs_member_ids response) db2 = Inr db3"
    "db' = cleanup_pending_evictions (mark_evictions (rq_scope_id sent) (rs_evicted_row_ids response) db3)"
proof -
  have ok: "request_ok t (d_device db) sent" "response_ok t response"
    using assms by (auto simp: apply_partial_replica_response_def request_validate_iff [symmetric]
        response_validate_iff [symmetric])
  have version: "clock_to_i64 (rq_scope_version sent) = Inr (int (unat (rq_scope_version sent)))"
    using ok(1) by (intro clock_to_i64_ok) (simp add: request_ok_def scope_version_ok_def clock_ok_def)
  have search: "binary_search (rs_member_ids response) row \<longleftrightarrow> row \<in> set (rs_member_ids response)" for row
    using ok(2) by (simp add: response_ok_def member_ids_ok_def)
  have valid: "request_validate sent t (d_device db) = Inr ()" "response_validate response t = Inr ()"
    using ok by (simp_all add: request_validate_iff response_validate_iff)
  show thesis
    using assms ok unfolding apply_partial_replica_response_def valid version search
    by (auto split: if_splits intro!: that)
qed

lemma mark_evictions_get:
  "bt_get (d_evictions (mark_evictions scope rows db)) (s, r) =
     (if s = scope \<and> r \<in> set rows then Some () else bt_get (d_evictions db) (s, r))"
  by (simp add: mark_evictions_def foldl_insert_keys)

lemma mark_evictions_sel [simp]:
  "d_device (mark_evictions scope rows db) = d_device db" "d_lamport (mark_evictions scope rows db) = d_lamport db"
  "d_cursor (mark_evictions scope rows db) = d_cursor db" "d_rows (mark_evictions scope rows db) = d_rows db"
  "d_log (mark_evictions scope rows db) = d_log db" "d_scopes (mark_evictions scope rows db) = d_scopes db"
  "d_members (mark_evictions scope rows db) = d_members db"
  by (simp_all add: mark_evictions_def)

lemma mark_evictions_inv: "client_inv env t (mark_evictions scope rows db) \<longleftrightarrow> client_inv env t db"
  by (simp add: mark_evictions_def client_inv_scopes)

lemma acknowledge_response_inv:
  assumes "client_inv env t db" "acknowledge_with_response t sent response db = Inr db'"
  shows "client_inv env t db'"
  using assms acknowledge_cells_spec(1) by (auto simp: acknowledge_response_Inr)

lemma partial_apply_inv:
  assumes "client_inv env t db" "scopes_inv db" "valid_table t" "reals_exact env t"
    and "apply_partial_replica_response env t sent response db = Inr db'"
  shows "client_inv env t db'" "scopes_inv db'" "d_scopes db' = d_scopes db" "d_device db' = d_device db"
proof -
  from assms(5) have "client_inv env t db' \<and> scopes_inv db' \<and> d_scopes db' = d_scopes db \<and> d_device db' = d_device db"
  proof (rule partial_apply_cases)
    fix db1 db2 db3
    assume ok: "request_ok t (d_device db) sent" "response_ok t response"
      and ack: "acknowledge_with_response t (rq_sync sent) (rs_sync response) db = Inr db1"
      and app: "apply_remote_payload env t (rs_sync response) db1 = Inr db2"
      and rep: "replace_members (rq_scope_id sent) (rs_member_ids response) db2 = Inr db3"
      and db': "db' = cleanup_pending_evictions (mark_evictions (rq_scope_id sent) (rs_evicted_row_ids response) db3)"
    have inv1: "client_inv env t db1" by (rule acknowledge_response_inv [OF assms(1) ack])
    have frame1: "d_scopes db1 = d_scopes db" "d_members db1 = d_members db" "d_device db1 = d_device db"
      using ack acknowledge_cells_spec(4,7,8) [OF _ assms(1)] by (auto simp: acknowledge_response_Inr)
    note inv2 = apply_remote_inv [OF inv1 app assms(3,4)]
    have "distinct (rs_member_ids response)"
      using ok(2) by (simp add: response_ok_def member_ids_ok_def strict_sorted_iff)
    then obtain mem ev where db3: "db3 = db2\<lparr>d_members := mem, d_evictions := ev\<rparr>" "bt_wf (d_members db2) \<Longrightarrow> bt_wf mem"
      using rep replace_members_eq [of "rs_member_ids response" "rq_scope_id sent" db2] by (metis sum.inject(2))
    have "client_inv env t db3" unfolding db3(1) by (simp add: client_inv_scopes inv2(1))
    then have "client_inv env t db'" unfolding db' by (intro cleanup_inv) (simp add: mark_evictions_inv)
    then show ?thesis
      using db3 inv2(4-6) frame1 assms(2) by (simp add: db' scopes_inv_def)
  qed
  then show "client_inv env t db'" "scopes_inv db'" "d_scopes db' = d_scopes db" "d_device db' = d_device db"
    by simp_all
qed

text \<open>The rows of a response exist once it is applied.\<close>

lemma applied_row_exists:
  assumes inv: "client_inv env t db" "valid_table t" "reals_exact env t"
    and app: "apply_remote_payload env t p db = Inr db'" and row: "row \<in> set (changes p)"
  shows "bt_get (d_rows db') (todo_id row) \<noteq> None"
proof -
  have "server_response_ok t p"
    using app by (auto simp: apply_remote_payload_def validate_server_response_iff)
  then have "row_columns row \<noteq> []" using row by (simp add: server_response_ok_def payload_ok_def)
  then obtain n c where "((todo_id row, n), c) \<in> set (payload_cells p)" by (rule row_has_cell [OF row])
  then obtain b where "log_view env t db' (todo_id row, n) = Some b"
    using lww.run_delivered [OF apply_remote_run [OF inv(1) app inv(2,3)]] by blast
  then obtain l where l: "bt_get (d_log db') (todo_id row, n) = Some l"
    by (auto simp: log_view_def split: option.splits)
  have "client_inv env t db'" by (rule apply_remote_inv(1) [OF inv(1) app inv(2,3)])
  then have "log_ok env t db' (todo_id row, n) l" using l by (simp add: client_inv_def log_inv_def)
  then show ?thesis by (auto simp: log_ok_def)
qed

lemma cleanup_keeps:
  assumes "is_member db row \<or> row_dirty db row"
  shows "bt_get (d_rows (cleanup_pending_evictions db)) row = bt_get (d_rows db) row"
    "bt_get (d_log (cleanup_pending_evictions db)) (row, n) = bt_get (d_log db) (row, n)"
  using assms by (auto simp: cleanup_get evictable_def)

lemma cleanup_evicts:
  assumes "client_inv env t db" "is_pending db row" "\<not> is_member (cleanup_pending_evictions db) row"
    "\<not> row_dirty (cleanup_pending_evictions db) row"
  shows "bt_get (d_rows (cleanup_pending_evictions db)) row = None"
proof -
  have wf: "bt_wf (d_log db)" "bt_wf (d_log (cleanup_pending_evictions db))"
    using assms(1) cleanup_inv [OF assms(1)] by (simp_all add: client_inv_def log_inv_def)
  have "\<not> row_dirty db row"
    using assms(4) cleanup_keeps(2) [of db row] unfolding row_dirty_get [OF wf(1)] row_dirty_get [OF wf(2)] by metis
  moreover have "\<not> is_member db row" using assms(3) by (simp add: is_member_def)
  ultimately show ?thesis using assms(2) by (simp add: cleanup_get evictable_def)
qed

lemma complete_partial_Inr:
  "complete_partial_replica_sync env t sent response db = (db', Inr u) \<longleftrightarrow>
     apply_partial_replica_response env t sent response db = Inr db'"
  by (auto simp: complete_partial_replica_sync_def run_tx_Inr)

lemma partial_apply_steps:
  assumes inv: "client_inv env t db" "scopes_inv db" "valid_table t" "reals_exact env t"
    and app: "apply_partial_replica_response env t sent response db = Inr db'"
  obtains db1 db2 db3 where
    "acknowledge_with_response t (rq_sync sent) (rs_sync response) db = Inr db1" "client_inv env t db1"
    "apply_remote_payload env t (rs_sync response) db1 = Inr db2" "response_ok t response"
    "d_rows db3 = d_rows db2" "d_log db3 = d_log db2" "client_inv env t db3" "bt_wf (d_members db3)"
    "\<And>s r. bt_get (d_members db3) (s, r) =
       (if s = rq_scope_id sent then (if r \<in> set (rs_member_ids response) then Some () else None)
        else bt_get (d_members db) (s, r))"
    "\<And>row. row \<in> set (rs_evicted_row_ids response) \<Longrightarrow> is_pending db3 row" "db' = cleanup_pending_evictions db3"
  using app
proof (rule partial_apply_cases)
  fix db1 db2 db3
  let ?scope = "rq_scope_id sent" and ?ids = "rs_member_ids response"
  let ?db = "mark_evictions ?scope (rs_evicted_row_ids response) db3"
  assume ok: "response_ok t response"
    and ack: "acknowledge_with_response t (rq_sync sent) (rs_sync response) db = Inr db1"
    and app: "apply_remote_payload env t (rs_sync response) db1 = Inr db2"
    and rep: "replace_members ?scope ?ids db2 = Inr db3" and db': "db' = cleanup_pending_evictions ?db"
  have inv1: "client_inv env t db1" by (rule acknowledge_response_inv [OF inv(1) ack])
  have mem1: "d_members db1 = d_members db"
    using ack acknowledge_cells_spec(8) [OF _ inv(1)] by (auto simp: acknowledge_response_Inr)
  note inv2 = apply_remote_inv [OF inv1 app inv(3,4)]
  have "distinct ?ids" using ok by (simp add: response_ok_def member_ids_ok_def strict_sorted_iff)
  from replace_members_eq [OF this, of ?scope db2] obtain mem ev
    where "replace_members ?scope ?ids db2 = Inr (db2\<lparr>d_members := mem, d_evictions := ev\<rparr>)"
      and mem: "\<And>s r. bt_get mem (s, r) = (if s = ?scope then (if r \<in> set ?ids then Some () else None) else bt_get (d_members db2) (s, r))"
      and wf: "bt_wf (d_members db2) \<Longrightarrow> bt_wf mem" by metis
  then have db3: "db3 = db2\<lparr>d_members := mem, d_evictions := ev\<rparr>" using rep by simp
  show thesis
  proof (rule that [OF ack inv1 app ok _ _ _ _ _ _ db'])
    show "client_inv env t ?db" by (simp add: mark_evictions_inv db3 client_inv_scopes inv2(1))
    show "bt_wf (d_members ?db)" using wf inv(2) by (simp add: db3 inv2(6) mem1 scopes_inv_def)
    show "bt_get (d_members ?db) (s, r) = (if s = ?scope then (if r \<in> set ?ids then Some () else None)
        else bt_get (d_members db) (s, r))" for s r
      using mem [of s r] by (simp add: db3 inv2(6) mem1)
    show "is_pending ?db row" if "row \<in> set (rs_evicted_row_ids response)" for row
      unfolding is_pending_def mark_evictions_get using that by auto
  qed (simp_all add: db3)
qed

lemma partial_keeps_writes:
  assumes inv: "client_inv env t db" "scopes_inv db" "valid_table t" "reals_exact env t"
    and app: "apply_partial_replica_response env t sent response db = Inr db'"
    and l: "bt_get (d_log db) key = Some l" "lg_dirty l"
    and unsent: "\<not> acked (rejected_versions (rs_sync response)) (payload_cells (rq_sync sent)) key l"
  shows "bt_get (d_log db') key = Some l \<or>
    (\<exists>l'. bt_get (d_log db') key = Some l' \<and> \<not> lg_dirty l' \<and> lg_version l \<le> lg_version l')"
proof -
  from partial_apply_steps [OF inv app] obtain db1 db2 db3 where
    ack: "acknowledge_with_response t (rq_sync sent) (rs_sync response) db = Inr db1" "client_inv env t db1"
    and remote: "apply_remote_payload env t (rs_sync response) db1 = Inr db2" "response_ok t response"
    and db3: "d_log db3 = d_log db2" "client_inv env t db3" "db' = cleanup_pending_evictions db3"
    and mem: "\<And>s r. bt_get (d_members db3) (s, r) =
       (if s = rq_scope_id sent then (if r \<in> set (rs_member_ids response) then Some () else None)
        else bt_get (d_members db) (s, r))" by metis
  let ?rej = "rejected_versions (rs_sync response)" and ?es = "payload_cells (rq_sync sent)"
  have "\<not> released ?rej ?es db (fst key)" using l unsent by (cases key) (auto simp: released_def)
  moreover have "client_request_ok t (d_device db) (rq_sync sent)" "acknowledge_cells ?rej (rq_sync sent) db = Inr db1"
    using ack(1) by (simp_all add: acknowledge_response_Inr)
  ultimately have "bt_get (d_log db1) key = Some l"
    using acknowledge_cells_spec(3) [OF _ inv(1)] l(1) unsent by (simp add: settle_def)
  from apply_remote_keeps [OF ack(2) inv(3,4) remote(1) this]
  consider "bt_get (d_log db3) key = Some l"
    | l' c where "bt_get (d_log db3) key = Some l'" "\<not> lg_dirty l'" "lg_version l \<le> lg_version l'"
      "(key, c) \<in> set (payload_cells (rs_sync response))"
    unfolding db3(1) by blast
  then show ?thesis
  proof cases
    case 1
    then have "row_dirty db3 (fst key)"
      using l(2) db3(2) by (cases key) (auto simp: row_dirty_get client_inv_def log_inv_def)
    then show ?thesis using 1 cleanup_keeps(2) [of db3 "fst key" "snd key"] by (simp add: db3(3))
  next
    case 2
    have "fst key \<in> set (map todo_id (changes (rs_sync response)))"
      using 2(4) by (cases key) (auto simp: payload_cells_iff)
    then have "fst key \<in> set (rs_member_ids response)" using remote(2) by (metis response_ok_def)
    then have "is_member db3 (fst key)" using mem [of "rq_scope_id sent" "fst key"] by (auto simp: is_member_def)
    then have "bt_get (d_log db') key = bt_get (d_log db3) key"
      using cleanup_keeps(2) [of db3 "fst key" "snd key"] by (simp add: db3(3))
    with 2 show ?thesis by simp
  qed
qed


end
