(* ===== verification/Client_Steps.thy ===== *)
theory Client_Steps
  imports Client_Scopes
begin

section \<open>The operations of the client as a step relation\<close>

text \<open>
  Every public operation that changes the database is one rule, with arbitrary arguments and with the
  failing outcome included. \<open>client_reach\<close> are the databases that \<open>open_with\<close> on a fresh file and any
  sequence of operations can produce.
\<close>

inductive client_step :: "sqlite_env \<Rightarrow> table_def \<Rightarrow> client_db \<Rightarrow> client_db \<Rightarrow> bool" for env t where
  insert: "client_step env t db (fst (client_insert env t row vals db))"
| set_cell: "client_step env t db (fst (client_set env t row column v db))"
| delete: "client_step env t db (fst (client_delete env row db))"
| restore: "client_step env t db (fst (client_restore env row db))"
| local_delta: "client_step env t db (fst (client_local_delta env t db))"
| acknowledge: "client_step env t db (fst (client_acknowledge t p db))"
| apply_remote: "client_step env t db (fst (client_apply_remote env t p db))"
| complete_sync: "client_step env t db (fst (complete_sync env t sent response db))"
| reset_cursor: "client_step env t db (reset_cursor db)"
| partial_request: "client_step env t db (fst (client_partial_request env t scope interest db))"
| complete_partial: "client_step env t db (fst (complete_partial_replica_sync env t rq rs db))"
| remove_scope: "client_step env t db (fst (client_remove_scope scope db))"

inductive client_reach :: "sqlite_env \<Rightarrow> table_def \<Rightarrow> string \<Rightarrow> client_db \<Rightarrow> bool" for env t device where
  fresh: "client_reach env t device (client_db_new device)"
| step: "client_reach env t device db \<Longrightarrow> client_step env t db db' \<Longrightarrow> client_reach env t device db'"

text \<open>What holds between steps, and what a step does to the revisions of scopes.\<close>

definition client_good :: "sqlite_env \<Rightarrow> table_def \<Rightarrow> client_db \<Rightarrow> bool" where
  "client_good env t db \<longleftrightarrow> client_inv env t db \<and> scopes_inv db"

definition step_ok :: "sqlite_env \<Rightarrow> table_def \<Rightarrow> client_db \<Rightarrow> client_db \<Rightarrow> bool" where
  "step_ok env t db db' \<longleftrightarrow>
     client_good env t db' \<and> d_device db' = d_device db \<and>
     (\<forall>scope. scope_version db scope \<le> scope_version db' scope)"

lemma step_ok_refl: "client_good env t db \<Longrightarrow> step_ok env t db db"
  by (simp add: step_ok_def)

lemma step_ok_same_scopes:
  assumes "client_inv env t db'" "scopes_inv db" "d_device db' = d_device db" "d_scopes db' = d_scopes db"
    "d_members db' = d_members db"
  shows "step_ok env t db db'"
  using assms by (simp add: step_ok_def client_good_def scopes_inv_def scope_version_def)

lemma run_tx_step:
  assumes "client_good env t db" "\<And>db' a. f db = Inr (db', a) \<Longrightarrow> step_ok env t db db'"
  shows "step_ok env t db (fst (run_tx f db))"
  using assms step_ok_refl by (auto simp: run_tx_def split: sum.splits)

lemma in_tx_step:
  assumes "client_good env t db" "\<And>db'. f db = Inr db' \<Longrightarrow> step_ok env t db db'"
  shows "step_ok env t db (fst (in_tx f db))"
  by (rule run_tx_step [OF assms(1)]) (use assms(2) in auto)

subsection \<open>Local writes\<close>

text \<open>A local write leaves the device and the scope tables alone.\<close>

lemma capture_all_scopes [simp]:
  "d_scopes (capture_all env row vals cs db) = d_scopes db"
  "d_members (capture_all env row vals cs db) = d_members db"
  by (induction cs arbitrary: db) simp_all

lemma update_column_frame:
  assumes "update_column env c row guard w db = Inr (db', n)"
  shows "d_device db' = d_device db" "d_scopes db' = d_scopes db" "d_members db' = d_members db"
  using assms by (cases rule: update_column_cases; simp)+

lemma insert_row_frame:
  assumes "insert_row env t row given db = Inr db'"
  shows "d_device db' = d_device db" "d_scopes db' = d_scopes db" "d_members db' = d_members db"
  using assms by (auto simp: insert_row_def after_insert_def Let_def tick_ok split: if_splits)

lemma update_one_step:
  assumes "client_good env t db" "client_inv env t (fst (update_one env c row guard w msg db))"
  shows "step_ok env t db (fst (update_one env c row guard w msg db))"
proof -
  have "d_device (fst (update_one env c row guard w msg db)) = d_device db \<and>
    d_scopes (fst (update_one env c row guard w msg db)) = d_scopes db \<and>
    d_members (fst (update_one env c row guard w msg db)) = d_members db"
    by (auto simp: update_one_def run_tx_def update_column_frame split: sum.splits)
  then show ?thesis using assms by (intro step_ok_same_scopes) (simp_all add: client_good_def)
qed

lemma set_step:
  assumes "client_good env t db" "reals_exact env t"
  shows "step_ok env t db (fst (client_set env t row column v db))"
proof -
  have inv: "client_inv env t (fst (client_set env t row column v db))"
    using client_set_inv [OF _ _ assms(2)] assms(1) by (metis client_good_def prod.collapse)
  show ?thesis
  proof (cases "rbind (validate_identifier ''row_id'' row) (\<lambda>_.
      rbind (reject_liveness_column column) (\<lambda>_. rbind (validate_column t column v) (\<lambda>_. crdt_to_sqlite v)))")
    case (Inl e)
    then show ?thesis using step_ok_refl [OF assms(1)] by (simp add: client_set_def)
  next
    case (Inr w)
    show ?thesis using inv unfolding client_set_def Inr by (simp add: update_one_step [OF assms(1)])
  qed
qed

lemma liveness_step:
  assumes "client_good env t db" "reals_exact env t"
  shows "step_ok env t db (fst (client_delete env row db))" "step_ok env t db (fst (client_restore env row db))"
proof -
  have inv: "client_inv env t (fst (client_delete env row db))" "client_inv env t (fst (client_restore env row db))"
    using client_delete_inv [OF _ _ assms(2)] client_restore_inv [OF _ _ assms(2)] assms(1)
    by (metis client_good_def prod.collapse)+
  show "step_ok env t db (fst (client_delete env row db))" "step_ok env t db (fst (client_restore env row db))"
    using inv step_ok_refl [OF assms(1)] unfolding client_delete_def client_restore_def
    by (cases "validate_identifier ''row_id'' row"; simp add: update_one_step [OF assms(1)] del: validate_identifier_ok)+
qed

lemma insert_step:
  assumes "client_good env t db" "valid_table t" "reals_exact env t"
  shows "step_ok env t db (fst (client_insert env t row vals db))"
proof -
  have inv: "client_inv env t (fst (client_insert env t row vals db))"
    using client_insert_inv [OF _ _ assms(2,3)] assms(1) by (metis client_good_def prod.collapse)
  moreover have "d_device (fst (client_insert env t row vals db)) = d_device db \<and>
    d_scopes (fst (client_insert env t row vals db)) = d_scopes db \<and>
    d_members (fst (client_insert env t row vals db)) = d_members db"
    by (auto simp: client_insert_def run_tx_def insert_row_frame split: sum.splits)
  ultimately show ?thesis using assms(1) by (intro step_ok_same_scopes) (simp_all add: client_good_def)
qed

subsection \<open>Synchronization\<close>

lemma acknowledge_cells_step:
  assumes "client_good env t db" "client_request_ok t device sent" "acknowledge_cells rejected sent db = Inr db'"
  shows "step_ok env t db db'"
proof -
  have inv: "client_inv env t db" "scopes_inv db" using assms(1) by (simp_all add: client_good_def)
  note spec = acknowledge_cells_spec [OF assms(2) inv(1) assms(3)]
  show ?thesis by (rule step_ok_same_scopes [OF spec(1) inv(2) spec(4,7,8)])
qed

lemma apply_remote_step:
  assumes "client_good env t db" "valid_table t" "reals_exact env t" "apply_remote_payload env t p db = Inr db'"
  shows "step_ok env t db db'"
proof -
  have inv: "client_inv env t db" "scopes_inv db" using assms(1) by (simp_all add: client_good_def)
  note spec = apply_remote_inv [OF inv(1) assms(4,2,3)]
  show ?thesis by (rule step_ok_same_scopes [OF spec(1) inv(2) spec(4,5,6)])
qed

lemma step_ok_trans: "step_ok env t a b \<Longrightarrow> step_ok env t b c \<Longrightarrow> step_ok env t a c"
  using order.trans by (fastforce simp: step_ok_def)

lemma complete_sync_step:
  assumes "client_good env t db" "valid_table t" "reals_exact env t"
    and "rbind (acknowledge_with_response t sent response db) (apply_remote_payload env t response) = Inr db'"
  shows "step_ok env t db db'"
proof -
  obtain db1 where db1: "acknowledge_with_response t sent response db = Inr db1" "apply_remote_payload env t response db1 = Inr db'"
    using assms(4) by auto
  have "step_ok env t db db1"
    using db1(1) acknowledge_cells_step [OF assms(1)] by (auto simp: acknowledge_response_Inr)
  moreover from this have "step_ok env t db1 db'"
    by (intro apply_remote_step [OF _ assms(2,3) db1(2)]) (simp add: step_ok_def)
  ultimately show ?thesis by (rule step_ok_trans)
qed

subsection \<open>Scopes\<close>

lemma scope_insert_step:
  assumes "client_good env t db" "next_scope_version scope db = Inr v"
  shows "step_ok env t db (db\<lparr>d_scopes := bt_insert scope (v, active) (d_scopes db)\<rparr>)"
    "scope_version (db\<lparr>d_scopes := bt_insert scope (v, active) (d_scopes db)\<rparr>) scope = scope_version db scope + 1"
proof -
  have inv: "scopes_inv db" using assms(1) by (simp add: client_good_def)
  have v: "v = scope_version db scope + 1" "v \<le> i64_MAX" "0 < v"
    using assms(2) scope_version_nonneg [OF inv, of scope] by (simp_all add: next_scope_version_Inr)
  then show "scope_version (db\<lparr>d_scopes := bt_insert scope (v, active) (d_scopes db)\<rparr>) scope = scope_version db scope + 1"
    by (simp add: scope_version_def)
  have "scope_version db s \<le> scope_version (db\<lparr>d_scopes := bt_insert scope (v, active) (d_scopes db)\<rparr>) s" for s
    using v(1) by (cases "s = scope") (simp_all add: scope_version_def)
  then show "step_ok env t db (db\<lparr>d_scopes := bt_insert scope (v, active) (d_scopes db)\<rparr>)"
    using assms(1) v(2,3) inv by (auto simp: step_ok_def client_good_def client_inv_scopes scopes_inv_def)
qed

lemma partial_request_Inr:
  assumes "get_partial_replica_request env t scope interest db = Inr (db', rq)"
  obtains v where "next_scope_version scope db = Inr v" "db' = db\<lparr>d_scopes := bt_insert scope (v, True) (d_scopes db)\<rparr>"
    "rq_scope_id rq = scope" "clock_from_i64 v = Inr (rq_scope_version rq)" "get_local_delta env t db' = Inr (rq_sync rq)"
    "request_ok t (source_device_id (rq_sync rq)) rq" "rq_known_member_ids rq = scope_member_ids scope db'"
  using assms by (auto simp: get_partial_replica_request_def Let_def request_validate_iff intro: that)

lemma remove_scope_step:
  assumes "client_good env t db" "remove_partial_replica_scope scope db = Inr db'"
  shows "step_ok env t db db'" "scope_version db' scope = scope_version db scope + 1"
proof -
  obtain v where v: "next_scope_version scope db = Inr v" using assms(2) by (auto simp: remove_partial_replica_scope_def)
  define db1 where "db1 = db\<lparr>d_scopes := bt_insert scope (v, False) (d_scopes db)\<rparr>"
  define db2 where "db2 = mark_evictions scope (scope_member_ids scope db1)
      (db1\<lparr>d_members := filter (\<lambda>e. fst (fst e) \<noteq> scope) (d_members db1)\<rparr>)"
  have db': "db' = cleanup_pending_evictions db2"
    using assms(2) v by (auto simp: remove_partial_replica_scope_def Let_def db1_def db2_def)
  note ins = scope_insert_step [OF assms(1) v, of False, folded db1_def]
  have "client_inv env t db2"
    using ins(1) by (simp add: db2_def mark_evictions_inv client_inv_scopes step_ok_def client_good_def)
  then have inv: "client_inv env t db'" unfolding db' by (rule cleanup_inv)
  have frame: "d_scopes db' = d_scopes db1" "d_device db' = d_device db1"
    "d_members db' = filter (\<lambda>e. fst (fst e) \<noteq> scope) (d_members db1)"
    by (simp_all add: db' db2_def)
  show "scope_version db' scope = scope_version db scope + 1" using ins(2) by (simp add: scope_version_def frame)
  show "step_ok env t db db'"
    using ins(1) inv by (simp add: step_ok_def client_good_def scopes_inv_def scope_version_def frame)
qed

lemma partial_request_step:
  assumes "client_good env t db" "get_partial_replica_request env t scope interest db = Inr (db', rq)"
  shows "step_ok env t db db'" "scope_version db' scope = scope_version db scope + 1"
    "int (unat (rq_scope_version rq)) = scope_version db' scope"
proof -
  obtain v where v: "next_scope_version scope db = Inr v"
    "db' = db\<lparr>d_scopes := bt_insert scope (v, True) (d_scopes db)\<rparr>" "clock_from_i64 v = Inr (rq_scope_version rq)"
    using partial_request_Inr [OF assms(2)] by metis
  show "step_ok env t db db'" "scope_version db' scope = scope_version db scope + 1"
    unfolding v(2) by (rule scope_insert_step [OF assms(1) v(1)])+
  have "0 \<le> v" "v \<le> i64_MAX"
    using v(1) scope_version_nonneg assms(1) by (auto simp: next_scope_version_Inr client_good_def)
  then have "int (unat (rq_scope_version rq)) = v" using v(3) unat_clock [of v] by (simp add: clock_from_i64_ok)
  then show "int (unat (rq_scope_version rq)) = scope_version db' scope" by (simp add: v(2) scope_version_def)
qed

subsection \<open>Every step\<close>

lemma client_step_ok:
  assumes "client_step env t db db'" "client_good env t db" "valid_table t" "reals_exact env t"
  shows "step_ok env t db db'"
  using assms(1)
proof cases
  case insert
  then show ?thesis using insert_step [OF assms(2-4)] by simp
next
  case set_cell
  then show ?thesis using set_step [OF assms(2,4)] by simp
next
  case delete
  then show ?thesis using liveness_step(1) [OF assms(2,4)] by simp
next
  case restore
  then show ?thesis using liveness_step(2) [OF assms(2,4)] by simp
next
  case local_delta
  then show ?thesis unfolding client_local_delta_def
    by (auto intro!: run_tx_step assms(2) step_ok_refl)
next
  case (acknowledge p)
  show ?thesis unfolding acknowledge client_acknowledge_def
    by (rule in_tx_step [OF assms(2)])
      (auto simp: acknowledge_local_delta_def validate_client_request_iff intro: acknowledge_cells_step [OF assms(2)])
next
  case (apply_remote p)
  show ?thesis unfolding apply_remote client_apply_remote_def
    by (rule in_tx_step [OF assms(2)]) (rule apply_remote_step [OF assms(2-4)])
next
  case (complete_sync sent response)
  show ?thesis unfolding complete_sync complete_sync_def
    by (rule in_tx_step [OF assms(2)]) (rule complete_sync_step [OF assms(2-4)])
next
  case reset_cursor
  have "client_inv env t (reset_cursor db)"
    using assms(2) by (simp add: client_good_def reset_cursor_def client_inv_def device_inv_def rows_inv_def log_inv_def log_ok_def)
  then show ?thesis unfolding reset_cursor
    by (rule step_ok_same_scopes) (use assms(2) in \<open>simp_all add: client_good_def reset_cursor_def\<close>)
next
  case (partial_request scope interest)
  show ?thesis unfolding partial_request client_partial_request_def
    by (rule run_tx_step [OF assms(2)]) (rule partial_request_step(1) [OF assms(2)])
next
  case (complete_partial rq rs)
  have "step_ok env t db db2" if "apply_partial_replica_response env t rq rs db = Inr db2" for db2
    using partial_apply_inv [OF _ _ assms(3,4) that] assms(2) by (simp add: step_ok_def client_good_def scope_version_def)
  then show ?thesis unfolding complete_partial complete_partial_replica_sync_def by (rule in_tx_step [OF assms(2)])
next
  case (remove_scope scope)
  show ?thesis unfolding remove_scope client_remove_scope_def
    by (rule in_tx_step [OF assms(2)]) (rule remove_scope_step(1) [OF assms(2)])
qed

lemma client_good_new:
  "identifier_ok device \<Longrightarrow> device \<noteq> SERVER_DEVICE_ID \<Longrightarrow> client_good env t (client_db_new device)"
  by (simp add: client_good_def client_inv_new) (simp add: scopes_inv_def client_db_new_def)


lemma client_steps_ok:
  assumes "(client_step env t)\<^sup>*\<^sup>* db db'" "client_good env t db" "valid_table t" "reals_exact env t"
  shows "step_ok env t db db'"
  using assms(1)
proof induction
  case base
  show ?case by (rule step_ok_refl [OF assms(2)])
next
  case (step db1 db2)
  then have "step_ok env t db1 db2"
    by (intro client_step_ok [OF _ _ assms(3,4)]) (simp_all add: step_ok_def)
  with step.IH show ?case by (rule step_ok_trans)
qed

text \<open>A response to a superseded partial-replica request is rejected. Once a newer request
  for the scope was issued, or the scope was removed, every response to the earlier request is
  refused and leaves the database unchanged, no matter which operations run in between.\<close>

theorem superseded_response_rejected:
  assumes good: "client_inv env t db" "scopes_inv db" "valid_table t" "reals_exact env t"
    and first: "client_partial_request env t scope interest db = (db1, Inr rq)"
    and between: "(client_step env t)\<^sup>*\<^sup>* db1 db2"
    and newer: "client_partial_request env t scope interest' db2 = (db3, Inr rq') \<or>
      client_remove_scope scope db2 = (db3, Inr ())"
    and after: "(client_step env t)\<^sup>*\<^sup>* db3 db4"
  shows "\<exists>e. complete_partial_replica_sync env t rq rs db4 = (db4, Inl e)"
proof -
  have good0: "client_good env t db" using good by (simp add: client_good_def)
  have req: "get_partial_replica_request env t scope interest db = Inr (db1, rq)"
    using first by (simp add: client_partial_request_def run_tx_Inr)
  note one = partial_request_step [OF good0 req]
  have two: "step_ok env t db1 db2"
    by (rule client_steps_ok [OF between _ good(3,4)]) (use one(1) in \<open>simp add: step_ok_def\<close>)
  then have good2: "client_good env t db2" by (simp add: step_ok_def)
  have three: "step_ok env t db2 db3 \<and> scope_version db3 scope = scope_version db2 scope + 1"
    using newer partial_request_step(1,2) [OF good2] remove_scope_step [OF good2]
    by (auto simp: client_partial_request_def client_remove_scope_def run_tx_Inr)
  then have four: "step_ok env t db3 db4"
    by (intro client_steps_ok [OF after _ good(3,4)]) (simp add: step_ok_def)
  have "scope_version db1 scope \<le> scope_version db2 scope" "scope_version db3 scope \<le> scope_version db4 scope"
    using two four by (simp_all add: step_ok_def)
  then have "int (unat (rq_scope_version rq)) < scope_version db4 scope"
    using one(3) three by linarith
  moreover have "rq_scope_id rq = scope" using partial_request_Inr [OF req] by metis
  ultimately have "bt_get (d_scopes db4) (rq_scope_id rq) \<noteq> Some (int (unat (rq_scope_version rq)), True)"
    by (auto simp: scope_version_def)
  then have "apply_partial_replica_response env t rq rs db4 \<noteq> Inr db5" for db5
    by (auto elim: partial_apply_cases)
  then obtain e where "apply_partial_replica_response env t rq rs db4 = Inl e"
    by (cases "apply_partial_replica_response env t rq rs db4") auto
  then show ?thesis by (simp add: complete_partial_replica_sync_def run_tx_def)
qed

end
