(* ===== verification/Sync_Server.thy ===== *)
theory Sync_Server
  imports Partial_Replica
begin

section \<open>The contract of a synchronization server\<close>

text \<open>
  What a client relies on when it talks to a server, whichever of the two it is. The server has a state
  of its own type; \<open>abs\<close> reads it as a state of the reference server. \<open>merge\<close> is one request,
  \<open>shift\<close> what may happen to the server between requests of the table (nothing for the reference; for the
  database other tenants, maintenance and gaps in the sequence), and \<open>room n\<close> says that the counters of
  the server admit \<open>n\<close> more requests.
\<close>

text \<open>\<open>seen s c R\<close>: \<open>R\<close> has every cell of the feed up to the cursor \<open>c\<close>.\<close>

definition seen :: "crdt_state \<Rightarrow> int \<Rightarrow> (cell_key \<times> crdt_column) set \<Rightarrow> bool" where
  "seen s c R \<longleftrightarrow>
     0 \<le> c \<and> c \<le> int (last_write s) \<and>
     (\<forall>k x. bt_get (cells s) k = Some x \<and> int (write_no s k) \<le> c \<longrightarrow> (k, x) \<in> R)"

lemma seen_mono: "seen s c R \<Longrightarrow> R \<subseteq> R' \<Longrightarrow> seen s c R'"
  by (auto simp: seen_def)

text \<open>What the feed keeps: every entry is untouched, or it has a write number above all earlier ones.
  Unlike \<open>grown\<close> this says nothing of the cursors the server remembers having issued.\<close>

definition extends :: "crdt_state \<Rightarrow> crdt_state \<Rightarrow> bool" where
  "extends s s' \<longleftrightarrow>
     state_table s' = state_table s \<and> last_write s \<le> last_write s' \<and>
     (\<forall>k c. bt_get (cells s') k = Some c \<longrightarrow>
        bt_get (cells s) k = Some c \<and> write_no s' k = write_no s k \<or> last_write s < write_no s' k)"

lemma grown_extends: "grown s s' \<Longrightarrow> extends s s'"
  by (simp add: grown_def extends_def)

lemma seen_extends:
  assumes "seen s c R" "extends s s'"
  shows "seen s' c R"
proof -
  have "(k, x) \<in> R" if x: "bt_get (cells s') k = Some x" "int (write_no s' k) \<le> c" for k x
  proof -
    have "bt_get (cells s) k = Some x \<and> write_no s' k = write_no s k \<or> last_write s < write_no s' k"
      using assms(2) x(1) by (simp add: extends_def)
    then show ?thesis using assms(1) x(2) by (auto simp: seen_def)
  qed
  moreover have "last_write s \<le> last_write s'" using assms(2) by (simp add: extends_def)
  ultimately show ?thesis using assms(1) by (auto simp: seen_def)
qed

text \<open>A page that starts at the cursor or at the beginning extends what was seen.\<close>

lemma seen_page:
  assumes "seen s c R" "page_of s eff resp" "eff = c \<or> eff = 0" "feed_inv s"
  shows "seen s (cursor resp) (R \<union> set (payload_cells resp))" "eff \<le> cursor resp"
proof -
  have c: "0 \<le> c" "c \<le> int (last_write s)" using assms(1) by (simp_all add: seen_def)
  have cur: "if has_more resp then eff < cursor resp \<and> cursor resp < int (last_write s) else cursor resp = int (last_write s)"
    using assms(2) by (simp add: page_of_def)
  then show le: "eff \<le> cursor resp" using c assms(3) by (auto split: if_splits)
  have "(k, x) \<in> R \<union> set (payload_cells resp)"
    if x: "bt_get (cells s) k = Some x" "int (write_no s k) \<le> cursor resp" for k x
  proof (cases "eff < int (write_no s k)")
    case True
    then show ?thesis using assms(2) x unfolding page_of_def by blast
  next
    case False
    have "0 < write_no s k" using seq_of_bounds(1) [OF assms(4) x(1)] .
    with False assms(3) have "int (write_no s k) \<le> c" by auto
    then show ?thesis using assms(1) x(1) by (auto simp: seen_def)
  qed
  then show "seen s (cursor resp) (R \<union> set (payload_cells resp))"
    using cur le c assms(3) by (auto simp: seen_def split: if_splits)
qed

locale sync_server =
  fixes merge :: "sync_payload \<Rightarrow> string \<Rightarrow> sync_security \<Rightarrow> 's \<Rightarrow> 's \<times> (sync_error + sync_payload)"
    and shift :: "'s \<Rightarrow> 's \<Rightarrow> bool"
    and abs :: "'s \<Rightarrow> crdt_state"
    and inv :: "'s \<Rightarrow> bool"
    and room :: "nat \<Rightarrow> 's \<Rightarrow> bool"
    and ctx :: "'s \<Rightarrow> string \<Rightarrow> sync_context"
  assumes inv_abs: "inv s \<Longrightarrow> state_inv (abs s)"
    and merge_fails: "merge p d sec s = (s', Inl e) \<Longrightarrow> s' = s"
    and merge_inv: "merge p d sec s = (s', Inr resp) \<Longrightarrow> inv s \<Longrightarrow> room (Suc n) s \<Longrightarrow>
      inv s' \<and> client_request_ok (state_table (abs s)) d p \<and> extends (abs s) (abs s')"
    and merge_run: "merge p d sec s = (s', Inr resp) \<Longrightarrow> inv s \<Longrightarrow> room (Suc n) s \<Longrightarrow>
      lww.run (filter (permitted sec (ctx s d) (bt_get (cells (abs s)))) (payload_cells p)) (bt_get (cells (abs s))) =
        Inr (bt_get (cells (abs s'))) \<and>
      rejections resp = concat (map (rejections_of sec (ctx s d) (bt_get (cells (abs s)))) (payload_cells p)) \<and>
      (\<forall>op\<in>set (payload_cells p). permitted sec (ctx s d) (bt_get (cells (abs s))) op \<or>
         rejections_of sec (ctx s d) (bt_get (cells (abs s))) op \<noteq> [])"
    and merge_page: "merge p d sec s = (s', Inr resp) \<Longrightarrow> inv s \<Longrightarrow> room (Suc n) s \<Longrightarrow>
      page_of (abs s') (if cursor_reset resp then 0 else cursor p) resp"
    and room_step: "merge p d sec s = (s', r) \<Longrightarrow> inv s \<Longrightarrow> room (Suc n) s \<Longrightarrow> room n s'"
    and room_one: "room (Suc n) s \<Longrightarrow> room 1 s"
    and shift_keeps: "shift s s' \<Longrightarrow> inv s \<Longrightarrow> inv s' \<and> extends (abs s) (abs s') \<and>
      bt_get (cells (abs s')) = bt_get (cells (abs s))"
begin

text \<open>A cell of an accepted request is merged or reported.\<close>

lemma merge_delivers:
  assumes mi: "merge p d sec s = (s', Inr resp)" and s: "inv s" "room (Suc n) s"
    and op: "(k, c) \<in> set (payload_cells p)"
      "\<forall>r\<in>set (rejections resp). (rj_todo_id r, rj_column_name r) = k \<longrightarrow> rj_metadata r \<noteq> cmeta c"
  shows "lww.covered (bt_get (cells (abs s')) k) c"
proof -
  let ?m = "bt_get (cells (abs s))" and ?ctx = "ctx s d"
  note spec = merge_run [OF mi s]
  have "rejections_of sec ?ctx ?m (k, c) = []"
  proof (rule ccontr)
    assume "rejections_of sec ?ctx ?m (k, c) \<noteq> []"
    then obtain r where r: "r \<in> set (rejections_of sec ?ctx ?m (k, c))" by (meson list.set_sel(1))
    then have "r \<in> set (rejections resp)" using spec op(1) by auto
    moreover have "rj_todo_id r = fst k" "rj_column_name r = snd k" "rj_metadata r = cmeta c"
      using in_rejections_of [OF r] by simp_all
    ultimately show False using op(2) by auto
  qed
  with spec op(1) have "(k, c) \<in> set (filter (permitted sec ?ctx ?m) (payload_cells p))" by auto
  from lww.run_covers_delivered [OF conjunct1 [OF spec] this] show ?thesis .
qed

lemma merge_covers:
  assumes "merge p d sec s = (s', r)" "inv s" "room (Suc n) s" "lww.covered (bt_get (cells (abs s)) k) x"
  shows "lww.covered (bt_get (cells (abs s')) k) x"
proof (cases r)
  case (Inl e)
  then show ?thesis using assms(1,4) merge_fails by blast
next
  case (Inr resp)
  then have "merge p d sec s = (s', Inr resp)" using assms(1) by simp
  from lww.run_covers [OF conjunct1 [OF merge_run [OF this assms(2,3)]] assms(4)] show ?thesis .
qed

lemma merge_origin:
  assumes "merge p d sec s = (s', Inr resp)" "inv s" "room (Suc n) s" "bt_get (cells (abs s')) k = Some x"
  shows "bt_get (cells (abs s)) k = Some x \<or> (k, x) \<in> set (payload_cells p)"
proof -
  have "bt_get (cells (abs s)) k = Some x \<or>
      (k, x) \<in> set (filter (permitted sec (ctx s d) (bt_get (cells (abs s)))) (payload_cells p))"
    using lww.run_origin [OF conjunct1 [OF merge_run [OF assms(1-3)]] assms(4)] .
  then show ?thesis by auto
qed

text \<open>A client that had seen the feed up to its cursor has, with the response, seen it up to the cursor
  of the response, whether or not its cursor was honoured.\<close>

lemma merge_seen:
  assumes "merge p d sec s = (s', Inr resp)" "inv s" "room (Suc n) s" "seen (abs s) (cursor p) R"
  shows "seen (abs s') (cursor resp) (R \<union> set (payload_cells resp))"
    "\<not> cursor_reset resp \<Longrightarrow> cursor p \<le> cursor resp"
proof -
  note spec = merge_inv [OF assms(1-3)]
  have "feed_inv (abs s')" using inv_abs spec by (simp add: state_inv_def)
  note page = seen_page [OF seen_extends [OF assms(4)] merge_page [OF assms(1-3)] _ this]
  show "seen (abs s') (cursor resp) (R \<union> set (payload_cells resp))" by (rule page(1)) (use spec in auto)
  show "cursor p \<le> cursor resp" if "\<not> cursor_reset resp" using page(2) spec that by simp
qed

end

text \<open>The reference server meets the contract; nothing happens to it between requests.\<close>

interpretation ref_server: sync_server
  "\<lambda>p d sec. merge_with_security json_len p d sec" "\<lambda>s s'. s' = s" "\<lambda>s. s" state_inv
  "\<lambda>n. headroom (20000 * n)" reference_context for json_len
proof
  fix p d sec s s' resp n
  assume merge: "merge_with_security json_len p d sec s = (s', Inr resp)" and inv: "state_inv s"
    and "headroom (20000 * Suc n) s"
  then have head: "headroom 20000 s" by (simp add: headroom_def)
  have mi: "merge_inner json_len p d sec s = Inr (s', resp)" using merge by (simp add: merge_with_security_Inr)
  note spec = merge_inner_spec [OF mi inv head]
  have ok: "client_request_ok (state_table s) d p" using merge_inner_inv [OF mi] by metis
  obtain s1 rjs where loop: "foldM (merge_op sec (reference_context s d)) (payload_cells p) (s, []) = Inr (s1, rjs)"
    using merge_inner_inv [OF mi] by metis
  show "state_inv s' \<and> client_request_ok (state_table s) d p \<and> extends s s'"
    using spec(1) ok grown_extends [OF grown_merge [OF mi inv head]] by simp
  show "lww.run (filter (permitted sec (reference_context s d) (bt_get (cells s))) (payload_cells p)) (bt_get (cells s)) =
        Inr (bt_get (cells s')) \<and>
      rejections resp = concat (map (rejections_of sec (reference_context s d) (bt_get (cells s))) (payload_cells p)) \<and>
      (\<forall>op\<in>set (payload_cells p). permitted sec (reference_context s d) (bt_get (cells s)) op \<or>
         rejections_of sec (reference_context s d) (bt_get (cells s)) op \<noteq> [])"
    using spec(5,6) ref_loop.loop_run [OF loop request_cells_distinct [OF ok], of "bt_get (cells s)"] by blast
  have "effective_cursor s d (cursor p) = (if cursor_reset resp then 0 else cursor p)"
    using spec(8) by (auto simp: effective_cursor_def)
  then show "page_of s' (if cursor_reset resp then 0 else cursor p) resp" using spec(7) by simp
next
  fix p d sec s s' r n
  assume "merge_with_security json_len p d sec s = (s', r)" "state_inv s" "headroom (20000 * Suc n) s"
  then show "headroom (20000 * n) s'" using merge_grows [of json_len p d sec s s' r] by (auto simp: headroom_def)
next
  fix p d sec s s' e
  assume "merge_with_security json_len p d sec s = (s', Inl e)"
  then show "s' = s" by (rule merge_with_security_Inl)
qed (auto simp: headroom_def extends_def)

end
