(* ===== verification/Sync_Loop.thy ===== *)
theory Sync_Loop
  imports Client_Steps Sync_Server
begin

section \<open>A client and a server\<close>

text \<open>
  The composition of the SQLite client with a server that meets the contract \<open>sync_server\<close>: local
  writes, synchronization rounds, responses that are lost after the server merged the request, requests
  of other devices and whatever else happens to the server, in any order. \<open>tracks\<close> is the invariant of
  the composition; it says what the client has seen of the server's feed and what the server has of the
  client's writes. The client subscribes to no scope, so it holds a full replica.
\<close>

definition tracks :: "sqlite_env \<Rightarrow> table_def \<Rightarrow> string \<Rightarrow> client_db \<Rightarrow> crdt_state \<Rightarrow> bool" where
  "tracks env t device db s \<longleftrightarrow>
     client_inv env t db \<and> d_device db = device \<and> d_evictions db = [] \<and>
     state_inv s \<and> state_table s = t \<and>
     seen s (cu_cursor (local_cursor db)) {(k, x). lww.covered (log_view env t db k) x} \<and>
     (\<forall>k x. bt_get (cells s) k = Some x \<and> device_id (cmeta x) = device \<longrightarrow> lww.covered (log_view env t db k) x) \<and>
     (\<forall>k b. log_view env t db k = Some b \<and> k \<notin> dirty_keys db \<longrightarrow> lww.covered (bt_get (cells s) k) b)"

lemma tracks_new:
  assumes "identifier_ok device" "device \<noteq> SERVER_DEVICE_ID"
  shows "tracks env t device (client_db_new device) (crdt_state_new t)"
proof -
  have "client_inv env t (client_db_new device)" by (rule client_inv_new [OF assms])
  then show ?thesis
    using state_inv_new [of t]
    by (simp add: tracks_def client_db_new_def crdt_state_new_def seen_def local_cursor_def log_view_def last_write_def)
qed

subsection \<open>Local writes\<close>

definition captures :: "client_db \<Rightarrow> client_db \<Rightarrow> bool" where
  "captures db db' \<longleftrightarrow>
     d_device db' = d_device db \<and> d_cursor db' = d_cursor db \<and> d_evictions db' = d_evictions db \<and>
     (\<forall>k. bt_get (d_log db') k = bt_get (d_log db) k \<or>
        (\<exists>l. bt_get (d_log db') k = Some l \<and> lg_dirty l \<and>
           (\<forall>l0. bt_get (d_log db) k = Some l0 \<longrightarrow> lg_clock l0 < lg_clock l)))"

lemma captures_refl [simp]: "captures db db"
  by (simp add: captures_def)

lemma update_column_captures:
  assumes "update_column env c row guard w db = Inr (db', n)" "client_inv env t db"
  shows "captures db db'"
  using assms(1)
proof (cases rule: update_column_cases)
  case (fired vals)
  have "lg_clock l < d_lamport db + 1" if "bt_get (d_log db) k = Some l" for k l
    using assms(2) that by (fastforce simp: client_inv_def log_inv_def log_ok_def)
  then show ?thesis by (auto simp: captures_def fired(7) log_capture)
qed (auto simp: captures_def)

lemma capture_all_evictions [simp]: "d_evictions (capture_all env row vals cs db) = d_evictions db"
  by (induction cs arbitrary: db) simp_all

lemma insert_row_captures:
  assumes ins: "insert_row env t row given db = Inr db'" and inv: "client_inv env t db"
  shows "captures db db'"
proof -
  have app: "\<not> d_applying db" using inv by (simp add: client_inv_def)
  have free: "bt_get (d_rows db) row = None" using ins by (auto simp: insert_row_def split: if_splits)
  have none: "bt_get (d_log db) (row, n) = None" for n
  proof (rule ccontr)
    assume "bt_get (d_log db) (row, n) \<noteq> None"
    then obtain l where "bt_get (d_log db) (row, n) = Some l" by auto
    then have "log_ok env t db (row, n) l" using inv by (simp add: client_inv_def log_inv_def)
    with free show False by (auto simp: log_ok_def)
  qed
  define db1 where "db1 = db\<lparr>d_rows := bt_insert row (new_row t given) (d_rows db), d_lamport := d_lamport db + 1\<rparr>"
  have db': "db' = capture_all env row (new_row t given) (synchronized_columns t) db1"
    using ins app by (auto simp: insert_row_def after_insert_def Let_def tick_ok db1_def split: if_splits)
  have db1: "d_log db1 = d_log db" "d_device db1 = d_device db" "d_cursor db1 = d_cursor db"
    "d_evictions db1 = d_evictions db" by (simp_all add: db1_def)
  have "bt_get (d_log db') (r, n) = bt_get (d_log db) (r, n) \<or>
      (\<exists>l. bt_get (d_log db') (r, n) = Some l \<and> lg_dirty l \<and> bt_get (d_log db) (r, n) = None)" for r n
    using none by (auto simp: db' log_capture_all db1)
  then show ?thesis using db1(2-4) unfolding captures_def db' capture_all_sel capture_all_evictions by fastforce
qed

lemma lg_version_less:
  assumes "log_ok env t db k l" "log_ok env t db' k' l'" "lg_clock l < lg_clock l'" "d_lamport db' \<le> i64_MAX"
  shows "lg_version l < lg_version l'"
proof -
  have "0 \<le> lg_clock l" "0 \<le> lg_clock l'" "lg_clock l' \<le> i64_MAX" "lg_clock l \<le> i64_MAX"
    using assms by (simp_all add: log_ok_def)
  then have "int (unat (word_of_int (lg_clock l) :: u64)) < int (unat (word_of_int (lg_clock l') :: u64))"
    using assms(3) by (simp only: unat_clock)
  then have "(word_of_int (lg_clock l) :: u64) < word_of_int (lg_clock l')" by (simp add: word_less_def)
  then show ?thesis by (simp add: lg_version_def less_column_metadata_def)
qed

lemma log_view_key:
  "bt_get (d_log db') k = bt_get (d_log db) k \<Longrightarrow> log_view env t db' k = log_view env t db k"
  by (simp add: log_view_def)

lemma log_view_version:
  assumes "log_inv env t db" "bt_get (d_log db) k = Some l"
  obtains b where "log_view env t db k = Some b" "cmeta b = lg_version l"
  using log_view_Some [OF assms] by (metis crdt_column.select_convs(2) lg_version_def)

lemma captures_covered:
  assumes "captures db db'" "client_inv env t db" "client_inv env t db'" "lww.covered (log_view env t db k) x"
  shows "lww.covered (log_view env t db' k) x"
proof (cases "bt_get (d_log db') k = bt_get (d_log db) k")
  case True
  then show ?thesis using assms(4) log_view_key by metis
next
  case False
  then obtain l' where l': "bt_get (d_log db') k = Some l'" "\<And>l. bt_get (d_log db) k = Some l \<Longrightarrow> lg_clock l < lg_clock l'"
    using assms(1) unfolding captures_def by metis
  obtain b where b: "log_view env t db k = Some b" using assms(4) by (auto simp: lww.covered_def)
  then obtain l where l: "bt_get (d_log db) k = Some l" by (auto simp: log_view_def split: option.splits)
  have inv: "log_inv env t db" "log_inv env t db'" "d_lamport db' \<le> i64_MAX"
    using assms(2,3) by (simp_all add: client_inv_def device_inv_def)
  have "lg_version l < lg_version l'"
    using lg_version_less [of env t db k l db' k l'] inv l l' by (simp add: log_inv_def)
  moreover obtain b' where "log_view env t db' k = Some b'" "cmeta b' = lg_version l'"
    by (rule log_view_version [OF inv(2) l'(1)])
  moreover have "cmeta b = lg_version l" using log_view_version [OF inv(1) l] b by (metis option.inject)
  ultimately show ?thesis using assms(4) b lww.covered_newer [of b x b'] by simp
qed

lemma captures_tracks:
  assumes tr: "tracks env t device db s" and cap: "captures db db'" and inv: "client_inv env t db'"
  shows "tracks env t device db' s"
proof -
  have inv0: "client_inv env t db" using tr by (simp add: tracks_def)
  note cov = captures_covered [OF cap inv0 inv]
  have cur: "local_cursor db' = local_cursor db" using cap by (simp add: captures_def local_cursor_def)
  have "seen s (cu_cursor (local_cursor db')) {(k, x). lww.covered (log_view env t db' k) x}"
    unfolding cur by (rule seen_mono [of _ _ "{(k, x). lww.covered (log_view env t db k) x}"])
      (use tr cov in \<open>auto simp: tracks_def\<close>)
  moreover have "lww.covered (bt_get (cells s) k) b" if b: "log_view env t db' k = Some b" "k \<notin> dirty_keys db'" for k b
  proof -
    have same: "bt_get (d_log db') k = bt_get (d_log db) k"
      using cap b(2) unfolding captures_def dirty_keys_def by blast
    then have "log_view env t db k = Some b" "k \<notin> dirty_keys db" using b log_view_key [OF same] by (auto simp: dirty_keys_def)
    then show ?thesis using tr by (simp add: tracks_def)
  qed
  ultimately show ?thesis using tr inv cap cov by (simp add: tracks_def captures_def)
qed

subsection \<open>The client completes the exchange\<close>

lemma settle_view:
  assumes "bt_get (d_log db') k = map_option (settle rej es k) (bt_get (d_log db) k)"
  shows "log_view env t db' k = log_view env t db k"
  using assms by (cases "bt_get (d_log db) k") (simp_all add: log_view_def decode_log_cell_def)

lemma acknowledge_tracks:
  assumes tr: "tracks env t device db s" and ack: "acknowledge_cells rej p db = Inr db'"
    and ok: "client_request_ok t device p"
    and sent: "\<forall>(k, c)\<in>set (payload_cells p). log_view env t db k = Some c"
    and deliv: "\<forall>(k, c)\<in>set (payload_cells p). (k, cmeta c) \<notin> rej \<longrightarrow> lww.covered (bt_get (cells s) k) c"
  shows "tracks env t device db' s" "log_view env t db' = log_view env t db"
    "dirty_keys db' = {k \<in> dirty_keys db. \<forall>l. bt_get (d_log db) k = Some l \<longrightarrow> \<not> acked rej (payload_cells p) k l}"
proof -
  have inv: "client_inv env t db" using tr by (simp add: tracks_def)
  note spec = acknowledge_cells_spec [OF ok inv ack]
  have "\<not> released rej (payload_cells p) db row" for row
    using tr by (simp add: released_def is_pending_def tracks_def)
  then have log: "bt_get (d_log db') k = map_option (settle rej (payload_cells p) k) (bt_get (d_log db) k)" for k
    by (simp add: spec(3))
  then show view: "log_view env t db' = log_view env t db" using settle_view by blast
  show dirty: "dirty_keys db' = {k \<in> dirty_keys db. \<forall>l. bt_get (d_log db) k = Some l \<longrightarrow> \<not> acked rej (payload_cells p) k l}"
    unfolding dirty_keys_def log by auto
  have "lww.covered (bt_get (cells s) k) b" if b: "log_view env t db k = Some b" "k \<notin> dirty_keys db'" for k b
  proof (cases "k \<in> dirty_keys db")
    case False
    then show ?thesis using tr b by (simp add: tracks_def)
  next
    case True
    then obtain c where c: "(k, c) \<in> set (payload_cells p)" "(k, cmeta c) \<notin> rej"
      using b(2) unfolding dirty by (auto simp: acked_def)
    with sent b(1) have "c = b" by auto
    with deliv c show ?thesis by blast
  qed
  moreover have "d_evictions db' = []"
  proof -
    obtain db1 where "db' = cleanup_pending_evictions db1" "same_but_log db db1"
      using acknowledge_cells_eq [OF ok, of rej db] ack by (metis sum.inject(2))
    with tr show ?thesis by (simp add: cleanup_pending_evictions_def pending_evictions_def same_but_log_def tracks_def)
  qed
  moreover have "local_cursor db' = local_cursor db" using spec(6) by (simp add: local_cursor_def)
  ultimately show "tracks env t device db' s" using tr spec(1,4) by (simp add: tracks_def view)
qed

lemma apply_tracks:
  assumes tr: "tracks env t device db s" and app: "apply_remote_payload env t resp db = Inr db'"
    and t: "valid_table t" "reals_exact env t"
    and page: "\<forall>(k, c)\<in>set (payload_cells resp). bt_get (cells s) k = Some c"
    and fol: "seen s (cursor resp) ({(k, x). lww.covered (log_view env t db k) x} \<union> set (payload_cells resp))"
    and cur: "\<not> cursor_reset resp \<longrightarrow> cu_cursor (local_cursor db) \<le> cursor resp"
  shows "tracks env t device db' s" "dirty_keys db' \<subseteq> dirty_keys db" "cu_cursor (local_cursor db') = cursor resp"
    "\<And>k x. lww.covered (log_view env t db k) x \<Longrightarrow> lww.covered (log_view env t db' k) x"
proof -
  have inv: "client_inv env t db" using tr by (simp add: tracks_def)
  note spec = apply_remote_inv [OF inv app t]
  note run = apply_remote_run [OF inv app t]
  note change = apply_remote_change [OF app]
  have log': "log_inv env t db'" using spec(1) by (simp add: client_inv_def)
  show dirty: "dirty_keys db' \<subseteq> dirty_keys db"
  proof
    fix k assume "k \<in> dirty_keys db'"
    then obtain l where l: "bt_get (d_log db') k = Some l" "lg_dirty l" by (auto simp: dirty_keys_def)
    then have "bt_get (d_log db') k = bt_get (d_log db) k"
      using change unfolding log_change_def stored_cell_def by (metis log_cell.select_convs(4) option.inject)
    with l show "k \<in> dirty_keys db" by (simp add: dirty_keys_def)
  qed
  show cur': "cu_cursor (local_cursor db') = cursor resp"
    using cur spec(3) by (auto simp: local_cursor_def next_cursor_row_def max_def split: option.splits)
  show keeps: "lww.covered (log_view env t db' k) x" if "lww.covered (log_view env t db k) x" for k x
    using lww.run_covers [OF run that] .
  have "lww.covered (log_view env t db' k) x"
    if "lww.covered (log_view env t db k) x \<or> (k, x) \<in> set (payload_cells resp)" for k x
    using that keeps lww.run_covers_delivered [OF run] by blast
  then have "seen s (cu_cursor (local_cursor db')) {(k, x). lww.covered (log_view env t db' k) x}"
    unfolding cur' by (intro seen_mono [OF fol]) auto
  moreover have "lww.covered (bt_get (cells s) k) b" if b: "log_view env t db' k = Some b" "k \<notin> dirty_keys db'" for k b
  proof -
    consider "bt_get (d_log db') k = bt_get (d_log db) k"
      | c where "(k, c) \<in> set (payload_cells resp)" "bt_get (d_log db') k = Some (stored_cell env c)"
      using change unfolding log_change_def by blast
    then show ?thesis
    proof cases
      case 1
      then have "log_view env t db k = Some b" "k \<notin> dirty_keys db" using b log_view_key [OF 1] by (auto simp: dirty_keys_def)
      then show ?thesis using tr by (simp add: tracks_def)
    next
      case 2
      have "cmeta b = cmeta c"
        using log_view_version [OF log' 2(2)] b(1) by (auto simp: lg_version_def stored_cell_def)
      moreover have "log_view env t db k = Some b \<or> (k, b) \<in> set (payload_cells resp)"
        by (rule lww.run_origin [OF run b(1)])
      moreover have "lww.covered (log_view env t db' k) c" by (rule lww.run_covers_delivered [OF run 2(1)])
      ultimately show ?thesis using page 2(1) b(1) value_eq_sym by (auto simp: lww.covered_def)
    qed
  qed
  moreover have "lww.covered (log_view env t db' k) x"
    if "bt_get (cells s) k = Some x" "device_id (cmeta x) = device" for k x
    using lww.run_covers [OF run] tr that by (simp add: tracks_def)
  ultimately show "tracks env t device db' s" using tr spec(1,4,7) by (simp add: tracks_def)
qed

subsection \<open>Every interleaving\<close>

text \<open>The writes of the application, successful or not.\<close>

inductive local_write :: "sqlite_env \<Rightarrow> table_def \<Rightarrow> client_db \<Rightarrow> client_db \<Rightarrow> bool" for env t where
  w_insert: "local_write env t db (fst (client_insert env t row vals db))"
| w_set: "local_write env t db (fst (client_set env t row column v db))"
| w_delete: "local_write env t db (fst (client_delete env row db))"
| w_restore: "local_write env t db (fst (client_restore env row db))"

lemma update_one_captures:
  assumes "client_inv env t db"
  shows "captures db (fst (update_one env c row guard w msg db))"
  using update_column_captures [OF _ assms] by (auto simp: update_one_def run_tx_def split: sum.splits)

lemma local_write_captures:
  assumes "local_write env t db db'" "client_inv env t db"
  shows "captures db db'"
  using assms(1)
proof (cases rule: local_write.cases)
  case (w_insert row vals)
  then show ?thesis
    using insert_row_captures [OF _ assms(2)] by (auto simp: client_insert_def run_tx_def split: sum.splits)
qed (use update_one_captures [OF assms(2)] in \<open>simp_all add: client_set_def client_delete_def client_restore_def split: sum.split\<close>)

lemma local_write_tracks:
  assumes "local_write env t db db'" "tracks env t device db s" "valid_table t" "reals_exact env t"
  shows "tracks env t device db' s" "lww.covered (log_view env t db k) x \<Longrightarrow> lww.covered (log_view env t db' k) x"
proof -
  have inv: "client_inv env t db" using assms(2) by (simp add: tracks_def)
  have inv': "client_inv env t db'"
    using assms(1)
  proof (cases rule: local_write.cases)
    case (w_insert row vals)
    then show ?thesis using client_insert_inv [OF _ inv assms(3,4)] by (metis prod.collapse)
  next
    case (w_set row column v)
    then show ?thesis using client_set_inv [OF _ inv assms(4)] by (metis prod.collapse)
  next
    case (w_delete row)
    then show ?thesis using client_delete_inv [OF _ inv assms(4)] by (metis prod.collapse)
  next
    case (w_restore row)
    then show ?thesis using client_restore_inv [OF _ inv assms(4)] by (metis prod.collapse)
  qed
  have cap: "captures db db'" by (rule local_write_captures [OF assms(1) inv])
  show "tracks env t device db' s" by (rule captures_tracks [OF assms(2) cap inv'])
  show "lww.covered (log_view env t db' k) x" if "lww.covered (log_view env t db k) x"
    by (rule captures_covered [OF cap inv inv' that])
qed

lemma client_local_delta_cases:
  obtains (failed) e where "client_local_delta env t db = (db, Inl e)"
  | (built) p where "get_local_delta env t db = Inr p" "client_local_delta env t db = (db, Inr p)"
  by (cases "get_local_delta env t db") (auto simp: client_local_delta_def run_tx_def)

lemma sync_with_cases:
  assumes "sync_with env t transport (db, s) = ((db', s'), r)"
  obtains (not_sent) e where "db' = db" "s' = s" "r = Inl e"
  | (no_response) p e where "get_local_delta env t db = Inr p" "transport p s = (s', Inl e)" "db' = db" "r = Inl e"
  | (not_applied) p resp e where "get_local_delta env t db = Inr p" "transport p s = (s', Inr resp)"
      "complete_sync env t p resp db = (db', Inl e)" "r = Inl e"
  | (completed) p resp u where "get_local_delta env t db = Inr p" "transport p s = (s', Inr resp)"
      "complete_sync env t p resp db = (db', Inr u)" "r = Inr resp"
proof (cases rule: client_local_delta_cases [of env t db])
  case (failed e)
  then show ?thesis using assms that(1) by (auto simp: sync_with_def)
next
  case (built p)
  show ?thesis
    using assms that(2-4) [OF built(1)] by (auto simp: sync_with_def built(2) split: prod.splits sum.splits)
qed

text \<open>\<open>world merge shift room env t device s0 db s M\<close>: the client started with a fresh database and the
  server in \<open>s0\<close>; now the database is \<open>db\<close>, the server is in state \<open>s\<close>, and \<open>M\<close> holds the requests the
  client ever built. The network may lose a request, or deliver it late, reordered or repeatedly, and it
  may lose the response; a round in which it does none of this is \<open>sync_with\<close>. Other devices send what
  they like, under any policy.\<close>

inductive world ::
  "(sync_payload \<Rightarrow> string \<Rightarrow> sync_security \<Rightarrow> 's \<Rightarrow> 's \<times> (sync_error + sync_payload)) \<Rightarrow> ('s \<Rightarrow> 's \<Rightarrow> bool) \<Rightarrow>
   (nat \<Rightarrow> 's \<Rightarrow> bool) \<Rightarrow> sqlite_env \<Rightarrow> table_def \<Rightarrow> string \<Rightarrow> 's \<Rightarrow> client_db \<Rightarrow> 's \<Rightarrow> sync_payload set \<Rightarrow> bool"
  for merge shift room env t device s0 where
  w_fresh: "world merge shift room env t device s0 (client_db_new device) s0 {}"
| w_write: "world merge shift room env t device s0 db s M \<Longrightarrow> local_write env t db db' \<Longrightarrow>
    world merge shift room env t device s0 db' s M"
| w_other: "world merge shift room env t device s0 db s M \<Longrightarrow> other \<noteq> device \<Longrightarrow> room 1 s \<Longrightarrow>
    merge p other security s = (s', r) \<Longrightarrow> world merge shift room env t device s0 db s' M"
| w_shift: "world merge shift room env t device s0 db s M \<Longrightarrow> shift s s' \<Longrightarrow>
    world merge shift room env t device s0 db s' M"
| w_request: "world merge shift room env t device s0 db s M \<Longrightarrow> get_local_delta env t db = Inr p \<Longrightarrow>
    world merge shift room env t device s0 db s (insert p M)"
| w_deliver: "world merge shift room env t device s0 db s M \<Longrightarrow> p \<in> M \<Longrightarrow> room 1 s \<Longrightarrow>
    merge p device security s = (s', r) \<Longrightarrow> world merge shift room env t device s0 db s' M"
| w_round: "world merge shift room env t device s0 db s M \<Longrightarrow> room 1 s \<Longrightarrow>
    sync_with env t (\<lambda>p. merge p device security) (db, s) = ((db', s'), r) \<Longrightarrow>
    world merge shift room env t device s0 db' s' M"

definition sent_covered :: "sqlite_env \<Rightarrow> table_def \<Rightarrow> client_db \<Rightarrow> sync_payload set \<Rightarrow> bool" where
  "sent_covered env t db M \<longleftrightarrow> (\<forall>p\<in>M. \<forall>(k, c)\<in>set (payload_cells p). lww.covered (log_view env t db k) c)"

lemma sent_covered_mono:
  assumes "sent_covered env t db M" "\<And>k x. lww.covered (log_view env t db k) x \<Longrightarrow> lww.covered (log_view env t db' k) x"
  shows "sent_covered env t db' M"
  using assms by (fastforce simp: sent_covered_def)

lemma delta_in_log:
  assumes "client_inv env t db" "get_local_delta env t db = Inr p"
  shows "set (payload_cells p) = {(k, c). k \<in> dirty_keys db \<and> log_view env t db k = Some c}"
  unfolding local_delta_Inr(1) [OF assms]
  by (rule delta_cells(1)) (use assms(1) in \<open>simp add: client_inv_def\<close>)

lemma delta_acked:
  assumes "client_inv env t db" "get_local_delta env t db = Inr p" "k \<in> dirty_keys db" "bt_get (d_log db) k = Some l"
  shows "acked {} (payload_cells p) k l"
proof -
  have log: "log_inv env t db" using assms(1) by (simp add: client_inv_def)
  obtain b where b: "log_view env t db k = Some b" "cmeta b = lg_version l"
    by (rule log_view_version [OF log assms(4)])
  have "log_ok env t db k l" using log assms(4) by (simp add: log_inv_def)
  then have "int (unat (word_of_int (lg_clock l) :: u64)) = lg_clock l"
    using assms(1) by (intro unat_clock) (auto simp: log_ok_def client_inv_def device_inv_def)
  moreover have "(k, b) \<in> set (payload_cells p)" using b(1) assms(3) by (simp add: delta_in_log [OF assms(1,2)])
  ultimately show ?thesis unfolding acked_def using b(2) by (intro exI [of _ b]) (simp add: lg_version_def)
qed

text \<open>Two cells agree when they have the same version and equal values.\<close>

definition agree :: "crdt_column \<Rightarrow> crdt_column \<Rightarrow> bool" where
  "agree a b \<longleftrightarrow> cmeta a = cmeta b \<and> (cvalue a = cvalue b \<or> value_eq (cvalue a) (cvalue b))"

lemma covered_agree:
  assumes "lww.covered (Some a) b" "lww.covered (Some b) a"
  shows "agree a b"
  using lww.covered_antisym [OF assms] by (auto simp: agree_def)

subsection \<open>Against any server that meets the contract\<close>

context sync_server
begin

text \<open>A merge keeps the invariant, whoever sent the request and however late it arrives: cells of this
  device come from its own log.\<close>

lemma merge_tracks:
  assumes tr: "tracks env t device db (abs s)" and s: "inv s" "room 1 s"
    and merge: "merge p other security s = (s', r)"
    and own: "other = device \<Longrightarrow> \<forall>(k, c)\<in>set (payload_cells p). lww.covered (log_view env t db k) c"
  shows "tracks env t device db (abs s')" "inv s'"
proof -
  have room: "room (Suc 0) s" using s(2) by simp
  have "tracks env t device db (abs s') \<and> inv s'"
  proof (cases r)
    case (Inl e)
    then show ?thesis using merge merge_fails tr s(1) by blast
  next
    case (Inr resp)
    then have ok: "merge p other security s = (s', Inr resp)" using merge by simp
    note spec = merge_inv [OF ok s(1) room]
    have tab: "state_table (abs s) = t" "state_table (abs s') = t"
      using tr spec by (simp_all add: tracks_def extends_def)
    have mine: "lww.covered (log_view env t db k) x"
      if x: "bt_get (cells (abs s')) k = Some x" "device_id (cmeta x) = device" for k x
      using merge_origin [OF ok s(1) room x(1)]
    proof
      assume "bt_get (cells (abs s)) k = Some x"
      then show ?thesis using tr x(2) by (simp add: tracks_def)
    next
      assume p: "(k, x) \<in> set (payload_cells p)"
      then have "other = device" using spec x(2) by (auto simp: client_request_ok_def)
      with own p show ?thesis by auto
    qed
    have "lww.covered (bt_get (cells (abs s')) k) b" if "log_view env t db k = Some b" "k \<notin> dirty_keys db" for k b
      using merge_covers [OF ok s(1) room] tr that by (simp add: tracks_def)
    moreover have "seen (abs s') (cu_cursor (local_cursor db)) {(k, x). lww.covered (log_view env t db k) x}"
      using seen_extends spec tr by (auto simp: tracks_def)
    ultimately show ?thesis using tr mine spec tab inv_abs by (simp add: tracks_def)
  qed
  then show "tracks env t device db (abs s')" "inv s'" by simp_all
qed

lemma shift_tracks:
  assumes "tracks env t device db (abs s)" "inv s" "shift s s'"
  shows "tracks env t device db (abs s')" "inv s'"
proof -
  note keeps = shift_keeps [OF assms(3,2)]
  then show "inv s'" by simp
  have "seen (abs s') (cu_cursor (local_cursor db)) {(k, x). lww.covered (log_view env t db k) x}"
    using seen_extends keeps assms(1) by (auto simp: tracks_def)
  moreover have "state_table (abs s') = t" using keeps assms(1) by (simp add: extends_def tracks_def)
  ultimately show "tracks env t device db (abs s')" using assms(1) keeps inv_abs by (simp add: tracks_def)
qed

lemma round_tracks:
  assumes tr: "tracks env t device db (abs s)" and s: "inv s" "room 1 s" and t: "valid_table t" "reals_exact env t"
    and delta: "get_local_delta env t db = Inr p"
    and merge: "merge p device security s = (s', Inr resp)"
    and compl: "complete_sync env t p resp db = (db', Inr u)"
  shows "tracks env t device db' (abs s')" "cu_cursor (local_cursor db') = cursor resp"
    "rejections resp = [] \<Longrightarrow> dirty_keys db' = {}"
    "\<not> has_more resp \<Longrightarrow> cursor resp = int (last_write (abs s'))"
    "\<And>k x. lww.covered (log_view env t db k) x \<Longrightarrow> lww.covered (log_view env t db' k) x"
proof -
  have room: "room (Suc 0) s" using s(2) by simp
  have inv: "client_inv env t db" "d_device db = device" using tr by (simp_all add: tracks_def)
  note p = local_delta_Inr [OF inv(1) delta]
  have sent: "\<forall>(k, c)\<in>set (payload_cells p). log_view env t db k = Some c"
    using delta_in_log [OF inv(1) delta] by auto
  have tr': "tracks env t device db (abs s')"
    by (rule merge_tracks(1) [OF tr s merge]) (use sent in auto)
  obtain db1 where ack: "acknowledge_cells (rejected_versions resp) p db = Inr db1"
    and app: "apply_remote_payload env t resp db1 = Inr db'"
    using compl by (auto simp: complete_sync_Inr acknowledge_response_Inr)
  have deliv: "\<forall>(k, c)\<in>set (payload_cells p). (k, cmeta c) \<notin> rejected_versions resp \<longrightarrow>
      lww.covered (bt_get (cells (abs s')) k) c"
    using merge_delivers [OF merge s(1) room] by (force simp: rejected_versions_def)
  note ack1 = acknowledge_tracks [OF tr' ack p(2) [unfolded inv(2)] sent deliv]
  have cur: "cursor p = cu_cursor (local_cursor db)" by (simp add: p(1))
  have cur1: "local_cursor db1 = local_cursor db"
    using acknowledge_cells_spec(6) [OF p(2) inv(1) ack] by (simp add: local_cursor_def)
  have "seen (abs s) (cursor p) {(k, x). lww.covered (log_view env t db k) x}" using tr cur by (simp add: tracks_def)
  note page = merge_seen [OF merge s(1) room this]
  have page_of: "page_of (abs s') (if cursor_reset resp then 0 else cursor p) resp" by (rule merge_page [OF merge s(1) room])
  have in_s': "\<forall>(k, c)\<in>set (payload_cells resp). bt_get (cells (abs s')) k = Some c"
    using page_of by (auto simp: page_of_def)
  note app1 = apply_tracks [OF ack1(1) app t in_s' page(1) [folded ack1(2)]]
  have le: "\<not> cursor_reset resp \<longrightarrow> cu_cursor (local_cursor db1) \<le> cursor resp" using page(2) cur cur1 by simp
  show "tracks env t device db' (abs s')" "cu_cursor (local_cursor db') = cursor resp" by (rule app1 [OF le])+
  show "lww.covered (log_view env t db' k) x" if "lww.covered (log_view env t db k) x" for k x
    using app1(4) [OF le] that by (simp add: ack1(2))
  show "cursor resp = int (last_write (abs s'))" if "\<not> has_more resp" using page_of that by (simp add: page_of_def)
  show "dirty_keys db' = {}" if rej: "rejections resp = []"
  proof -
    have "rejected_versions resp = {}" using rej by (simp add: rejected_versions_def)
    then have "dirty_keys db1 = {}"
      unfolding ack1(3) using delta_acked [OF inv(1) delta] by (auto simp: dirty_keys_def)
    with app1(2) [OF le] show ?thesis by blast
  qed
qed

lemma round_step:
  assumes tr: "tracks env t device db (abs s)" and s: "inv s" "room (Suc n) s" and t: "valid_table t" "reals_exact env t"
    and round: "sync_with env t (\<lambda>p. merge p device security) (db, s) = ((db', s'), r)"
  shows "tracks env t device db' (abs s')" "inv s'" "r = Inr resp \<Longrightarrow> room n s'"
    "lww.covered (log_view env t db k) x \<Longrightarrow> lww.covered (log_view env t db' k) x"
proof -
  have inv: "client_inv env t db" using tr by (simp add: tracks_def)
  have one: "room 1 s" using room_one [OF s(2)] .
  have merged: "tracks env t device db (abs s1) \<and> inv s1 \<and> room n s1"
    if "get_local_delta env t db = Inr p" "merge p device security s = (s1, r1)" for p s1 r1
  proof -
    have own: "\<forall>(k, c)\<in>set (payload_cells p). lww.covered (log_view env t db k) c"
      using delta_in_log [OF inv that(1)] by auto
    show ?thesis using merge_tracks [OF tr s(1) one that(2)] own room_step [OF that(2) s] by blast
  qed
  have "tracks env t device db' (abs s') \<and> inv s' \<and> (r = Inr resp \<longrightarrow> room n s') \<and>
      (lww.covered (log_view env t db k) x \<longrightarrow> lww.covered (log_view env t db' k) x)"
    using round
  proof (cases rule: sync_with_cases)
    case (not_applied p resp e)
    then have "db' = db" using run_tx_Inl unfolding complete_sync_def by blast
    with merged [OF not_applied(1,2)] show ?thesis by simp
  next
    case (completed p resp u)
    with merged [OF completed(1,2)] round_tracks(1,5) [OF tr s(1) one t completed(1,2,3)] show ?thesis by simp
  qed (use tr s merged in auto)
  then show "tracks env t device db' (abs s')" "inv s'" "r = Inr resp \<Longrightarrow> room n s'"
    "lww.covered (log_view env t db k) x \<Longrightarrow> lww.covered (log_view env t db' k) x" by blast+
qed

lemma world_tracks:
  assumes "world merge shift room env t device s0 db s M" "valid_table t" "reals_exact env t"
    and "inv s0" "tracks env t device (client_db_new device) (abs s0)"
  shows "tracks env t device db (abs s) \<and> sent_covered env t db M \<and> inv s"
  using assms(1)
proof (induction rule: world.induct)
  case w_fresh
  then show ?case using assms(4,5) by (simp add: sent_covered_def)
next
  case (w_write db s M db')
  then show ?case
    using local_write_tracks [OF w_write.hyps(2) _ assms(2,3)] sent_covered_mono by blast
next
  case (w_other db s M other p security s' r)
  then show ?case using merge_tracks [of env t device db s p other security s' r] by blast
next
  case (w_shift db s M s')
  then show ?case using shift_tracks by blast
next
  case (w_request db s M p)
  have "set (payload_cells p) = {(k, c). k \<in> dirty_keys db \<and> log_view env t db k = Some c}"
    by (rule delta_in_log [OF _ w_request.hyps(2)]) (use w_request.IH in \<open>simp add: tracks_def\<close>)
  with w_request.IH show ?case by (auto simp: sent_covered_def)
next
  case (w_deliver db s M p security s' r)
  then have own: "\<forall>(k, c)\<in>set (payload_cells p). lww.covered (log_view env t db k) c"
    by (simp add: sent_covered_def)
  with w_deliver show ?case using merge_tracks [of env t device db s p device security s' r] by blast
next
  case (w_round db s M security db' s' r)
  then have IH: "tracks env t device db (abs s)" "inv s" "room (Suc 0) s" "sent_covered env t db M" by simp_all
  note step = round_step [OF IH(1-3) assms(2,3) w_round.hyps(3)]
  from sent_covered_mono [OF IH(4) step(4)] step(1,2) show ?case by simp
qed

text \<open>The last page: the client covers the whole server, and what it has no dirty entry for is covered
  by the server.\<close>

lemma sync_pages_last:
  assumes "sync_pages n env t (\<lambda>p. merge p device security) (db, s) = ((db', s'), Inr resp)"
    and "tracks env t device db (abs s)" "inv s" "room n s" "valid_table t" "reals_exact env t"
  shows "\<exists>db1 s1. tracks env t device db1 (abs s1) \<and> inv s1 \<and> room 1 s1 \<and> \<not> has_more resp \<and>
    sync_with env t (\<lambda>p. merge p device security) (db1, s1) = ((db', s'), Inr resp)"
  using assms
proof (induction n arbitrary: db s)
  case (Suc n)
  obtain db1 s1 r where first: "sync_with env t (\<lambda>p. merge p device security) (db, s) = ((db1, s1), r)"
    by (metis surj_pair)
  note step = round_step [OF Suc.prems(2-6) first]
  show ?case
  proof (cases "\<exists>x. r = Inr x \<and> has_more x")
    case True
    then obtain x where x: "r = Inr x" "has_more x" by blast
    then have "sync_pages n env t (\<lambda>p. merge p device security) (db1, s1) = ((db', s'), Inr resp)"
      using Suc.prems(1) by (simp add: first)
    then show ?thesis using Suc.IH [OF _ step(1,2) step(3) [OF x(1)] Suc.prems(5,6)] by blast
  next
    case False
    then have "r = Inr resp" "db1 = db'" "s1 = s'" "\<not> has_more resp"
      using Suc.prems(1) by (auto simp: first split: sum.splits if_splits)
    then show ?thesis using Suc.prems(2,3) room_one [OF Suc.prems(4)] first by blast
  qed
qed simp

lemma caught_up:
  assumes "tracks env t device db (abs s)" "cu_cursor (local_cursor db) = int (last_write (abs s))"
    and x: "bt_get (cells (abs s)) k = Some x"
  shows "lww.covered (log_view env t db k) x"
proof -
  have "seen (abs s) (int (last_write (abs s))) {(k, x). lww.covered (log_view env t db k) x}" and feed: "feed_inv (abs s)"
    using assms(1,2) by (simp_all add: tracks_def state_inv_def)
  with seq_of_bounds [OF feed x] have "(k, x) \<in> {(k, x). lww.covered (log_view env t db k) x}"
    using x unfolding seen_def by auto
  then show ?thesis by simp
qed

lemma converges:
  assumes t: "valid_table t" "reals_exact env t" and start: "inv s0" "tracks env t device (client_db_new device) (abs s0)"
    and world: "world merge shift room env t device s0 db s M" and room: "room MAX_SYNC_PAGES_PER_CALL s"
    and run: "sync_until_caught_up env t (\<lambda>p. merge p device security) (db, s) = ((db', s'), Inr resp)"
  shows "(\<forall>k x. bt_get (cells (abs s')) k = Some x \<longrightarrow> lww.covered (log_view env t db' k) x) \<and>
    (\<forall>k. k \<notin> dirty_keys db' \<longrightarrow> rel_option agree (log_view env t db' k) (bt_get (cells (abs s')) k)) \<and>
    (rejections resp = [] \<longrightarrow> dirty_keys db' = {})"
proof -
  have tr: "tracks env t device db (abs s)" "inv s" using world_tracks [OF world t start] by simp_all
  obtain db1 s1 where last: "tracks env t device db1 (abs s1)" "inv s1" "room 1 s1" "\<not> has_more resp"
    "sync_with env t (\<lambda>p. merge p device security) (db1, s1) = ((db', s'), Inr resp)"
    using sync_pages_last [OF run [unfolded sync_until_caught_up_def] tr room t] by blast
  from last(5) obtain p u where round: "get_local_delta env t db1 = Inr p"
    "merge p device security s1 = (s', Inr resp)" "complete_sync env t p resp db1 = (db', Inr u)"
    by (cases rule: sync_with_cases) auto
  note r = round_tracks [OF last(1-3) t round]
  have up: "lww.covered (log_view env t db' k) x" if "bt_get (cells (abs s')) k = Some x" for k x
    by (rule caught_up [OF r(1) _ that]) (use r(2) r(4) [OF last(4)] in simp)
  have down: "lww.covered (bt_get (cells (abs s')) k) b" if "log_view env t db' k = Some b" "k \<notin> dirty_keys db'" for k b
    using r(1) that by (simp add: tracks_def)
  have "rel_option agree (log_view env t db' k) (bt_get (cells (abs s')) k)" if clean: "k \<notin> dirty_keys db'" for k
  proof (cases "log_view env t db' k")
    case None
    then show ?thesis using up [of k] by (cases "bt_get (cells (abs s')) k") (auto simp: lww.covered_def)
  next
    case (Some b)
    obtain x where x: "bt_get (cells (abs s')) k = Some x" using down [OF Some clean] by (auto simp: lww.covered_def)
    with covered_agree [of b x] up [OF x] down [OF Some clean] Some show ?thesis by simp
  qed
  with up r(3) show ?thesis by blast
qed

end

subsection \<open>Against the reference server\<close>

definition reference_world ::
  "json_len \<Rightarrow> sqlite_env \<Rightarrow> table_def \<Rightarrow> string \<Rightarrow> client_db \<Rightarrow> crdt_state \<Rightarrow> sync_payload set \<Rightarrow> bool" where
  "reference_world json_len env t device =
     world (merge_with_security json_len) (\<lambda>s s'. s' = s) (\<lambda>n. headroom (20000 * n)) env t device (crdt_state_new t)"

lemma reference_world_tracks:
  assumes "reference_world json_len env t device db s M" "valid_table t" "reals_exact env t"
    and "identifier_ok device" "device \<noteq> SERVER_DEVICE_ID"
  shows "tracks env t device db s" "sent_covered env t db M"
  using ref_server.world_tracks [OF assms(1) [unfolded reference_world_def] assms(2,3) state_inv_new tracks_new [OF assms(4,5)]]
  by simp_all

text \<open>Property C1: synchronization converges. Take any history of a client and a server: local writes,
  rounds, requests of other devices, and requests of this client that were lost, delayed, repeated or
  whose response was lost. When \<open>sync_until_caught_up\<close> then succeeds, the client holds a version at
  least as new of every cell of the server; on every cell with no pending local write, the two hold
  the same version and value or neither holds one; and unless the last response rejected a write, no
  local write is pending.\<close>

theorem sync_converges:
  assumes "valid_table t" "reals_exact env t" "identifier_ok device" "device \<noteq> SERVER_DEVICE_ID"
    and "reference_world json_len env t device db s M" "headroom 2000000 s"
    and "sync_until_caught_up env t (\<lambda>p. merge_with_security json_len p device security) (db, s) = ((db', s'), Inr resp)"
  shows "(\<forall>k x. bt_get (cells s') k = Some x \<longrightarrow> lww.covered (log_view env t db' k) x) \<and>
    (\<forall>k. k \<notin> dirty_keys db' \<longrightarrow> rel_option agree (log_view env t db' k) (bt_get (cells s') k)) \<and>
    (rejections resp = [] \<longrightarrow> dirty_keys db' = {})"
  by (rule ref_server.converges [OF assms(1,2) state_inv_new tracks_new [OF assms(3,4)] assms(5) [unfolded reference_world_def] _ assms(7)])
    (use assms(6) in \<open>simp add: limits\<close>)

end
