(* ===== verification/Sync_Live.thy ===== *)
theory Sync_Live
  imports Sync_Loop
begin

section \<open>A round succeeds\<close>

text \<open>
  Nothing that the client and the server can have gone through makes a later round fail: versions
  never clash, because the cells of a device come from its own log, and the response is one the client
  accepts. What remains are the limits of the code on the size of a request and on the clocks.
\<close>

lemma log_view_value:
  assumes "log_inv env t db" "log_view env t db k = Some b"
  shows "value_eq (cvalue b) (cvalue b)" "k \<in> dirty_keys db \<Longrightarrow> device_id (cmeta b) = d_device db"
proof -
  obtain l where l: "bt_get (d_log db) k = Some l" using assms(2) by (auto simp: log_view_def split: option.splits)
  then have ok: "log_ok env t db k l" using assms(1) by (simp add: log_inv_def)
  obtain v where v: "b = \<lparr>cvalue = v, cmeta = ColumnMetadata (word_of_int (lg_clock l)) (lg_device l)\<rparr>" "value_ok t (snd k) v"
    using log_view_Some [OF assms(1) l] assms(2) by (metis option.inject)
  then show "value_eq (cvalue b) (cvalue b)" using value_eq_refl by simp
  show "device_id (cmeta b) = d_device db" if "k \<in> dirty_keys db"
    using ok that l v(1) by (simp add: log_ok_def dirty_keys_def)
qed

lemma tracks_same_value:
  assumes tr: "tracks env t device db s" and x: "bt_get (cells s) k = Some x" and b: "log_view env t db k = Some b"
    and eq: "cmeta x = cmeta b"
  shows "value_eq (cvalue x) (cvalue b)"
proof -
  have log: "log_inv env t db" using tr by (simp add: tracks_def client_inv_def)
  note val = log_view_value [OF log b]
  have "lww.covered (Some b) x \<or> lww.covered (Some x) b"
  proof (cases "k \<in> dirty_keys db")
    case True
    then have "device_id (cmeta x) = device" using val(2) eq tr by (simp add: tracks_def)
    then show ?thesis using tr x b unfolding tracks_def by metis
  next
    case False
    then show ?thesis using tr x b unfolding tracks_def by metis
  qed
  then show ?thesis using eq val(1) value_eq_sym by (auto simp: lww.covered_def)
qed

lemma tracks_no_conflict:
  assumes "tracks env t device db s" "\<forall>(k, c)\<in>set (payload_cells p). log_view env t db k = Some c"
  shows "\<not> list_ex (version_conflict s) (payload_cells p)"
  using assms tracks_same_value by (fastforce simp: list_ex_iff version_conflict_def split: option.splits)

lemma run_tracks_succeeds:
  assumes "tracks env t device db s" "\<forall>(k, c)\<in>set ops. bt_get (cells s) k = Some c"
  shows "\<exists>m. lww.run ops (log_view env t db) = Inr m"
proof (rule lww.run_succeeds)
  fix k c d
  assume cand: "c \<in> lww.candidates (log_view env t db) ops k" "d \<in> lww.candidates (log_view env t db) ops k"
    and eq: "cmeta c = cmeta d"
  have log: "log_inv env t db" "state_inv s" using assms(1) by (simp_all add: tracks_def client_inv_def)
  have stored: "value_eq (cvalue x) (cvalue x)" if "bt_get (cells s) k = Some x" for x
    using log(2) that value_eq_refl by (fastforce simp: state_inv_def cells_inv_def stored_ok_def cell_ok_def)
  consider "log_view env t db k = Some c" "log_view env t db k = Some d"
    | "log_view env t db k = Some c" "bt_get (cells s) k = Some d"
    | "bt_get (cells s) k = Some c" "log_view env t db k = Some d"
    | "bt_get (cells s) k = Some c" "bt_get (cells s) k = Some d"
    using cand assms(2) by (fastforce simp: lww.candidates_def)
  then show "value_eq (cvalue c) (cvalue d)"
  proof cases
    case 1
    then show ?thesis using log_view_value(1) [OF log(1)] by simp
  next
    case 2
    then show ?thesis using tracks_same_value [OF assms(1)] eq value_eq_sym by metis
  next
    case 3
    then show ?thesis using tracks_same_value [OF assms(1)] eq by metis
  next
    case 4
    then show ?thesis using stored by simp
  qed
qed

text \<open>The client completes every exchange whose answer is valid.\<close>

context sync_server
begin

lemma round_completes:
  assumes tr: "tracks env t device db (abs s)" and s: "inv s" "room 1 s" and t: "valid_table t" "reals_exact env t"
    and delta: "get_local_delta env t db = Inr p" and merge: "merge p device security s = (s', Inr resp)"
    and resp: "server_response_ok t resp" "int (unat (source_lamport resp)) < i64_MAX" "d_lamport db < i64_MAX"
  shows "\<exists>db'. complete_sync env t p resp db = (db', Inr ())"
proof -
  have room: "room (Suc 0) s" using s(2) by simp
  have inv: "client_inv env t db" "d_device db = device" using tr by (simp_all add: tracks_def)
  have ok: "client_request_ok t device p" using local_delta_Inr(2) [OF inv(1) delta] inv(2) by simp
  have sent: "\<forall>(k, c)\<in>set (payload_cells p). log_view env t db k = Some c"
    using delta_in_log [OF inv(1) delta] by auto
  have tr': "tracks env t device db (abs s')" by (rule merge_tracks(1) [OF tr s merge]) (use sent in auto)
  have deliv: "\<forall>(k, c)\<in>set (payload_cells p). (k, cmeta c) \<notin> rejected_versions resp \<longrightarrow>
      lww.covered (bt_get (cells (abs s')) k) c"
    using merge_delivers [OF merge s(1) room] by (force simp: rejected_versions_def)
  obtain db1 where ack: "acknowledge_cells (rejected_versions resp) p db = Inr db1"
    using acknowledge_cells_total [OF ok] by blast
  note ack1 = acknowledge_tracks [OF tr' ack ok sent deliv]
  have lam1: "d_lamport db1 = d_lamport db"
    using acknowledge_cells_spec(5) [OF ok [folded inv(2)] inv(1) ack] .
  have inv1: "client_inv env t db1" using ack1(1) by (simp add: tracks_def)
  have page: "\<forall>(k, c)\<in>set (payload_cells resp). bt_get (cells (abs s')) k = Some c"
    using merge_page [OF merge s(1) room] by (auto simp: page_of_def)
  have "observed db1 resp < i64_MAX" using resp(2,3) lam1 by (simp add: observed_def del: of_nat_unat)
  with run_tracks_succeeds [OF ack1(1) page] apply_remote_refines [OF inv1 resp(1) t]
  obtain db' where "apply_remote_payload env t resp db1 = Inr db'" by auto
  then have "complete_sync env t p resp db = (db', Inr ())"
    using ack resp(1) ok inv(2) by (auto simp: complete_sync_Inr acknowledge_response_Inr)
  then show ?thesis by blast
qed

end

text \<open>The request of a client whose pending writes fit one request.\<close>

lemma delta_total:
  assumes "client_inv env t db" "card (dirty_keys db) \<le> 20000" "card (fst ` dirty_keys db) \<le> 10000"
  obtains p where "get_local_delta env t db = Inr p" "client_request_ok t (d_device db) p"
    "\<forall>(k, c)\<in>set (payload_cells p). log_view env t db k = Some c" "int (unat (source_lamport p)) = d_lamport db"
proof -
  define p where "p = delta_payload env t db"
  have ok: "client_request_ok t (d_device db) p"
    unfolding p_def using delta_request_ok [OF assms(1)] assms(2,3) by simp
  then have delta: "get_local_delta env t db = Inr p"
    unfolding get_local_delta_eq [OF assms(1)] p_def [symmetric]
    by (simp add: validate_client_request_iff [where u = "()", symmetric])
  have "\<forall>(k, c)\<in>set (payload_cells p). log_view env t db k = Some c"
    using delta_in_log [OF assms(1) delta] by auto
  moreover have "int (unat (source_lamport p)) = d_lamport db"
    unfolding p_def delta_payload_def using assms(1) by (simp add: unat_clock client_inv_def device_inv_def del: of_nat_unat)
  ultimately show thesis using that delta ok by blast
qed

lemma round_total:
  assumes tr: "tracks env t device db s" and t: "valid_table t" "reals_exact env t" and head: "headroom 20000 s"
    and size: "card (dirty_keys db) \<le> 20000" "card (fst ` dirty_keys db) \<le> 10000"
    and clock: "d_lamport db \<le> int (unat (global_lamport s)) + 1000000" "unat (global_lamport s) < 2 ^ 63 - 1000002"
    and len: "\<forall>c. \<exists>n. json_len c = Inr n"
  shows "\<exists>p resp db' s'. get_local_delta env t db = Inr p \<and>
    merge_with_security json_len p device open_security s = (s', Inr resp) \<and>
    complete_sync env t p resp db = (db', Inr ()) \<and> rejections resp = [] \<and>
    unat (global_lamport s') \<le> unat (global_lamport s) + 1000001"
proof -
  have inv: "client_inv env t db" "d_device db = device" "state_inv s" "state_table s = t"
    using tr by (simp_all add: tracks_def)
  obtain p where delta: "get_local_delta env t db = Inr p" and ok: "client_request_ok t device p"
    and sent: "\<forall>(k, c)\<in>set (payload_cells p). log_view env t db k = Some c"
    and lam: "int (unat (source_lamport p)) = d_lamport db"
    using delta_total [OF inv(1) size] inv(2) by metis
  then have adv: "unat (source_lamport p) \<le> unat (global_lamport s) + 1000000" using clock(1) by linarith
  from merge_payload_total [of s device p json_len] ok adv clock(2) len tracks_no_conflict [OF tr sent]
  obtain s' resp where merge: "merge_with_security json_len p device open_security s = (s', Inr resp)"
    by (auto simp: merge_payload_def inv(4))
  then have mi: "merge_inner json_len p device open_security s = Inr (s', resp)" by (simp add: merge_with_security_Inr)
  note spec = merge_inner_spec [OF mi inv(3) head]
  have glob: "unat (global_lamport s') \<le> unat (global_lamport s) + 1000001" using spec(3) adv by simp
  then have "unat (global_lamport s') < 2 ^ 63 - 1" using clock(2) by simp
  then have resp: "server_response_ok t resp" "int (unat (source_lamport resp)) < i64_MAX"
    using merge_response_ok [OF mi inv(3) head] inv(4) spec(9) by (simp_all add: i64_MAX_def del: of_nat_unat)
  have rej: "rejections resp = []" using spec(6) by simp
  have "d_lamport db < i64_MAX" using clock by (simp add: i64_MAX_def del: of_nat_unat)
  with ref_server.round_completes [OF tr inv(3) _ t delta merge resp] head delta merge rej glob show ?thesis by auto
qed

text \<open>The reference server never forgets a cursor it issued, so the cursor of the client is honoured.\<close>

definition issued :: "string \<Rightarrow> client_db \<Rightarrow> crdt_state \<Rightarrow> bool" where
  "issued device db s \<longleftrightarrow>
     cu_cursor (local_cursor db) = 0 \<or> cu_cursor (local_cursor db) \<le> max_issued_cursor s device"

lemma merge_issued:
  assumes "issued device db s" "merge_with_security json_len p other security s = (s', r)" "state_inv s" "headroom 20000 s"
  shows "issued device db s'"
proof (cases r)
  case (Inl e)
  then show ?thesis using assms(1,2) merge_with_security_Inl by blast
next
  case (Inr resp)
  then have "merge_inner json_len p other security s = Inr (s', resp)" using assms(2) by (simp add: merge_with_security_Inr)
  from grown_merge [OF this assms(3,4)] have "max_issued_cursor s device \<le> max_issued_cursor s' device" by (simp add: grown_def)
  with assms(1) show ?thesis by (auto simp: issued_def)
qed

lemma local_write_cursor:
  assumes "local_write env t db db'" "client_inv env t db"
  shows "local_cursor db' = local_cursor db"
  using local_write_captures [OF assms] by (simp add: captures_def local_cursor_def)

lemma reference_world_issued:
  assumes "reference_world json_len env t device db s M" "valid_table t" "reals_exact env t"
    and "identifier_ok device" "device \<noteq> SERVER_DEVICE_ID"
  shows "issued device db s"
proof -
  have tr: "tracks env t device db s" if "world (merge_with_security json_len) (\<lambda>s s'. s' = s) (\<lambda>n. headroom (20000 * n))
      env t device (crdt_state_new t) db s M" for db s M
    by (rule reference_world_tracks [OF _ assms(2-5)]) (use that in \<open>simp add: reference_world_def\<close>)
  show ?thesis using assms(1) unfolding reference_world_def
  proof (induction rule: world.induct)
    case w_fresh
    then show ?case by (simp add: issued_def client_db_new_def local_cursor_def)
  next
    case (w_write db s M db')
    then show ?case using local_write_cursor tr [OF w_write.hyps(1)] by (simp add: issued_def tracks_def)
  next
    case (w_other db s M other p security s' r)
    then show ?case using merge_issued tr [OF w_other.hyps(1)] by (simp add: tracks_def)
  next
    case (w_shift db s M s')
    then show ?case by simp
  next
    case (w_request db s M p)
    then show ?case by simp
  next
    case (w_deliver db s M p security s' r)
    then show ?case using merge_issued tr [OF w_deliver.hyps(1)] by (simp add: tracks_def)
  next
    case (w_round db s M security db' s' r)
    have now: "tracks env t device db s" "state_inv s" "headroom 20000 s"
      using tr [OF w_round.hyps(1)] w_round.hyps(2) by (simp_all add: tracks_def)
    from w_round.hyps(3) show ?case
    proof (cases rule: sync_with_cases)
      case (not_applied p resp e)
      then have "db' = db" using run_tx_Inl unfolding complete_sync_def by blast
      with merge_issued [OF w_round.IH not_applied(2) now(2,3)] show ?thesis by simp
    next
      case (completed p resp u)
      then have "merge_inner json_len p device security s = Inr (s', resp)" by (simp add: merge_with_security_Inr)
      from merge_inner_spec(10) [OF this now(2,3)]
        ref_server.round_tracks(2) [OF now(1,2) _ assms(2,3) completed(1,2,3)] now(3)
      show ?thesis by (simp add: issued_def)
    qed (use w_round.IH merge_issued now in auto)
  qed
qed


end
