(* ===== verification/Pg_System.thy ===== *)
theory Pg_System
  imports Pg_Merge Sync_Live
begin

section \<open>The PostgreSQL server over time\<close>

text \<open>
  Everything that happens to the database of the server, as a step relation: requests of any tenant for
  any table of the contract, partial-replica requests, maintenance, transactions that are rolled back
  (which consume sequence numbers), and time. The invariant of every table and tenant holds in every
  reachable state, and the server meets the contract \<open>sync_server\<close> that the client relies on.
\<close>

definition pg_db_new :: "string \<Rightarrow> pg_db" where
  "pg_db_new epoch =
     \<lparr>pg_clocks = (\<lambda>_. None), pg_app = (\<lambda>_. []), pg_log = (\<lambda>_. []), pg_leases = [], pg_epoch = epoch,
      pg_audits = [], pg_seq = 0, pg_uuids = 0\<rparr>"

text \<open>A transaction is committed when its body succeeds and dropped, which rolls it back, when it fails.\<close>

definition pg_tx :: "(pg_db \<Rightarrow> sync_error + pg_db \<times> 'a) \<Rightarrow> pg_db \<Rightarrow> pg_db \<times> (sync_error + 'a)" where
  "pg_tx f db = (case f db of Inl e \<Rightarrow> (db, Inl e) | Inr (db', a) \<Rightarrow> (db', Inr a))"

lemma pg_tx_Inr: "pg_tx f db = (db', Inr a) \<longleftrightarrow> f db = Inr (db', a)"
  by (auto simp: pg_tx_def split: sum.splits)

lemma pg_tx_Inl: "pg_tx f db = (db', Inl e) \<Longrightarrow> db' = db"
  by (auto simp: pg_tx_def split: sum.splits)

text \<open>A state is the database and the time. The label names the table and tenant a request is for.\<close>

inductive pg_step ::
  "pg_env \<Rightarrow> table_def list \<Rightarrow> (table_def \<times> string) option \<Rightarrow> pg_db \<times> int \<Rightarrow> pg_db \<times> int \<Rightarrow> bool"
  for env ts where
  p_merge: "t \<in> set ts \<Longrightarrow> merge_crdt_states_with_security env now p device tenant t security db = Inr (db', resp) \<Longrightarrow>
    pg_step env ts (Some (t, tenant)) (db, now) (db', now)"
| p_partial: "t \<in> set ts \<Longrightarrow>
    merge_partial_replica_with_security env now rq device tenant t security db = Inr (db', presp) \<Longrightarrow>
    pg_step env ts (Some (t, tenant)) (db, now) (db', now)"
| p_rollback: "pg_seq db \<le> q \<Longrightarrow> q \<le> i64_MAX \<Longrightarrow> pg_step env ts None (db, now) (db\<lparr>pg_seq := q, pg_uuids := u\<rparr>, now)"
| p_expire: "expire_cursor_leases env now secs db = Inr (db', n) \<Longrightarrow> pg_step env ts None (db, now) (db', now)"
| p_rotate: "rotate_server_epoch env db = (db', epoch) \<Longrightarrow> pg_step env ts None (db, now) (db', now)"
| p_time: "now \<le> now' \<Longrightarrow> pg_step env ts None (db, now) (db, now')"

inductive pg_reach :: "pg_env \<Rightarrow> table_def list \<Rightarrow> pg_db \<times> int \<Rightarrow> bool" for env ts where
  reach_new: "identifier_ok epoch \<Longrightarrow> pg_reach env ts (pg_db_new epoch, now)"
| reach_step: "pg_reach env ts s \<Longrightarrow> pg_step env ts lbl s s' \<Longrightarrow> pg_reach env ts s'"

definition deployed :: "pg_env \<Rightarrow> table_def list \<Rightarrow> bool" where
  "deployed env ts \<longleftrightarrow> uuids_ok env \<and> (\<forall>t\<in>set ts. valid_table t) \<and> inj_on tname (set ts)"

definition pg_inv :: "table_def list \<Rightarrow> pg_db \<Rightarrow> bool" where
  "pg_inv ts db \<longleftrightarrow> (\<forall>t\<in>set ts. \<forall>tenant. tenant_inv t tenant db)"

lemma tenant_inv_new: "identifier_ok epoch \<Longrightarrow> tenant_inv t tenant (pg_db_new epoch)"
  by (simp add: tenant_inv_def pg_db_new_def tenant_clock_def loop_good_def log_good_def app_good_def lease_good_def
      tenant_leases_def i64_MAX_def bt_wf_def)

subsection \<open>What a step leaves alone\<close>

text \<open>The log and application rows of a table and tenant.\<close>

definition same_rows :: "table_def \<Rightarrow> string \<Rightarrow> pg_db \<Rightarrow> pg_db \<Rightarrow> bool" where
  "same_rows t tenant db db' \<longleftrightarrow>
     pg_log db' (crdt_table t, tenant) = pg_log db (crdt_table t, tenant) \<and>
     pg_app db' (tname t, tenant) = pg_app db (tname t, tenant)"

lemma same_rows_cursor:
  "same_rows t tenant db db' \<Longrightarrow> tenant_max_cursor t tenant db' = tenant_max_cursor t tenant db"
  by (simp add: same_rows_def tenant_max_cursor_def)

lemma log_good_mono:
  assumes "log_good t b q m" "b \<le> b'" "q \<le> q'"
  shows "log_good t b' q' m"
proof -
  have "identifier_ok (fst k) \<and> cell_ok t (snd k) (pg_cell_col c) \<and> pc_device c \<noteq> SERVER_DEVICE_ID \<and>
      0 \<le> pc_clock c \<and> pc_clock c \<le> b' \<and> 0 < pc_seq c \<and> pc_seq c \<le> q'" if "bt_get m k = Some c" for k c
    using assms that by (fastforce simp: log_good_def)
  moreover have "bt_wf m" using assms(1) by (simp add: log_good_def)
  moreover have "\<forall>k k' c c'. bt_get m k = Some c \<and> bt_get m k' = Some c' \<and> pc_seq c = pc_seq c' \<longrightarrow> k = k'"
    using assms(1) by (simp add: log_good_def)
  ultimately show ?thesis unfolding log_good_def by blast
qed

lemma tenant_inv_same_rows:
  assumes inv: "tenant_inv t tenant db" and rows: "same_rows t tenant db db'"
    and clock: "tenant_clock tenant db \<le> tenant_clock tenant db'" "tenant_clock tenant db' \<le> i64_MAX"
    and seq: "pg_seq db \<le> pg_seq db'" "pg_seq db' \<le> i64_MAX"
    and lease: "lease_good t tenant db'" and epoch: "identifier_ok (pg_epoch db')"
  shows "tenant_inv t tenant db'"
proof -
  have "log_good t (tenant_clock tenant db') (pg_seq db') (pg_log db' (crdt_table t, tenant))"
    using inv rows log_good_mono [OF _ clock(1) seq(1)] by (simp add: tenant_inv_def loop_good_def same_rows_def)
  then show ?thesis
    using inv rows clock seq lease epoch by (simp add: tenant_inv_def loop_good_def same_rows_def)
qed

lemma lease_good_same:
  assumes "lease_good t tenant db" "same_rows t tenant db db'"
    "\<forall>d l. bt_get (tenant_leases t tenant db') d = Some l \<longrightarrow> bt_get (tenant_leases t tenant db) d = Some l"
    "bt_wf (tenant_leases t tenant db')"
  shows "lease_good t tenant db'"
  using assms same_rows_cursor [OF assms(2)] unfolding lease_good_def by metis

lemma other_rows:
  assumes "deployed env ts" "t \<in> set ts" "t' \<in> set ts" "(t', tenant') \<noteq> (t, tenant)"
  shows "(crdt_table t', tenant') \<noteq> (crdt_table t, tenant) \<and> (tname t', tenant') \<noteq> (tname t, tenant)"
  using assms by (auto simp: deployed_def crdt_table_def inj_on_def)

lemma elsewhere_same_rows:
  assumes "elsewhere t tenant db db'" "deployed env ts" "t \<in> set ts" "t' \<in> set ts" "(t', tenant') \<noteq> (t, tenant)"
  shows "same_rows t' tenant' db db'" "tenant_leases t' tenant' db' = tenant_leases t' tenant' db"
  using assms(1) other_rows [OF assms(2-5)] by (auto simp: elsewhere_def same_rows_def tenant_leases_def)

subsection \<open>Requests\<close>

lemma partial_runs_merge:
  assumes "merge_partial_replica_with_security env now rq device tenant t security db = Inr (db', presp)"
  shows "\<exists>sync. merge_crdt_states_with_security env now (rq_sync rq) device tenant t security db = Inr (db', sync)"
  using assms by (auto simp: merge_partial_replica_with_security_def Let_def split: if_splits)

lemma request_step_inv:
  assumes merge: "merge_crdt_states_with_security env now p device tenant t security db = Inr (db', resp)"
    and t: "t \<in> set ts" and inv: "pg_inv ts db" "deployed env ts" and t': "t' \<in> set ts"
  shows "tenant_inv t' tenant' db'"
proof (cases "(t', tenant') = (t, tenant)")
  case True
  have "tenant_inv t tenant db" "valid_table t" "uuids_ok env" using inv t by (simp_all add: pg_inv_def deployed_def)
  from pg_merge_spec(1) [OF merge this] True show ?thesis by simp
next
  case False
  have old: "tenant_inv t tenant db" "valid_table t" "uuids_ok env" "tenant_inv t' tenant' db"
    using inv t t' by (simp_all add: pg_inv_def deployed_def)
  note spec = pg_merge_spec [OF merge old(1-3)]
  note other = elsewhere_same_rows [OF spec(13) inv(2) t t' False]
  have new: "tenant_clock tenant db' \<le> i64_MAX" "pg_seq db' \<le> i64_MAX" "identifier_ok (pg_epoch db')"
    using spec(1) by (simp_all add: tenant_inv_def loop_good_def)
  have clock: "tenant_clock tenant' db \<le> tenant_clock tenant' db' \<and> tenant_clock tenant' db' \<le> i64_MAX"
  proof (cases "tenant' = tenant")
    case True
    then show ?thesis using spec(3) new(1) by simp
  next
    case False
    then have "tenant_clock tenant' db' = tenant_clock tenant' db"
      using spec(13) by (simp add: elsewhere_def tenant_clock_def)
    then show ?thesis using old(4) by (simp add: tenant_inv_def)
  qed
  have "lease_good t' tenant' db'"
    by (rule lease_good_same [OF _ other(1)]) (use old(4) other(2) in \<open>simp_all add: tenant_inv_def lease_good_def\<close>)
  moreover have "pg_seq db \<le> pg_seq db'" using spec(13) by (simp add: elsewhere_def)
  ultimately show ?thesis using tenant_inv_same_rows [OF old(4) other(1)] clock new by blast
qed

subsection \<open>Maintenance\<close>

text \<open>Maintenance drops leases and may change the epoch; it touches neither logs nor clocks.\<close>

definition maintained :: "pg_db \<Rightarrow> pg_db \<Rightarrow> bool" where
  "maintained db db' \<longleftrightarrow>
     pg_clocks db' = pg_clocks db \<and> pg_app db' = pg_app db \<and> pg_log db' = pg_log db \<and> pg_audits db' = pg_audits db \<and>
     pg_seq db \<le> pg_seq db' \<and> (pg_seq db' = pg_seq db \<or> pg_seq db' \<le> i64_MAX) \<and>
     (pg_epoch db' = pg_epoch db \<or> identifier_ok (pg_epoch db')) \<and>
     (\<forall>t tenant. \<exists>P. tenant_leases t tenant db' = filter P (tenant_leases t tenant db))"

lemma filter_all: "\<exists>P. xs = filter P xs"
  by (rule exI [of _ "\<lambda>_. True"]) simp

lemma filter_none: "\<exists>P. [] = filter P xs"
  by (rule exI [of _ "\<lambda>_. False"]) simp

lemma expire_maintained:
  assumes "expire_cursor_leases env now secs db = Inr (db', n)"
  shows "maintained db db'"
proof -
  obtain P :: "string \<times> pg_lease \<Rightarrow> bool" where
    db': "db' = db\<lparr>pg_leases := map (\<lambda>(k, m). (k, filter P m)) (pg_leases db)\<rparr>"
    using assms by (auto simp: expire_cursor_leases_def Let_def split: option.splits)
  have "tenant_leases t tenant db' = filter P (tenant_leases t tenant db)" for t tenant
    unfolding db' tenant_leases_def by (simp add: map_of_map split: option.split)
  then show ?thesis by (auto simp: maintained_def db')
qed

lemma rotate_maintained:
  assumes "rotate_server_epoch env db = (db', epoch)" "uuids_ok env"
  shows "maintained db db'"
  using assms
  by (auto simp: rotate_server_epoch_def Let_def maintained_def uuids_ok_def tenant_leases_def filter_none filter_all)

lemma rollback_maintained:
  "pg_seq db \<le> q \<Longrightarrow> q \<le> i64_MAX \<Longrightarrow> maintained db (db\<lparr>pg_seq := q, pg_uuids := u\<rparr>)"
  by (simp add: maintained_def tenant_leases_def filter_all)

lemma maintained_refl: "maintained db db"
  by (simp add: maintained_def filter_all)

lemma maintained_step:
  assumes "pg_step env ts None s s'" "uuids_ok env"
  shows "maintained (fst s) (fst s')"
  using assms
  by (cases rule: pg_step.cases)
    (auto intro: rollback_maintained expire_maintained rotate_maintained maintained_refl)

lemma bt_get_filter: "bt_wf m \<Longrightarrow> bt_get (filter P m) k = Some v \<Longrightarrow> bt_get m k = Some v"
  by (meson bt_wf_filter bt_get_iff filter_is_subset subsetD)

lemma maintained_inv:
  assumes "maintained db db'" "tenant_inv t tenant db"
  shows "tenant_inv t tenant db'"
proof -
  have rows: "same_rows t tenant db db'" "tenant_clock tenant db' = tenant_clock tenant db" "pg_seq db \<le> pg_seq db'"
    using assms(1) by (simp_all add: maintained_def same_rows_def tenant_clock_def)
  have bounds: "tenant_clock tenant db \<le> i64_MAX" "pg_seq db' \<le> i64_MAX" "identifier_ok (pg_epoch db')"
    using assms by (auto simp: maintained_def tenant_inv_def loop_good_def)
  obtain P where P: "tenant_leases t tenant db' = filter P (tenant_leases t tenant db)"
    using assms(1) by (auto simp: maintained_def)
  have old: "lease_good t tenant db" using assms(2) by (simp add: tenant_inv_def)
  then have wf: "bt_wf (tenant_leases t tenant db)" by (simp add: lease_good_def)
  have "lease_good t tenant db'"
    by (rule lease_good_same [OF old rows(1)]) (use P wf bt_get_filter bt_wf_filter in auto)
  then show ?thesis using tenant_inv_same_rows [OF assms(2) rows(1)] rows bounds by simp
qed

lemma pg_step_inv:
  assumes "pg_step env ts lbl s s'" "deployed env ts" "pg_inv ts (fst s)"
  shows "pg_inv ts (fst s')"
proof (cases lbl)
  case None
  with assms show ?thesis using maintained_inv maintained_step by (simp add: pg_inv_def deployed_def) metis
next
  case (Some a)
  with assms(1) obtain t now p device tenant security db db' resp where
    "t \<in> set ts" "merge_crdt_states_with_security env now p device tenant t security db = Inr (db', resp)"
    "fst s = db" "fst s' = db'"
    by (cases rule: pg_step.cases) (auto dest!: partial_runs_merge)
  with request_step_inv assms(2,3) show ?thesis unfolding pg_inv_def by metis
qed

lemma pg_reach_inv:
  assumes "pg_reach env ts s" "deployed env ts"
  shows "pg_inv ts (fst s)"
  using assms by (induction rule: pg_reach.induct) (auto simp: pg_inv_def tenant_inv_new dest: pg_step_inv)

text \<open>A step for another table or tenant leaves the rows of this one alone.\<close>

lemma pg_step_other:
  assumes "pg_step env ts lbl s s'" "lbl \<noteq> Some (t, tenant)" "deployed env ts" "pg_inv ts (fst s)" "t \<in> set ts"
  shows "same_rows t tenant (fst s) (fst s')"
proof (cases lbl)
  case None
  with assms(1,3) have "maintained (fst s) (fst s')" using maintained_step by (simp add: deployed_def)
  then show ?thesis by (simp add: maintained_def same_rows_def)
next
  case (Some a)
  with assms(1) obtain t0 now p device tenant0 security db db' resp where
    m: "t0 \<in> set ts" "merge_crdt_states_with_security env now p device tenant0 t0 security db = Inr (db', resp)"
    "fst s = db" "fst s' = db'" "a = (t0, tenant0)"
    by (cases rule: pg_step.cases) (auto dest!: partial_runs_merge)
  have "tenant_inv t0 tenant0 db" "valid_table t0" "uuids_ok env"
    using assms(3,4) m(1,3) by (simp_all add: pg_inv_def deployed_def)
  from elsewhere_same_rows(1) [OF pg_merge_spec(13) [OF m(2) this] assms(3) m(1) assms(5)] assms(2) Some m
  show ?thesis by auto
qed

lemma same_rows_extends:
  assumes "same_rows t tenant db db'"
  shows "extends (pg_abs t tenant db) (pg_abs t tenant db')" "pg_view t tenant db' = pg_view t tenant db"
proof -
  have log: "pg_log db' (crdt_table t, tenant) = pg_log db (crdt_table t, tenant)" using assms by (simp add: same_rows_def)
  show view: "pg_view t tenant db' = pg_view t tenant db" using log by (auto simp: pg_view_def fun_eq_iff)
  have "last_write (pg_abs t tenant db') = last_write (pg_abs t tenant db)"
    using same_rows_cursor [OF assms] by (simp add: last_write_def pg_abs_def)
  moreover have "write_no (pg_abs t tenant db') k = write_no (pg_abs t tenant db) k" for k
    using log by (simp add: write_no_def seq_of_def pg_abs_def)
  ultimately show "extends (pg_abs t tenant db) (pg_abs t tenant db')" by (simp add: extends_def view)
qed

subsection \<open>The database meets the contract of a server\<close>

definition pg_serve ::
  "pg_env \<Rightarrow> table_def \<Rightarrow> string \<Rightarrow> sync_payload \<Rightarrow> string \<Rightarrow> sync_security \<Rightarrow> pg_db \<times> int \<Rightarrow>
   (pg_db \<times> int) \<times> (sync_error + sync_payload)" where
  "pg_serve env t tenant p device security s =
     (case s of (db, now) \<Rightarrow>
        case pg_tx (merge_crdt_states_with_security env now p device tenant t security) db of (db', r) \<Rightarrow> ((db', now), r))"

definition pg_shift :: "pg_env \<Rightarrow> table_def list \<Rightarrow> table_def \<Rightarrow> string \<Rightarrow> pg_db \<times> int \<Rightarrow> pg_db \<times> int \<Rightarrow> bool" where
  "pg_shift env ts t tenant s s' \<longleftrightarrow> (\<exists>lbl. lbl \<noteq> Some (t, tenant) \<and> pg_step env ts lbl s s')"

lemma pg_serve_Inr:
  "pg_serve env t tenant p d sec s = (s', Inr resp) \<longleftrightarrow>
     merge_crdt_states_with_security env (snd s) p d tenant t sec (fst s) = Inr (fst s', resp) \<and> snd s' = snd s"
  by (cases s; cases s') (auto simp: pg_serve_def pg_tx_def split: prod.splits sum.splits)

lemma pg_serve_Inl: "pg_serve env t tenant p d sec s = (s', Inl e) \<Longrightarrow> s' = s"
  by (auto simp: pg_serve_def dest: pg_tx_Inl split: prod.splits)

definition serving :: "pg_env \<Rightarrow> table_def list \<Rightarrow> table_def \<Rightarrow> pg_db \<times> int \<Rightarrow> bool" where
  "serving env ts t s \<longleftrightarrow> deployed env ts \<and> t \<in> set ts \<and> pg_inv ts (fst s)"

interpretation pg_server: sync_server
  "pg_serve env t tenant" "pg_shift env ts t tenant" "\<lambda>s. pg_abs t tenant (fst s)" "serving env ts t"
  "\<lambda>_ _. True" "\<lambda>s d. pg_context tenant d t" for env ts t tenant
proof
  fix s assume "serving env ts t s"
  then show "state_inv (pg_abs t tenant (fst s))" by (auto simp: serving_def pg_inv_def intro: pg_abs_state_inv)
next
  fix p d sec s s' resp
  assume ok: "pg_serve env t tenant p d sec s = (s', Inr resp)" and inv: "serving env ts t s"
  then have merge: "merge_crdt_states_with_security env (snd s) p d tenant t sec (fst s) = Inr (fst s', resp)"
    by (simp add: pg_serve_Inr)
  have pre: "tenant_inv t tenant (fst s)" "valid_table t" "uuids_ok env"
    using inv by (simp_all add: serving_def pg_inv_def deployed_def)
  note spec = pg_merge_spec [OF merge pre]
  have "serving env ts t s'"
    using inv request_step_inv [OF merge] unfolding serving_def pg_inv_def by blast
  then show "serving env ts t s' \<and> client_request_ok (state_table (pg_abs t tenant (fst s))) d p \<and>
      extends (pg_abs t tenant (fst s)) (pg_abs t tenant (fst s'))"
    using spec(2) grown_extends [OF spec(10)] by simp
  show "lww.run (filter (permitted sec (pg_context tenant d t) (bt_get (cells (pg_abs t tenant (fst s))))) (payload_cells p))
        (bt_get (cells (pg_abs t tenant (fst s)))) = Inr (bt_get (cells (pg_abs t tenant (fst s')))) \<and>
      rejections resp = concat (map (rejections_of sec (pg_context tenant d t) (bt_get (cells (pg_abs t tenant (fst s)))))
        (payload_cells p)) \<and>
      (\<forall>op\<in>set (payload_cells p). permitted sec (pg_context tenant d t) (bt_get (cells (pg_abs t tenant (fst s)))) op \<or>
         rejections_of sec (pg_context tenant d t) (bt_get (cells (pg_abs t tenant (fst s)))) op \<noteq> [])"
    using spec(4-6) by simp
  have "(if pg_cursor_valid t tenant d p (fst s) then cursor p else 0) = (if cursor_reset resp then 0 else cursor p)"
    using spec(8) by auto
  with spec(7) show "page_of (pg_abs t tenant (fst s')) (if cursor_reset resp then 0 else cursor p) resp" by simp
next
  fix s s' assume shift: "pg_shift env ts t tenant s s'" and inv: "serving env ts t s"
  then obtain lbl where step: "lbl \<noteq> Some (t, tenant)" "pg_step env ts lbl s s'" by (auto simp: pg_shift_def)
  have "same_rows t tenant (fst s) (fst s')" "serving env ts t s'"
    using pg_step_other [OF step(2,1)] pg_step_inv [OF step(2)] inv by (auto simp: serving_def)
  with same_rows_extends show "serving env ts t s' \<and> extends (pg_abs t tenant (fst s)) (pg_abs t tenant (fst s')) \<and>
      bt_get (cells (pg_abs t tenant (fst s'))) = bt_get (cells (pg_abs t tenant (fst s)))" by simp
qed (auto dest: pg_serve_Inl)

end
