(* ===== verification/Pg_Correct.thy ===== *)
theory Pg_Correct
  imports Pg_System
begin

section \<open>Correctness of the PostgreSQL server\<close>

text \<open>
  The properties of the adapter in every state its database can reach: the application tables show the
  log, tenants are isolated, the audit trail is complete, cursors are capabilities, partial replicas are
  exact, and a client that talks to it converges.
\<close>

lemma reach_tenant:
  assumes "pg_reach env ts (db, now)" "deployed env ts" "t \<in> set ts"
  shows "tenant_inv t tenant db" "valid_table t" "uuids_ok env"
  using pg_reach_inv [OF assms(1,2)] assms(2,3) by (simp_all add: pg_inv_def deployed_def)

subsection \<open>The application tables\<close>

text \<open>The value an application reads: the cell of the log, or the default of the column.\<close>

definition shown :: "table_def \<Rightarrow> string \<Rightarrow> pg_db \<Rightarrow> string \<Rightarrow> string \<Rightarrow> crdt_value option" where
  "shown t tenant db row n =
     (case pg_view t tenant db (row, n) of
        Some c \<Rightarrow> Some (cvalue c)
      | None \<Rightarrow> map_option pg_default (table_column_type t n))"

lemma log_good_cell: "log_good t b q m \<Longrightarrow> bt_get m k = Some c \<Longrightarrow> cell_ok t (snd k) (pg_cell_col c)"
  by (simp add: log_good_def)

lemma log_column:
  assumes "tenant_inv t tenant db" "pg_view t tenant db (row, n) = Some c"
  shows "value_ok t n (cvalue c)" "table_column_type t n \<noteq> None" "bt_get (pg_app db (tname t, tenant)) row \<noteq> None"
proof -
  obtain x where x: "bt_get (pg_log db (crdt_table t, tenant)) (row, n) = Some x" "c = pg_cell_col x"
    using assms(2) by (auto simp: pg_view_def)
  have good: "log_good t (tenant_clock tenant db) (pg_seq db) (pg_log db (crdt_table t, tenant))"
    "app_good t (pg_app db (tname t, tenant)) (pg_log db (crdt_table t, tenant))"
    using assms(1) by (simp_all add: tenant_inv_def loop_good_def)
  have "cell_ok t (snd (row, n)) (pg_cell_col x)" by (rule log_good_cell [OF good(1) x(1)])
  then show "value_ok t n (cvalue c)" by (simp add: cell_ok_def x(2))
  then show "table_column_type t n \<noteq> None" using value_ok_column by auto
  have "bt_get (pg_app db (tname t, tenant)) (fst (row, n)) \<noteq> None"
    using good(2) x(1) unfolding app_good_def by blast
  then show "bt_get (pg_app db (tname t, tenant)) row \<noteq> None" by simp
qed

lemma app_shown:
  assumes "tenant_inv t tenant db" "bt_get (pg_app db (tname t, tenant)) row = Some vals"
  shows "bt_get vals n = shown t tenant db row n"
proof -
  have "app_good t (pg_app db (tname t, tenant)) (pg_log db (crdt_table t, tenant))"
    using assms(1) by (simp add: tenant_inv_def loop_good_def)
  then have vals: "bt_get vals n = (case table_column_type t n of None \<Rightarrow> None
      | Some ty \<Rightarrow> Some (case bt_get (pg_log db (crdt_table t, tenant)) (row, n) of None \<Rightarrow> pg_default ty | Some c \<Rightarrow> pc_value c))"
    using assms(2) by (simp add: app_good_def)
  show ?thesis
  proof (cases "pg_view t tenant db (row, n)")
    case None
    then show ?thesis by (simp add: vals shown_def pg_view_def split: option.split)
  next
    case (Some c)
    then show ?thesis using vals log_column(2) [OF assms(1) Some] by (auto simp: shown_def pg_view_def pg_cell_col_def)
  qed
qed

text \<open>Property C22: the application tables are a view of the change log. In every reachable state of the
  server, whatever requests, rollbacks and maintenance led to it, a row of an application table shows
  in every synchronized column the value of the log, or the default of the column when the log has no
  cell; it has no other column; and every cell of the log belongs to a row of the table.\<close>

theorem application_shows_log:
  assumes "pg_reach env ts (db, now)" "deployed env ts" "t \<in> set ts"
  shows "(\<forall>row vals n. bt_get (pg_app db (tname t, tenant)) row = Some vals \<longrightarrow> bt_get vals n = shown t tenant db row n) \<and>
    (\<forall>row n c. pg_view t tenant db (row, n) = Some c \<longrightarrow> bt_get (pg_app db (tname t, tenant)) row \<noteq> None)"
  using app_shown [OF reach_tenant(1)] log_column(3) [OF reach_tenant(1)] assms by metis

definition typed :: "column_type \<Rightarrow> crdt_value \<Rightarrow> bool" where
  "typed ty v \<longleftrightarrow>
     (case ty of
        TyText \<Rightarrow> (\<exists>s. v = VText s)
      | TyInteger \<Rightarrow> (\<exists>i. v = VInteger i)
      | TyReal \<Rightarrow> (\<exists>r. v = VReal r)
      | TyBoolean \<Rightarrow> (\<exists>b. v = VBoolean b))"

lemma value_ok_has_type: "value_ok t n v \<Longrightarrow> table_column_type t n = Some ty \<Longrightarrow> typed ty v"
  by (auto simp: value_ok_def typed_def split: column_type.splits crdt_value.splits)

text \<open>Property C34: the columns of the application tables are well typed. In every reachable state a row
  has a value in a column exactly when the column is synchronized, and the value has the type the schema
  declares for it.\<close>

theorem application_well_typed:
  assumes "pg_reach env ts (db, now)" "deployed env ts" "t \<in> set ts"
    and "bt_get (pg_app db (tname t, tenant)) row = Some vals"
  shows "case table_column_type t n of None \<Rightarrow> bt_get vals n = None | Some ty \<Rightarrow> \<exists>v. bt_get vals n = Some v \<and> typed ty v"
proof -
  note inv = reach_tenant [OF assms(1-3)]
  have get: "bt_get vals n = shown t tenant db row n" by (rule app_shown [OF inv(1) assms(4)])
  show ?thesis
  proof (cases "pg_view t tenant db (row, n)")
    case None
    then show ?thesis
      by (auto simp: get shown_def typed_def pg_default_def split: option.split column_type.split)
  next
    case (Some c)
    then show ?thesis
      using value_ok_has_type [OF log_column(1) [OF inv(1) Some]] log_column(2) [OF inv(1) Some]
      by (auto simp: get shown_def split: option.split)
  qed
qed

subsection \<open>Requests\<close>

text \<open>Property C5: the adapter implements the abstract merge. A request that succeeds turns the tenant's
  log, read as a store of last-writer-wins registers, into the one that running the cells the hooks
  permit through the register contract gives; it reports exactly the cells the hooks deny, in order; it
  moves the tenant's clock just past both clocks; and the answer is a page of the log after the merge,
  from the client's cursor or, when that is reported as reset, from the start.\<close>

theorem pg_merge_refines:
  assumes "pg_reach env ts (db, now)" "deployed env ts" "t \<in> set ts"
    and "merge_crdt_states_with_security env now p device tenant t security db = Inr (db', resp)"
  shows "lww.run (filter (permitted security (pg_context tenant device t) (pg_view t tenant db)) (payload_cells p))
      (pg_view t tenant db) = Inr (pg_view t tenant db') \<and>
    rejections resp = concat (map (rejections_of security (pg_context tenant device t) (pg_view t tenant db)) (payload_cells p)) \<and>
    tenant_clock tenant db' = max (tenant_clock tenant db) (int (unat (source_lamport p))) + 1 \<and>
    int (unat (source_lamport resp)) = tenant_clock tenant db' \<and>
    page_of (pg_abs t tenant db') (if cursor_reset resp then 0 else cursor p) resp"
proof -
  note spec = pg_merge_spec [OF assms(4) reach_tenant [OF assms(1-3)]]
  have "(if pg_cursor_valid t tenant device p db then cursor p else 0) = (if cursor_reset resp then 0 else cursor p)"
    using spec(8) by auto
  with spec(3-5,7,9) show ?thesis by simp
qed

text \<open>Property C6: tenants are isolated. A request of one tenant changes no log, application row, clock,
  cursor lease or audit record of another tenant, and every cell it is answered with is in its own log.\<close>

theorem tenant_isolation:
  assumes "pg_reach env ts (db, now)" "deployed env ts" "t \<in> set ts"
    and "merge_crdt_states_with_security env now p device tenant t security db = Inr (db', resp)" "other \<noteq> tenant"
  shows "(\<forall>n. pg_log db' (n, other) = pg_log db (n, other) \<and> pg_app db' (n, other) = pg_app db (n, other) \<and>
      bt_get (pg_leases db') (other, n) = bt_get (pg_leases db) (other, n)) \<and>
    pg_clocks db' other = pg_clocks db other \<and>
    filter (\<lambda>r. au_tenant r = other) (pg_audits db') = filter (\<lambda>r. au_tenant r = other) (pg_audits db) \<and>
    (\<forall>(k, c)\<in>set (payload_cells resp). pg_view t tenant db' k = Some c)"
proof -
  note spec = pg_merge_spec [OF assms(4) reach_tenant [OF assms(1-3)]]
  have else_: "elsewhere t tenant db db'" by (rule spec(13))
  obtain rows where rows: "pg_audits db' = pg_audits db @ rows" "\<forall>r\<in>set rows. au_tenant r = tenant"
    using else_ by (auto simp: elsewhere_def)
  then have "filter (\<lambda>r. au_tenant r = other) rows = []" using assms(5) by (auto simp: filter_empty_conv)
  moreover have "\<forall>(k, c)\<in>set (payload_cells resp). pg_view t tenant db' k = Some c"
    using spec(7) by (auto simp: page_of_def)
  ultimately show ?thesis using else_ rows(1) assms(5) by (simp add: elsewhere_def)
qed

text \<open>Property C25: the audit trail is complete. With the audit enabled, a request that succeeds appends
  one record per cell, in the order of the request: the outcome and the reason of the hook that denied
  the cell, or the outcome and the explanation of the merge, with the value and version that were sent
  and those that were stored before. With the audit disabled nothing is recorded.\<close>

theorem audit_trail_exact:
  assumes "pg_reach env ts (db, now)" "deployed env ts" "t \<in> set ts"
    and "merge_crdt_states_with_security env now p device tenant t security db = Inr (db', resp)"
  shows "pg_audits db' = pg_audits db @ (if audit_mode security = Disabled then []
     else map (cell_audit security (pg_context tenant device t) (pg_view t tenant db)) (payload_cells p))"
  by (rule pg_merge_spec(12) [OF assms(4) reach_tenant [OF assms(1-3)]])

lemma pg_merge_rows:
  assumes "merge_crdt_states_with_security env now p device tenant t security db = Inr (db', resp)"
    and inv: "tenant_inv t tenant db" "valid_table t"
  shows "\<exists>m. nested_wf m \<and> changes resp = rows_of m"
    and "\<forall>op\<in>set (payload_cells p). \<forall>r\<in>set (rejections_of security (pg_context tenant device t) (pg_view t tenant db) op).
      reason_ok (rj_reason r)"
    and "protocol_version resp = protocol_version p" "schema_fingerprint resp = table_fingerprint t"
      "source_device_id resp = SERVER_DEVICE_ID"
proof -
  let ?ctx = "pg_context tenant device t" and ?db0 = "db\<lparr>pg_clocks := (pg_clocks db)(tenant \<mapsto> tenant_clock tenant db)\<rparr>"
  obtain db2 rjs clock where ok: "client_request_ok t device p"
    and br: "pg_build_response env now p device tenant t clock rjs db2 = Inr (db', resp)"
    and good: "loop_good t tenant (tenant_clock tenant db2) db2" "clock = word_of_int (tenant_clock tenant db2)"
    and loop: "foldM (pg_merge_op security ?ctx t) (payload_cells p) (?db0, []) =
      Inr (db2\<lparr>pg_clocks := (pg_clocks db)(tenant \<mapsto> tenant_clock tenant db)\<rparr>, rjs)"
    using pg_merge_loop [OF assms] by metis
  show "\<exists>m. nested_wf m \<and> changes resp = rows_of m"
    using build_response_page(2) [OF pg_build_response_ref(1) [OF br good] pg_abs_feed_inv [OF good(1)] pg_abs_counts(3) [OF good(1)]]
    by simp
  have ctx: "tenant_id ?ctx = tenant" by (simp add: pg_context_def)
  have "pg_view t tenant ?db0 = pg_view t tenant db" by (rule pg_view_cong) simp
  then show "\<forall>op\<in>set (payload_cells p). \<forall>r\<in>set (rejections_of security ?ctx (pg_view t tenant db) op). reason_ok (rj_reason r)"
    by (intro pg_loop.loop_reasons [OF loop request_cells_distinct [OF ok]]) (simp add: ctx)
  show "protocol_version resp = protocol_version p" "schema_fingerprint resp = table_fingerprint t"
      "source_device_id resp = SERVER_DEVICE_ID"
    by (rule pg_build_response_Inr [OF br]; assumption)+
qed

lemma pg_answer_ok:
  assumes "merge_crdt_states_with_security env now p device tenant t security db = Inr (db', resp)"
    and inv: "tenant_inv t tenant db" "valid_table t" "uuids_ok env"
  shows "validate_server_response resp t = Inr ()"
proof -
  note spec = pg_merge_spec [OF assms] and rows = pg_merge_rows [OF assms(1-3)]
  let ?s = "pg_abs t tenant db'"
  have clk: "0 \<le> tenant_clock tenant db'" "tenant_clock tenant db' \<le> i64_MAX" using spec(1) by (simp_all add: tenant_inv_def)
  then have glob: "int (unat (global_lamport ?s)) = tenant_clock tenant db'"
    by (simp add: pg_abs_def unat_clock del: of_nat_unat)
  obtain m where m: "nested_wf m" "changes resp = rows_of m" using rows(1) by blast
  have lease: "lease_good t tenant db'" "identifier_ok (pg_epoch db')" using spec(1) by (simp_all add: tenant_inv_def)
  have tok: "\<forall>v. cursor_token resp = Some v \<longrightarrow> identifier_ok v" "\<forall>v. server_epoch resp = Some v \<longrightarrow> identifier_ok v"
    using spec(11) lease by (auto simp: lease_good_def)
  have "int (unat (source_lamport p)) \<le> int (unat (global_lamport ?s))" unfolding glob using spec(3) by simp
  then have le: "source_lamport p \<le> global_lamport ?s" by (simp add: word_le_nat_alt del: of_nat_unat)
  have "int (unat (source_lamport resp)) = int (unat (global_lamport ?s))" unfolding glob by (rule spec(9))
  then have src: "source_lamport resp = global_lamport ?s" by (simp add: word_unat_eq_iff del: of_nat_unat)
  have "0 \<le> cursor p" using spec(2) by (simp add: client_request_ok_def payload_ok_def)
  then have c0: "0 \<le> cursor resp" using spec(7) by (auto simp: page_of_def split: if_splits)
  have "server_response_ok (state_table ?s) resp \<longleftrightarrow> unat (global_lamport ?s) < 2 ^ 63"
    by (rule answer_ok [OF _ pg_abs_state_inv [OF spec(1)] spec(7) m spec(5) rows(2) le src rows(3) _ rows(5) c0 tok])
      (use spec(2) rows(4) in simp_all)
  moreover have "int (unat (global_lamport ?s)) < 2 ^ 63" unfolding glob using clk(2) by (simp add: i64_MAX_def)
  then have "unat (global_lamport ?s) < 2 ^ 63" by (simp del: of_nat_unat)
  ultimately show ?thesis by (simp add: validate_server_response_iff)
qed

text \<open>Every answer of the adapter is one the client accepts: it passes the validation the
  client applies to a server response, whatever the policy and the history of the database.\<close>

theorem pg_response_valid:
  assumes "pg_reach env ts (db, now)" "deployed env ts" "t \<in> set ts"
    and "merge_crdt_states_with_security env now p device tenant t security db = Inr (db', resp)"
  shows "validate_server_response resp t = Inr ()"
  by (rule pg_answer_ok [OF assms(4) reach_tenant [OF assms(1-3)]])

subsection \<open>Cursors\<close>

text \<open>Property C23: cursors are capabilities. The cursor of a request is honoured exactly when it is zero
  or the server has a lease for the device that reaches it and, from protocol version 4 on, the request
  shows the token of the lease and the epoch of the server, in which the lease must have been issued.
  Otherwise the answer reports a reset and starts over. The answer carries the token and the epoch that
  a later request has to show for the cursor it returns.\<close>

theorem cursor_capability:
  assumes "pg_reach env ts (db, now)" "deployed env ts" "t \<in> set ts"
    and "merge_crdt_states_with_security env now p device tenant t security db = Inr (db', resp)"
  shows "(cursor_reset resp \<longleftrightarrow> cursor p \<noteq> 0 \<and>
      \<not> (\<exists>l. bt_get (tenant_leases t tenant db) device = Some l \<and> cursor p \<le> le_max_issued l \<and>
           (protocol_version p < 4 \<or> cursor_token p = Some (le_token l) \<and> server_epoch p = Some (le_epoch l) \<and>
            le_epoch l = pg_epoch db))) \<and>
    (cursor_reset resp \<longrightarrow> page_of (pg_abs t tenant db') 0 resp) \<and>
    (\<exists>l. bt_get (tenant_leases t tenant db') device = Some l \<and> cursor_token resp = Some (le_token l) \<and>
       server_epoch resp = Some (le_epoch l) \<and> le_epoch l = pg_epoch db' \<and> cursor resp \<le> le_max_issued l)"
proof -
  note inv = reach_tenant [OF assms(1-3)]
  note spec = pg_merge_spec [OF assms(4) inv]
  have "le_max_issued l \<le> tenant_max_cursor t tenant db" if "bt_get (tenant_leases t tenant db) device = Some l" for l
    using inv(1) that by (simp add: tenant_inv_def lease_good_def)
  then have valid: "pg_cursor_valid t tenant device p db \<longleftrightarrow> cursor p = 0 \<or>
      (\<exists>l. bt_get (tenant_leases t tenant db) device = Some l \<and> cursor p \<le> le_max_issued l \<and>
           (protocol_version p < 4 \<or> cursor_token p = Some (le_token l) \<and> server_epoch p = Some (le_epoch l) \<and>
            le_epoch l = pg_epoch db))"
    by (cases "bt_get (tenant_leases t tenant db) device") (auto simp: pg_cursor_valid_def intro: order.trans)
  have "cursor_reset resp \<longrightarrow> page_of (pg_abs t tenant db') 0 resp" using spec(7,8) by auto
  then show ?thesis using spec(8,11) valid by blast
qed

lemma rotate_sel:
  assumes "rotate_server_epoch env db = (db1, epoch)"
  shows "pg_epoch db1 = epoch" "tenant_leases t tenant db1 = (if pg_bypass env then [] else tenant_leases t tenant db)"
    "pg_log db1 = pg_log db"
  using assms by (auto simp: rotate_server_epoch_def Let_def tenant_leases_def)

text \<open>Rotating the epoch forces the devices to repair. After \<open>rotate_server_epoch\<close> the next
  request of a device that shows a cursor is answered with a reset, from the start of the feed, in the
  new epoch, if the role of the server bypasses row-level security, or else if the request has protocol
  version 4 and the new epoch is not the one of the lease of the device.\<close>

theorem rotation_forces_repair:
  assumes "pg_reach env ts (db, now)" "deployed env ts" "t \<in> set ts"
    and "rotate_server_epoch env db = (db1, epoch)"
    and "merge_crdt_states_with_security env now p device tenant t security db1 = Inr (db', resp)"
    and "pg_bypass env \<or> \<not> protocol_version p < 4 \<and>
      (\<forall>l. bt_get (tenant_leases t tenant db) device = Some l \<longrightarrow> le_epoch l \<noteq> epoch)"
  shows "(cursor_reset resp \<longleftrightarrow> cursor p \<noteq> 0) \<and> page_of (pg_abs t tenant db') 0 resp \<and> server_epoch resp = Some epoch"
proof -
  have reach: "pg_reach env ts (db1, now)" by (rule reach_step [OF assms(1) p_rotate [OF assms(4)]])
  note spec = pg_merge_spec [OF assms(5) reach_tenant [OF reach assms(2,3)]]
  note rot = rotate_sel [OF assms(4)]
  have "pg_cursor_valid t tenant device p db1 \<longleftrightarrow> cursor p = 0"
    using assms(6) rot(1,2) by (auto simp: pg_cursor_valid_def split: option.split)
  moreover have "pg_epoch db' = epoch" using spec(13) rot(1) by (simp add: elsewhere_def)
  ultimately show ?thesis using spec(7,8,11) by auto
qed

text \<open>Rotation spares protocol version 3 under row-level security. The role that the server
  is told to use does not bypass row-level security. Then the rotation deletes no lease, and a device that
  speaks protocol version 3 keeps its cursor: it is not told to repair, although the database may have
  been restored into another history.\<close>

theorem rotation_spares_old_protocol:
  assumes "pg_reach env ts (db, now)" "deployed env ts" "t \<in> set ts" "\<not> pg_bypass env"
    and "rotate_server_epoch env db = (db1, epoch)"
    and "merge_crdt_states_with_security env now p device tenant t security db1 = Inr (db', resp)"
    and "protocol_version p < 4" "bt_get (tenant_leases t tenant db) device = Some l" "cursor p \<le> le_max_issued l"
  shows "\<not> cursor_reset resp \<and> page_of (pg_abs t tenant db') (cursor p) resp"
proof -
  have reach: "pg_reach env ts (db1, now)" by (rule reach_step [OF assms(1) p_rotate [OF assms(5)]])
  note inv = reach_tenant [OF reach assms(2,3)]
  note spec = pg_merge_spec [OF assms(6) inv]
  have lease: "bt_get (tenant_leases t tenant db1) device = Some l"
    using rotate_sel(2) [OF assms(5)] assms(4,8) by simp
  have "le_max_issued l \<le> tenant_max_cursor t tenant db1"
    using inv(1) [of tenant] lease by (simp add: tenant_inv_def lease_good_def)
  then have "pg_cursor_valid t tenant device p db1" using assms(7,9) lease by (simp add: pg_cursor_valid_def)
  with spec(7,8) show ?thesis by simp
qed

subsection \<open>A client of the database\<close>

definition pg_world ::
  "pg_env \<Rightarrow> table_def list \<Rightarrow> table_def \<Rightarrow> string \<Rightarrow> sqlite_env \<Rightarrow> string \<Rightarrow> pg_db \<times> int \<Rightarrow>
   client_db \<Rightarrow> pg_db \<times> int \<Rightarrow> sync_payload set \<Rightarrow> bool" where
  "pg_world env ts t tenant cenv device =
     world (pg_serve env t tenant) (pg_shift env ts t tenant) (\<lambda>_ _. True) cenv t device"

lemma serving_new: "deployed env ts \<Longrightarrow> t \<in> set ts \<Longrightarrow> identifier_ok epoch \<Longrightarrow> serving env ts t (pg_db_new epoch, now)"
  by (simp add: serving_def pg_inv_def tenant_inv_new)

lemma tracks_pg_new:
  assumes "identifier_ok device" "device \<noteq> SERVER_DEVICE_ID" "identifier_ok epoch"
  shows "tracks cenv t device (client_db_new device) (pg_abs t tenant (pg_db_new epoch))"
proof -
  have "client_inv cenv t (client_db_new device)" by (rule client_inv_new [OF assms(1,2)])
  moreover have "state_inv (pg_abs t tenant (pg_db_new epoch))" by (rule pg_abs_state_inv [OF tenant_inv_new [OF assms(3)]])
  ultimately show ?thesis
    by (simp add: tracks_def client_db_new_def seen_def local_cursor_def log_view_def pg_view_def pg_db_new_def)
qed

text \<open>Property C3: a client of the PostgreSQL server converges. Take any history of a device and the
  server: local writes, rounds, requests of other devices of the tenant, lost, late and repeated
  messages, and, between them, requests of other tenants and for other tables, rolled-back transactions
  that leave gaps in the sequence, expired cursor leases and rotations of the epoch. When
  \<open>sync_until_caught_up\<close> then succeeds, the device holds a version at least as new of every cell of its
  tenant; on every cell with no pending local write the two hold the same version and value or neither
  holds one; and unless the last answer rejected a write, no local write is pending.\<close>

theorem pg_sync_converges:
  assumes "deployed env ts" "t \<in> set ts" "reals_exact cenv t" "identifier_ok device" "device \<noteq> SERVER_DEVICE_ID"
    and "identifier_ok epoch" "pg_world env ts t tenant cenv device (pg_db_new epoch, start) db s M"
    and "sync_until_caught_up cenv t (\<lambda>p. pg_serve env t tenant p device security) (db, s) = ((db', s'), Inr resp)"
  shows "(\<forall>k x. pg_view t tenant (fst s') k = Some x \<longrightarrow> lww.covered (log_view cenv t db' k) x) \<and>
    (\<forall>k. k \<notin> dirty_keys db' \<longrightarrow> rel_option agree (log_view cenv t db' k) (pg_view t tenant (fst s') k)) \<and>
    (rejections resp = [] \<longrightarrow> dirty_keys db' = {})"
proof -
  have "valid_table t" using assms(1,2) by (simp add: deployed_def)
  moreover have "tracks cenv t device (client_db_new device) (pg_abs t tenant (fst (pg_db_new epoch, start)))"
    using tracks_pg_new [OF assms(4-6)] by simp
  ultimately show ?thesis
    using pg_server.converges [OF _ assms(3) serving_new [OF assms(1,2,6)] _ assms(7) [unfolded pg_world_def] TrueI assms(8)]
    by simp
qed

end
