(* ===== verification/Http.thy ===== *)
theory Http
  imports Auth_Correct Pg_Correct
begin

section \<open>The HTTP surface (http.rs)\<close>

text \<open>
  The request handlers over the database: authentication, the check of the table, the transaction with its
  timeouts, the mapping of errors to responses, and the process-lifetime counters. Routing, extraction of the
  body, the body limit, the request timeout and the concurrency limit are layers of the web framework; of them
  the step relation below keeps that requests overlap and that a timed-out request is dropped at an await.
\<close>

subsection \<open>Configuration and counters\<close>

text \<open>A \<open>Duration\<close> is its length in nanoseconds.\<close>

type_synonym duration = nat

definition from_secs :: "nat \<Rightarrow> duration" where
  "from_secs s = s * 1000000000"

definition as_millis :: "duration \<Rightarrow> nat" where
  "as_millis d = d div 1000000"

record server_config =
  body_limit_bytes :: nat
  request_timeout :: duration
  max_concurrent_requests :: nat
  statement_timeout :: duration
  lock_timeout :: duration

definition default_config :: server_config where
  "default_config =
     \<lparr>body_limit_bytes = 5 * 2 ^ 20, request_timeout = from_secs 30, max_concurrent_requests = 128,
      statement_timeout = from_secs 25, lock_timeout = from_secs 5\<rparr>"

definition DURATION_BUCKETS :: "(u64 \<times> string) list" where
  "DURATION_BUCKETS =
     [(50000, ''0.05''), (100000, ''0.1''), (250000, ''0.25''), (500000, ''0.5''), (1000000, ''1''), (2500000, ''2.5''),
      (5000000, ''5''), (10000000, ''10''), (30000000, ''30'')]"

record metrics =
  mt_requests :: u64
  mt_sync_ok :: u64
  mt_sync_rejected :: u64
  mt_auth_failed :: u64
  mt_internal_errors :: u64
  mt_in_flight :: u64
  mt_duration_micros :: u64
  mt_duration_count :: u64
  mt_duration_buckets :: "u64 list"

definition metrics_default :: metrics where
  "metrics_default =
     \<lparr>mt_requests = 0, mt_sync_ok = 0, mt_sync_rejected = 0, mt_auth_failed = 0, mt_internal_errors = 0, mt_in_flight = 0,
      mt_duration_micros = 0, mt_duration_count = 0, mt_duration_buckets = replicate (length DURATION_BUCKETS) 0\<rparr>"

text \<open>The guard \<open>SyncObservation\<close>: it counts a request in, and out again when it is dropped.\<close>

definition observation_start :: "metrics \<Rightarrow> metrics" where
  "observation_start m = m\<lparr>mt_in_flight := mt_in_flight m + 1\<rparr>"

definition elapsed_micros :: "nat \<Rightarrow> u64" where
  "elapsed_micros elapsed = (if elapsed < 2 ^ 64 then of_nat elapsed else - 1)"

definition observation_drop :: "nat \<Rightarrow> metrics \<Rightarrow> metrics" where
  "observation_drop elapsed m =
     (let micros = elapsed_micros elapsed in
      m\<lparr>mt_duration_micros := mt_duration_micros m + micros,
        mt_duration_count := mt_duration_count m + 1,
        mt_duration_buckets :=
          map2 (\<lambda>(threshold, _) bucket. if micros \<le> threshold then bucket + 1 else bucket)
            DURATION_BUCKETS (mt_duration_buckets m),
        mt_in_flight := mt_in_flight m - 1\<rparr>)"

subsection \<open>Rendering\<close>

definition show_u64 :: "u64 \<Rightarrow> string" where
  "show_u64 w = show_nat (unat w)"

definition pad6 :: "nat \<Rightarrow> string" where
  "pad6 n = (let s = show_nat n in replicate (6 - length s) (CHR ''0'') @ s)"

definition metric_head :: "string \<Rightarrow> string \<Rightarrow> string \<Rightarrow> string" where
  "metric_head name help kind =
     ''# HELP '' @ name @ '' '' @ help @ nl @ ''# TYPE '' @ name @ '' '' @ kind @ nl"

definition bucket_line :: "string \<Rightarrow> u64 \<Rightarrow> string" where
  "bucket_line label n =
     ''loomabase_sync_duration_seconds_bucket{le='' @ quoted label @ ''} '' @ show_u64 n @ nl"

definition render :: "metrics \<Rightarrow> string" where
  "render m =
     metric_head ''loomabase_sync_requests_total'' ''Sync requests received.'' ''counter'' @
     ''loomabase_sync_requests_total '' @ show_u64 (mt_requests m) @ nl @
     metric_head ''loomabase_sync_ok_total'' ''Sync requests that merged successfully.'' ''counter'' @
     ''loomabase_sync_ok_total '' @ show_u64 (mt_sync_ok m) @ nl @
     metric_head ''loomabase_sync_rejected_total'' ''Authenticated sync requests rejected by the merge.'' ''counter'' @
     ''loomabase_sync_rejected_total '' @ show_u64 (mt_sync_rejected m) @ nl @
     metric_head ''loomabase_auth_failed_total'' ''Requests rejected by authentication.'' ''counter'' @
     ''loomabase_auth_failed_total '' @ show_u64 (mt_auth_failed m) @ nl @
     metric_head ''loomabase_sync_internal_errors_total'' ''Sync requests that failed internally.'' ''counter'' @
     ''loomabase_sync_internal_errors_total '' @ show_u64 (mt_internal_errors m) @ nl @
     metric_head ''loomabase_sync_in_flight'' ''Sync requests currently executing.'' ''gauge'' @
     ''loomabase_sync_in_flight '' @ show_u64 (mt_in_flight m) @ nl @
     metric_head ''loomabase_sync_duration_seconds'' ''Sync request execution time.'' ''histogram'' @
     concat (map2 (\<lambda>(_, label) n. bucket_line label n) DURATION_BUCKETS (mt_duration_buckets m)) @
     bucket_line ''+Inf'' (mt_duration_count m) @
     ''loomabase_sync_duration_seconds_sum '' @ show_nat (unat (mt_duration_micros m) div 1000000) @ ''.'' @
       pad6 (unat (mt_duration_micros m) mod 1000000) @ nl @
     ''loomabase_sync_duration_seconds_count '' @ show_u64 (mt_duration_count m) @ nl"

subsection \<open>Responses\<close>

datatype 'a http_response = Plain nat string | Metrics_Text string | Json_Ok 'a

definition error_response :: "sync_error \<Rightarrow> nat \<times> string" where
  "error_response e =
     (case e of
        InvalidPayload _ \<Rightarrow> (400, error_to_string e)
      | SchemaMismatch _ _ \<Rightarrow> (400, error_to_string e)
      | _ \<Rightarrow> (500, ''internal server error''))"

subsection \<open>Transactions\<close>

text \<open>What the driver may report: an error of \<open>begin\<close> or of a \<open>set_config\<close>, and of a commit that failed,
  with whether the server had carried it out all the same.\<close>

datatype commit_outcome = Committed | Commit_Failed string bool

record pg_driver =
  dr_begin :: "string option"
  dr_set_config :: "string \<Rightarrow> string \<Rightarrow> string option"
  dr_commit :: commit_outcome

definition pg_result :: "string option \<Rightarrow> sync_error + unit" where
  "pg_result r = (case r of None \<Rightarrow> Inr () | Some e \<Rightarrow> Inl (Postgres e))"

definition set_transaction_timeout :: "pg_driver \<Rightarrow> string \<Rightarrow> duration \<Rightarrow> sync_error + unit" where
  "set_transaction_timeout drv setting timeout =
     pg_result (dr_set_config drv setting (show_nat (as_millis timeout)))"

definition in_transaction ::
  "pg_driver \<Rightarrow> server_config \<Rightarrow> (pg_db \<Rightarrow> sync_error + pg_db \<times> 'a) \<Rightarrow> pg_db \<Rightarrow> pg_db \<times> (sync_error + 'a)" where
  "in_transaction drv config body db =
     (case rbind (pg_result (dr_begin drv)) (\<lambda>_.
           rbind (set_transaction_timeout drv ''statement_timeout'' (statement_timeout config)) (\<lambda>_.
           rbind (set_transaction_timeout drv ''lock_timeout'' (lock_timeout config)) (\<lambda>_. body db))) of
        Inl e \<Rightarrow> (db, Inl e)
      | Inr (db', response) \<Rightarrow>
          (case dr_commit drv of
             Committed \<Rightarrow> (db', Inr response)
           | Commit_Failed e applied \<Rightarrow> (if applied then db' else db, Inl (Postgres e))))"

subsection \<open>Handlers\<close>

record app_state =
  as_env :: pg_env
  as_table :: table_def
  as_authenticate :: "u64 option \<Rightarrow> headers \<Rightarrow> string + authenticated_device"
  as_security :: sync_security
  as_config :: server_config

definition run_merge ::
  "app_state \<Rightarrow> pg_driver \<Rightarrow> int \<Rightarrow> sync_payload \<Rightarrow> authenticated_device \<Rightarrow> pg_db \<Rightarrow> pg_db \<times> (sync_error + sync_payload)" where
  "run_merge st drv now payload identity =
     in_transaction drv (as_config st)
       (merge_crdt_states_with_security (as_env st) now payload (au_device_id identity) (au_tenant_id identity)
          (as_table st) (as_security st))"

definition run_partial_merge ::
  "app_state \<Rightarrow> pg_driver \<Rightarrow> int \<Rightarrow> partial_replica_request \<Rightarrow> authenticated_device \<Rightarrow> pg_db \<Rightarrow>
   pg_db \<times> (sync_error + partial_replica_response)" where
  "run_partial_merge st drv now request identity =
     in_transaction drv (as_config st)
       (merge_partial_replica_with_security (as_env st) now request (au_device_id identity) (au_tenant_id identity)
          (as_table st) (as_security st))"

text \<open>What the two handlers do between the start and the end of the observation; they differ in the
  transaction they run.\<close>

definition respond ::
  "app_state \<Rightarrow> u64 option \<Rightarrow> headers \<Rightarrow> (authenticated_device \<Rightarrow> pg_db \<Rightarrow> pg_db \<times> (sync_error + 'a)) \<Rightarrow>
   metrics \<Rightarrow> pg_db \<Rightarrow> metrics \<times> pg_db \<times> 'a http_response" where
  "respond st clock hs run m db =
     (case as_authenticate st clock hs of
        Inl message \<Rightarrow> (m\<lparr>mt_auth_failed := mt_auth_failed m + 1\<rparr>, db, Plain 401 ''unauthorized'')
      | Inr identity \<Rightarrow>
          if \<not> can_sync_table identity (tname (as_table st))
          then (m\<lparr>mt_sync_rejected := mt_sync_rejected m + 1\<rparr>, db, Plain 403 ''forbidden'')
          else
            (case run identity db of
               (db', Inr response) \<Rightarrow> (m\<lparr>mt_sync_ok := mt_sync_ok m + 1\<rparr>, db', Json_Ok response)
             | (db', Inl e) \<Rightarrow>
                 (case error_response e of
                    (status, message) \<Rightarrow>
                      (if 500 \<le> status \<and> status < 600 then m\<lparr>mt_internal_errors := mt_internal_errors m + 1\<rparr>
                       else m\<lparr>mt_sync_rejected := mt_sync_rejected m + 1\<rparr>,
                       db', Plain status message))))"

definition arrive :: "metrics \<Rightarrow> metrics" where
  "arrive m = observation_start (m\<lparr>mt_requests := mt_requests m + 1\<rparr>)"

definition handle ::
  "app_state \<Rightarrow> u64 option \<Rightarrow> nat \<Rightarrow> headers \<Rightarrow> (authenticated_device \<Rightarrow> pg_db \<Rightarrow> pg_db \<times> (sync_error + 'a)) \<Rightarrow>
   metrics \<Rightarrow> pg_db \<Rightarrow> metrics \<times> pg_db \<times> 'a http_response" where
  "handle st clock elapsed hs run m db =
     (case respond st clock hs run (arrive m) db of (m', db', response) \<Rightarrow> (observation_drop elapsed m', db', response))"

definition sync ::
  "app_state \<Rightarrow> pg_driver \<Rightarrow> u64 option \<Rightarrow> int \<Rightarrow> nat \<Rightarrow> headers \<Rightarrow> sync_payload \<Rightarrow> metrics \<Rightarrow> pg_db \<Rightarrow>
   metrics \<times> pg_db \<times> sync_payload http_response" where
  "sync st drv clock now elapsed hs payload = handle st clock elapsed hs (run_merge st drv now payload)"

definition sync_partial ::
  "app_state \<Rightarrow> pg_driver \<Rightarrow> u64 option \<Rightarrow> int \<Rightarrow> nat \<Rightarrow> headers \<Rightarrow> partial_replica_request \<Rightarrow> metrics \<Rightarrow> pg_db \<Rightarrow>
   metrics \<times> pg_db \<times> partial_replica_response http_response" where
  "sync_partial st drv clock now elapsed hs request = handle st clock elapsed hs (run_partial_merge st drv now request)"

definition metrics_page :: "metrics \<Rightarrow> unit http_response" where
  "metrics_page m = Metrics_Text (render m)"

text \<open>The two queries of the health check: which relations exist, and whether the sequence may be used
  (\<open>None\<close> when a query fails).\<close>

definition health :: "app_state \<Rightarrow> (string \<Rightarrow> bool) option \<Rightarrow> bool option \<Rightarrow> unit http_response" where
  "health st regclass sequence_usage =
     (let relations = [''loomabase_state'', ''loomabase_cursor_lease'', ''loomabase_server_state'', ''loomabase_audit_log'',
                       tname (as_table st), crdt_table (as_table st)];
          tables_ready = (case regclass of None \<Rightarrow> False | Some exists \<Rightarrow> list_all exists relations);
          sequence_ready = (case sequence_usage of None \<Rightarrow> False | Some b \<Rightarrow> b)
      in if tables_ready \<and> sequence_ready then Plain 200 ''ok'' else Plain 503 ''database unavailable'')"

end
