(* ===== verification/Http_Correct.thy ===== *)
theory Http_Correct
  imports Http
begin

section \<open>Requests over HTTP: atomicity, isolation and counters\<close>

text \<open>
  The server process as a step relation: requests arrive, are answered in one transaction each, or are
  dropped at an await when their time is up, while other processes use the same database. Every step is one
  of the database's own steps (\<open>http_step_pg\<close>), so what is shown of the database holds behind the HTTP
  surface; the rows of a tenant change only for requests that authenticate as that tenant; and the counters
  are exact for every interleaving.
\<close>

subsection \<open>One request\<close>

definition driver_ready :: "pg_driver \<Rightarrow> server_config \<Rightarrow> bool" where
  "driver_ready drv config \<longleftrightarrow>
     dr_begin drv = None \<and> set_transaction_timeout drv ''statement_timeout'' (statement_timeout config) = Inr () \<and>
     set_transaction_timeout drv ''lock_timeout'' (lock_timeout config) = Inr ()"

lemma pg_result_Inr: "pg_result r = Inr u \<longleftrightarrow> r = None"
  by (simp add: pg_result_def split: option.split)

lemma pg_result_Inl: "pg_result r = Inl e \<Longrightarrow> \<exists>s. e = Postgres s"
  by (auto simp: pg_result_def split: option.splits)

lemma in_transaction_Inr:
  "in_transaction drv config body db = (db', Inr resp) \<longleftrightarrow>
     driver_ready drv config \<and> dr_commit drv = Committed \<and> body db = Inr (db', resp)"
  by (auto simp: in_transaction_def driver_ready_def pg_result_Inr split: sum.splits commit_outcome.splits)
    (simp_all add: rbind_eq_Inl pg_result_Inr pg_result_def)

lemma in_transaction_Inl:
  assumes "in_transaction drv config body db = (db', Inl e)"
  shows "(db' = db \<and> (body db = Inl e \<or> (\<exists>s. e = Postgres s))) \<or>
    (\<exists>s resp. dr_commit drv = Commit_Failed s True \<and> body db = Inr (db', resp) \<and> e = Postgres s)"
  using assms
  by (auto simp: in_transaction_def rbind_eq_Inl set_transaction_timeout_def split: sum.splits commit_outcome.splits if_splits
      dest: pg_result_Inl)

definition admitted :: "app_state \<Rightarrow> u64 option \<Rightarrow> headers \<Rightarrow> authenticated_device \<Rightarrow> bool" where
  "admitted st clock hs identity \<longleftrightarrow>
     as_authenticate st clock hs = Inr identity \<and> can_sync_table identity (tname (as_table st))"

text \<open>Answers of a handler, for any transaction it runs.\<close>

lemma respond_Json:
  "respond st clock hs run m db = (m', db', Json_Ok resp) \<Longrightarrow>
   \<exists>identity. admitted st clock hs identity \<and> run identity db = (db', Inr resp)"
  by (auto simp: respond_def admitted_def split: sum.splits if_splits prod.splits)

lemma respond_Plain:
  assumes "respond st clock hs run m db = (m', db', Plain status msg)"
  shows "(status = 401 \<and> msg = ''unauthorized'' \<and> db' = db \<and> (\<exists>e. as_authenticate st clock hs = Inl e)) \<or>
    (status = 403 \<and> msg = ''forbidden'' \<and> db' = db \<and>
       (\<exists>identity. as_authenticate st clock hs = Inr identity \<and> \<not> can_sync_table identity (tname (as_table st)))) \<or>
    (\<exists>identity e. admitted st clock hs identity \<and> run identity db = (db', Inl e) \<and> error_response e = (status, msg))"
  using assms
  by (auto simp: respond_def admitted_def split: sum.splits if_splits prod.splits)

lemma error_response_status:
  "error_response e = (status, msg) \<Longrightarrow>
   (status = 400 \<and> ((\<exists>s. e = InvalidPayload s) \<or> (\<exists>x y. e = SchemaMismatch x y)) \<and> msg = error_to_string e) \<or>
   (status = 500 \<and> msg = ''internal server error'' \<and> \<not> (\<exists>s. e = InvalidPayload s) \<and> \<not> (\<exists>x y. e = SchemaMismatch x y))"
  by (cases e) (auto simp: error_response_def)

lemma handle_respond:
  "handle st clock elapsed hs run m db = (m', db', r) \<longleftrightarrow>
     (\<exists>m1. respond st clock hs run (arrive m) db = (m1, db', r) \<and> m' = observation_drop elapsed m1)"
  by (auto simp: handle_def split: prod.splits)

text \<open>Property C14: the sync handler answers with a payload exactly when the request is authenticated, its
  identity may sync the table, the driver carries the transaction through, and the merge for the tenant and
  device of that identity (nothing in the body or in other headers) succeeds; the payload and the new
  database are those of that merge.\<close>

theorem http_success_exact:
  "(\<exists>m'. sync st drv clock now elapsed hs p m db = (m', db', Json_Ok resp)) \<longleftrightarrow>
     (\<exists>identity. as_authenticate st clock hs = Inr identity \<and> can_sync_table identity (tname (as_table st)) \<and>
        driver_ready drv (as_config st) \<and> dr_commit drv = Committed \<and>
        merge_crdt_states_with_security (as_env st) now p (au_device_id identity) (au_tenant_id identity)
          (as_table st) (as_security st) db = Inr (db', resp))" (is "?l \<longleftrightarrow> ?r")
proof
  assume ?l
  then obtain m1 where "respond st clock hs (run_merge st drv now p) (arrive m) db = (m1, db', Json_Ok resp)"
    by (auto simp: sync_def handle_respond)
  from respond_Json [OF this] show ?r by (auto simp: admitted_def run_merge_def in_transaction_Inr)
next
  assume ?r
  then obtain identity where "admitted st clock hs identity" "run_merge st drv now p identity db = (db', Inr resp)"
    by (auto simp: admitted_def run_merge_def in_transaction_Inr)
  then show ?l by (auto simp: sync_def handle_respond respond_def admitted_def)
qed

text \<open>Property C15: a request that is refused changes nothing. The status is 400, 401, 403 or 500; 400 is given
  exactly to invalid payloads and foreign schemas and carries their message; 401 and 403 are given before any
  transaction; the text of a 500 discloses nothing. In all four cases the database is as before, except that
  a commit whose acknowledgement was lost may have taken effect, and is then answered by 500.\<close>

theorem http_refusals_safe:
  assumes "sync st drv clock now elapsed hs p m db = (m', db', Plain status msg)"
  shows "(status = 401 \<and> msg = ''unauthorized'' \<and> db' = db \<and> (\<exists>e. as_authenticate st clock hs = Inl e)) \<or>
    (status = 403 \<and> msg = ''forbidden'' \<and> db' = db \<and>
       (\<exists>identity. as_authenticate st clock hs = Inr identity \<and> \<not> can_sync_table identity (tname (as_table st)))) \<or>
    (status = 400 \<and> db' = db \<and>
       (\<exists>identity e. merge_crdt_states_with_security (as_env st) now p (au_device_id identity) (au_tenant_id identity)
            (as_table st) (as_security st) db = Inl e \<and> as_authenticate st clock hs = Inr identity \<and>
          ((\<exists>s. e = InvalidPayload s) \<or> (\<exists>x y. e = SchemaMismatch x y)) \<and> msg = error_to_string e)) \<or>
    (status = 500 \<and> msg = ''internal server error'' \<and> (db' = db \<or> (\<exists>s. dr_commit drv = Commit_Failed s True)))"
proof -
  obtain m1 where r: "respond st clock hs (run_merge st drv now p) (arrive m) db = (m1, db', Plain status msg)"
    using assms by (auto simp: sync_def handle_respond)
  from respond_Plain [OF r] show ?thesis
  proof (elim disjE)
    assume "\<exists>identity e. admitted st clock hs identity \<and> run_merge st drv now p identity db = (db', Inl e) \<and>
      error_response e = (status, msg)"
    then obtain identity e where id: "admitted st clock hs identity" and
      run: "in_transaction drv (as_config st) (merge_crdt_states_with_security (as_env st) now p (au_device_id identity)
        (au_tenant_id identity) (as_table st) (as_security st)) db = (db', Inl e)" and
      e: "error_response e = (status, msg)"
      by (auto simp: run_merge_def)
    from in_transaction_Inl [OF run] error_response_status [OF e] id show ?thesis by (auto simp: admitted_def)
  qed blast+
qed

subsection \<open>The process over time\<close>

text \<open>Beside the counters, the database and its time, a state records how many requests are being handled,
  how many were dropped, and the durations of all that have ended.\<close>

record http_state =
  ht_metrics :: metrics
  ht_db :: pg_db
  ht_now :: int
  ht_active :: nat
  ht_dropped :: nat
  ht_elapsed :: "nat list"

definition http_new :: "pg_db \<Rightarrow> int \<Rightarrow> http_state" where
  "http_new db now =
     \<lparr>ht_metrics = metrics_default, ht_db = db, ht_now = now, ht_active = 0, ht_dropped = 0, ht_elapsed = []\<rparr>"

definition ended :: "nat \<Rightarrow> metrics \<Rightarrow> pg_db \<Rightarrow> http_state \<Rightarrow> http_state" where
  "ended elapsed m db s =
     s\<lparr>ht_metrics := observation_drop elapsed m, ht_db := db, ht_active := ht_active s - 1,
       ht_elapsed := elapsed # ht_elapsed s\<rparr>"

definition dropped :: "nat \<Rightarrow> pg_db \<Rightarrow> http_state \<Rightarrow> http_state" where
  "dropped elapsed db s = (ended elapsed (ht_metrics s) db s)\<lparr>ht_dropped := Suc (ht_dropped s)\<rparr>"

text \<open>The transaction a request asks for.\<close>

datatype request_body = Full sync_payload | Partial partial_replica_request

definition commits :: "app_state \<Rightarrow> int \<Rightarrow> request_body \<Rightarrow> authenticated_device \<Rightarrow> pg_db \<Rightarrow> pg_db \<Rightarrow> bool" where
  "commits st now body identity db db' \<longleftrightarrow>
     (case body of
        Full p \<Rightarrow> \<exists>resp. merge_crdt_states_with_security (as_env st) now p (au_device_id identity) (au_tenant_id identity)
          (as_table st) (as_security st) db = Inr (db', resp)
      | Partial rq \<Rightarrow> \<exists>resp. merge_partial_replica_with_security (as_env st) now rq (au_device_id identity)
          (au_tenant_id identity) (as_table st) (as_security st) db = Inr (db', resp))"

text \<open>A request is dropped before its transaction is committed, or during the commit, which may then take effect.\<close>

datatype http_event = Arrive | Serve "u64 option" headers | Elsewhere "(table_def \<times> string) option"

inductive http_step :: "app_state \<Rightarrow> table_def list \<Rightarrow> http_event \<Rightarrow> http_state \<Rightarrow> http_state \<Rightarrow> bool" for st ts where
  h_arrive: "http_step st ts Arrive s (s\<lparr>ht_metrics := arrive (ht_metrics s), ht_active := Suc (ht_active s)\<rparr>)"
| h_sync: "0 < ht_active s \<Longrightarrow>
    respond st clock hs (run_merge st drv (ht_now s) p) (ht_metrics s) (ht_db s) = (m, db, r) \<Longrightarrow>
    http_step st ts (Serve clock hs) s (ended elapsed m db s)"
| h_partial: "0 < ht_active s \<Longrightarrow>
    respond st clock hs (run_partial_merge st drv (ht_now s) rq) (ht_metrics s) (ht_db s) = (m, db, pr) \<Longrightarrow>
    http_step st ts (Serve clock hs) s (ended elapsed m db s)"
| h_dropped: "0 < ht_active s \<Longrightarrow> http_step st ts (Serve clock hs) s (dropped elapsed (ht_db s) s)"
| h_dropped_commit: "0 < ht_active s \<Longrightarrow> admitted st clock hs identity \<Longrightarrow>
    commits st (ht_now s) body identity (ht_db s) db \<Longrightarrow> http_step st ts (Serve clock hs) s (dropped elapsed db s)"
| h_elsewhere: "pg_step (as_env st) ts lbl (ht_db s, ht_now s) (db, now) \<Longrightarrow>
    http_step st ts (Elsewhere lbl) s (s\<lparr>ht_db := db, ht_now := now\<rparr>)"

inductive http_reach :: "app_state \<Rightarrow> table_def list \<Rightarrow> http_state \<Rightarrow> bool" for st ts where
  http_start: "pg_reach (as_env st) ts (db, now) \<Longrightarrow> http_reach st ts (http_new db now)"
| http_next: "http_reach st ts s \<Longrightarrow> http_step st ts ev s s' \<Longrightarrow> http_reach st ts s'"

inductive_cases http_step_cases [elim]: "http_step st ts ev s s'"

subsection \<open>Steps of the process are steps of the database\<close>

lemma run_merge_commits:
  "run_merge st drv now p identity db = (db', r) \<Longrightarrow> db' = db \<or> commits st now (Full p) identity db db'"
  unfolding run_merge_def commits_def
  by (cases r) (auto simp: in_transaction_Inr dest!: in_transaction_Inl)

lemma run_partial_merge_commits:
  "run_partial_merge st drv now rq identity db = (db', r) \<Longrightarrow> db' = db \<or> commits st now (Partial rq) identity db db'"
  unfolding run_partial_merge_def commits_def
  by (cases r) (auto simp: in_transaction_Inr dest!: in_transaction_Inl)

lemma respond_db:
  assumes "respond st clock hs run m db = (m', db', r)"
  shows "db' = db \<or> (\<exists>identity res. admitted st clock hs identity \<and> run identity db = (db', res))"
  using assms by (auto simp: respond_def admitted_def split: sum.splits if_splits prod.splits)

lemma commits_pg_step:
  assumes "commits st now body identity db db'" "as_table st \<in> set ts"
  shows "pg_step (as_env st) ts (Some (as_table st, au_tenant_id identity)) (db, now) (db', now)"
  using assms by (auto simp: commits_def intro: p_merge p_partial split: request_body.splits)

lemma serve_effect:
  assumes "http_step st ts (Serve clock hs) s s'"
  shows "ht_now s' = ht_now s \<and> (ht_db s' = ht_db s \<or>
    (\<exists>body identity. admitted st clock hs identity \<and> commits st (ht_now s) body identity (ht_db s) (ht_db s')))"
  using assms
  by (cases rule: http_step.cases)
    (auto simp: ended_def dropped_def dest!: respond_db run_merge_commits run_partial_merge_commits)

lemma http_step_pg:
  assumes "http_step st ts ev s s'" "as_table st \<in> set ts"
  shows "(ht_db s', ht_now s') = (ht_db s, ht_now s) \<or>
    (\<exists>lbl. pg_step (as_env st) ts lbl (ht_db s, ht_now s) (ht_db s', ht_now s'))"
proof (cases ev)
  case (Serve clock hs)
  with serve_effect assms commits_pg_step show ?thesis by (metis (no_types, lifting))
qed (use assms(1) in auto)

lemma http_reach_pg:
  assumes "http_reach st ts s" "as_table st \<in> set ts"
  shows "pg_reach (as_env st) ts (ht_db s, ht_now s)"
  using assms
proof (induction rule: http_reach.induct)
  case (http_next s ev s')
  then show ?case using http_step_pg [OF http_next.hyps(2)] reach_step by metis
qed (simp add: http_new_def)

text \<open>Property C13: behind the HTTP surface the tenants stay apart. In every state the process can reach, a
  request changes rows of a table and tenant only if the table is the one served and the authenticator has
  accepted the headers of the request for exactly that tenant, with the table allowed; this includes
  requests that are dropped while they commit.\<close>

theorem http_isolation:
  assumes "http_reach st ts s" "deployed (as_env st) ts" "as_table st \<in> set ts" "t \<in> set ts"
    and "http_step st ts (Serve clock hs) s s'" "\<not> same_rows t tenant (ht_db s) (ht_db s')"
  shows "t = as_table st \<and>
    (\<exists>identity. as_authenticate st clock hs = Inr identity \<and> au_tenant_id identity = tenant \<and>
       can_sync_table identity (tname t))"
proof -
  have inv: "pg_inv ts (ht_db s)" using pg_reach_inv [OF http_reach_pg [OF assms(1,3)] assms(2)] by simp
  have "ht_db s' \<noteq> ht_db s" using assms(6) by (auto simp: same_rows_def)
  then obtain body identity where id: "admitted st clock hs identity"
    and c: "commits st (ht_now s) body identity (ht_db s) (ht_db s')"
    using serve_effect [OF assms(5)] by blast
  have "Some (as_table st, au_tenant_id identity) = Some (t, tenant)"
    using pg_step_other [OF commits_pg_step [OF c assms(3)] _ assms(2) _ assms(4), of tenant] inv assms(6) by fastforce
  with id show ?thesis by (auto simp: admitted_def)
qed

subsection \<open>The counters\<close>

definition outcomes :: "metrics \<Rightarrow> u64" where
  "outcomes m = mt_sync_ok m + mt_sync_rejected m + mt_auth_failed m + mt_internal_errors m"

definition at_most :: "u64 \<Rightarrow> nat list \<Rightarrow> u64" where
  "at_most threshold ds = of_nat (length (filter (\<lambda>e. elapsed_micros e \<le> threshold) ds))"

definition metrics_exact :: "http_state \<Rightarrow> bool" where
  "metrics_exact s \<longleftrightarrow>
     mt_in_flight (ht_metrics s) = of_nat (ht_active s) \<and>
     mt_requests (ht_metrics s) = of_nat (length (ht_elapsed s)) + of_nat (ht_active s) \<and>
     outcomes (ht_metrics s) + of_nat (ht_dropped s) = of_nat (length (ht_elapsed s)) \<and>
     mt_duration_count (ht_metrics s) = of_nat (length (ht_elapsed s)) \<and>
     mt_duration_micros (ht_metrics s) = sum_list (map elapsed_micros (ht_elapsed s)) \<and>
     mt_duration_buckets (ht_metrics s) = map (\<lambda>(threshold, _). at_most threshold (ht_elapsed s)) DURATION_BUCKETS"

lemma respond_metrics:
  assumes "respond st clock hs run m db = (m', db', r)"
  shows "outcomes m' = outcomes m + 1 \<and> mt_requests m' = mt_requests m \<and> mt_in_flight m' = mt_in_flight m \<and>
    mt_duration_count m' = mt_duration_count m \<and> mt_duration_micros m' = mt_duration_micros m \<and>
    mt_duration_buckets m' = mt_duration_buckets m"
  using assms by (auto simp: respond_def outcomes_def split: sum.splits if_splits prod.splits)

lemma drop_buckets:
  "map2 (\<lambda>(threshold, _) bucket. if elapsed_micros e \<le> threshold then bucket + 1 else bucket) bs
     (map (\<lambda>(threshold, _). at_most threshold ds) bs) =
   map (\<lambda>(threshold, _). at_most threshold (e # ds)) bs"
  by (induction bs) (auto simp: at_most_def)

lemma ended_exact:
  assumes "metrics_exact s" "0 < ht_active s" "outcomes m + of_nat k = outcomes (ht_metrics s) + 1"
    and "mt_requests m = mt_requests (ht_metrics s)" "mt_in_flight m = mt_in_flight (ht_metrics s)"
    "mt_duration_count m = mt_duration_count (ht_metrics s)" "mt_duration_micros m = mt_duration_micros (ht_metrics s)"
    "mt_duration_buckets m = mt_duration_buckets (ht_metrics s)"
  shows "metrics_exact ((ended e m db s)\<lparr>ht_dropped := ht_dropped s + k\<rparr>)"
proof -
  have "of_nat (ht_active s) = of_nat (ht_active s - 1) + (1 :: u64)"
    using assms(2) by (cases "ht_active s") simp_all
  then have flight: "mt_in_flight m - 1 = of_nat (ht_active s - 1)"
    "mt_requests m = of_nat (length (ht_elapsed s)) + 1 + of_nat (ht_active s - 1)"
    using assms(1,4,5) by (simp_all add: metrics_exact_def)
  have "outcomes (observation_drop e m) = outcomes m" by (simp add: outcomes_def observation_drop_def Let_def)
  moreover have "outcomes m + of_nat (ht_dropped s + k) = outcomes m + of_nat k + of_nat (ht_dropped s)"
    by (simp only: of_nat_add ac_simps)
  moreover have "outcomes (ht_metrics s) + 1 + of_nat (ht_dropped s) = outcomes (ht_metrics s) + of_nat (ht_dropped s) + 1"
    by (simp only: ac_simps)
  moreover have "outcomes (ht_metrics s) + of_nat (ht_dropped s) = of_nat (length (ht_elapsed s))"
    using assms(1) by (simp only: metrics_exact_def)
  ultimately have "outcomes (observation_drop e m) + of_nat (ht_dropped s + k) = of_nat (length (ht_elapsed s)) + 1"
    using assms(3) by (simp only:)
  then show ?thesis
    using assms(1,6-8) flight
    by (simp add: metrics_exact_def ended_def) (simp add: observation_drop_def Let_def drop_buckets)
qed

lemma metrics_exact_step:
  assumes "http_step st ts ev s s'" "metrics_exact s"
  shows "metrics_exact s'"
  using assms(1)
proof cases
  case h_arrive
  then show ?thesis
    using assms(2) by (simp add: metrics_exact_def arrive_def observation_start_def outcomes_def)
next
  case (h_sync clock hs drv p m db r elapsed)
  then show ?thesis using ended_exact [OF assms(2), of m 0] respond_metrics [OF h_sync(4)] by (simp add: ended_def)
next
  case (h_partial clock hs drv rq m db pr elapsed)
  then show ?thesis using ended_exact [OF assms(2), of m 0] respond_metrics [OF h_partial(4)] by (simp add: ended_def)
next
  case (h_dropped clock hs elapsed)
  then show ?thesis using ended_exact [OF assms(2), of "ht_metrics s" 1 elapsed "ht_db s"] by (simp add: dropped_def ended_def)
next
  case (h_dropped_commit clock hs identity body db elapsed)
  then show ?thesis using ended_exact [OF assms(2), of "ht_metrics s" 1] by (simp add: dropped_def ended_def)
next
  case (h_elsewhere lbl db now)
  then show ?thesis using assms(2) by (simp add: metrics_exact_def)
qed


end
