(* ===== verification/Server_Main.thy ===== *)
theory Server_Main
  imports Http_Correct
begin

section \<open>The server executable (server_main.rs)\<close>

text \<open>
  How the executable reads its environment, chooses an authenticator, refreshes the keys of Supabase, and what
  it does to the database before it listens. Connecting, fetching the key set, the schema initialisation,
  maintenance and serving are effects: \<open>run_main\<close> lists those it performs, and which of them fail is a
  parameter. Logging and signal handling are left out.
\<close>

subsection \<open>Reading the environment\<close>

text \<open>\<open>std::env::var\<close>: \<open>None\<close> when the variable is unset or not Unicode.\<close>

type_synonym env_vars = "string \<Rightarrow> string option"

definition nonempty_env :: "env_vars \<Rightarrow> string \<Rightarrow> string option" where
  "nonempty_env vars name = (case vars name of None \<Rightarrow> None | Some v \<Rightarrow> if v = [] then None else Some v)"

definition or_else :: "'a option \<Rightarrow> 'a option \<Rightarrow> 'a option" where
  "or_else x y = (case x of None \<Rightarrow> y | Some _ \<Rightarrow> x)"

text \<open>\<open>str::parse\<close> for an unsigned integer of \<open>w\<close> bits: an optional plus sign and at least one digit.\<close>

definition parse_unsigned :: "nat \<Rightarrow> string \<Rightarrow> nat option" where
  "parse_unsigned w s =
     (let ds = (case s of [] \<Rightarrow> [] | c # cs \<Rightarrow> if c = CHR ''+'' then cs else s) in
      if ds = [] then None
      else case parse_digits 0 ds of None \<Rightarrow> None | Some n \<Rightarrow> if n < 2 ^ w then Some n else None)"

definition env_parse :: "nat \<Rightarrow> env_vars \<Rightarrow> string \<Rightarrow> nat \<Rightarrow> string + nat" where
  "env_parse w vars name otherwise =
     (case vars name of
        Some v \<Rightarrow> ok_or (parse_unsigned w v) (name @ '' has an invalid value'')
      | None \<Rightarrow> Inr otherwise)"

definition optional_env_parse :: "nat \<Rightarrow> env_vars \<Rightarrow> string \<Rightarrow> string + nat option" where
  "optional_env_parse w vars name =
     (case vars name of
        Some v \<Rightarrow> rbind (ok_or (parse_unsigned w v) (name @ '' has an invalid value'')) (\<lambda>n. Inr (Some n))
      | None \<Rightarrow> Inr None)"

definition env_bool :: "env_vars \<Rightarrow> string \<Rightarrow> string + bool" where
  "env_bool vars name =
     (case vars name of
        None \<Rightarrow> Inr False
      | Some v \<Rightarrow>
          if v = ''true'' \<or> v = ''1'' then Inr True
          else if v = ''false'' \<or> v = ''0'' then Inr False
          else Inl (name @ '' must be true/false or 1/0''))"

subsection \<open>Limits\<close>

definition override :: "nat \<Rightarrow> env_vars \<Rightarrow> string \<Rightarrow> string \<Rightarrow> (nat \<Rightarrow> server_config \<Rightarrow> server_config) \<Rightarrow> server_config \<Rightarrow> string + server_config" where
  "override w vars name message field c =
     (case vars name of
        None \<Rightarrow> Inr c
      | Some v \<Rightarrow> rbind (ok_or (parse_unsigned w v) (name @ message)) (\<lambda>n. Inr (field n c)))"

definition server_config_from_env :: "env_vars \<Rightarrow> string + server_config" where
  "server_config_from_env vars =
     rbind (override 64 vars ''LOOMABASE_BODY_LIMIT_BYTES'' '' must be a positive integer''
       (\<lambda>n c. c\<lparr>body_limit_bytes := n\<rparr>) default_config) (\<lambda>c.
     rbind (override 64 vars ''LOOMABASE_REQUEST_TIMEOUT_SECS'' '' must be a non-negative integer''
       (\<lambda>n c. c\<lparr>request_timeout := from_secs n\<rparr>) c) (\<lambda>c.
     rbind (override 64 vars ''LOOMABASE_MAX_CONCURRENT_REQUESTS'' '' must be a positive integer''
       (\<lambda>n c. c\<lparr>max_concurrent_requests := n\<rparr>) c) (\<lambda>c.
     rbind (override 64 vars ''LOOMABASE_STATEMENT_TIMEOUT_SECS'' '' must be a positive integer''
       (\<lambda>n c. c\<lparr>statement_timeout := from_secs n\<rparr>) c) (\<lambda>c.
     rbind (override 64 vars ''LOOMABASE_LOCK_TIMEOUT_SECS'' '' must be a positive integer''
       (\<lambda>n c. c\<lparr>lock_timeout := from_secs n\<rparr>) c) (\<lambda>c.
     if body_limit_bytes c = 0 \<or> max_concurrent_requests c = 0 \<or> request_timeout c = 0 \<or> statement_timeout c = 0 \<or>
        lock_timeout c = 0
     then Inl ''server limits and timeouts must be greater than zero'' else Inr c)))))"

record pool_options =
  po_url :: string
  po_max_connections :: nat
  po_min_connections :: nat
  po_acquire_timeout :: duration
  po_statement_cache :: bool

text \<open>The options of the connection pool; \<open>url_ok\<close> stands for the parser of connection strings.\<close>

definition build_pool_options :: "(string \<Rightarrow> string + unit) \<Rightarrow> env_vars \<Rightarrow> string \<Rightarrow> string + pool_options" where
  "build_pool_options url_ok vars url =
     rbind (env_parse 32 vars ''LOOMABASE_DB_MAX_CONNECTIONS'' 20) (\<lambda>max_connections.
     rbind (env_parse 32 vars ''LOOMABASE_DB_MIN_CONNECTIONS'' 1) (\<lambda>min_connections.
     rbind (env_parse 64 vars ''LOOMABASE_DB_ACQUIRE_TIMEOUT_SECS'' 10) (\<lambda>secs.
     if max_connections = 0 \<or> min_connections > max_connections \<or> secs = 0
     then Inl ''invalid PostgreSQL pool limits''
     else
       rbind (url_ok url) (\<lambda>_.
       rbind (env_bool vars ''LOOMABASE_DB_TRANSACTION_POOLER'') (\<lambda>pooler.
       Inr \<lparr>po_url = url, po_max_connections = max_connections, po_min_connections = min_connections,
            po_acquire_timeout = from_secs secs,
            po_statement_cache = (\<not> (pooler \<or> list_ex (\<lambda>i. starts_with (drop i url) '':6543/'') [0..<length url]))\<rparr>)))))"

subsection \<open>The authenticator\<close>

datatype authenticator =
  Auth_Jwt jwt_authenticator | Auth_Rsa rsa_authenticator | Auth_Supabase supabase_authenticator | Auth_Headers

fun authenticate :: "auth_env \<Rightarrow> authenticator \<Rightarrow> u64 option \<Rightarrow> headers \<Rightarrow> string + authenticated_device" where
  "authenticate env (Auth_Jwt a) clock hs = jwt_authenticate env clock a hs"
| "authenticate env (Auth_Rsa a) clock hs = rsa_authenticate env clock a hs"
| "authenticate env (Auth_Supabase a) clock hs = supabase_authenticate env clock a hs"
| "authenticate env Auth_Headers clock hs = header_authenticate env hs"

text \<open>\<open>str::trim_end_matches\<close> for a character.\<close>

definition trim_end :: "char \<Rightarrow> string \<Rightarrow> string" where
  "trim_end c s = rev (dropWhile (\<lambda>x. x = c) (rev s))"

definition apply_opt :: "('a \<Rightarrow> 'b \<Rightarrow> 'b) \<Rightarrow> 'a option \<Rightarrow> 'b \<Rightarrow> 'b" where
  "apply_opt f x b = (case x of None \<Rightarrow> b | Some a \<Rightarrow> f a b)"

text \<open>The Supabase branch, with the background refresh (URL and period) when the key set is not configured.\<close>

definition build_supabase ::
  "auth_env \<Rightarrow> (string \<Rightarrow> string + string) \<Rightarrow> env_vars \<Rightarrow> string \<Rightarrow> string + authenticator \<times> (string \<times> nat) option" where
  "build_supabase env fetch vars supabase_url =
     (let audience = nonempty_env vars ''LOOMABASE_JWT_AUDIENCE'';
          issuer = nonempty_env vars ''LOOMABASE_JWT_ISSUER'';
          base = trim_end (CHR ''/'') supabase_url;
          jwks_url = base @ ''/auth/v1/.well-known/jwks.json'';
          configured = or_else (nonempty_env vars ''LOOMABASE_SUPABASE_JWKS'') (nonempty_env vars ''SUPABASE_JWKS'')
      in
        rbind (case configured of Some jwks \<Rightarrow> Inr jwks | None \<Rightarrow> fetch jwks_url) (\<lambda>jwks.
        rbind (from_jwks_json env jwks (case issuer of Some i \<Rightarrow> i | None \<Rightarrow> base @ ''/auth/v1'')) (\<lambda>a.
        let a = sup_with_audience (Some (case audience of Some x \<Rightarrow> x | None \<Rightarrow> ''authenticated'')) a;
            a = apply_opt sup_with_tenant_claim (nonempty_env vars ''LOOMABASE_SUPABASE_TENANT_CLAIM'') a;
            a = apply_opt sup_with_tables_claim (nonempty_env vars ''LOOMABASE_SUPABASE_TABLES_CLAIM'') a
        in if nonempty_env vars ''LOOMABASE_SUPABASE_JWKS'' = None \<and> nonempty_env vars ''SUPABASE_JWKS'' = None
           then rbind (env_parse 64 vars ''LOOMABASE_JWKS_REFRESH_SECS'' 600) (\<lambda>secs.
                if secs = 0 then Inl ''LOOMABASE_JWKS_REFRESH_SECS must be greater than zero''
                else Inr (Auth_Supabase a, Some (jwks_url, secs)))
           else Inr (Auth_Supabase a, None))))"

definition build_authenticator ::
  "auth_env \<Rightarrow> (string \<Rightarrow> string + string) \<Rightarrow> env_vars \<Rightarrow> string + authenticator \<times> (string \<times> nat) option" where
  "build_authenticator env fetch vars =
     (let audience = nonempty_env vars ''LOOMABASE_JWT_AUDIENCE'';
          issuer = nonempty_env vars ''LOOMABASE_JWT_ISSUER''
      in case or_else (nonempty_env vars ''LOOMABASE_SUPABASE_URL'') (nonempty_env vars ''SUPABASE_URL'') of
           Some url \<Rightarrow> build_supabase env fetch vars url
         | None \<Rightarrow>
             (case nonempty_env vars ''LOOMABASE_JWT_PUBLIC_KEY'' of
                Some pem \<Rightarrow>
                  rbind (from_public_key_pem env pem) (\<lambda>a.
                  Inr (Auth_Rsa (apply_opt rsa_with_issuer issuer (apply_opt rsa_with_audience audience a)), None))
              | None \<Rightarrow>
                  (case nonempty_env vars ''LOOMABASE_JWT_SECRET'' of
                     Some secret \<Rightarrow>
                       if length secret < 32 then Inl ''LOOMABASE_JWT_SECRET must contain at least 32 bytes''
                       else Inr (Auth_Jwt (apply_opt jwt_with_issuer issuer (apply_opt jwt_with_audience audience (jwt_new secret))), None)
                   | None \<Rightarrow>
                       rbind (env_bool vars ''LOOMABASE_ALLOW_INSECURE_HEADERS'') (\<lambda>allowed.
                       if allowed then Inr (Auth_Headers, None)
                       else Inl (''configure LOOMABASE_SUPABASE_URL, LOOMABASE_JWT_PUBLIC_KEY, or LOOMABASE_JWT_SECRET; '' @
                         ''insecure headers require LOOMABASE_ALLOW_INSECURE_HEADERS=true'')))))"

subsection \<open>Refreshing the key set\<close>

text \<open>One round of the background task: what was fetched replaces the keys if it is acceptable.\<close>

definition refresh_tick :: "auth_env \<Rightarrow> supabase_authenticator \<Rightarrow> string + string \<Rightarrow> supabase_authenticator" where
  "refresh_tick env a fetched = (case fetched of Inl e \<Rightarrow> a | Inr jwks \<Rightarrow> fst (replace_jwks_json env jwks a))"

definition jwks_refresh :: "auth_env \<Rightarrow> (string + string) list \<Rightarrow> supabase_authenticator \<Rightarrow> supabase_authenticator" where
  "jwks_refresh env fetches a = foldl (refresh_tick env) a fetches"

subsection \<open>The sequence of start-up\<close>

datatype effect =
  Connect pool_options | Init_Schema | Rotate_Epoch | Expire_Leases nat | Listen string authenticator server_config

text \<open>Effects are performed in order until one fails or an error is found in the environment.\<close>

type_synonym startup = "effect list \<times> (string + unit)"

definition perform :: "(effect \<Rightarrow> string option) \<Rightarrow> effect \<Rightarrow> startup \<Rightarrow> startup" where
  "perform io e rest =
     (case io e of Some err \<Rightarrow> ([e], Inl err) | None \<Rightarrow> (e # fst rest, snd rest))"

definition stop_or :: "string + 'a \<Rightarrow> ('a \<Rightarrow> startup) \<Rightarrow> startup" where
  "stop_or r f = (case r of Inl e \<Rightarrow> ([], Inl e) | Inr a \<Rightarrow> f a)"

definition migrate :: "(effect \<Rightarrow> string option) \<Rightarrow> env_vars \<Rightarrow> startup" where
  "migrate io vars =
     perform io Init_Schema (
     stop_or (env_bool vars ''LOOMABASE_ROTATE_SERVER_EPOCH'') (\<lambda>rotate.
     let expire = stop_or (optional_env_parse 64 vars ''LOOMABASE_EXPIRE_CURSOR_LEASES_SECS'') (\<lambda>secs.
           case secs of None \<Rightarrow> ([], Inr ()) | Some n \<Rightarrow> perform io (Expire_Leases n) ([], Inr ()))
     in if rotate then perform io Rotate_Epoch expire else expire))"

definition serve_app ::
  "auth_env \<Rightarrow> (string \<Rightarrow> string + string) \<Rightarrow> (effect \<Rightarrow> string option) \<Rightarrow> env_vars \<Rightarrow> string \<Rightarrow> server_config \<Rightarrow> startup" where
  "serve_app env fetch io vars bind config =
     stop_or (build_authenticator env fetch vars) (\<lambda>(a, refresh). perform io (Listen bind a config) ([], Inr ()))"

definition run_main ::
  "auth_env \<Rightarrow> (string \<Rightarrow> string + unit) \<Rightarrow> (string \<Rightarrow> string + string) \<Rightarrow> (effect \<Rightarrow> string option) \<Rightarrow> env_vars \<Rightarrow> startup" where
  "run_main env url_ok fetch io vars =
     stop_or (ok_or (vars ''DATABASE_URL'') ''DATABASE_URL must be set to a PostgreSQL connection string'') (\<lambda>url.
     let bind = (case vars ''LOOMABASE_BIND'' of Some b \<Rightarrow> b | None \<Rightarrow> ''127.0.0.1:8080'') in
     stop_or (server_config_from_env vars) (\<lambda>config.
     stop_or (build_pool_options url_ok vars url) (\<lambda>pool.
     perform io (Connect pool) (
     stop_or (env_bool vars ''LOOMABASE_MIGRATE_ONLY'') (\<lambda>migrate_only.
     stop_or (env_bool vars ''LOOMABASE_SKIP_SCHEMA_INIT'') (\<lambda>skip.
     if migrate_only \<and> skip
     then ([], Inl ''LOOMABASE_MIGRATE_ONLY and LOOMABASE_SKIP_SCHEMA_INIT are mutually exclusive'')
     else if migrate_only then migrate io vars
     else if skip then serve_app env fetch io vars bind config
     else perform io Init_Schema (serve_app env fetch io vars bind config)))))))"

subsection \<open>Start-up fails closed\<close>

lemma in_stop_or: "e \<in> set (fst (stop_or r f)) \<longleftrightarrow> (\<exists>a. r = Inr a \<and> e \<in> set (fst (f a)))"
  by (simp add: stop_or_def split: sum.split)

lemma in_perform: "e \<in> set (fst (perform io e' rest)) \<longleftrightarrow> e = e' \<or> (io e' = None \<and> e \<in> set (fst rest))"
  by (auto simp: perform_def split: option.split)

lemma no_listen_migrate: "Listen b a c \<notin> set (fst (migrate io vars))"
  by (auto simp: migrate_def in_perform in_stop_or Let_def split: if_splits option.splits)

lemma listen_serve:
  "Listen b a c \<in> set (fst (serve_app env fetch io vars bind config)) \<longleftrightarrow>
     b = bind \<and> c = config \<and> (\<exists>refresh. build_authenticator env fetch vars = Inr (a, refresh))"
  by (auto simp: serve_app_def in_stop_or in_perform split: prod.splits)

lemma run_main_listens:
  assumes "Listen b a c \<in> set (fst (run_main env url_ok fetch io vars))"
  shows "server_config_from_env vars = Inr c \<and> (\<exists>refresh. build_authenticator env fetch vars = Inr (a, refresh)) \<and>
    env_bool vars ''LOOMABASE_MIGRATE_ONLY'' = Inr False"
  using assms
  by (auto simp: run_main_def in_stop_or in_perform listen_serve no_listen_migrate Let_def split: if_splits)

lemma build_supabase_kind:
  "build_supabase env fetch vars url = Inr (a, refresh) \<Longrightarrow> \<exists>s. a = Auth_Supabase s"
  by (auto simp: build_supabase_def Let_def split: if_splits)

lemma build_authenticator_headers:
  assumes "build_authenticator env fetch vars = Inr (Auth_Headers, refresh)"
  shows "vars ''LOOMABASE_ALLOW_INSECURE_HEADERS'' \<in> {Some ''true'', Some ''1''} \<and>
    nonempty_env vars ''LOOMABASE_JWT_SECRET'' = None \<and> nonempty_env vars ''LOOMABASE_JWT_PUBLIC_KEY'' = None \<and>
    nonempty_env vars ''LOOMABASE_SUPABASE_URL'' = None \<and> nonempty_env vars ''SUPABASE_URL'' = None"
  using assms
  by (auto simp: build_authenticator_def env_bool_def or_else_def Let_def split: option.splits if_splits dest: build_supabase_kind)

context signed_authenticator
begin

lemma anonymous_request:
  assumes "as_authenticate st clock = authenticate" "hs ''authorization'' = None"
  shows "\<exists>m'. sync st drv clock now elapsed hs p m db = (m', db, Plain 401 ''unauthorized'')"
proof -
  obtain e where "as_authenticate st clock hs = Inl e" using anonymous_rejected [of hs] assms by auto
  then show ?thesis by (simp add: sync_def handle_def respond_def)
qed

end

lemma anonymous_unauthorized:
  assumes "a \<noteq> Auth_Headers" "as_authenticate st = authenticate env a" "hs ''authorization'' = None"
  shows "\<exists>m'. sync st drv clock now elapsed hs p m db = (m', db, Plain 401 ''unauthorized'')"
proof (cases a)
  case (Auth_Jwt j)
  with assms(2) have "as_authenticate st clock = jwt_authenticate env clock j" by auto
  from hs256.anonymous_request [OF this, where hs = hs, OF assms(3)] show ?thesis .
next
  case (Auth_Rsa r)
  with assms(2) have "as_authenticate st clock = rsa_authenticate env clock r" by auto
  from rs256.anonymous_request [OF this, where hs = hs, OF assms(3)] show ?thesis .
next
  case (Auth_Supabase s)
  with assms(2) have "as_authenticate st clock = supabase_authenticate env clock s" by auto
  from supabase.anonymous_request [OF this, where hs = hs, OF assms(3)] show ?thesis .
qed (use assms(1) in simp)


subsection \<open>Keys after refreshes\<close>

definition acceptable :: "auth_env \<Rightarrow> (string + string) list \<Rightarrow> jwk list list" where
  "acceptable env fetches =
     concat (map (\<lambda>f. case f of Inl _ \<Rightarrow> [] | Inr doc \<Rightarrow> (case parse_jwks env doc of Inl _ \<Rightarrow> [] | Inr jwks \<Rightarrow> [jwks])) fetches)"

lemma parse_jwks_not_empty: "parse_jwks env doc = Inr jwks \<Longrightarrow> jwks \<noteq> []"
  by (auto simp: parse_jwks_def split: if_splits)

lemma acceptable_not_empty: "jwks \<in> set (acceptable env fetches) \<Longrightarrow> jwks \<noteq> []"
  by (auto simp: acceptable_def dest: parse_jwks_not_empty [OF sym] split: sum.splits)

lemma jwks_refresh_keys:
  "su_jwks a = Some k \<Longrightarrow> jwks_refresh env fetches a = a\<lparr>su_jwks := Some (last (k # acceptable env fetches))\<rparr>"
proof (induction fetches arbitrary: a k)
  case Nil
  then show ?case by (simp add: jwks_refresh_def acceptable_def)
next
  case (Cons f fs)
  show ?case
  proof (cases "\<exists>doc jwks. f = Inr doc \<and> parse_jwks env doc = Inr jwks")
    case True
    then obtain doc jwks where f: "f = Inr doc" "parse_jwks env doc = Inr jwks" by blast
    then have "refresh_tick env a f = a\<lparr>su_jwks := Some jwks\<rparr>"
      using Cons.prems by (simp add: refresh_tick_def replace_jwks_json_def)
    then show ?thesis using Cons.IH [of "a\<lparr>su_jwks := Some jwks\<rparr>" jwks] f by (simp add: jwks_refresh_def acceptable_def)
  next
    case False
    then have "refresh_tick env a f = a" "acceptable env (f # fs) = acceptable env fs"
      by (auto simp: refresh_tick_def replace_jwks_json_def acceptable_def split: sum.splits)
    then show ?thesis using Cons by (simp add: jwks_refresh_def)
  qed
qed

text \<open>Refreshing never leaves the server without keys. Whatever the background task fetches (failed
  requests, broken documents, empty key sets), the keys in use afterwards are those of the last acceptable
  document, or the ones from the start; a request is then accepted only if one of these keys is found for its
  token.\<close>

theorem refresh_keeps_last_keys:
  assumes "from_jwks_json env doc issuer = Inr a"
  shows "\<exists>k0. parse_jwks env doc = Inr k0 \<and>
    su_jwks (jwks_refresh env fetches a) = Some (last (k0 # acceptable env fetches)) \<and>
    last (k0 # acceptable env fetches) \<noteq> [] \<and>
    (\<forall>clock hs d. supabase_authenticate env clock (jwks_refresh env fetches a) hs = Inr d \<longrightarrow>
       (\<exists>token alg kid. bearer_token env hs = Inr token \<and> decode_header env token = Some (alg, Some kid) \<and>
          jwks_find env (last (k0 # acceptable env fetches)) kid \<noteq> None))"
proof -
  obtain k0 where k0: "parse_jwks env doc = Inr k0" "su_jwks a = Some k0"
    using assms by (auto simp: from_jwks_json_def)
  define k where "k = last (k0 # acceptable env fetches)"
  have keys: "su_jwks (jwks_refresh env fetches a) = Some k" using jwks_refresh_keys [OF k0(2)] by (simp add: k_def)
  have "k0 \<noteq> []" by (rule parse_jwks_not_empty [OF k0(1)])
  then have "k \<noteq> []" unfolding k_def using acceptable_not_empty [of _ env fetches] last_in_set [of "acceptable env fetches"]
    by (cases "acceptable env fetches = []") auto
  moreover have "\<exists>token alg kid. bearer_token env hs = Inr token \<and> decode_header env token = Some (alg, Some kid) \<and>
      jwks_find env k kid \<noteq> None"
    if "supabase_authenticate env clock (jwks_refresh env fetches a) hs = Inr d" for clock hs d
    using supabase_identity_Inr [OF that] verified_claims_Inr [of env clock "jwks_refresh env fetches a" hs] keys
    by (metis option.discI option.inject)
  ultimately show ?thesis using k0(1) keys unfolding k_def by blast
qed

end
