(* ===== verification/Codegen.thy ===== *)
theory Codegen
  imports Loom_Text
begin

section \<open>Typed models for the SDKs (codegen.rs)\<close>

text \<open>
  The generator writes one model file per table and one client file into an ordered map of file names. Shown:
  for table names in regular snake case the files are complete in Swift, Kotlin and Dart, since the type name
  can be turned back into the table name; and that names outside this shape, and TypeScript, can lose models.
  Table and column names are ASCII (they are validated), so letter case is ASCII case.
\<close>

datatype sdk_language = Swift | Kotlin | TypeScript | Dart

record generated_sdk =
  sdk_lang :: sdk_language
  sdk_files :: "(string, string) btree_map"

definition ascii_upper :: "char \<Rightarrow> char" where
  "ascii_upper c = (if is_ascii_lowercase c then char_of (byte c - 32) else c)"

definition is_upper :: "char \<Rightarrow> bool" where
  "is_upper c \<longleftrightarrow> 65 \<le> byte c \<and> byte c \<le> 90"

definition capitalize :: "string \<Rightarrow> string" where
  "capitalize part = (case part of [] \<Rightarrow> [] | c # cs \<Rightarrow> ascii_upper c # cs)"

definition pascal_case :: "string \<Rightarrow> string" where
  "pascal_case value = concat (map capitalize (filter (\<lambda>part. part \<noteq> []) (split_on (CHR ''_'') value)))"

fun snake_from :: "nat \<Rightarrow> string \<Rightarrow> string" where
  "snake_from index [] = []"
| "snake_from index (c # cs) =
     (if index > 0 \<and> is_upper c then [CHR ''_''] else []) @ [ascii_lower c] @ snake_from (Suc index) cs"

definition snake_case :: "string \<Rightarrow> string" where
  "snake_case value = snake_from 0 value"

fun swift_type :: "column_type \<Rightarrow> string" where
  "swift_type TyText = ''String''"
| "swift_type TyInteger = ''Int64''"
| "swift_type TyReal = ''Double''"
| "swift_type TyBoolean = ''Bool''"

fun kotlin_type :: "column_type \<Rightarrow> string" where
  "kotlin_type TyText = ''String''"
| "kotlin_type TyInteger = ''Long''"
| "kotlin_type TyReal = ''Double''"
| "kotlin_type TyBoolean = ''Boolean''"

fun typescript_type :: "column_type \<Rightarrow> string" where
  "typescript_type TyText = ''string''"
| "typescript_type TyInteger = ''number''"
| "typescript_type TyReal = ''number''"
| "typescript_type TyBoolean = ''boolean''"

fun dart_type :: "column_type \<Rightarrow> string" where
  "dart_type TyText = ''String''"
| "dart_type TyInteger = ''int''"
| "dart_type TyReal = ''double''"
| "dart_type TyBoolean = ''bool''"

fun client_file_name :: "sdk_language \<Rightarrow> string" where
  "client_file_name Swift = ''LoomabaseTransport.swift''"
| "client_file_name Kotlin = ''LoomabaseTransport.kt''"
| "client_file_name TypeScript = ''loomabase_transport.ts''"
| "client_file_name Dart = ''loomabase_transport.dart''"

fun model_file_name :: "string \<Rightarrow> sdk_language \<Rightarrow> string" where
  "model_file_name type_name Swift = type_name @ ''.swift''"
| "model_file_name type_name Kotlin = type_name @ ''.kt''"
| "model_file_name type_name TypeScript = map ascii_lower type_name @ ''.ts''"
| "model_file_name type_name Dart = snake_case type_name @ ''.dart''"

fun model_head :: "sdk_language \<Rightarrow> string \<Rightarrow> string" where
  "model_head Swift type_name =
     ''import Foundation'' @ nl @ nl @ ''public struct '' @ type_name @ '': Codable, Identifiable, Sendable {'' @ nl @
     ''    public var id: String'' @ nl"
| "model_head Kotlin type_name =
     ''package dev.loomabase.generated'' @ nl @ nl @ ''import kotlinx.serialization.Serializable'' @ nl @ nl @
     ''@Serializable'' @ nl @ ''data class '' @ type_name @ ''('' @ nl @ ''    val id: String,'' @ nl"
| "model_head TypeScript type_name = ''export interface '' @ type_name @ '' {'' @ nl @ ''  id: string;'' @ nl"
| "model_head Dart type_name = ''class '' @ type_name @ '' {'' @ nl @ ''  final String id;'' @ nl"

fun model_field :: "sdk_language \<Rightarrow> column_def \<Rightarrow> string" where
  "model_field Swift c = ''    public var '' @ cname c @ '': '' @ swift_type (cty c) @ nl"
| "model_field Kotlin c = ''    val '' @ cname c @ '': '' @ kotlin_type (cty c) @ '','' @ nl"
| "model_field TypeScript c = ''  '' @ cname c @ '': '' @ typescript_type (cty c) @ '';'' @ nl"
| "model_field Dart c = ''  final '' @ dart_type (cty c) @ '' '' @ cname c @ '';'' @ nl"

fun model_tail :: "sdk_language \<Rightarrow> string \<Rightarrow> column_def list \<Rightarrow> string" where
  "model_tail Swift type_name cs = ''    public var '' @ LIVENESS_COLUMN @ '': Bool'' @ nl @ ''}'' @ nl"
| "model_tail Kotlin type_name cs = ''    val '' @ LIVENESS_COLUMN @ '': Boolean = false,'' @ nl @ '')'' @ nl"
| "model_tail TypeScript type_name cs = ''  '' @ LIVENESS_COLUMN @ '': boolean;'' @ nl @ ''}'' @ nl"
| "model_tail Dart type_name cs =
     ''  final bool '' @ LIVENESS_COLUMN @ '';'' @ nl @ nl @
     ''  const '' @ type_name @ ''({required this.id'' @ concat (map (\<lambda>c. '', required this.'' @ cname c) cs) @
     '', this.'' @ LIVENESS_COLUMN @ '' = false});'' @ nl @ ''}'' @ nl"

definition model_text :: "sdk_language \<Rightarrow> table_def \<Rightarrow> string" where
  "model_text language t =
     (let type_name = pascal_case (tname t)
      in model_head language type_name @ concat (map (model_field language) (tcolumns t)) @
         model_tail language type_name (tcolumns t))"

fun client_contract :: "sdk_language \<Rightarrow> u64 \<Rightarrow> string" where
  "client_contract Swift fp =
     ''import Foundation'' @ nl @ nl @ ''public let loomabaseSchemaFingerprint: UInt64 = '' @ show_nat (unat fp) @ nl @ nl @
     ''public protocol LoomabaseTransport: Sendable {'' @ nl @
     ''    func sync(payload: Data) async throws -> Data'' @ nl @ ''}'' @ nl"
| "client_contract Kotlin fp =
     ''package dev.loomabase.generated'' @ nl @ nl @
     ''const val LOOMABASE_SCHEMA_FINGERPRINT: ULong = '' @ show_nat (unat fp) @ ''u'' @ nl @ nl @
     ''fun interface LoomabaseTransport {'' @ nl @ ''    suspend fun sync(payload: ByteArray): ByteArray'' @ nl @ ''}'' @ nl"
| "client_contract TypeScript fp =
     ''export const LOOMABASE_SCHEMA_FINGERPRINT = '' @ quoted (show_nat (unat fp)) @ '';'' @ nl @ nl @
     ''export interface LoomabaseTransport {'' @ nl @
     ''  sync(payload: Uint8Array): Promise<Uint8Array>;'' @ nl @ ''}'' @ nl"
| "client_contract Dart fp =
     ''const String loomabaseSchemaFingerprint = '' @ squoted (show_nat (unat fp)) @ '';'' @ nl @ nl @
     ''abstract interface class LoomabaseTransport {'' @ nl @
     ''  Future<List<int>> sync(List<int> payload);'' @ nl @ ''}'' @ nl"

definition generate_sdk :: "contract \<Rightarrow> sdk_language \<Rightarrow> generated_sdk" where
  "generate_sdk c language =
     (let files = foldl (\<lambda>files t. bt_insert (model_file_name (pascal_case (tname t)) language) (model_text language t) files)
            [] (ctables c)
      in \<lparr>sdk_lang = language,
          sdk_files = bt_insert (client_file_name language) (client_contract language (contract_fingerprint c)) files\<rparr>)"

subsection \<open>Regular names come back\<close>

text \<open>Regular snake case: parts of lower-case letters and digits, each starting with a letter.\<close>

definition regular_part :: "string \<Rightarrow> bool" where
  "regular_part p \<longleftrightarrow>
     (case p of [] \<Rightarrow> False | c # cs \<Rightarrow> is_ascii_lowercase c \<and> list_all (\<lambda>x. is_ascii_lowercase x \<or> is_digit x) cs)"

definition regular_name :: "string \<Rightarrow> bool" where
  "regular_name s \<longleftrightarrow> list_all regular_part (split_on (CHR ''_'') s)"

lemma upper_of_lower:
  assumes "is_ascii_lowercase c"
  shows "is_upper (ascii_upper c) \<and> ascii_lower (ascii_upper c) = c"
proof -
  have b: "97 \<le> byte c" "byte c \<le> 122" using assms by (simp_all add: is_ascii_lowercase_def)
  then have "byte (char_of (byte c - 32)) = byte c - 32" by (simp add: byte_def)
  moreover have "byte c - 32 + 32 = byte c" "char_of (byte c) = c" using b by (simp_all add: byte_def)
  moreover have "65 \<le> byte c - 32 \<and> byte c - 32 \<le> 90" using b by arith
  ultimately show ?thesis using b assms by (simp add: is_upper_def ascii_lower_def ascii_upper_def)
qed

lemma keep_lower: "is_ascii_lowercase c \<or> is_digit c \<Longrightarrow> \<not> is_upper c \<and> ascii_lower c = c"
  by (auto simp: is_ascii_lowercase_def is_digit_def is_upper_def ascii_lower_def byte_def)

lemma snake_from_append: "snake_from i (s @ r) = snake_from i s @ snake_from (i + length s) r"
  by (induction s arbitrary: i) simp_all

lemma snake_from_lower: "list_all (\<lambda>x. is_ascii_lowercase x \<or> is_digit x) s \<Longrightarrow> snake_from i s = s"
  by (induction s arbitrary: i) (simp_all add: keep_lower)

lemma snake_from_part:
  assumes "regular_part p"
  shows "snake_from i (capitalize p) = (if i > 0 then [CHR ''_''] else []) @ p"
proof -
  obtain c cs where p: "p = c # cs" "is_ascii_lowercase c" "list_all (\<lambda>x. is_ascii_lowercase x \<or> is_digit x) cs"
    using assms by (auto simp: regular_part_def split: list.splits)
  show ?thesis using upper_of_lower [OF p(2)] snake_from_lower [OF p(3)] by (simp add: p(1) capitalize_def)
qed

lemma snake_from_parts:
  "list_all regular_part ps \<Longrightarrow> i > 0 \<Longrightarrow> snake_from i (concat (map capitalize ps)) = concat (map (\<lambda>p. CHR ''_'' # p) ps)"
proof (induction ps arbitrary: i)
  case (Cons p ps)
  then show ?case by (simp add: snake_from_append snake_from_part)
qed simp

lemma join_parts: "join [c] (p # ps) = p @ concat (map (\<lambda>p. c # p) ps)"
  by (induction ps arbitrary: p) simp_all

lemma snake_pascal:
  assumes "regular_name s"
  shows "snake_case (pascal_case s) = s"
proof -
  obtain p ps where split: "split_on (CHR ''_'') s = p # ps" by (metis list.exhaust split_on_not_Nil)
  have reg: "regular_part p" "list_all regular_part ps" using assms by (simp_all add: regular_name_def split)
  have "filter (\<lambda>part. part \<noteq> []) (p # ps) = p # ps"
    using reg by (auto simp: filter_id_conv list_all_iff regular_part_def)
  then have "pascal_case s = capitalize p @ concat (map capitalize ps)" by (simp add: pascal_case_def split)
  moreover have "length (capitalize p) > 0" using reg(1) by (auto simp: capitalize_def regular_part_def split: list.splits)
  ultimately have "snake_case (pascal_case s) = p @ concat (map (\<lambda>p. CHR ''_'' # p) ps)"
    using reg by (simp add: snake_case_def snake_from_append snake_from_part snake_from_parts)
  also have "\<dots> = s" using join_split_on [of "CHR ''_''" s] by (simp only: split join_parts)
  finally show ?thesis .
qed

subsection \<open>The generated files\<close>

definition sdk_model :: "sdk_language \<Rightarrow> table_def \<Rightarrow> string \<times> string" where
  "sdk_model language t = (model_file_name (pascal_case (tname t)) language, model_text language t)"

lemma inserted_files:
  "bt_get (foldl (\<lambda>files t. bt_insert (model_file_name (pascal_case (tname t)) l) (model_text l t) files) m ts) =
   bt_get m ++ map_of (rev (map (sdk_model l) ts))"
  by (induction ts arbitrary: m) (auto simp: sdk_model_def)

lemma sdk_files_get:
  "bt_get (sdk_files (generate_sdk c l)) =
     (map_of (rev (map (sdk_model l) (ctables c))))(client_file_name l \<mapsto> client_contract l (contract_fingerprint c))"
  unfolding generate_sdk_def Let_def by (simp add: inserted_files)

lemma regular_files_inj:
  assumes "regular_name a" "regular_name b" "l \<noteq> TypeScript"
    and "model_file_name (pascal_case a) l = model_file_name (pascal_case b) l"
  shows "a = b"
  using assms by (cases l) (auto dest: arg_cong [of _ _ snake_case] simp: snake_pascal)

lemma transport_name:
  assumes "regular_name a" "l \<noteq> TypeScript" "model_file_name (pascal_case a) l = client_file_name l"
  shows "a = ''loomabase_transport''"
proof -
  have "pascal_case a = ''LoomabaseTransport'' \<or> snake_case (pascal_case a) = ''loomabase_transport''"
    using assms(2,3) by (cases l) (auto simp: append_eq_append_conv2 append_eq_Cons_conv Cons_eq_append_conv)
  moreover have "snake_case ''LoomabaseTransport'' = ''loomabase_transport''" by code_simp
  ultimately show ?thesis using snake_pascal [OF assms(1)] by metis
qed

lemma contract_new_Inr: "contract_new ts = Inr c \<Longrightarrow> ctables c = ts \<and> distinct (map tname ts)"
proof -
  have "check_tables xs seen = Inr u \<Longrightarrow> distinct (map tname xs) \<and> tname ` set xs \<inter> seen = {}" for xs seen u
    by (induction xs arbitrary: seen) (auto split: if_splits)
  then show "contract_new ts = Inr c \<Longrightarrow> ctables c = ts \<and> distinct (map tname ts)"
    by (auto simp: contract_new_def split: if_splits)
qed

text \<open>Property C39: for a contract whose table names are in regular snake case and not the name of the transport,
  the Swift, Kotlin and Dart SDKs are complete: there is exactly one model file per table, with the model of
  that table, and the client file with the fingerprint of the contract. (The type name of a model determines
  its table: turning it back to snake case gives the table name.)\<close>

theorem sdk_models_complete:
  assumes "contract_new ts = Inr c" "l \<noteq> TypeScript"
    and "\<forall>t\<in>set ts. regular_name (tname t) \<and> tname t \<noteq> ''loomabase_transport''"
  shows "(\<forall>t\<in>set ts. bt_get (sdk_files (generate_sdk c l)) (model_file_name (pascal_case (tname t)) l) = Some (model_text l t)) \<and>
    bt_get (sdk_files (generate_sdk c l)) (client_file_name l) = Some (client_contract l (contract_fingerprint c)) \<and>
    card (set (bt_keys (sdk_files (generate_sdk c l)))) = Suc (length ts) \<and>
    (\<forall>t\<in>set ts. snake_case (pascal_case (tname t)) = tname t)"
proof -
  note ts = contract_new_Inr [OF assms(1)]
  have inj: "inj_on (\<lambda>n. model_file_name (pascal_case n) l) (set (map tname ts))"
  proof (rule inj_onI)
    fix a b assume "a \<in> set (map tname ts)" "b \<in> set (map tname ts)"
      "model_file_name (pascal_case a) l = model_file_name (pascal_case b) l"
    moreover from this(1,2) have "regular_name a" "regular_name b" using assms(3) by auto
    ultimately show "a = b" using regular_files_inj [OF _ _ assms(2)] by blast
  qed
  have names: "map fst (map (sdk_model l) ts) = map (\<lambda>n. model_file_name (pascal_case n) l) (map tname ts)"
    by (simp add: sdk_model_def)
  have dist: "distinct (map fst (map (sdk_model l) ts))"
    unfolding names using ts inj by (simp only: distinct_map)
  have client: "client_file_name l \<notin> set (map fst (map (sdk_model l) ts))"
  proof
    assume "client_file_name l \<in> set (map fst (map (sdk_model l) ts))"
    then obtain t where t: "t \<in> set ts" "model_file_name (pascal_case (tname t)) l = client_file_name l"
      by (auto simp: sdk_model_def)
    from transport_name [OF _ assms(2) this(2)] t(1) assms(3) show False by blast
  qed
  have "bt_get (sdk_files (generate_sdk c l)) (model_file_name (pascal_case (tname t)) l) = Some (model_text l t)"
    if "t \<in> set ts" for t
  proof -
    have "(model_file_name (pascal_case (tname t)) l, model_text l t) \<in> set (map (sdk_model l) ts)"
      using that by (auto simp: sdk_model_def)
    then have "map_of (rev (map (sdk_model l) ts)) (model_file_name (pascal_case (tname t)) l) = Some (model_text l t)"
      using dist by (intro map_of_is_SomeI) (simp_all only: rev_map [symmetric] distinct_rev set_rev map_map)
    moreover have "model_file_name (pascal_case (tname t)) l \<noteq> client_file_name l"
      using that client by (metis (no_types, lifting) fst_conv image_eqI set_map sdk_model_def)
    ultimately show ?thesis using ts by (simp add: sdk_files_get)
  qed
  moreover have "set (bt_keys (sdk_files (generate_sdk c l))) = insert (client_file_name l) (set (map fst (map (sdk_model l) ts)))"
    unfolding set_map dom_map_of_conv_image_fst [symmetric] sdk_files_get using ts
    by (simp add: dom_map_of_conv_image_fst)
  then have "card (set (bt_keys (sdk_files (generate_sdk c l)))) = Suc (length ts)"
    using client distinct_card [OF dist] by simp
  ultimately show ?thesis using ts assms(3) snake_pascal by (simp add: sdk_files_get)
qed

text \<open>Names of other shapes, and TypeScript for all names, can lose models: these contracts are accepted, and the
  generated SDK has fewer files than models.\<close>

definition sdk_table :: "string \<Rightarrow> table_def" where
  "sdk_table n = \<lparr>tname = n, tcolumns = [\<lparr>cname = ''title'', cty = TyText\<rparr>]\<rparr>"

lemma two_models_one_file:
  assumes "a \<noteq> b" "model_file_name (pascal_case a) l = f" "model_file_name (pascal_case b) l = f" "f \<noteq> client_file_name l"
  shows "\<exists>c. contract_new [sdk_table a, sdk_table b] = Inr c \<and> length (sdk_files (generate_sdk c l)) = 2"
proof -
  have "contract_new [sdk_table a, sdk_table b] = Inr \<lparr>ctables = [sdk_table a, sdk_table b]\<rparr>"
    using assms(1) by (simp add: contract_new_def sdk_table_def)
  moreover have "length (sdk_files (generate_sdk \<lparr>ctables = [sdk_table a, sdk_table b]\<rparr> l)) = 2"
    using assms by (simp add: generate_sdk_def sdk_table_def del: bt_insert.simps)
      (simp add: bt_wf_Cons)
  ultimately show ?thesis by blast
qed

text \<open>Models get lost: in every language for the tables \<open>log_1\<close> and \<open>log1\<close>, and in TypeScript also for the
  regular names \<open>todo_items\<close> and \<open>todoitems\<close>. The contract is accepted, and the SDK has one model file for
  the two tables.\<close>

lemma sdk_models_lost:
  "\<exists>c. contract_new [sdk_table ''log_1'', sdk_table ''log1''] = Inr c \<and> length (sdk_files (generate_sdk c l)) = 2"
  "\<exists>c. contract_new [sdk_table ''todo_items'', sdk_table ''todoitems''] = Inr c \<and>
     length (sdk_files (generate_sdk c TypeScript)) = 2"
proof -
  have "pascal_case ''log_1'' = ''Log1''" "pascal_case ''log1'' = ''Log1''" by code_simp+
  then show "\<exists>c. contract_new [sdk_table ''log_1'', sdk_table ''log1''] = Inr c \<and> length (sdk_files (generate_sdk c l)) = 2"
    by (intro two_models_one_file [OF _ refl]) (cases l; simp; code_simp)+
next
  show "\<exists>c. contract_new [sdk_table ''todo_items'', sdk_table ''todoitems''] = Inr c \<and>
     length (sdk_files (generate_sdk c TypeScript)) = 2"
    by (rule two_models_one_file [where f = "''todoitems.ts''"]) (code_simp)+
qed

end
