(* ===== verification/Ffi.thy ===== *)
theory Ffi
  imports Reference_Correct Loom_Text
begin

section \<open>The C interface (loomabase-ffi)\<close>

text \<open>
  The functions of the C interface over the reference server. A pointer is \<open>None\<close> when it is null; a C string is
  its bytes up to the terminating zero; the per-thread error slot is passed along. Reading and writing JSON are
  parameters. Freeing is the end of the handle's life and has no other effect than clearing the error slot. The
  handler for panics is not modelled: every function it guards is total in the model.
\<close>

definition LOOMABASE_ABI_VERSION :: u32 where "LOOMABASE_ABI_VERSION = 1"

definition loomabase_abi_version :: u32 where "loomabase_abi_version = LOOMABASE_ABI_VERSION"

text \<open>A handle: the state behind its lock (\<open>None\<close> when the lock is poisoned).\<close>

record loomabase_state =
  ffi_inner :: "crdt_state option"

type_synonym last_error = "string option"

text \<open>\<open>set_last_error\<close> replaces zero bytes, so that \<open>CString::new\<close> (which refuses them) succeeds.\<close>

definition cstring_new :: "string \<Rightarrow> string option" where
  "cstring_new s = (if CHR 0x00 \<in> set s then None else Some s)"

definition set_last_error :: "string \<Rightarrow> last_error" where
  "set_last_error message = cstring_new (map (\<lambda>c. if c = CHR 0x00 then CHR '' '' else c) message)"

definition clear_last_error :: last_error where
  "clear_last_error = None"

text \<open>\<open>CStr::to_str\<close>: well-formed UTF-8.\<close>

definition byte_in :: "nat \<Rightarrow> nat \<Rightarrow> char \<Rightarrow> bool" where
  "byte_in lo hi c \<longleftrightarrow> lo \<le> byte c \<and> byte c \<le> hi"

fun utf8_valid :: "string \<Rightarrow> bool" where
  "utf8_valid [] = True"
| "utf8_valid (a # s) =
     (if byte a < 128 then utf8_valid s
      else if byte_in 194 223 a then
        (case s of b # s' \<Rightarrow> byte_in 128 191 b \<and> utf8_valid s' | _ \<Rightarrow> False)
      else if byte_in 224 239 a then
        (case s of b # c # s' \<Rightarrow>
           byte_in (if byte a = 224 then 160 else 128) (if byte a = 237 then 159 else 191) b \<and> byte_in 128 191 c \<and> utf8_valid s'
         | _ \<Rightarrow> False)
      else if byte_in 240 244 a then
        (case s of b # c # d # s' \<Rightarrow>
           byte_in (if byte a = 240 then 144 else 128) (if byte a = 244 then 143 else 191) b \<and>
           byte_in 128 191 c \<and> byte_in 128 191 d \<and> utf8_valid s'
         | _ \<Rightarrow> False)
      else False)"

record ffi_json =
  payload_from_str :: "string \<Rightarrow> string + sync_payload"
  payload_to_string :: "sync_payload \<Rightarrow> string + string"

definition loomabase_state_new :: "loomabase_state \<times> last_error" where
  "loomabase_state_new = (\<lparr>ffi_inner = Some (crdt_state_new todos_table)\<rparr>, clear_last_error)"

definition checked_args ::
  "ffi_json \<Rightarrow> loomabase_state option \<Rightarrow> string option \<Rightarrow> string option \<Rightarrow>
   string + loomabase_state \<times> sync_payload \<times> string" where
  "checked_args json state payload_json device =
     (if payload_json = None \<or> device = None then Inl ''payload_json and device_id must not be null''
      else
        rbind (ok_or state ''state must not be null'') (\<lambda>st.
        if \<not> utf8_valid (the payload_json) then Inl ''payload_json must be valid UTF-8''
        else if \<not> utf8_valid (the device) then Inl ''device_id must be valid UTF-8''
        else
          rbind (map_err (\<lambda>e. ''invalid payload JSON: '' @ e) (payload_from_str json (the payload_json))) (\<lambda>payload.
          Inr (st, payload, the device))))"

definition response_string :: "ffi_json \<Rightarrow> sync_payload \<Rightarrow> string + string" where
  "response_string json response =
     rbind (map_err (\<lambda>e. ''could not serialize response: '' @ e) (payload_to_string json response)) (\<lambda>s.
     ok_or (cstring_new s) ''response contains an interior NUL byte'')"

text \<open>\<open>loomabase_state_merge\<close> and \<open>merge_inner\<close>: the state afterwards, the error slot and the returned string.\<close>

definition loomabase_state_merge ::
  "json_len \<Rightarrow> ffi_json \<Rightarrow> loomabase_state option \<Rightarrow> string option \<Rightarrow> string option \<Rightarrow>
   loomabase_state option \<times> last_error \<times> string option" where
  "loomabase_state_merge json_len json state payload_json device =
     (case checked_args json state payload_json device of
        Inl message \<Rightarrow> (state, set_last_error message, None)
      | Inr (st, payload, dev) \<Rightarrow>
          (case ffi_inner st of
             None \<Rightarrow> (state, set_last_error ''state lock is poisoned'', None)
           | Some inner \<Rightarrow>
               (case merge_payload json_len payload dev inner of
                  (inner', Inl e) \<Rightarrow> (Some (st\<lparr>ffi_inner := Some inner'\<rparr>), set_last_error (error_to_string e), None)
                | (inner', Inr response) \<Rightarrow>
                    (case response_string json response of
                       Inl message \<Rightarrow> (Some (st\<lparr>ffi_inner := Some inner'\<rparr>), set_last_error message, None)
                     | Inr s \<Rightarrow> (Some (st\<lparr>ffi_inner := Some inner'\<rparr>), clear_last_error, Some s)))))"

definition loomabase_last_error_message :: "last_error \<Rightarrow> string option" where
  "loomabase_last_error_message slot = slot"

definition loomabase_state_free :: "loomabase_state option \<Rightarrow> last_error" where
  "loomabase_state_free state = clear_last_error"

definition loomabase_string_free :: "string option \<Rightarrow> last_error" where
  "loomabase_string_free s = clear_last_error"

subsection \<open>Results and errors\<close>

lemma set_last_error_Some: "set_last_error m \<noteq> None"
  by (auto simp: set_last_error_def cstring_new_def)

text \<open>Property C40: a call of the C interface returns a string exactly when it clears the error slot, and then
  the arguments were readable and the state and the string are those of the reference merge. When it returns
  null the error slot is set, and the state is unchanged unless the merge itself went through and only its
  response could not be written out.\<close>

theorem ffi_merge_reports:
  assumes "loomabase_state_merge json_len json state payload_json device = (state', slot, result)"
  shows "(result \<noteq> None \<longleftrightarrow> loomabase_last_error_message slot = None) \<and>
    (\<forall>s. result = Some s \<longrightarrow>
       (\<exists>inner inner' payload response. state = Some \<lparr>ffi_inner = Some inner\<rparr> \<and>
          payload_from_str json (the payload_json) = Inr payload \<and>
          merge_payload json_len payload (the device) inner = (inner', Inr response) \<and>
          payload_to_string json response = Inr s \<and> state' = Some \<lparr>ffi_inner = Some inner'\<rparr>)) \<and>
    (result = None \<longrightarrow> state' = state \<or>
       (\<exists>inner payload dev inner' response message. state = Some \<lparr>ffi_inner = Some inner\<rparr> \<and>
          merge_payload json_len payload dev inner = (inner', Inr response) \<and>
          response_string json response = Inl message \<and> state' = Some \<lparr>ffi_inner = Some inner'\<rparr>))"
proof (cases "checked_args json state payload_json device")
  case (Inl message)
  then show ?thesis
    using assms set_last_error_Some by (auto simp: loomabase_state_merge_def loomabase_last_error_message_def)
next
  case (Inr args)
  then obtain st payload dev where args: "checked_args json state payload_json device = Inr (st, payload, dev)" by (cases args) auto
  then have ok: "state = Some st" "dev = the device" "payload_from_str json (the payload_json) = Inr payload"
    by (auto simp: checked_args_def split: if_splits)
  show ?thesis
  proof (cases "ffi_inner st")
    case None
    then show ?thesis
      using assms args set_last_error_Some by (auto simp: loomabase_state_merge_def loomabase_last_error_message_def)
  next
    case (Some inner)
    then have st: "st = \<lparr>ffi_inner = Some inner\<rparr>" by (cases st) simp
    obtain inner' r where m: "merge_payload json_len payload dev inner = (inner', r)" by fastforce
    have "inner' = inner" if "r = Inl e" for e
      using m that by (auto simp: merge_payload_def merge_with_security_def split: sum.splits)
    then show ?thesis
      using assms args Some m st ok set_last_error_Some
      by (auto simp: loomabase_state_merge_def loomabase_last_error_message_def clear_last_error_def response_string_def
          cstring_new_def split: sum.splits if_splits)
  qed
qed

end
