(* ===== verification/Pg_Partial.thy ===== *)
theory Pg_Partial
  imports Pg_Correct
begin

section \<open>Partial replicas of the PostgreSQL server\<close>

text \<open>
  The membership query runs over the application table and the snapshot query over the log. An answer
  passes its own validation only when every member has a cell in the log. A row whose cells were all
  denied has none, but its application row was created before the hooks were asked; every scope that
  takes in the column defaults then fails.
\<close>

text \<open>\<open>ORDER BY id\<close> puts the rows it gets in some order.\<close>

definition orders_rows :: "pg_env \<Rightarrow> bool" where
  "orders_rows env \<longleftrightarrow> (\<forall>ids. set (pg_order_by env ids) = set ids \<and> length (pg_order_by env ids) = length ids)"

subsection \<open>Rows of the application table\<close>

lemma merge_ops_rows:
  assumes "foldM (pg_merge_op security ctx t) ops st = Inr st'"
    and "bt_get (pg_app (fst st) (tname t, tenant_id ctx)) row \<noteq> None \<or> row \<in> (fst \<circ> fst) ` set ops"
  shows "bt_get (pg_app (fst st') (tname t, tenant_id ctx)) row \<noteq> None"
  using assms
proof (induction ops arbitrary: st)
  case (Cons op ops)
  obtain st1 where st1: "pg_merge_op security ctx t op st = Inr st1" "foldM (pg_merge_op security ctx t) ops st1 = Inr st'"
    using Cons.prems(1) by auto
  have keep: "bt_get (pg_app (fst st1) (tname t, tenant_id ctx)) r \<noteq> None"
    if "bt_get (pg_app (fst st) (tname t, tenant_id ctx)) r \<noteq> None \<or> r = fst (fst op)" for r
  proof (rule pg_row_stays [OF st1(1) [unfolded pg_merge_op_def]])
    show "bt_get (pg_app (fst (pg_ensure_row t (tenant_id ctx) (fst (fst op)) (fst st), snd st)) (tname t, tenant_id ctx)) r \<noteq> None"
      using that by (auto simp: pg_ensure_row_def Let_def)
  qed
  show ?case by (rule Cons.IH [OF st1(2)]) (use Cons.prems(2) keep in auto)
qed simp

lemma merge_rows:
  assumes "merge_crdt_states_with_security env now p device tenant t security db = Inr (db', resp)"
    and "bt_get (pg_app db (tname t, tenant)) row \<noteq> None \<or> row \<in> todo_id ` set (changes p)"
  shows "bt_get (pg_app db' (tname t, tenant)) row \<noteq> None"
proof -
  let ?ctx = "pg_context tenant device t"
  have ctx: "tenant_id ?ctx = tenant" by (simp add: pg_context_def)
  obtain db1 rjs clock c where ok: "client_request_ok t device p"
    and loop: "foldM (pg_merge_op security ?ctx t) (payload_cells p)
      (db\<lparr>pg_clocks := (pg_clocks db)(tenant \<mapsto> tenant_clock tenant db)\<rparr>, []) = Inr (db1, rjs)"
    and br: "pg_build_response env now p device tenant t clock rjs (db1\<lparr>pg_clocks := (pg_clocks db1)(tenant \<mapsto> c)\<rparr>) = Inr (db', resp)"
    using pg_merge_steps [OF assms(1)] by metis
  have "row \<in> (fst \<circ> fst) ` set (payload_cells p)" if row: "row \<in> todo_id ` set (changes p)"
  proof -
    obtain r where r: "r \<in> set (changes p)" "row = todo_id r" using row by blast
    then have "row_columns r \<noteq> []" using ok by (simp add: client_request_ok_def payload_ok_def)
    then obtain n x where "(n, x) \<in> set (row_columns r)" by (metis list.set_intros(1) neq_Nil_conv surj_pair)
    then have "((row, n), x) \<in> set (payload_cells p)" using r by (auto simp: payload_cells_def row_cells_def)
    then show ?thesis by force
  qed
  then have "bt_get (pg_app db1 (tname t, tenant)) row \<noteq> None"
    using merge_ops_rows [OF loop, of row] assms(2) by (auto simp: ctx)
  moreover have "pg_app db' = pg_app (db1\<lparr>pg_clocks := (pg_clocks db1)(tenant \<mapsto> c)\<rparr>)"
    by (rule pg_build_response_Inr [OF br]) (rule tenant_leases_issue(4))
  ultimately show ?thesis by simp
qed

subsection \<open>The answer\<close>

lemma pg_snapshot_spec:
  assumes "pg_snapshot_loop env es n st = Inr m" "\<forall>e\<in>set es. 0 \<le> pc_clock (snd e)"
  shows "m = group_cells (map (\<lambda>(k, c). (k, pg_cell_col c)) es) (fst st)"
  using assms
  by (induction env es n st rule: pg_snapshot_loop.induct) (auto simp: Let_def pg_column_ok split: if_splits)

lemma pg_members_Inr:
  assumes "pg_members env t tenant i db = Inr ms" "orders_rows env" "length ms \<le> unat (interest_limit i)"
    and "bt_wf (pg_app db (tname t, tenant))"
  shows "row \<in> set ms \<longleftrightarrow> (\<exists>vals. bt_get (pg_app db (tname t, tenant)) row = Some vals \<and> pg_row_matches i row vals)"
proof -
  let ?rows = "map fst (filter (\<lambda>(row, vals). pg_row_matches i row vals) (pg_app db (tname t, tenant)))"
  have ms: "ms = take (unat (interest_limit i) + 1) (pg_order_by env ?rows)"
    using assms(1) by (auto simp: pg_members_def)
  then have "length (pg_order_by env ?rows) \<le> unat (interest_limit i)" using assms(3) by (auto simp: min_def split: if_splits)
  then have "set ms = set ?rows" using ms assms(2) by (simp add: orders_rows_def)
  moreover have "row \<in> set ?rows \<longleftrightarrow> (\<exists>vals. (row, vals) \<in> set (pg_app db (tname t, tenant)) \<and> pg_row_matches i row vals)"
    by force
  ultimately show ?thesis using bt_get_iff [OF assms(4)] by simp
qed

text \<open>The condition of the membership query, on the values the application shows.\<close>

definition scoped :: "table_def \<Rightarrow> string \<Rightarrow> pg_db \<Rightarrow> replica_interest \<Rightarrow> string \<Rightarrow> bool" where
  "scoped t tenant db i row \<longleftrightarrow>
     shown t tenant db row LIVENESS_COLUMN = Some (VBoolean False) \<and>
     (\<forall>pr\<in>set (predicates i).
        case pr of
          IdEquals e \<Rightarrow> row = e
        | IdPrefix prefix \<Rightarrow> (\<exists>rest. row = prefix @ rest)
        | ColumnEquals column v \<Rightarrow> (\<exists>x. shown t tenant db row column = Some x \<and> value_eq x v))"

lemma row_matches_scoped:
  assumes "tenant_inv t tenant db" "bt_get (pg_app db (tname t, tenant)) row = Some vals"
  shows "pg_row_matches i row vals \<longleftrightarrow> scoped t tenant db i row"
proof -
  note get = app_shown [OF assms]
  have "predicate_matches row vals pr \<longleftrightarrow>
      (case pr of
         IdEquals e \<Rightarrow> row = e
       | IdPrefix prefix \<Rightarrow> (\<exists>rest. row = prefix @ rest)
       | ColumnEquals column v \<Rightarrow> (\<exists>x. shown t tenant db row column = Some x \<and> value_eq x v))" for pr
    by (cases pr) (auto simp: predicate_matches_def starts_with_iff get split: option.splits)
  then show ?thesis by (auto simp: pg_row_matches_def scoped_def get list_all_iff split: option.split)
qed

lemma member_scoped:
  assumes "pg_members env t tenant i db = Inr ms" "orders_rows env" "length ms \<le> unat (interest_limit i)"
    and inv: "tenant_inv t tenant db"
  shows "row \<in> set ms \<longleftrightarrow> bt_get (pg_app db (tname t, tenant)) row \<noteq> None \<and> scoped t tenant db i row"
proof -
  have "bt_wf (pg_app db (tname t, tenant))" using inv by (simp add: tenant_inv_def loop_good_def app_good_def)
  from pg_members_Inr [OF assms(1-3) this] row_matches_scoped [OF inv] show ?thesis by auto
qed

lemma partial_steps:
  assumes "merge_partial_replica_with_security env now rq device tenant t security db = Inr (db', rs)"
  obtains sync snapshot where "request_ok t device rq"
    "merge_crdt_states_with_security env now (rq_sync rq) device tenant t security db = Inr (db', sync)"
    "pg_members env t tenant (rq_interest rq) db' = Inr (rs_member_ids rs)"
    "length (rs_member_ids rs) \<le> unat (interest_limit (rq_interest rq))"
    "pg_snapshot_loop env (filter (\<lambda>e. fst (fst e) \<in> set (rs_member_ids rs)) (pg_log db' (crdt_table t, tenant))) 0 ([], 0) =
       Inr snapshot"
    "rs_sync rs = sync\<lparr>changes := rows_of snapshot, has_more := False\<rparr>"
    "rs_evicted_row_ids rs = filter (\<lambda>row. \<not> binary_search (rs_member_ids rs) row) (rq_known_member_ids rq)"
    "response_ok t rs"
proof -
  from assms obtain u where "request_validate rq t device = Inr u"
    by (auto simp: merge_partial_replica_with_security_def)
  then have rq: "request_ok t device rq" by (simp add: request_validate_iff [symmetric])
  from assms show thesis
    using that rq
    by (auto simp: merge_partial_replica_with_security_def Let_def response_validate_iff split: if_splits)
qed

lemma response_rows_sorted: "response_ok t rs \<Longrightarrow> sorted_wrt (<) (rs_member_ids rs)"
  by (simp add: response_ok_def member_ids_ok_def)

lemma response_rows: "response_ok t rs \<Longrightarrow> set (rs_member_ids rs) = todo_id ` set (changes (rs_sync rs))"
  by (metis list.set_map response_ok_def)

lemma in_rows_iff: "r \<in> (fst \<circ> fst) ` S \<longleftrightarrow> (\<exists>n c. ((r, n), c) \<in> S)"
  by force

text \<open>What the snapshot holds.\<close>

lemma partial_snapshot:
  assumes log: "log_good t b q m"
    and snap: "pg_snapshot_loop env (filter (\<lambda>e. fst (fst e) \<in> R) m) 0 ([], 0) = Inr snapshot"
  shows "((row, n), c) \<in> set (rows_cells (rows_of snapshot)) \<longleftrightarrow>
      row \<in> R \<and> map_option pg_cell_col (bt_get m (row, n)) = Some c"
    "row \<in> todo_id ` set (rows_of snapshot) \<longleftrightarrow> row \<in> R \<and> (\<exists>n. bt_get m (row, n) \<noteq> None)"
proof -
  let ?es = "map (\<lambda>(k, c). (k, pg_cell_col c)) (filter (\<lambda>e. fst (fst e) \<in> R) m)"
  have wf: "bt_wf m" using log by (simp add: log_good_def)
  have "0 \<le> pc_clock c" if "bt_get m k = Some c" for k c using log that by (simp add: log_good_def)
  then have "\<forall>e\<in>set (filter (\<lambda>e. fst (fst e) \<in> R) m). 0 \<le> pc_clock (snd e)"
    using bt_get_iff [OF wf] by (metis filter_is_subset prod.collapse subsetD)
  from pg_snapshot_spec [OF snap this] have eq: "snapshot = group_cells ?es []" by simp
  have "map fst ?es = bt_keys (filter (\<lambda>e. fst (fst e) \<in> R) m)" by (simp add: comp_def case_prod_beta)
  then have dist: "distinct (map fst ?es)" using bt_wf_distinct [OF bt_wf_filter [OF wf]] by metis
  have mem: "((row, n), c) \<in> set ?es \<longleftrightarrow> row \<in> R \<and> map_option pg_cell_col (bt_get m (row, n)) = Some c" for row n c
  proof -
    have "((row, n), c) \<in> set ?es \<longleftrightarrow> row \<in> R \<and> (\<exists>x. ((row, n), x) \<in> set m \<and> c = pg_cell_col x)" by force
    then show ?thesis unfolding bt_get_iff [OF wf] by auto
  qed
  show "((row, n), c) \<in> set (rows_cells (rows_of snapshot)) \<longleftrightarrow>
      row \<in> R \<and> map_option pg_cell_col (bt_get m (row, n)) = Some c"
    unfolding eq group_cells_entries [OF dist] by (rule mem)
  have "todo_id ` set (rows_of snapshot) = set (bt_keys snapshot)" by (force simp: rows_of_def)
  also have "\<dots> = (fst \<circ> fst) ` set ?es" unfolding eq group_cells_keys by simp
  finally have "row \<in> todo_id ` set (rows_of snapshot) \<longleftrightarrow> row \<in> (fst \<circ> fst) ` set ?es" by (rule arg_cong)
  then have "row \<in> todo_id ` set (rows_of snapshot) \<longleftrightarrow> (\<exists>n c. ((row, n), c) \<in> set ?es)"
    unfolding in_rows_iff .
  then show "row \<in> todo_id ` set (rows_of snapshot) \<longleftrightarrow> row \<in> R \<and> (\<exists>n. bt_get m (row, n) \<noteq> None)"
    unfolding mem by auto
qed

text \<open>Property C24: a partial-replica answer of the database is authoritative. Its members are exactly the
  rows that have a cell in the tenant's log after the merge, are not deleted and satisfy every predicate
  of the interest, a column without a cell counting with its default; the snapshot has exactly the cells
  of the members; the evicted rows are the known rows that are no longer members; the declared limit
  holds and the answer passes the validation of the client.\<close>

theorem pg_partial_exact:
  assumes "pg_reach env ts (db, now)" "deployed env ts" "t \<in> set ts" "orders_rows env"
    and "merge_partial_replica_with_security env now rq device tenant t security db = Inr (db', rs)"
  shows "(\<forall>row. row \<in> set (rs_member_ids rs) \<longleftrightarrow>
      (\<exists>n c. pg_view t tenant db' (row, n) = Some c) \<and> shown t tenant db' row LIVENESS_COLUMN = Some (VBoolean False) \<and>
      (\<forall>pr\<in>set (predicates (rq_interest rq)).
         case pr of
           IdEquals e \<Rightarrow> row = e
         | IdPrefix prefix \<Rightarrow> (\<exists>rest. row = prefix @ rest)
         | ColumnEquals column v \<Rightarrow> (\<exists>x. shown t tenant db' row column = Some x \<and> value_eq x v))) \<and>
    length (rs_member_ids rs) \<le> unat (interest_limit (rq_interest rq)) \<and>
    (\<forall>row n c. ((row, n), c) \<in> set (payload_cells (rs_sync rs)) \<longleftrightarrow>
       row \<in> set (rs_member_ids rs) \<and> pg_view t tenant db' (row, n) = Some c) \<and>
    set (rs_evicted_row_ids rs) = set (rq_known_member_ids rq) - set (rs_member_ids rs) \<and>
    response_ok t rs"
proof -
  obtain sync snapshot where
    merge: "merge_crdt_states_with_security env now (rq_sync rq) device tenant t security db = Inr (db', sync)"
    and mem: "pg_members env t tenant (rq_interest rq) db' = Inr (rs_member_ids rs)"
      "length (rs_member_ids rs) \<le> unat (interest_limit (rq_interest rq))"
    and snap: "pg_snapshot_loop env (filter (\<lambda>e. fst (fst e) \<in> set (rs_member_ids rs)) (pg_log db' (crdt_table t, tenant))) 0 ([], 0) =
       Inr snapshot"
    and rs: "rs_sync rs = sync\<lparr>changes := rows_of snapshot, has_more := False\<rparr>"
      "rs_evicted_row_ids rs = filter (\<lambda>row. \<not> binary_search (rs_member_ids rs) row) (rq_known_member_ids rq)"
    and ok: "response_ok t rs"
    by (rule partial_steps [OF assms(5)])
  have inv: "tenant_inv t tenant db'" by (rule pg_merge_spec(1) [OF merge reach_tenant [OF assms(1-3)]])
  then have good: "log_good t (tenant_clock tenant db') (pg_seq db') (pg_log db' (crdt_table t, tenant))"
    "bt_wf (pg_app db' (tname t, tenant))"
    by (simp_all add: tenant_inv_def loop_good_def app_good_def)
  note content = partial_snapshot [OF good(1) snap]
  have rows: "set (rs_member_ids rs) = todo_id ` set (rows_of snapshot)"
    using response_rows [OF ok] rs(1) by simp
  have "row \<in> set (rs_member_ids rs) \<longleftrightarrow>
      (\<exists>n c. pg_view t tenant db' (row, n) = Some c) \<and> scoped t tenant db' (rq_interest rq) row" for row
  proof -
    have "(\<exists>n c. pg_view t tenant db' (row, n) = Some c) \<Longrightarrow> bt_get (pg_app db' (tname t, tenant)) row \<noteq> None"
      using log_column(3) [OF inv] by blast
    moreover have "(\<exists>n c. pg_view t tenant db' (row, n) = Some c) \<longleftrightarrow>
        (\<exists>n. bt_get (pg_log db' (crdt_table t, tenant)) (row, n) \<noteq> None)"
      by (auto simp: pg_view_def)
    ultimately show ?thesis
      using member_scoped [OF mem(1) assms(4) mem(2) inv, of row] content(2) [of row] rows by blast
  qed
  then show ?thesis
    using mem(2) ok content(1) rs by (auto simp: scoped_def payload_cells_def pg_view_def binary_search_sorted [OF response_rows_sorted [OF ok]])
qed

subsection \<open>A denied row\<close>

lemma merge_untouched:
  assumes "merge_crdt_states_with_security env now p device tenant t security db = Inr (db', resp)"
    and "tenant_inv t tenant db" "valid_table t" "uuids_ok env" "\<forall>n. pg_view t tenant db (row, n) = None"
    and none: "\<forall>(k, c)\<in>set (payload_cells p). fst k = row \<longrightarrow>
      \<not> permitted security (pg_context tenant device t) (pg_view t tenant db) (k, c)"
  shows "pg_view t tenant db' (row, n) = None"
proof (rule ccontr)
  assume "pg_view t tenant db' (row, n) \<noteq> None"
  then obtain x where x: "pg_view t tenant db' (row, n) = Some x" by blast
  have "pg_view t tenant db (row, n) = Some x \<or> ((row, n), x) \<in>
      set (filter (permitted security (pg_context tenant device t) (pg_view t tenant db)) (payload_cells p))"
    by (rule lww.run_origin [OF pg_merge_spec(4) [OF assms(1-4)] x])
  with assms(5) none show False by auto
qed

text \<open>A row whose cells are all denied blocks scopes. When a request brings a row the tenant
  has no cell of and the hooks deny each of its cells, the merge leaves an empty application row behind.
  After that every partial-replica request of any device of the tenant fails whose interest takes in a
  row of column defaults with that identifier, until somebody writes a cell of the row.\<close>

theorem denied_row_blocks_scopes:
  assumes "pg_reach env ts (db, now)" "deployed env ts" "t \<in> set ts" "orders_rows env"
    and "merge_crdt_states_with_security env now p device tenant t security db = Inr (db1, resp)"
    and "row \<in> todo_id ` set (changes p)" "\<forall>n. pg_view t tenant db (row, n) = None"
    and "\<forall>(k, c)\<in>set (payload_cells p). fst k = row \<longrightarrow>
      \<not> permitted security (pg_context tenant device t) (pg_view t tenant db) (k, c)"
    and "list_all (predicate_matches row (pg_default_row t)) (predicates (rq_interest rq))"
    and "row \<notin> todo_id ` set (changes (rq_sync rq))"
  shows "bt_get (pg_app db1 (tname t, tenant)) row \<noteq> None \<and>
    (\<exists>e. merge_partial_replica_with_security env now rq device2 tenant t security2 db1 = Inl e)"
proof
  note inv = reach_tenant [OF assms(1-3)]
  show app: "bt_get (pg_app db1 (tname t, tenant)) row \<noteq> None" using merge_rows [OF assms(5)] assms(6) by blast
  have none: "pg_view t tenant db1 (row, n) = None" for n by (rule merge_untouched [OF assms(5) inv assms(7,8)])
  have inv1: "tenant_inv t tenant db1" by (rule pg_merge_spec(1) [OF assms(5) inv])
  show "\<exists>e. merge_partial_replica_with_security env now rq device2 tenant t security2 db1 = Inl e"
  proof (rule ccontr)
    assume "\<nexists>e. merge_partial_replica_with_security env now rq device2 tenant t security2 db1 = Inl e"
    then obtain db2 rs where part: "merge_partial_replica_with_security env now rq device2 tenant t security2 db1 = Inr (db2, rs)"
      by (metis obj_sumE surj_pair)
    obtain sync snapshot where
      merge: "merge_crdt_states_with_security env now (rq_sync rq) device2 tenant t security2 db1 = Inr (db2, sync)"
      and mem: "pg_members env t tenant (rq_interest rq) db2 = Inr (rs_member_ids rs)"
        "length (rs_member_ids rs) \<le> unat (interest_limit (rq_interest rq))"
      and snap: "pg_snapshot_loop env (filter (\<lambda>e. fst (fst e) \<in> set (rs_member_ids rs)) (pg_log db2 (crdt_table t, tenant))) 0 ([], 0) =
         Inr snapshot"
      and rs: "rs_sync rs = sync\<lparr>changes := rows_of snapshot, has_more := False\<rparr>" "response_ok t rs"
      by (rule partial_steps [OF part])
    have "\<forall>(k, c)\<in>set (payload_cells (rq_sync rq)). fst k \<noteq> row"
      using assms(10) by (auto simp: payload_cells_def row_cells_def)
    then have none2: "pg_view t tenant db2 (row, n) = None" for n
      by (intro merge_untouched [OF merge inv1 inv(2,3)]) (use none in auto)
    have inv2: "tenant_inv t tenant db2" by (rule pg_merge_spec(1) [OF merge inv1 inv(2,3)])
    have "bt_get (pg_app db2 (tname t, tenant)) row \<noteq> None" using merge_rows [OF merge] app by blast
    then obtain vals where vals: "bt_get (pg_app db2 (tname t, tenant)) row = Some vals" by blast
    have get: "bt_get vals n = bt_get (pg_default_row t) n" for n
      using app_shown [OF inv2 vals] none2 by (simp add: shown_def pg_default_row_get [OF inv(2)])
    have "predicate_matches row vals pr = predicate_matches row (pg_default_row t) pr" for pr
      by (simp add: predicate_matches_def get split: replica_predicate.split)
    then have "pg_row_matches (rq_interest rq) row vals"
      using assms(9)
      by (simp add: pg_row_matches_def get list_all_iff pg_default_row_get [OF inv(2)] pg_default_def table_column_type_def)
    then have "row \<in> set (rs_member_ids rs)"
      using member_scoped [OF mem(1) assms(4) mem(2) inv2] row_matches_scoped [OF inv2 vals] vals by simp
    then have "row \<in> todo_id ` set (rows_of snapshot)" using response_rows [OF rs(2)] rs(1) by simp
    moreover have "log_good t (tenant_clock tenant db2) (pg_seq db2) (pg_log db2 (crdt_table t, tenant))"
      using inv2 by (simp add: tenant_inv_def loop_good_def)
    ultimately obtain n where "bt_get (pg_log db2 (crdt_table t, tenant)) (row, n) \<noteq> None"
      using partial_snapshot(2) [OF _ snap] by blast
    with none2 [of n] show False by (simp add: pg_view_def)
  qed
qed

end
