(* ===== verification/Pg_Live.thy ===== *)
theory Pg_Live
  imports Pg_Partial
begin

section \<open>A round with the PostgreSQL server succeeds\<close>

text \<open>
  The explanation that becomes the audit reason of a merged cell always passes the check on reasons, so
  building the audit event never fails a merge. A round can then fail only for the limits of the code and
  for what PostgreSQL cannot store: a text with a zero byte.
\<close>

subsection \<open>Explanations are valid reasons\<close>

lemma debug_char_identifier:
  assumes "32 \<le> byte c" "byte c \<noteq> 127"
  shows "debug_char c = [c] \<or> debug_char c = [char_of (92::nat), c] \<and> byte c < 127"
  using assms by (auto simp: debug_char_def)

definition lead :: "string \<Rightarrow> nat" where
  "lead s = (case s of [] \<Rightarrow> 0 | c # _ \<Rightarrow> byte c)"

lemma lead_simps [simp]: "lead [] = 0" "lead (c # s) = byte c"
  by (simp_all add: lead_def)

lemma has_control_lead:
  "has_control (c # s) \<longleftrightarrow> byte c < 32 \<or> byte c = 127 \<or> byte c = 194 \<and> 128 \<le> lead s \<and> lead s < 160 \<or> has_control s"
  by (cases s) simp_all

lemma debug_chars_control:
  assumes "\<not> has_control s"
  shows "\<not> has_control (concat (map debug_char s)) \<and> length (concat (map debug_char s)) \<le> 2 * length s \<and>
    lead (concat (map debug_char s)) \<in> {92, lead s}"
  using assms
proof (induction s)
  case (Cons c s)
  let ?u = "concat (map debug_char s)"
  have c: "32 \<le> byte c" "byte c \<noteq> 127" "\<not> has_control s" "\<not> (byte c = 194 \<and> 128 \<le> lead s \<and> lead s < 160)"
    using Cons.prems by (auto simp: has_control_lead simp del: has_control.simps(2))
  have b92: "byte (char_of (92::nat)) = 92" by (simp add: byte_def)
  have "\<not> (byte c = 194 \<and> 128 \<le> lead ?u \<and> lead ?u < 160)" using Cons.IH [OF c(3)] c(4) by auto
  then have cu: "\<not> has_control (c # ?u)" using Cons.IH [OF c(3)] c(1,2) unfolding has_control_lead by simp
  show ?case
  proof (cases "debug_char c = [c]")
    case True
    then show ?thesis using cu Cons.IH [OF c(3)] by (simp del: has_control.simps(2))
  next
    case False
    then have d: "debug_char c = [char_of (92::nat), c]" using debug_char_identifier [OF c(1,2)] by simp
    have "\<not> has_control (char_of (92::nat) # c # ?u)" using cu unfolding has_control_lead [of "char_of 92"] b92 by simp
    then show ?thesis using Cons.IH [OF c(3)] by (simp add: d b92 del: has_control.simps(2))
  qed
qed simp

lemma debug_identifier:
  assumes "identifier_ok d"
  shows "\<not> has_control (debug_str d)" "length (debug_str d) \<le> 512"
proof -
  have d: "\<not> has_control d" "length d \<le> 255" using assms by (simp_all add: identifier_ok_def)
  note u = debug_chars_control [OF d(1)]
  have q: "\<forall>c\<in>set [CHR 0x22]. 32 \<le> byte c \<and> byte c < 127" by (simp add: byte_def)
  show "\<not> has_control (debug_str d)"
    unfolding debug_str_def has_control_append_ascii [OF q] has_control_append_ascii2 [OF q] using u by blast
  show "length (debug_str d) \<le> 512" unfolding debug_str_def using u d(2) by simp
qed

lemma has_control_append:
  "lead t < 128 \<Longrightarrow> has_control (s @ t) \<longleftrightarrow> has_control s \<or> has_control t"
proof (induction s)
  case (Cons c s)
  have "lead (s @ t) = (if s = [] then lead t else lead s)" by (cases s) simp_all
  then show ?case
    using Cons unfolding append_Cons has_control_lead by auto
qed simp

lemma lead_debug: "lead (debug_str d @ s) = 34" "lead (debug_str d) = 34"
  by (simp_all add: debug_str_def byte_def)

lemma lead_printable: "printable s \<Longrightarrow> lead (s @ t) < 128 \<or> s = []"
  by (cases s) simp_all

text \<open>Whatever the two versions, the summary of the explanation passes the check on reasons: the longest
  one names two identifiers of 255 bytes with every byte escaped.\<close>

lemma explanation_is_reason:
  assumes "identifier_ok (device_id (cmeta incoming))" "\<forall>c. current = Some c \<longrightarrow> identifier_ok (device_id (cmeta c))"
  shows "reason_ok (summary (explain_lww current incoming))"
proof (cases current)
  case None
  then show ?thesis by (simp add: explain_lww_def printable_reason byte_def)
next
  case (Some c)
  let ?a = "debug_str (device_id (cmeta incoming))" and ?b = "debug_str (device_id (cmeta c))"
  note da = debug_identifier [OF assms(1)] and db = debug_identifier [OF assms(2) [rule_format, OF Some]]
  have tie: "reason_ok (x @ ?a @ y @ ?b)" if xy: "printable x" "printable y" "x \<noteq> []" "y \<noteq> []" "length x + length y \<le> 1000" for x y
  proof -
    have "lead (y @ ?b) < 128" using lead_printable [OF xy(2)] xy(4) by blast
    then have "\<not> has_control (x @ ?a @ y @ ?b)"
      using da(1) db(1) printable_no_control [OF xy(1)] printable_no_control [OF xy(2)]
      by (simp add: has_control_append lead_debug)
    then show ?thesis using da(2) db(2) xy by (simp add: reason_ok_def limits)
  qed
  have n: "length (show_nat (unat w)) \<le> Suc 19" for w :: u64
  proof (rule length_show_nat)
    have "unat w < 2 ^ LENGTH(64)" by (rule unsigned_less)
    then show "unat w < 10 ^ Suc 19" by (rule less_le_trans) simp
  qed
  have clk: "reason_ok (x @ show_nat (unat v) @ y @ show_nat (unat w))"
    if "printable x" "printable y" "x \<noteq> []" "length x + length y \<le> 1000" for x y and v w :: u64
    using n [of v] n [of w] that by (intro printable_reason) simp_all
  let ?i = "lamport_clock (cmeta incoming)" and ?c = "lamport_clock (cmeta c)"
  have "reason_ok (''incoming clock '' @ show_nat (unat ?i) @ '' is greater than current clock '' @ show_nat (unat ?c))"
    "reason_ok (''incoming clock '' @ show_nat (unat ?i) @ '' is lower than current clock '' @ show_nat (unat ?c))"
    by (rule clk; simp add: byte_def)+
  moreover have "reason_ok (''clocks are equal and incoming device ID '' @ ?a @ '' sorts after current device ID '' @ ?b)"
    "reason_ok (''clocks are equal and incoming device ID '' @ ?a @ '' sorts before current device ID '' @ ?b)"
    by (rule tie; simp add: byte_def)+
  moreover have "reason_ok ''incoming value is an idempotent replay of the current version''"
    "reason_ok ''the same CRDT version identifies two different values''"
    by (simp_all add: printable_reason byte_def)
  ultimately show ?thesis
    unfolding Some explain_lww_def option.case Let_def
    by (cases "decide_lww (cmeta c) (cmeta incoming)") (simp_all del: append_Cons append.simps split: if_split)
qed

subsection \<open>The merge is total\<close>

definition no_zero :: "crdt_value \<Rightarrow> bool" where
  "no_zero v \<longleftrightarrow> (\<forall>s. v = VText s \<longrightarrow> CHR 0x00 \<notin> set s)"

lemma write_column_total:
  assumes "value_ok t n v" "no_zero v"
  shows "\<exists>db'. write_server_todo_column t tenant row n v db = Inr db' \<and> pg_seq db' = pg_seq db"
  using assms by (auto simp: value_ok_def write_server_todo_column_def bind_text_def no_zero_def split: crdt_value.splits)

lemma upsert_total:
  assumes "no_zero (cvalue c)" "clock_ok (lamport_clock (cmeta c))" "pg_seq db < i64_MAX"
  shows "\<exists>db'. pg_upsert_cell t tenant k c db = Inr db'"
proof -
  have "bind_json (cvalue c) = Inr ()" using assms(1) by (auto simp: bind_json_def no_zero_def split: crdt_value.split)
  moreover have "server_clock_to_i64 (lamport_clock (cmeta c)) = Inr (int (unat (lamport_clock (cmeta c))))"
    using assms(2) by (simp add: server_clock_to_Inr clock_ok_def i64_MAX_def del: of_nat_unat)
  ultimately show ?thesis using assms(3) by (simp add: pg_upsert_cell_def nextval_def Let_def)
qed

text \<open>One cell, with no hooks and no audit: the decision is the only thing that can fail it.\<close>

lemma pg_merge_op_total:
  assumes good: "loop_good t tenant b db" "valid_table t" and op: "request_op_ok t b (k, c)"
    and store: "no_zero (cvalue c)" "pg_seq db < i64_MAX"
    and agree: "\<forall>x. pg_view t tenant db k = Some x \<and> cmeta x = cmeta c \<longrightarrow> value_eq (cvalue x) (cvalue c)"
  shows "\<exists>db'. pg_merge_op open_security (pg_context tenant device t) t (k, c) (db, rjs) = Inr (db', rjs)"
proof -
  let ?db = "pg_ensure_row t tenant (fst k) db" and ?ctx = "pg_context tenant device t"
  let ?m = "pg_view t tenant db k"
  have view: "pg_view t tenant ?db k = ?m" by (simp add: pg_view_def)
  have cell: "cell_ok t (snd k) c" "identifier_ok (fst k)" using op by (simp_all add: request_op_ok_def)
  have "table_column_type t (snd k) \<noteq> None" using cell(1) value_ok_column by (auto simp: cell_ok_def)
  then have names: "identifier_ok (snd k)" "identifier_ok (tname t)"
    using column_of_table [OF good(2)] good(2) sql_identifier_ok by (auto simp: valid_table_def)
  have stored: "0 \<le> pc_clock x \<and> cell_ok t (snd k) (pg_cell_col x)"
    if "bt_get (pg_log db (crdt_table t, tenant)) k = Some x" for x
    using good(1) that by (simp add: loop_good_def log_good_def)
  have cur: "pg_current t tenant k ?db = Inr ?m"
    using stored by (auto simp: pg_current_def pg_view_def pg_column_ok split: option.split)
  have "reason_ok (summary (explain_lww ?m c))"
    by (rule explanation_is_reason) (use cell(1) stored in \<open>auto simp: cell_ok_def meta_ok_def pg_view_def\<close>)
  then have ev: "\<exists>ev. sync_audit_event_new ?ctx (mutation_of k c) ?m out (summary (explain_lww ?m c)) = Inr ev" for out
    using cell names
    by (simp add: sync_audit_event_new_def mutation_of_def pg_context_def cell_ok_def meta_ok_def)
  have "\<exists>b. lww_apply ?m c = Inr b"
  proof (cases ?m)
    case (Some x)
    have "decide_lww (cmeta x) (cmeta c) = Equal \<Longrightarrow> cmeta x = cmeta c" by (simp add: decide_lww_iff)
    with agree Some show ?thesis by (cases "decide_lww (cmeta x) (cmeta c)") (auto simp: lww_apply_def)
  qed (auto simp: lww_apply_def)
  then obtain b where dec: "lww_apply ?m c = Inr b" by blast
  have put: "\<exists>db'. rbind (write_server_todo_column t tenant (fst k) (snd k) (cvalue c) ?db) (pg_upsert_cell t tenant k c) = Inr db'"
  proof -
    obtain db1 where w: "write_server_todo_column t tenant (fst k) (snd k) (cvalue c) ?db = Inr db1" "pg_seq db1 = pg_seq ?db"
      using write_column_total cell(1) store(1) by (metis cell_ok_def)
    then show ?thesis using upsert_total [of c db1] cell(1) store by (simp add: cell_ok_def meta_ok_def)
  qed
  have hooks: "consult_hooks open_security ?ctx (mutation_of k c) ?m = Inr None"
    by (simp add: consult_hooks_def without_audit_def allow_all_authorizer_def noop_validator_def)
  obtain ev where "sync_audit_event_new ?ctx (mutation_of k c) ?m (outcome_of ?m c) (summary (explain_lww ?m c)) = Inr ev"
    using ev by blast
  with put cur hooks dec show ?thesis
    by (cases b) (auto simp: pg_merge_op_def pg_merge_cell_def pg_context_def pg_decide_lww record_audit_if_enabled_def without_audit_def)
qed

lemma pg_fill_page_total:
  assumes "\<forall>e\<in>set es. 0 \<le> pc_clock (snd e)" "\<forall>v. \<exists>n. pg_json_len env v = Inr n"
  shows "\<exists>r. pg_fill_page env es pg = Inr r"
  using assms
proof (induction env es pg rule: pg_fill_page.induct)
  case (2 env row column_name c rest pg)
  have col: "pg_column c = Inr (pg_cell_col c)" using 2(2) by (intro pg_column_ok) auto
  obtain n where "pg_json_len env (cvalue (pg_cell_col c)) = Inr n" using 2(3) by blast
  with 2(1) [OF col this refl] 2(2,3) col show ?case by (simp add: Let_def)
qed simp

lemma pg_build_response_total:
  assumes "\<forall>e\<in>set (pg_log db (crdt_table t, tenant)). 0 \<le> pc_clock (snd e)" "\<forall>v. \<exists>n. pg_json_len env v = Inr n"
  shows "\<exists>db' resp. pg_build_response env now p device tenant t clock rjs db = Inr (db', resp)"
proof -
  have "\<forall>e\<in>set (pg_feed t tenant eff db). 0 \<le> pc_clock (snd e)" for eff
    using assms(1) by (auto simp: pg_feed_def dest!: in_set_takeD)
  then obtain pg more where "pg_fill_page env (pg_feed t tenant (if pg_cursor_valid t tenant device p db then cursor p else 0) db)
      \<lparr>response_rows = [], response_bytes = 0,
       next_cursor = (if pg_cursor_valid t tenant device p db then cursor p else 0), included = 0\<rparr> = Inr (pg, more)"
    using pg_fill_page_total [OF _ assms(2)] by (metis surj_pair)
  then show ?thesis by (simp add: pg_build_response_def Let_def split: prod.split)
qed

lemma pg_merge_op_seq:
  assumes "pg_merge_op security ctx t op (db, rjs) = Inr (db', rjs')"
  shows "pg_seq db' \<le> pg_seq db + 1"
proof -
  obtain row n c where op: "op = ((row, n), c)" by (metis surj_pair)
  from assms have "pg_merge_cell security ctx t row (n, c) (pg_ensure_row t (tenant_id ctx) row db, rjs) = Inr (db', rjs')"
    by (simp add: pg_merge_op_def op)
  then show ?thesis by (cases rule: pg_merge_cell_cases) simp_all
qed

lemma pg_merge_ops_total:
  assumes "loop_good t tenant b db" "valid_table t" "distinct (map fst ops)" "pg_seq db + int (length ops) \<le> i64_MAX"
    and "\<forall>op\<in>set ops. request_op_ok t b op \<and> no_zero (cvalue (snd op)) \<and>
      (\<forall>x. pg_view t tenant db (fst op) = Some x \<and> cmeta x = cmeta (snd op) \<longrightarrow> value_eq (cvalue x) (cvalue (snd op)))"
  shows "\<exists>db'. foldM (pg_merge_op open_security (pg_context tenant device t) t) ops (db, rjs) = Inr (db', rjs)"
  using assms
proof (induction ops arbitrary: db)
  case (Cons op ops)
  let ?ctx = "pg_context tenant device t"
  have ctx: "tenant_id ?ctx = tenant" by (simp add: pg_context_def)
  obtain k c where op: "op = (k, c)" by fastforce
  have ok: "request_op_ok t b (k, c)" "no_zero (cvalue c)"
    "\<forall>x. pg_view t tenant db k = Some x \<and> cmeta x = cmeta c \<longrightarrow> value_eq (cvalue x) (cvalue c)"
    using Cons.prems(5) by (simp_all add: op)
  obtain db1 where step: "pg_merge_op open_security ?ctx t (k, c) (db, rjs) = Inr (db1, rjs)"
    using pg_merge_op_total [OF Cons.prems(1,2) ok(1,2) _ ok(3)] Cons.prems(4) by force
  have cell: "identifier_ok (fst k)" "cell_ok t (snd k) c" "device_id (cmeta c) \<noteq> SERVER_DEVICE_ID"
    "int (unat (lamport_clock (cmeta c))) \<le> b"
    using ok(1) [unfolded request_op_ok_def fst_conv snd_conv] by blast+
  have good1: "loop_good t tenant b db1"
    using pg_merge_op_good(1) [OF step] Cons.prems(1,2) cell by (simp add: ctx del: of_nat_unat)
  have "pg_seq db1 + int (length ops) \<le> i64_MAX" using pg_merge_op_seq [OF step] Cons.prems(4) by simp
  moreover have "pg_view t tenant db1 (fst e) = pg_view t tenant db (fst e)" if "e \<in> set ops" for e
    using pg_loop.step_other [OF step, of "fst e"] Cons.prems(3) that by (auto simp: op ctx)
  then have "\<forall>e\<in>set ops. request_op_ok t b e \<and> no_zero (cvalue (snd e)) \<and>
      (\<forall>x. pg_view t tenant db1 (fst e) = Some x \<and> cmeta x = cmeta (snd e) \<longrightarrow> value_eq (cvalue x) (cvalue (snd e)))"
    using Cons.prems(5) by simp
  ultimately obtain db' where "foldM (pg_merge_op open_security ?ctx t) ops (db1, rjs) = Inr (db', rjs)"
    using Cons.IH [OF good1 Cons.prems(2)] Cons.prems(3) by fastforce
  with step show ?case by (auto simp: op)
qed simp

lemma pg_merge_total:
  assumes ok: "client_request_ok t device p" "identifier_ok tenant" and inv: "tenant_inv t tenant db" "valid_table t"
    and store: "\<forall>(k, c)\<in>set (payload_cells p). no_zero (cvalue c)" "pg_seq db + 20000 \<le> i64_MAX"
    and agree: "\<forall>(k, c)\<in>set (payload_cells p). \<forall>x. pg_view t tenant db k = Some x \<and> cmeta x = cmeta c \<longrightarrow>
      value_eq (cvalue x) (cvalue c)"
    and clock: "int (unat (source_lamport p)) \<le> tenant_clock tenant db + 1000000"
      "tenant_clock tenant db + 1000001 \<le> i64_MAX"
    and len: "\<forall>v. \<exists>n. pg_json_len env v = Inr n"
  shows "\<exists>db' resp. merge_crdt_states_with_security env now p device tenant t open_security db = Inr (db', resp)"
proof -
  let ?ctx = "pg_context tenant device t" and ?tc = "tenant_clock tenant db"
  let ?db0 = "db\<lparr>pg_clocks := (pg_clocks db)(tenant \<mapsto> ?tc)\<rparr>" and ?b = "max ?tc (int (unat (source_lamport p)))"
  have tc: "0 \<le> ?tc" "?tc \<le> i64_MAX" using inv(1) by (simp_all add: tenant_inv_def)
  have good: "loop_good t tenant ?b ?db0"
    using inv(1) log_good_mono [of t ?tc "pg_seq db" _ ?b "pg_seq db"] by (simp add: tenant_inv_def loop_good_def)
  have view: "pg_view t tenant ?db0 = pg_view t tenant db" by (rule pg_view_cong) simp
  have len_cells: "length (payload_cells p) \<le> 20000" using ok(1) by (simp add: client_request_ok_def payload_ok_def)
  obtain db1 where loop: "foldM (pg_merge_op open_security ?ctx t) (payload_cells p) (?db0, []) = Inr (db1, [])"
  proof -
    have "\<exists>db1. foldM (pg_merge_op open_security ?ctx t) (payload_cells p) (?db0, []) = Inr (db1, [])"
    proof (rule pg_merge_ops_total [OF good inv(2) request_cells_distinct [OF ok(1)]])
      show "pg_seq ?db0 + int (length (payload_cells p)) \<le> i64_MAX" using store(2) len_cells by simp
      show "\<forall>op\<in>set (payload_cells p). request_op_ok t ?b op \<and> no_zero (cvalue (snd op)) \<and>
          (\<forall>x. pg_view t tenant ?db0 (fst op) = Some x \<and> cmeta x = cmeta (snd op) \<longrightarrow> value_eq (cvalue x) (cvalue (snd op)))"
      proof
        fix op assume op: "op \<in> set (payload_cells p)"
        have "request_op_ok t ?b op" by (rule request_ops_ok [OF ok(1) op]) simp
        moreover obtain k c where "op = (k, c)" by fastforce
        ultimately show "request_op_ok t ?b op \<and> no_zero (cvalue (snd op)) \<and>
          (\<forall>x. pg_view t tenant ?db0 (fst op) = Some x \<and> cmeta x = cmeta (snd op) \<longrightarrow> value_eq (cvalue x) (cvalue (snd op)))"
          using op store(1) agree unfolding view by auto
      qed
    qed
    then show thesis using that by blast
  qed
  obtain w where w: "server_clock_from_i64 ?tc = Inr w" "int (unat w) = ?tc"
    using tc unat_clock by (simp add: server_clock_from_ok del: of_nat_unat)
  define m where "m = max w (source_lamport p)"
  have m: "int (unat m) \<le> ?tc + 1000000" using clock(1) w(2) by (simp add: m_def max_def del: of_nat_unat)
  then have "unat m < 2 ^ 63" using clock(2) by (simp add: i64_MAX_def del: of_nat_unat)
  then have add: "checked_add_u64 m 1 = Some (m + 1)" by (simp add: checked_add_u64_def)
  have "int (unat (m + 1)) \<le> i64_MAX" using checked_add_u64_Some [OF add] m clock(2) by (simp del: of_nat_unat)
  then have i64: "server_clock_to_i64 (m + 1) = Inr (int (unat (m + 1)))" by (simp add: server_clock_to_Inr del: of_nat_unat)
  have adv: "validate_clock_advance w (source_lamport p) = Inr ()"
    using clock(1) w(2) by (simp add: validate_clock_advance_ok del: of_nat_unat)
  have ctx: "tenant_id ?ctx = tenant" by (simp add: pg_context_def)
  have "loop_good t tenant ?b db1"
    using pg_loop_good [OF loop _ inv(2) _ request_cells_distinct [OF ok(1)], of ?b "pg_view t tenant db"] good
      request_ops_ok [OF ok(1), of _ ?b] view by (simp add: ctx)
  then have "0 \<le> pc_clock c" if "bt_get (pg_log db1 (crdt_table t, tenant)) k = Some c" for k c
    using that by (simp add: loop_good_def log_good_def)
  moreover have "bt_wf (pg_log db1 (crdt_table t, tenant))"
    using \<open>loop_good t tenant ?b db1\<close> by (simp add: loop_good_def log_good_def)
  ultimately have "\<forall>e\<in>set (pg_log db1 (crdt_table t, tenant)). 0 \<le> pc_clock (snd e)"
    using bt_get_iff by (metis prod.collapse)
  then obtain db' resp where br: "pg_build_response env now p device tenant t (m + 1) []
      (db1\<lparr>pg_clocks := (pg_clocks db1)(tenant \<mapsto> int (unat (m + 1)))\<rparr>) = Inr (db', resp)"
    using pg_build_response_total [OF _ len, of "db1\<lparr>pg_clocks := (pg_clocks db1)(tenant \<mapsto> int (unat (m + 1)))\<rparr>"] by fastforce
  have obs: "max_observed_clock p = source_lamport p" by (rule client_request_observed [OF ok(1)])
  have rows: "\<forall>row\<in>set (changes p). row_columns row \<noteq> []" using ok(1) by (simp add: client_request_ok_def payload_ok_def)
  have valid: "validate_client_request p device t = Inr ()" using ok(1) by (simp add: validate_client_request_iff)
  show ?thesis
    unfolding merge_crdt_states_with_security_def pg_merge_rows_flat [OF rows] tenant_clock_def [symmetric] Let_def obs
    using br by (simp add: valid ok(2) w(1) adv loop m_def [symmetric] add i64 del: of_nat_unat)
qed

subsection \<open>The round\<close>

lemma pg_world_tracks:
  assumes "deployed env ts" "t \<in> set ts" "reals_exact cenv t" "identifier_ok device" "device \<noteq> SERVER_DEVICE_ID"
    and "identifier_ok epoch" "pg_world env ts t tenant cenv device (pg_db_new epoch, start) db s M"
  shows "tracks cenv t device db (pg_abs t tenant (fst s))" "serving env ts t s"
proof -
  have "tracks cenv t device (client_db_new device) (pg_abs t tenant (fst (pg_db_new epoch, start)))"
    using tracks_pg_new [OF assms(4-6)] by simp
  from pg_server.world_tracks [OF assms(7) [unfolded pg_world_def] _ assms(3) serving_new [OF assms(1,2,6)] this] assms(1,2)
  show "tracks cenv t device db (pg_abs t tenant (fst s))" "serving env ts t s" by (simp_all add: deployed_def)
qed

lemma pg_round_total:
  assumes "deployed env ts" "t \<in> set ts" "reals_exact cenv t" "identifier_ok device" "device \<noteq> SERVER_DEVICE_ID"
    and "identifier_ok epoch" "identifier_ok tenant"
    and "pg_world env ts t tenant cenv device (pg_db_new epoch, start) db s M"
    and "card (dirty_keys db) \<le> 20000" "card (fst ` dirty_keys db) \<le> 10000"
    and "\<forall>k\<in>dirty_keys db. \<forall>b. log_view cenv t db k = Some b \<longrightarrow> no_zero (cvalue b)"
    and "d_lamport db \<le> tenant_clock tenant (fst s) + 1000000" "tenant_clock tenant (fst s) + 1000002 \<le> i64_MAX"
    and "pg_seq (fst s) + 20000 \<le> i64_MAX" "\<forall>v. \<exists>n. pg_json_len env v = Inr n"
  shows "\<exists>p db' s' resp. get_local_delta cenv t db = Inr p \<and>
    merge_crdt_states_with_security env (snd s) p device tenant t open_security (fst s) = Inr (fst s', resp) \<and>
    sync_with cenv t (\<lambda>p. pg_serve env t tenant p device open_security) (db, s) = ((db', s'), Inr resp) \<and>
    dirty_keys db' = {} \<and> cu_cursor (local_cursor db') = cursor resp \<and>
    (if has_more resp
     then (if cursor_reset resp then 0 else cu_cursor (local_cursor db)) < cursor resp \<and>
       cursor resp < tenant_max_cursor t tenant (fst s')
     else cursor resp = tenant_max_cursor t tenant (fst s'))"
proof -
  note tr = pg_world_tracks [OF assms(1-6,8)]
  have pre: "tenant_inv t tenant (fst s)" "valid_table t" "uuids_ok env"
    using tr(2) by (simp_all add: serving_def pg_inv_def deployed_def)
  have inv: "client_inv cenv t db" "d_device db = device" using tr(1) by (simp_all add: tracks_def)
  obtain p where delta: "get_local_delta cenv t db = Inr p" and ok: "client_request_ok t device p"
    and sent: "\<forall>(k, c)\<in>set (payload_cells p). log_view cenv t db k = Some c"
    and lam: "int (unat (source_lamport p)) = d_lamport db"
    using delta_total [OF inv(1) assms(9,10)] inv(2) by metis
  have "\<forall>(k, c)\<in>set (payload_cells p). no_zero (cvalue c)"
    using assms(11) delta_in_log [OF inv(1) delta] by auto
  moreover have "\<forall>(k, c)\<in>set (payload_cells p). \<forall>x. pg_view t tenant (fst s) k = Some x \<and> cmeta x = cmeta c \<longrightarrow>
      value_eq (cvalue x) (cvalue c)"
    using sent tracks_same_value [OF tr(1)] by fastforce
  ultimately obtain d1 resp where merge: "merge_crdt_states_with_security env (snd s) p device tenant t open_security (fst s) = Inr (d1, resp)"
    using pg_merge_total [OF ok assms(7) pre(1,2) _ assms(14) _ _ _ assms(15), of "snd s"] lam assms(12,13) by auto
  have serve: "pg_serve env t tenant p device open_security s = ((d1, snd s), Inr resp)" using merge by (simp add: pg_serve_Inr)
  note spec = pg_merge_spec [OF merge pre]
  have resp: "server_response_ok t resp"
    using pg_answer_ok [OF merge pre] by (simp add: validate_server_response_iff)
  have lam': "int (unat (source_lamport resp)) < i64_MAX" unfolding spec(9) spec(3) lam using assms(12,13) by simp
  have dl: "d_lamport db < i64_MAX" using assms(12,13) by simp
  obtain db' where compl: "complete_sync cenv t p resp db = (db', Inr ())"
    using pg_server.round_completes [OF tr TrueI pre(2) assms(3) delta serve resp lam' dl] by blast
  note r = pg_server.round_tracks [OF tr TrueI pre(2) assms(3) delta serve compl]
  have "client_local_delta cenv t db = (db, Inr p)" using delta by (simp add: client_local_delta_def run_tx_def)
  then have run: "sync_with cenv t (\<lambda>p. pg_serve env t tenant p device open_security) (db, s) = ((db', (d1, snd s)), Inr resp)"
    using serve compl by (simp add: sync_with_def)
  have none: "rejections resp = []" using spec(5) by simp
  have cur: "cursor p = cu_cursor (local_cursor db)" by (simp add: local_delta_Inr(1) [OF inv(1) delta])
  have page: "page_of (pg_abs t tenant d1) (if cursor_reset resp then 0 else cursor p) resp"
    using pg_server.merge_page [OF serve tr(2) TrueI] by simp
  have "loop_good t tenant (tenant_clock tenant d1) d1" using spec(1) by (simp add: tenant_inv_def)
  from pg_abs_counts(1) [OF this]
  have "if has_more resp
     then (if cursor_reset resp then 0 else cu_cursor (local_cursor db)) < cursor resp \<and>
       cursor resp < tenant_max_cursor t tenant d1
     else cursor resp = tenant_max_cursor t tenant d1"
    using page cur by (auto simp: page_of_def)
  with run r(2) r(3) [OF none] delta merge show ?thesis by fastforce
qed


end
