(* ===== verification/Simulator.thy ===== *)
theory Simulator
  imports Partial_Replica
begin

section \<open>The network simulator (simulator.rs)\<close>

text \<open>
  The simulator drives the reference server and records deliveries, duplicates and losses. Its HTML
  report is modelled to show that text from the trace cannot inject markup.
\<close>

datatype simulation_action = Delivered | Dropped | Duplicated

record simulation_event =
  ev_step :: u64
  ev_device_id :: string
  ev_action :: simulation_action
  ev_changes :: nat
  ev_result :: string

record network_simulator =
  sim_server :: crdt_state
  sim_trace :: "simulation_event list"
  sim_step :: u64

definition simulator_new :: "table_def \<Rightarrow> network_simulator" where
  "simulator_new t = \<lparr>sim_server = crdt_state_new t, sim_trace = [], sim_step = 0\<rparr>"

definition deliver ::
  "json_len \<Rightarrow> sync_payload \<Rightarrow> string \<Rightarrow> network_simulator \<Rightarrow>
   network_simulator \<times> (sync_error + sync_payload)" where
  "deliver json_len p device sim =
     (let sim = sim\<lparr>sim_step := sim_step sim + 1\<rparr> in
      case merge_payload json_len p device (sim_server sim) of
        (server, Inl e) \<Rightarrow> (sim\<lparr>sim_server := server\<rparr>, Inl e)
      | (server, Inr response) \<Rightarrow>
          (sim\<lparr>sim_server := server,
               sim_trace := sim_trace sim @
                 [\<lparr>ev_step = sim_step sim, ev_device_id = device, ev_action = Delivered,
                   ev_changes = length (changes p),
                   ev_result = ''accepted; '' @ show_nat (length (changes response)) @ '' response rows''\<rparr>]\<rparr>,
           Inr response))"

definition duplicate ::
  "json_len \<Rightarrow> sync_payload \<Rightarrow> string \<Rightarrow> network_simulator \<Rightarrow>
   network_simulator \<times> (sync_error + sync_payload)" where
  "duplicate json_len p device sim =
     (case deliver json_len p device sim of
        (sim, Inl e) \<Rightarrow> (sim, Inl e)
      | (sim, Inr first) \<Rightarrow>
          let sim = sim\<lparr>sim_step := sim_step sim + 1\<rparr> in
          (case merge_payload json_len p device (sim_server sim) of
             (server, Inl e) \<Rightarrow> (sim\<lparr>sim_server := server\<rparr>, Inl e)
           | (server, Inr second) \<Rightarrow>
               (sim\<lparr>sim_server := server,
                    sim_trace := sim_trace sim @
                      [\<lparr>ev_step = sim_step sim, ev_device_id = device, ev_action = Duplicated,
                        ev_changes = length (changes second),
                        ev_result = ''duplicate delivery preserved cell state''\<rparr>]\<rparr>,
                Inr first)))"

definition drop_payload :: "sync_payload \<Rightarrow> string \<Rightarrow> network_simulator \<Rightarrow> network_simulator" where
  "drop_payload p device sim =
     (let sim = sim\<lparr>sim_step := sim_step sim + 1\<rparr> in
      sim\<lparr>sim_trace := sim_trace sim @
        [\<lparr>ev_step = sim_step sim, ev_device_id = device, ev_action = Dropped,
          ev_changes = length (changes p),
          ev_result = ''network dropped payload before merge''\<rparr>]\<rparr>)"

subsection \<open>The report\<close>

definition replace_char :: "char \<Rightarrow> string \<Rightarrow> string \<Rightarrow> string" where
  "replace_char c r s = concat (map (\<lambda>x. if x = c then r else [x]) s)"

definition escape_html :: "string \<Rightarrow> string" where
  "escape_html s =
     replace_char CHR 0x22 ''&quot;''
       (replace_char CHR ''>'' ''&gt;''
         (replace_char CHR ''<'' ''&lt;''
           (replace_char CHR ''&'' ''&amp;'' s)))"

fun show_action :: "simulation_action \<Rightarrow> string" where
  "show_action Delivered = ''Delivered''"
| "show_action Dropped = ''Dropped''"
| "show_action Duplicated = ''Duplicated''"

definition event_row :: "simulation_event \<Rightarrow> string" where
  "event_row e =
     ''<tr><td>'' @ show_nat (unat (ev_step e)) @ ''</td><td>'' @ escape_html (ev_device_id e) @
     ''</td><td>'' @ show_action (ev_action e) @ ''</td><td>'' @ show_nat (ev_changes e) @
     ''</td><td>'' @ escape_html (ev_result e) @ ''</td></tr>''"

definition render_html :: "network_simulator \<Rightarrow> string" where
  "render_html sim =
     ''<!doctype html><html><head><meta charset='' @ [CHR 0x22] @ ''utf-8'' @ [CHR 0x22] @
     ''><title>Loomabase Sync Simulation</title>'' @
     ''<style>body{font-family:system-ui;margin:2rem;background:#0b1020;color:#e8ecff}'' @
     ''table{border-collapse:collapse;width:100%}th,td{padding:.7rem;border:1px solid #34405f}'' @
     ''th{background:#18213b}h1{color:#8de1ff}</style></head><body>'' @
     ''<h1>Loomabase deterministic sync simulation</h1><p>Final cells: '' @
     show_nat (length (cells (sim_server sim))) @ ''</p>'' @
     ''<table><thead><tr><th>Step</th><th>Device</th><th>Action</th><th>Rows</th><th>Result</th></tr></thead>'' @
     ''<tbody>'' @ concat (map event_row (sim_trace sim)) @ ''</tbody></table></body></html>''"

section \<open>Properties of the simulator\<close>

text \<open>The four passes together replace each character once, by an entity or by itself.\<close>

fun html_entity :: "char \<Rightarrow> string" where
  "html_entity c =
     (if c = CHR ''&'' then ''&amp;'' else if c = CHR ''<'' then ''&lt;''
      else if c = CHR ''>'' then ''&gt;'' else if c = CHR 0x22 then ''&quot;'' else [c])"

lemma replace_char_simps [simp]:
  "replace_char c r [] = []"
  "replace_char c r (x # s) = (if x = c then r else [x]) @ replace_char c r s"
  by (simp_all add: replace_char_def)

lemma replace_char_append [simp]: "replace_char c r (s @ t) = replace_char c r s @ replace_char c r t"
  by (simp add: replace_char_def)

lemma escape_html_entities: "escape_html s = concat (map html_entity s)"
  by (induction s) (simp_all add: escape_html_def)

lemma html_entity_prefix: "html_entity c @ s = html_entity d @ t \<Longrightarrow> c = d \<and> s = t"
  by (auto split: if_splits)

text \<open>Escaping leaves no markup character in the text and loses nothing: the result has
  no angle bracket and no quote, and different texts have different escapes.\<close>

theorem escape_html_safe:
  "set (escape_html s) \<inter> {CHR ''<'', CHR ''>'', CHR 0x22} = {} \<and>
   (escape_html s = escape_html t \<longleftrightarrow> s = t)"
proof -
  have "set (concat (map html_entity s)) \<inter> {CHR ''<'', CHR ''>'', CHR 0x22} = {}"
    by (induction s) auto
  moreover have "concat (map html_entity s) = concat (map html_entity t) \<Longrightarrow> s = t"
  proof (induction s arbitrary: t)
    case Nil
    then show ?case by (cases t) (auto split: if_splits)
  next
    case (Cons c s)
    then obtain d u where t: "t = d # u" by (cases t) (auto split: if_splits)
    with Cons.prems have "c = d \<and> concat (map html_entity s) = concat (map html_entity u)"
      by (intro html_entity_prefix) (simp del: html_entity.simps)
    with Cons.IH t show ?case by blast
  qed
  ultimately show ?thesis unfolding escape_html_entities by blast
qed

lemma deliver_Inr:
  "deliver json_len p device sim = (sim', Inr resp) \<Longrightarrow>
   merge_payload json_len p device (sim_server sim) = (sim_server sim', Inr resp)"
  by (auto simp: deliver_def Let_def split: prod.splits sum.splits)

text \<open>What the simulator records of a duplicate is true: after a duplicate delivery the
  server has exactly the cells it has after a single one.\<close>

theorem duplicate_preserves_cells:
  assumes "state_inv (sim_server sim)" "headroom 20000 (sim_server sim)"
    and "deliver json_len p device sim = (sim1, Inr resp1)"
    and "duplicate json_len p device sim = (sim2, r)"
  shows "cells (sim_server sim2) = cells (sim_server sim1)"
proof -
  let ?s1 = "sim_server sim1"
  obtain s2 r2 where m2: "merge_payload json_len p device ?s1 = (s2, r2)" by fastforce
  have "sim_server sim2 = s2"
    using assms(3,4) m2 by (auto simp: duplicate_def Let_def split: sum.splits)
  moreover have "cells s2 = cells ?s1"
    using merge_replayed [OF assms(1,2) deliver_Inr [OF assms(3)] m2] by simp
  ultimately show ?thesis by simp
qed

end
