(* ===== verification/Sample_Runs.thy ===== *)
theory Sample_Runs
  imports Simulator
begin

section \<open>Concrete runs\<close>

text \<open>
  Two devices write the title of one row under the same clock; the runs of the reference server on
  their requests are the inputs at which the properties of the reference server are instantiated.
\<close>

definition sample_len :: json_len where
  "sample_len c = Inr 64"

definition sample_request :: "string \<Rightarrow> sync_payload" where
  "sample_request dev =
     \<lparr>protocol_version = 4, schema_fingerprint = table_fingerprint todos_table, source_device_id = dev,
      source_lamport = 1,
      changes = [\<lparr>todo_id = ''r1'',
        row_columns = [(''title'', \<lparr>cvalue = VText dev, cmeta = ColumnMetadata 1 dev\<rparr>)]\<rparr>],
      cursor = 0, has_more = False, cursor_reset = False, cursor_token = None, server_epoch = None,
      rejections = []\<rparr>"

abbreviation sample_start :: crdt_state where
  "sample_start \<equiv> crdt_state_new todos_table"

lemma sample_title: "table_column_type todos_table ''title'' = Some TyText"
  by code_simp

lemma sample_cells:
  "payload_cells (sample_request dev) =
     [((''r1'', ''title''), \<lparr>cvalue = VText dev, cmeta = ColumnMetadata 1 dev\<rparr>)]"
  by (simp add: payload_cells_def sample_request_def row_cells_def)

lemma sample_devices [simp]: "identifier_ok ''a''" "identifier_ok ''b''" "identifier_ok ''r1''"
  "''a'' \<noteq> SERVER_DEVICE_ID" "''b'' \<noteq> SERVER_DEVICE_ID"
  by (simp_all add: identifier_ok_def byte_def SERVER_DEVICE_ID_def)

lemma sample_request_ok:
  assumes "identifier_ok dev" "dev \<noteq> SERVER_DEVICE_ID"
  shows "client_request_ok todos_table dev (sample_request dev)"
proof -
  have "length dev \<le> 255" using assms(1) by (simp add: identifier_ok_def)
  then have "cell_ok todos_table ''title'' \<lparr>cvalue = VText dev, cmeta = ColumnMetadata 1 dev\<rparr>"
    using assms(1) by (simp add: cell_ok_def value_ok_def sample_title meta_ok_def clock_ok_def limits)
  then show ?thesis
    using assms unfolding client_request_ok_def payload_ok_def sample_cells
    by (simp add: clock_ok_def) (simp add: sample_request_def)
qed

lemma sample_headroom: "headroom 60000 sample_start"
  by (simp add: headroom_def last_write_def crdt_state_new_def)

lemma sample_invariant: "state_inv sample_start"
  by (rule state_inv_new)

text \<open>The request of a device succeeds in every state without a conflicting cell.\<close>

lemma sample_merge:
  assumes dev: "identifier_ok dev" "dev \<noteq> SERVER_DEVICE_ID" and tab: "state_table s = todos_table"
    and clk: "unat (global_lamport s) < 2 ^ 63"
    and free: "\<And>c. bt_get (cells s) (''r1'', ''title'') = Some c \<Longrightarrow> cmeta c \<noteq> ColumnMetadata 1 dev"
  obtains s' resp where "merge_payload sample_len (sample_request dev) dev s = (s', Inr resp)"
    "merge_inner sample_len (sample_request dev) dev open_security s = Inr (s', resp)"
proof -
  have "client_request_ok (state_table s) dev (sample_request dev)"
    using sample_request_ok [OF dev] tab by simp
  moreover have "unat (source_lamport (sample_request dev)) \<le> unat (global_lamport s) + 1000000"
    by (simp add: sample_request_def)
  moreover have "\<not> list_ex (version_conflict s) (payload_cells (sample_request dev))"
    using free by (auto simp: sample_cells version_conflict_def split: option.splits)
  ultimately have "\<exists>s' resp. merge_payload sample_len (sample_request dev) dev s = (s', Inr resp)"
    using merge_payload_total [of s dev "sample_request dev" sample_len] clk by (auto simp: sample_len_def)
  then show thesis using that by (auto simp: merge_payload_Inr)
qed

text \<open>Both orders of two requests succeed.\<close>

lemma sample_two:
  assumes "identifier_ok d" "d \<noteq> SERVER_DEVICE_ID" "identifier_ok e" "e \<noteq> SERVER_DEVICE_ID" "d \<noteq> e"
  obtains s1 r1 s2 r2 where
    "merge_payload sample_len (sample_request d) d sample_start = (s1, Inr r1)"
    "merge_payload sample_len (sample_request e) e s1 = (s2, Inr r2)"
proof -
  have head: "headroom 20000 sample_start" using sample_headroom by (simp add: headroom_def)
  obtain s1 r1 where m1: "merge_payload sample_len (sample_request d) d sample_start = (s1, Inr r1)"
    and mi: "merge_inner sample_len (sample_request d) d open_security sample_start = Inr (s1, r1)"
    by (rule sample_merge [OF assms(1,2)]) (auto simp: crdt_state_new_def)
  note spec = merge_inner_spec [OF mi sample_invariant head]
  have run: "lww.run (payload_cells (sample_request d)) (bt_get (cells sample_start)) = Inr (bt_get (cells s1))"
    using spec(5) by simp
  have clk: "unat (global_lamport s1) < 2 ^ 63"
    unfolding spec(3) by (simp add: crdt_state_new_def sample_request_def)
  have tab: "state_table s1 = todos_table" unfolding spec(2) by (simp add: crdt_state_new_def)
  have free: "cmeta c \<noteq> ColumnMetadata 1 e" if c: "bt_get (cells s1) (''r1'', ''title'') = Some c" for c
    using lww.run_origin [OF run, OF c] assms(5) by (auto simp: sample_cells crdt_state_new_def)
  obtain s2 r2 where "merge_payload sample_len (sample_request e) e s1 = (s2, Inr r2)"
    by (rule sample_merge [OF assms(3,4) tab clk]) (use free in auto)
  with m1 that show thesis by blast
qed

lemma sample_first:
  obtains s1 r1 where
    "merge_payload sample_len (sample_request ''a'') ''a'' sample_start = (s1, Inr r1)"
    "merge_with_security sample_len (sample_request ''a'') ''a'' open_security sample_start = (s1, Inr r1)"
    "unat (global_lamport s1) = 2"
proof -
  have head: "headroom 20000 sample_start" using sample_headroom by (simp add: headroom_def)
  obtain s1 r1 where m1: "merge_payload sample_len (sample_request ''a'') ''a'' sample_start = (s1, Inr r1)"
    and mi: "merge_inner sample_len (sample_request ''a'') ''a'' open_security sample_start = Inr (s1, r1)"
    by (rule sample_merge [of "''a''" sample_start]) (auto simp: crdt_state_new_def)
  have "unat (global_lamport s1) = 2"
    unfolding merge_inner_spec(3) [OF mi sample_invariant head]
    by (simp add: crdt_state_new_def sample_request_def)
  with m1 that show thesis by (simp add: merge_payload_def)
qed

lemma sample_head: "headroom 20000 sample_start"
  using sample_headroom by (simp add: headroom_def)

subsection \<open>The properties at the concrete runs\<close>

theorem merge_atomic_invariant_witness:
  "\<exists>s1 r. merge_with_security sample_len (sample_request ''a'') ''a'' open_security sample_start = (s1, r) \<and>
     state_inv s1"
  using merge_atomic_invariant [OF sample_invariant sample_head] by (metis surj_pair)


theorem merge_clock_bounds_witness:
  "\<exists>s1 r1. merge_with_security sample_len (sample_request ''a'') ''a'' open_security sample_start = (s1, Inr r1) \<and>
     1 < unat (global_lamport s1)"
proof -
  obtain s1 r1 where m: "merge_with_security sample_len (sample_request ''a'') ''a'' open_security sample_start = (s1, Inr r1)"
    by (rule sample_first)
  from merge_clock_bounds [OF sample_invariant sample_head m] m show ?thesis
    by (auto simp: sample_request_def)
qed

theorem deliveries_converge_witness:
  "\<exists>s1 s2.
     deliver_all sample_len [(sample_request ''a'', ''a''), (sample_request ''b'', ''b'')] sample_start = Some s1 \<and>
     deliver_all sample_len [(sample_request ''b'', ''b''), (sample_request ''a'', ''a'')] sample_start = Some s2 \<and>
     (\<forall>k. rel_option (\<lambda>a b. cmeta a = cmeta b \<and> value_eq (cvalue a) (cvalue b))
        (bt_get (cells s1) k) (bt_get (cells s2) k))"
proof -
  let ?ab = "[(sample_request ''a'', ''a''), (sample_request ''b'', ''b'')]"
    and ?ba = "[(sample_request ''b'', ''b''), (sample_request ''a'', ''a'')]"
  obtain s1 where s1: "deliver_all sample_len ?ab sample_start = Some s1"
    by (rule sample_two [of "''a''" "''b''"]) auto
  obtain s2 where s2: "deliver_all sample_len ?ba sample_start = Some s2"
    by (rule sample_two [of "''b''" "''a''"]) auto
  have head: "headroom (20000 * length ?ab) sample_start" "headroom (20000 * length ?ba) sample_start"
    using sample_headroom by (simp_all add: headroom_def)
  from deliveries_converge [OF sample_invariant head s1 s2] s1 s2 show ?thesis by auto
qed

theorem merge_replay_witness:
  "\<exists>s1 r1 s2 r2.
     merge_payload sample_len (sample_request ''a'') ''a'' sample_start = (s1, Inr r1) \<and>
     merge_payload sample_len (sample_request ''a'') ''a'' s1 = (s2, r2) \<and> cells s2 = cells s1"
proof -
  obtain s1 r1 where m: "merge_payload sample_len (sample_request ''a'') ''a'' sample_start = (s1, Inr r1)"
    by (rule sample_first)
  obtain s2 r2 where m2: "merge_payload sample_len (sample_request ''a'') ''a'' s1 = (s2, r2)" by fastforce
  from merge_replay [OF sample_invariant sample_head m m2] m m2 show ?thesis by auto
qed

theorem merge_payload_outcome_witness:
  "\<exists>s1 r1. merge_payload sample_len (sample_request ''a'') ''a'' sample_start = (s1, Inr r1)"
proof -
  have "client_request_ok (state_table sample_start) ''a'' (sample_request ''a'')"
    using sample_request_ok [of "''a''"] by (simp add: crdt_state_new_def)
  moreover have "unat (source_lamport (sample_request ''a'')) \<le> unat (global_lamport sample_start) + 1000000"
    by (simp add: sample_request_def)
  moreover have "unat (global_lamport sample_start) < 2 ^ 64 - 1" by (simp add: crdt_state_new_def)
  moreover have "\<not> list_ex (version_conflict sample_start) (payload_cells (sample_request ''a''))"
    by (simp add: sample_cells version_conflict_def crdt_state_new_def)
  ultimately show ?thesis
    using merge_payload_outcome [of sample_start "''a''" "sample_request ''a''" sample_len]
    by (auto simp: sample_len_def)
qed

theorem response_valid_witness:
  "\<exists>s1 r1. merge_with_security sample_len (sample_request ''a'') ''a'' open_security sample_start = (s1, Inr r1) \<and>
     validate_server_response r1 todos_table = Inr ()"
proof -
  obtain s1 r1 where m: "merge_with_security sample_len (sample_request ''a'') ''a'' open_security sample_start = (s1, Inr r1)"
    and clk: "unat (global_lamport s1) = 2"
    by (rule sample_first)
  from response_valid [OF sample_invariant sample_head m] m clk show ?thesis
    by (auto simp: crdt_state_new_def)
qed

subsection \<open>A response of two pages\<close>

text \<open>With cells of four mebibytes each, the second of two cells does not fit the first page.\<close>

definition big_len :: json_len where
  "big_len c = Inr 4194304"

definition two_rows :: sync_payload where
  "two_rows = (sample_request ''a'')\<lparr>changes :=
     [\<lparr>todo_id = ''r1'', row_columns = [(''title'', \<lparr>cvalue = VText ''x'', cmeta = ColumnMetadata 1 ''a''\<rparr>)]\<rparr>,
      \<lparr>todo_id = ''r2'', row_columns = [(''title'', \<lparr>cvalue = VText ''y'', cmeta = ColumnMetadata 1 ''a''\<rparr>)]\<rparr>]\<rparr>"

lemma two_cells:
  "payload_cells two_rows =
     [((''r1'', ''title''), \<lparr>cvalue = VText ''x'', cmeta = ColumnMetadata 1 ''a''\<rparr>),
      ((''r2'', ''title''), \<lparr>cvalue = VText ''y'', cmeta = ColumnMetadata 1 ''a''\<rparr>)]"
  by (simp add: payload_cells_def two_rows_def row_cells_def)

lemma two_rows_ok: "client_request_ok todos_table ''a'' two_rows"
proof -
  have "cell_ok todos_table ''title'' \<lparr>cvalue = VText v, cmeta = ColumnMetadata 1 ''a''\<rparr>" if "length v = 1" for v
    using that by (simp add: cell_ok_def value_ok_def sample_title meta_ok_def clock_ok_def limits)
  then show ?thesis
    unfolding client_request_ok_def payload_ok_def two_cells
    by (simp add: clock_ok_def)
      (simp add: two_rows_def sample_request_def identifier_ok_def byte_def SERVER_DEVICE_ID_def)
qed

definition two_state :: crdt_state where
  "two_state =
     \<lparr>global_lamport = 0, cells = payload_cells two_rows, state_table = todos_table, write_seq = 2,
      cell_seq = [((''r1'', ''title''), 1), ((''r2'', ''title''), 2)], issued_cursors = []\<rparr>"

lemma two_loop:
  "foldM (merge_op open_security ctx) (payload_cells two_rows) (sample_start, []) = Inr (two_state, [])"
  by (simp add: two_cells open_merge_op lww_apply_def crdt_state_new_def store_cell_def Let_def two_state_def)

lemma two_page:
  "\<exists>s' r. build_response big_len two_rows ''a'' [] (two_state\<lparr>global_lamport := 2\<rparr>) = Inr (s', r) \<and> has_more r"
  by (simp add: build_response_def Let_def feed_candidates_def two_state_def two_cells seq_of_def
      i64_or_max_def i64_try_from_def i64_MAX_def effective_cursor_def cursor_valid_def
      max_issued_cursor_def big_len_def limits)

lemma two_merge_inner:
  "merge_inner json_len two_rows ''a'' open_security sample_start =
     build_response json_len two_rows ''a'' [] (two_state\<lparr>global_lamport := 2\<rparr>)"
proof -
  have ok: "client_request_ok (state_table sample_start) ''a'' two_rows"
    using two_rows_ok by (simp add: crdt_state_new_def)
  have src: "source_lamport two_rows = 1" by (simp add: two_rows_def sample_request_def)
  have v: "validate_client_request two_rows ''a'' (state_table sample_start) = Inr ()"
    "validate_clock_advance (global_lamport sample_start) 1 = Inr ()"
    using ok by (simp_all add: validate_client_request_iff validate_clock_advance_ok)
  show ?thesis
    by (simp add: merge_inner_def v client_request_observed [OF ok] src merge_rows_flat two_loop Let_def)
      (simp add: two_state_def checked_add_u64_def)
qed

lemma two_merge:
  "\<exists>s' r. merge_with_security big_len two_rows ''a'' open_security sample_start = (s', Inr r) \<and> has_more r"
  using two_page by (auto simp: merge_with_security_Inr two_merge_inner)

theorem feed_progress_witness:
  "\<exists>s' r. merge_with_security big_len two_rows ''a'' open_security sample_start = (s', Inr r) \<and>
     0 < cursor r \<and> cursor r < int (last_write s')"
proof -
  obtain s' r where m: "merge_with_security big_len two_rows ''a'' open_security sample_start = (s', Inr r)"
    "has_more r" using two_merge by blast
  have "effective_cursor sample_start ''a'' (cursor two_rows) = 0"
    by (simp add: effective_cursor_def two_rows_def sample_request_def)
  with feed_progress [OF sample_invariant sample_head m] m show ?thesis by auto
qed

theorem reachable_state_valid_witness:
  "\<exists>s1. server_run sample_len 1 sample_start s1 \<and> state_inv s1"
proof -
  obtain s1 r1 where "merge_with_security sample_len (sample_request ''a'') ''a'' open_security sample_start = (s1, Inr r1)"
    by (rule sample_first)
  then have "server_run sample_len (Suc 0) sample_start s1" by (rule run_merge [OF run_none])
  with reachable_state_valid [of sample_len "Suc 0" todos_table s1] show ?thesis by auto
qed

text \<open>After the first request the cell is there, and it stays.\<close>

lemma sample_stored:
  assumes "merge_with_security sample_len (sample_request ''a'') ''a'' open_security sample_start = (s1, Inr r1)"
  shows "bt_get (cells s1) (''r1'', ''title'') = Some \<lparr>cvalue = VText ''a'', cmeta = ColumnMetadata 1 ''a''\<rparr>"
proof -
  have mi: "merge_inner sample_len (sample_request ''a'') ''a'' open_security sample_start = Inr (s1, r1)"
    using assms by (simp add: merge_with_security_Inr)
  have run: "lww.run (payload_cells (sample_request ''a'')) (bt_get (cells sample_start)) = Inr (bt_get (cells s1))"
    using merge_inner_spec(5) [OF mi sample_invariant sample_head] by simp
  then have "bt_get (cells s1) = [(''r1'', ''title'') \<mapsto> \<lparr>cvalue = VText ''a'', cmeta = ColumnMetadata 1 ''a''\<rparr>]"
    by (simp add: sample_cells lww.put_def lww_apply_def crdt_state_new_def)
  then show ?thesis by simp
qed

lemma sample_second:
  obtains s1 r1 s2 r2 where
    "merge_with_security sample_len (sample_request ''a'') ''a'' open_security sample_start = (s1, Inr r1)"
    "merge_with_security sample_len (sample_request ''b'') ''b'' open_security s1 = (s2, Inr r2)"
  by (rule sample_two [of "''a''" "''b''"]) (auto simp: merge_payload_def)

theorem cells_never_regress_witness:
  "\<exists>s1 r1 s2 b.
     merge_with_security sample_len (sample_request ''a'') ''a'' open_security sample_start = (s1, Inr r1) \<and>
     server_run sample_len 1 s1 s2 \<and> bt_get (cells s2) (''r1'', ''title'') = Some b \<and>
     ColumnMetadata 1 ''a'' \<le> cmeta b"
proof -
  obtain s1 r1 s2 r2 where
    m: "merge_with_security sample_len (sample_request ''a'') ''a'' open_security sample_start = (s1, Inr r1)"
    and m2: "merge_with_security sample_len (sample_request ''b'') ''b'' open_security s1 = (s2, Inr r2)"
    by (rule sample_second)
  have g: "state_inv s1" "last_write s1 \<le> last_write sample_start + 20000"
    using merge_grows [OF m sample_invariant sample_head] by auto
  have "headroom (20000 * Suc 0) s1" using g(2) sample_headroom by (simp add: headroom_def)
  moreover have "server_run sample_len (Suc 0) s1 s2" using m2 by (rule run_merge [OF run_none])
  ultimately show ?thesis
    using cells_never_regress [OF g(1) _ _ sample_stored [OF m], of "Suc 0" sample_len s2] m by auto
qed

theorem forged_cursor_repaired_witness:
  "\<exists>s1 r1. merge_with_security sample_len ((sample_request ''a'')\<lparr>cursor := 7\<rparr>) ''a'' open_security sample_start =
       (s1, Inr r1) \<and> cursor_reset r1 \<and> page_of s1 0 r1"
proof -
  let ?p = "(sample_request ''a'')\<lparr>cursor := 7\<rparr>"
  have cells: "payload_cells ?p = payload_cells (sample_request ''a'')" by (simp add: payload_cells_def)
  have "client_request_ok todos_table ''a'' (sample_request ''a'')" by (rule sample_request_ok) simp_all
  then have "client_request_ok todos_table ''a'' ?p" by (simp add: client_request_ok_def payload_ok_def cells)
  then have ok: "client_request_ok (state_table sample_start) ''a'' ?p" by (simp add: crdt_state_new_def)
  have "\<exists>s' resp. merge_payload sample_len ?p ''a'' sample_start = (s', Inr resp)"
    using merge_payload_total [OF ok, of sample_len] unfolding cells sample_cells
    by (simp add: sample_len_def version_conflict_def crdt_state_new_def) (simp add: sample_request_def)
  then obtain s1 r1 where m: "merge_with_security sample_len ?p ''a'' open_security sample_start = (s1, Inr r1)"
    by (auto simp: merge_payload_def)
  have "max_issued_cursor sample_start ''a'' = 0" by (simp add: max_issued_cursor_def crdt_state_new_def)
  with forged_cursor_repaired [OF sample_invariant sample_head m] m show ?thesis by auto
qed

theorem feed_complete_witness:
  "\<exists>s1 r1. merge_with_security sample_len (sample_request ''a'') ''a'' open_security sample_start = (s1, Inr r1) \<and>
     \<not> has_more r1 \<and> \<not> cursor_reset r1 \<and>
     (\<forall>k x. bt_get (cells s1) k = Some x \<longrightarrow> (k, x) \<in> set (payload_cells r1))"
proof -
  obtain s1 r1 where m: "merge_with_security sample_len (sample_request ''a'') ''a'' open_security sample_start = (s1, Inr r1)"
    by (rule sample_first)
  have mi: "merge_inner sample_len (sample_request ''a'') ''a'' open_security sample_start = Inr (s1, r1)"
    using m by (simp add: merge_with_security_Inr)
  have cur: "cursor (sample_request ''a'') = 0" by (simp add: sample_request_def)
  note spec = merge_inner_spec [OF mi sample_invariant sample_head]
  have "last_write s1 \<le> 1"
    using spec(4) by (simp add: sample_cells last_write_def crdt_state_new_def)
  then have "\<not> has_more r1"
    using spec(7) cur by (auto simp: page_of_def effective_cursor_def cursor_valid_def)
  moreover have "headroom (20000 * Suc 0) sample_start" using sample_head by simp
  ultimately show ?thesis
    using feed_complete [OF sample_invariant _ follow_start m cur] m by auto
qed

subsection \<open>A partial replica\<close>

definition sample_partial :: partial_replica_request where
  "sample_partial =
     \<lparr>rq_scope_id = ''mine'', rq_scope_version = 1,
      rq_interest = \<lparr>predicates = [IdEquals ''r1''], interest_limit = 10\<rparr>,
      rq_known_member_ids = [''r0''], rq_sync = two_rows\<rparr>"

lemma partial_request_ok: "request_validate sample_partial todos_table ''a'' = Inr ()"
  unfolding request_validate_iff
  by (simp add: request_ok_def sample_partial_def two_rows_ok interest_ok_def scope_version_ok_def
      member_ids_ok_def identifier_ok_def byte_def)

lemma two_rows_sel:
  "cursor two_rows = 0" "protocol_version two_rows = 4"
  by (simp_all add: two_rows_def sample_request_def)

definition partial_state :: crdt_state where
  "partial_state = two_state\<lparr>global_lamport := 2, issued_cursors := [(''a'', 2)]\<rparr>"

definition partial_sync :: sync_payload where
  "partial_sync =
     \<lparr>protocol_version = 4, schema_fingerprint = table_fingerprint todos_table,
      source_device_id = SERVER_DEVICE_ID, source_lamport = 2, changes = changes two_rows, cursor = 2,
      has_more = False, cursor_reset = False, cursor_token = None, server_epoch = None, rejections = []\<rparr>"

lemma two_rows_changes:
  "changes two_rows =
     [\<lparr>todo_id = ''r1'', row_columns = [(''title'', \<lparr>cvalue = VText ''x'', cmeta = ColumnMetadata 1 ''a''\<rparr>)]\<rparr>,
      \<lparr>todo_id = ''r2'', row_columns = [(''title'', \<lparr>cvalue = VText ''y'', cmeta = ColumnMetadata 1 ''a''\<rparr>)]\<rparr>]"
  by (simp add: two_rows_def)

lemma partial_page:
  "build_response sample_len two_rows ''a'' [] (two_state\<lparr>global_lamport := 2\<rparr>) = Inr (partial_state, partial_sync)"
  by (simp add: build_response_def Let_def feed_candidates_def two_state_def two_cells seq_of_def
      i64_or_max_def i64_try_from_def i64_MAX_def effective_cursor_def cursor_valid_def
      max_issued_cursor_def sample_len_def limits issue_cursor_def two_rows_sel two_rows_changes
      rows_of_def group_insert_def partial_state_def partial_sync_def)

definition partial_answer :: partial_replica_response where
  "partial_answer =
     \<lparr>rs_scope_id = ''mine'', rs_scope_version = 1, rs_member_ids = [''r1''], rs_evicted_row_ids = [''r0''],
      rs_sync = partial_sync\<lparr>changes := [hd (changes two_rows)]\<rparr>\<rparr>"

lemma partial_answer_ok: "response_validate partial_answer todos_table = Inr ()"
proof -
  have cells: "payload_cells (rs_sync partial_answer) =
      [((''r1'', ''title''), \<lparr>cvalue = VText ''x'', cmeta = ColumnMetadata 1 ''a''\<rparr>)]"
    by (simp add: partial_answer_def partial_sync_def two_rows_changes payload_cells_def row_cells_def)
  have "cell_ok todos_table ''title'' \<lparr>cvalue = VText ''x'', cmeta = ColumnMetadata 1 ''a''\<rparr>"
    by (simp add: cell_ok_def value_ok_def sample_title meta_ok_def clock_ok_def limits)
  then show ?thesis
    unfolding response_validate_iff response_ok_def server_response_ok_def payload_ok_def cells
    by (simp add: clock_ok_def scope_version_ok_def)
      (simp add: partial_answer_def partial_sync_def two_rows_changes member_ids_ok_def
        identifier_ok_def byte_def SERVER_DEVICE_ID_def)
qed

lemma partial_members:
  "scope_members (rq_interest sample_partial) partial_state = [''r1'']"
  by (simp add: scope_members_def values_by_row_def partial_state_def two_state_def two_cells
      group_insert_def live_values_def DELETED_COLUMN_def interest_matches_def predicate_matches_def
      sample_partial_def)

lemma partial_merge:
  "merge_partial sample_len sample_partial ''a'' sample_start = (partial_state, Inr partial_answer)"
proof -
  have m: "merge_payload sample_len two_rows ''a'' sample_start = (partial_state, Inr partial_sync)"
    using two_merge_inner [of sample_len] partial_page by (simp add: merge_payload_Inr)
  have t: "state_table partial_state = todos_table" "state_table sample_start = todos_table"
    by (simp_all add: partial_state_def two_state_def crdt_state_new_def)
  have snap: "snapshot_loop sample_len [''r1''] (cells partial_state) ([], 0) =
      Inr ([(''r1'', [(''title'', \<lparr>cvalue = VText ''x'', cmeta = ColumnMetadata 1 ''a''\<rparr>)])], 71)"
    by (simp add: partial_state_def two_state_def two_cells sample_len_def Let_def limits group_insert_def)
  have "rq_sync sample_partial = two_rows" by (simp add: sample_partial_def)
  then have "merge_partial_inner sample_len sample_partial ''a'' sample_start = Inr (partial_state, partial_answer)"
    using partial_answer_ok
    by (simp add: merge_partial_inner_def t partial_request_ok m partial_members snap Let_def)
      (simp add: sample_partial_def partial_answer_def partial_sync_def rows_of_def two_rows_changes)
  then show ?thesis by (simp add: merge_partial_def)
qed

theorem merge_partial_correct_witness:
  "merge_partial sample_len sample_partial ''a'' sample_start = (partial_state, Inr partial_answer) \<and>
   in_scope (rq_interest sample_partial) partial_state ''r1'' \<and>
   \<not> in_scope (rq_interest sample_partial) partial_state ''r2''"
proof -
  have "\<forall>row. row \<in> set (rs_member_ids partial_answer) \<longleftrightarrow>
      in_scope (rq_interest sample_partial) partial_state row"
    using merge_partial_correct [OF sample_invariant sample_head partial_merge] by simp
  moreover have "rs_member_ids partial_answer = [''r1'']" by (simp add: partial_answer_def)
  ultimately have "in_scope (rq_interest sample_partial) partial_state row \<longleftrightarrow> row = ''r1''" for row
    by (metis list.set_intros(1) set_ConsD empty_iff empty_set)
  with partial_merge show ?thesis by simp
qed

theorem duplicate_preserves_cells_witness:
  "\<exists>sim1 r1 sim2 r2. deliver sample_len (sample_request ''a'') ''a'' (simulator_new todos_table) = (sim1, Inr r1) \<and>
     duplicate sample_len (sample_request ''a'') ''a'' (simulator_new todos_table) = (sim2, r2) \<and>
     cells (sim_server sim2) = cells (sim_server sim1)"
proof -
  let ?sim = "simulator_new todos_table"
  obtain s1 r1 where m: "merge_payload sample_len (sample_request ''a'') ''a'' sample_start = (s1, Inr r1)"
    by (rule sample_first)
  have server: "sim_server ?sim = sample_start" by (simp add: simulator_new_def)
  obtain sim1 where d: "deliver sample_len (sample_request ''a'') ''a'' ?sim = (sim1, Inr r1)"
    using m by (simp add: deliver_def Let_def server)
  obtain sim2 r2 where dup: "duplicate sample_len (sample_request ''a'') ''a'' ?sim = (sim2, r2)" by fastforce
  have "state_inv (sim_server ?sim)" "headroom 20000 (sim_server ?sim)"
    by (simp_all add: server sample_invariant sample_head)
  from duplicate_preserves_cells [OF this d dup] d dup show ?thesis by blast
qed

end
