(* ===== verification/Client_Samples.thy ===== *)
theory Client_Samples
  imports Client_Steps
begin

section \<open>Concrete runs of the client\<close>

text \<open>
  Databases, requests and responses of the \<open>todos\<close> table at which the properties of the client are
  instantiated.
\<close>

lemma sample_columns:
  "table_column_type todos_table ''title'' = Some TyText"
  "table_column_type todos_table ''completed'' = Some TyBoolean"
  "table_column_type todos_table ''deleted'' = Some TyBoolean"
  "LIVENESS_COLUMN = ''deleted''"
  "synchronized_columns todos_table =
     [\<lparr>cname = ''title'', cty = TyText\<rparr>, \<lparr>cname = ''completed'', cty = TyBoolean\<rparr>,
      \<lparr>cname = ''deleted'', cty = TyBoolean\<rparr>]"
  by code_simp+

lemma sample_ids [simp]:
  "identifier_ok ''phone''" "identifier_ok ''b''" "identifier_ok ''scope''" "identifier_ok SERVER_DEVICE_ID"
  "identifier_ok ''a''" "''phone'' \<noteq> SERVER_DEVICE_ID" "SERVER_DEVICE_ID \<noteq> ''phone''"
  by code_simp+

lemma sample_ids_ok:
  "validate_identifier f ''a'' = Inr ()" "validate_identifier f ''phone'' = Inr ()" "validate_identifier f ''scope'' = Inr ()"
  by simp_all

definition sample_db :: client_db where
  "sample_db = fst (client_insert sample_env todos_table ''a'' [(''title'', VText ''x'')] (client_db_new ''phone''))"

lemmas sample_eval =
  client_insert_def client_set_def run_tx_def crdt_to_sqlite_def insert_row_def client_db_new_def
  after_insert_def tick_def i64_MAX_def default_row_def default_value_def capture_statement_def
  capture_text_def validate_column_def reject_liveness_column_def sample_columns sample_ids_ok limits

lemma sample_insert:
  "client_insert sample_env todos_table ''a'' [(''title'', VText ''x'')] (client_db_new ''phone'') = (sample_db, Inr ())"
  by (simp add: sample_db_def sample_eval Let_def del: validate_identifier_ok)

lemma sample_reach: "client_reach sample_env todos_table ''phone'' sample_db"
  unfolding sample_db_def by (rule client_reach.step [OF client_reach.fresh client_step.insert])

lemma sample_new_good: "client_good sample_env todos_table (client_db_new ''phone'')"
  by (rule client_good_new) simp_all

lemma sample_good: "client_good sample_env todos_table sample_db"
proof -
  have "step_ok sample_env todos_table (client_db_new ''phone'') sample_db"
    unfolding sample_db_def by (intro insert_step sample_new_good valid_todos_table todos_reals)
  then show ?thesis by (simp add: step_ok_def)
qed

lemmas sample_new = sample_new_good [unfolded client_good_def, THEN conjunct1] sample_new_good [unfolded client_good_def, THEN conjunct2]
lemmas sample_inv = sample_good [unfolded client_good_def, THEN conjunct1] sample_good [unfolded client_good_def, THEN conjunct2]

lemma sample_set: "\<exists>db'. client_set sample_env todos_table ''a'' ''title'' (VText ''y'') sample_db = (db', Inr ())"
  by (simp add: sample_db_def sample_eval update_one_def update_column_def ensure_one_row_def is_deleted_def Let_def
      del: validate_identifier_ok validate_column_Inr)



theorem read_your_writes_witness:
  "\<exists>db'. client_set sample_env todos_table ''a'' ''title'' (VText ''y'') sample_db = (db', Inr ()) \<and>
     (\<exists>v. client_get_cell sample_env todos_table ''a'' ''title'' db' = Inr (Some v) \<and> value_eq v (VText ''y''))"
proof -
  obtain db' where set: "client_set sample_env todos_table ''a'' ''title'' (VText ''y'') sample_db = (db', Inr ())"
    using sample_set by blast
  have "bt_get (d_log db') (''a'', ''title'') \<noteq> None"
    using set by (auto simp add: sample_db_def sample_eval update_one_def update_column_def ensure_one_row_def
        is_deleted_def Let_def simp del: validate_identifier_ok validate_column_Inr)
  from read_your_writes [OF sample_inv(1) todos_reals set this] set show ?thesis by blast
qed

subsection \<open>A request and a response\<close>

definition sample_cell :: crdt_column where
  "sample_cell = \<lparr>cvalue = VText ''z'', cmeta = ColumnMetadata 5 ''b''\<rparr>"

definition sample_response :: sync_payload where
  "sample_response = (sync_payload_empty SERVER_DEVICE_ID 7 todos_table)
     \<lparr>changes := [\<lparr>todo_id = ''b'', row_columns = [(''title'', sample_cell)]\<rparr>]\<rparr>"

definition sample_sent :: sync_payload where
  "sample_sent = sync_payload_empty ''phone'' 1 todos_table"

lemma sample_response_cells: "payload_cells sample_response = [((''b'', ''title''), sample_cell)]"
  by (simp add: payload_cells_def sample_response_def row_cells_def)

lemma sample_response_ok: "server_response_ok todos_table sample_response"
  unfolding server_response_ok_def payload_ok_def sample_response_cells
  by (simp add: sample_response_def sync_payload_empty_def sample_cell_def cell_ok_def value_ok_def meta_ok_def
      clock_ok_def sample_columns limits)

lemma sample_sent_cells: "payload_cells sample_sent = []"
  by (simp add: payload_cells_def sample_sent_def sync_payload_empty_def)

lemma sample_sent_ok: "client_request_ok todos_table ''phone'' sample_sent"
  unfolding client_request_ok_def payload_ok_def sample_sent_cells
  by (simp add: sample_sent_def sync_payload_empty_def clock_ok_def limits)

lemma sample_apply:
  assumes "client_inv sample_env todos_table db" "d_lamport db \<le> 1" "bt_get (d_log db) (''b'', ''title'') = None"
  shows "\<exists>db'. apply_remote_payload sample_env todos_table sample_response db = Inr db'"
proof -
  have "observed db sample_response < i64_MAX"
    using assms(2) by (simp add: observed_def sample_response_def sync_payload_empty_def i64_MAX_def)
  moreover have "lww.run (payload_cells sample_response) (log_view sample_env todos_table db) =
      Inr ((log_view sample_env todos_table db)((''b'', ''title'') \<mapsto> sample_cell))"
    unfolding sample_response_cells using assms(3) by (simp add: lww.put_def log_view_def lww_apply_def)
  ultimately have "is_ok (rbind (apply_remote_payload sample_env todos_table sample_response db)
      (\<lambda>db'. Inr (log_view sample_env todos_table db')))"
    unfolding apply_remote_refines [OF assms(1) sample_response_ok valid_todos_table todos_reals] by simp
  then show ?thesis by auto
qed

theorem apply_remote_refinement_witness:
  "\<exists>db'. apply_remote_payload sample_env todos_table sample_response (client_db_new ''phone'') = Inr db' \<and>
     client_inv sample_env todos_table db' \<and> d_lamport db' = 8"
proof -
  obtain db' where db': "apply_remote_payload sample_env todos_table sample_response (client_db_new ''phone'') = Inr db'"
    using sample_apply [OF sample_new(1)] by (auto simp: client_db_new_def)
  from apply_remote_refinement [OF sample_new(1) sample_response_ok valid_todos_table todos_reals] db'
  have "client_inv sample_env todos_table db'" "d_lamport db' = observed (client_db_new ''phone'') sample_response + 1"
    by blast+
  with db' show ?thesis by (simp add: observed_def client_db_new_def sample_response_def sync_payload_empty_def)
qed

lemma sample_db_sel: "d_device sample_db = ''phone''" "d_lamport sample_db = 1" "d_evictions sample_db = []"
  "bt_get (d_log sample_db) (''b'', ''title'') = None"
  "bt_get (d_log sample_db) (''a'', ''title'') =
     Some \<lparr>lg_value = ''x'', lg_clock = 1, lg_device = ''phone'', lg_dirty = True\<rparr>"
  by (simp_all add: sample_db_def sample_eval Let_def del: validate_identifier_ok validate_column_Inr)

lemma sample_unreleased: "\<not> released rej es sample_db row"
  by (simp add: released_def is_pending_def sample_db_sel)

theorem acknowledge_precise_witness:
  "\<exists>db'. acknowledge_with_response todos_table sample_sent sample_response sample_db = Inr db' \<and>
     bt_get (d_log db') (''a'', ''title'') = bt_get (d_log sample_db) (''a'', ''title'')"
proof -
  note ack = acknowledge_precise [OF sample_inv(1), of sample_sent sample_response]
  have "is_ok (acknowledge_with_response todos_table sample_sent sample_response sample_db)"
    using ack sample_response_ok sample_sent_ok by (simp add: sample_db_sel)
  then obtain db' where db': "acknowledge_with_response todos_table sample_sent sample_response sample_db = Inr db'"
    by (auto simp: is_ok_iff)
  with ack have "bt_get (d_log db') (''a'', ''title'') =
      map_option (settle (rejected_versions sample_response) (payload_cells sample_sent) (''a'', ''title''))
        (bt_get (d_log sample_db) (''a'', ''title''))"
    by (simp add: sample_unreleased)
  with db' show ?thesis by (simp add: sample_db_sel settle_def acked_def sample_sent_cells)
qed

theorem local_delta_exact_witness: "is_ok (get_local_delta sample_env todos_table (client_db_new ''phone''))"
proof -
  have "dirty_keys (client_db_new ''phone'') = {}" by (simp add: dirty_keys_def client_db_new_def)
  with local_delta_exact [OF sample_new(1)] show ?thesis by simp
qed

theorem complete_sync_no_lost_write_witness:
  "\<exists>db'. complete_sync sample_env todos_table sample_sent sample_response sample_db = (db', Inr ()) \<and>
     bt_get (d_log db') (''a'', ''title'') \<noteq> None"
proof -
  obtain db1 where ack: "acknowledge_cells (rejected_versions sample_response) sample_sent sample_db = Inr db1"
    using acknowledge_cells_total [OF sample_sent_ok] by blast
  note spec = acknowledge_cells_spec [OF sample_sent_ok sample_inv(1) ack]
  have "bt_get (d_log db1) (''b'', ''title'') = None" by (simp add: spec(3) sample_db_sel)
  then obtain db' where app: "apply_remote_payload sample_env todos_table sample_response db1 = Inr db'"
    using sample_apply [OF spec(1)] by (auto simp: spec(5) sample_db_sel)
  have run: "complete_sync sample_env todos_table sample_sent sample_response sample_db = (db', Inr ())"
    using ack app sample_response_ok sample_sent_ok by (simp add: complete_sync_Inr acknowledge_response_Inr sample_db_sel)
  from complete_sync_no_lost_write [OF sample_inv(1) valid_todos_table todos_reals run]
  have "bt_get (d_log db') (''a'', ''title'') \<noteq> None"
    using sample_db_sel(5) by (simp add: acked_def sample_sent_cells) (metis log_cell.select_convs(4) not_None_eq)
  with run show ?thesis by blast
qed

subsection \<open>Scopes\<close>

definition sample_interest :: replica_interest where
  "sample_interest = \<lparr>predicates = [], interest_limit = 10\<rparr>"

definition sample_snapshot :: partial_replica_response where
  "sample_snapshot = \<lparr>rs_scope_id = ''scope'', rs_scope_version = 1, rs_member_ids = [''b''],
     rs_evicted_row_ids = [], rs_sync = sample_response\<rparr>"

definition sample_requested :: client_db where
  "sample_requested = (client_db_new ''phone'')\<lparr>d_scopes := [(''scope'', (1, True))]\<rparr>"

lemma sample_requested_inv: "client_inv sample_env todos_table sample_requested" "scopes_inv sample_requested"
  using sample_new by (simp_all add: sample_requested_def client_inv_scopes scopes_inv_def i64_MAX_def)

lemma sample_delta:
  assumes "client_inv sample_env todos_table db" "d_log db = []"
  shows "\<exists>p. get_local_delta sample_env todos_table db = Inr p \<and> client_request_ok todos_table (d_device db) p \<and> payload_cells p = []"
proof -
  have none: "dirty_keys db = {}" "dirty_cells sample_env todos_table db = []"
    using assms(2) by (simp_all add: dirty_keys_def dirty_cells_def)
  then have "client_request_ok todos_table (d_device db) (delta_payload sample_env todos_table db)"
    by (simp add: delta_request_ok [OF assms(1)])
  then show ?thesis
    unfolding get_local_delta_eq [OF assms(1)]
    by (simp add: validate_client_request_iff [where u = "()", symmetric] payload_cells_def delta_payload_def none rows_of_def)
qed

lemma sample_request:
  assumes "client_good sample_env todos_table db" "d_log db = []" "d_members db = []" "scope_version db ''scope'' < 5"
  shows "\<exists>db' rq. client_partial_request sample_env todos_table ''scope'' sample_interest db = (db', Inr rq) \<and>
     d_log db' = [] \<and> d_members db' = [] \<and> scope_version db' ''scope'' = scope_version db ''scope'' + 1"
proof -
  let ?v = "scope_version db ''scope'' + 1"
  let ?db = "db\<lparr>d_scopes := bt_insert ''scope'' (?v, True) (d_scopes db)\<rparr>"
  have v: "next_scope_version ''scope'' db = Inr ?v" "0 < ?v" "?v < 6"
    using assms(4) scope_version_nonneg [of db "''scope''"] assms(1)
    by (simp_all add: next_scope_version_Inr i64_MAX_def client_good_def)
  have "client_inv sample_env todos_table ?db" using assms(1) by (simp add: client_inv_scopes client_good_def)
  with sample_delta [of ?db] assms(2) obtain p where p: "get_local_delta sample_env todos_table ?db = Inr p"
    "client_request_ok todos_table (d_device db) p" by auto
  have int: "interest_ok todos_table sample_interest" by (simp add: interest_ok_def sample_interest_def)
  have ver: "scope_version_ok (word_of_int ?v)"
    using v(2,3) unat_clock [of ?v] by (simp add: scope_version_ok_def i64_MAX_def del: of_nat_unat)
  have dev: "source_device_id p = d_device db" using p(2) by (simp add: client_request_ok_def)
  have ok: "request_ok todos_table (d_device db) \<lparr>rq_scope_id = ''scope'', rq_scope_version = word_of_int ?v,
      rq_interest = sample_interest, rq_known_member_ids = scope_member_ids ''scope'' ?db, rq_sync = p\<rparr>"
    using p(2) int ver assms(3) by (simp add: request_ok_def member_ids_ok_def scope_member_ids_def)
  have "is_ok (get_partial_replica_request sample_env todos_table ''scope'' sample_interest db)"
    using v(1,2) p(1) int
    by (simp add: get_partial_replica_request_def clock_from_i64_ok Let_def dev
        ok [folded request_validate_iff, simplified] del: validate_scope_version_ok)
  then obtain db' rq where rq: "get_partial_replica_request sample_env todos_table ''scope'' sample_interest db = Inr (db', rq)"
    by (auto simp: is_ok_iff)
  obtain w where "db' = db\<lparr>d_scopes := bt_insert ''scope'' (w, True) (d_scopes db)\<rparr>"
    using partial_request_Inr [OF rq] by metis
  then show ?thesis
    using rq partial_request_step(2) [OF assms(1) rq] assms(2,3) by (simp add: client_partial_request_def run_tx_def)
qed

theorem superseded_response_rejected_witness:
  "\<exists>db1 db2 rq rq' e. client_partial_request sample_env todos_table ''scope'' sample_interest (client_db_new ''phone'') = (db1, Inr rq) \<and>
     client_partial_request sample_env todos_table ''scope'' sample_interest db1 = (db2, Inr rq') \<and>
     complete_partial_replica_sync sample_env todos_table rq sample_snapshot db2 = (db2, Inl e)"
proof -
  let ?new = "client_db_new ''phone''"
  have new: "d_log ?new = []" "d_members ?new = []" "scope_version ?new ''scope'' = 0"
    by (simp_all add: client_db_new_def scope_version_def)
  obtain db1 rq where one: "client_partial_request sample_env todos_table ''scope'' sample_interest ?new = (db1, Inr rq)"
    "d_log db1 = []" "d_members db1 = []" "scope_version db1 ''scope'' = 1"
    using sample_request [OF sample_new_good] new by auto
  have "get_partial_replica_request sample_env todos_table ''scope'' sample_interest ?new = Inr (db1, rq)"
    using one(1) by (simp add: client_partial_request_def run_tx_Inr)
  then have "client_good sample_env todos_table db1"
    using partial_request_step(1) [OF sample_new_good] by (simp add: step_ok_def)
  then obtain db2 rq' where two: "client_partial_request sample_env todos_table ''scope'' sample_interest db1 = (db2, Inr rq')"
    using sample_request [of db1] one by auto
  from superseded_response_rejected [OF sample_new valid_todos_table todos_reals one(1) rtranclp.rtrancl_refl
      disjI1 [OF two] rtranclp.rtrancl_refl] one two
  show ?thesis by blast
qed

lemma sample_snapshot_ok: "response_ok todos_table sample_snapshot"
  using sample_response_ok
  by (simp add: response_ok_def sample_snapshot_def scope_version_ok_def member_ids_ok_def)
    (simp add: sample_response_def)


end
