(* ===== verification/Sync_Samples.thy ===== *)
theory Sync_Samples
  imports Sync_Live Sample_Runs Client_Samples
begin

section \<open>Concrete runs of a client against a server\<close>

text \<open>
  The device \<open>a\<close> writes one cell to the server; the device \<open>phone\<close> inserts a row and synchronizes.
\<close>

lemma sample_server:
  obtains s r where "merge_with_security sample_len (sample_request ''a'') ''a'' open_security sample_start = (s, Inr r)"
    "unat (global_lamport s) = 2" "state_inv s" "last_write s \<le> 1" "bt_get (cells s) (''r1'', ''title'') \<noteq> None"
proof -
  obtain s r where m: "merge_with_security sample_len (sample_request ''a'') ''a'' open_security sample_start = (s, Inr r)"
    "unat (global_lamport s) = 2" by (rule sample_first)
  then have mi: "merge_inner sample_len (sample_request ''a'') ''a'' open_security sample_start = Inr (s, r)"
    by (simp add: merge_with_security_Inr)
  note spec = merge_inner_spec [OF mi sample_invariant sample_head]
  have "last_write s \<le> 1" using spec(4) by (simp add: sample_cells last_write_def crdt_state_new_def)
  moreover have "bt_get (cells s) (''r1'', ''title'') \<noteq> None"
    using lww.run_delivered [OF spec(5)] by (fastforce simp: sample_cells)
  ultimately show thesis using that m spec(1) by blast
qed

lemma sample_world:
  assumes "merge_with_security sample_len (sample_request ''a'') ''a'' open_security sample_start = (s, r)"
  shows "reference_world sample_len sample_env todos_table ''phone'' (client_db_new ''phone'') s {}"
    "reference_world sample_len sample_env todos_table ''phone'' sample_db s {}"
proof -
  let ?merge = "\<lambda>p d sec. merge_with_security sample_len p d sec" and ?room = "\<lambda>n. headroom (20000 * n)"
  have head: "headroom (20000 * 1) sample_start" using sample_head by simp
  have fresh: "world ?merge (\<lambda>s s'. s' = s) ?room sample_env todos_table ''phone'' sample_start (client_db_new ''phone'') sample_start {}"
    by (rule w_fresh)
  have "world ?merge (\<lambda>s s'. s' = s) ?room sample_env todos_table ''phone'' sample_start sample_db sample_start {}"
    unfolding sample_db_def by (rule w_write [OF fresh w_insert])
  from w_other [OF this _ head assms] w_other [OF fresh _ head assms]
  show "reference_world sample_len sample_env todos_table ''phone'' (client_db_new ''phone'') s {}"
    "reference_world sample_len sample_env todos_table ''phone'' sample_db s {}"
    by (simp_all add: reference_world_def)
qed

lemma sample_dirty: "dirty_keys (client_db_new ''phone'') = {}"
  "dirty_keys sample_db \<subseteq> {(''a'', ''title''), (''a'', ''completed''), (''a'', ''deleted'')}"
proof -
  show "dirty_keys (client_db_new ''phone'') = {}" by (simp add: dirty_keys_def client_db_new_def)
  show "dirty_keys sample_db \<subseteq> {(''a'', ''title''), (''a'', ''completed''), (''a'', ''deleted'')}"
    by (auto simp: dirty_keys_def sample_db_def sample_eval Let_def split: if_splits
        simp del: validate_identifier_ok validate_column_Inr)
qed

lemma sample_len_total: "\<forall>c. \<exists>n. sample_len c = Inr n"
  by (simp add: sample_len_def)

lemma sample_dirty_card: "card (dirty_keys sample_db) \<le> 3" "card (fst ` dirty_keys sample_db) \<le> 3"
proof -
  show le: "card (dirty_keys sample_db) \<le> 3" using card_mono [OF _ sample_dirty(2)] by simp
  have "finite (dirty_keys sample_db)" using sample_dirty(2) finite_subset by blast
  then show "card (fst ` dirty_keys sample_db) \<le> 3" using card_image_le le order.trans by blast
qed


lemma sample_pull:
  assumes m: "merge_with_security sample_len (sample_request ''a'') ''a'' open_security sample_start = (s, Inr r)"
    and s: "unat (global_lamport s) = 2" "state_inv s" "last_write s \<le> 1"
  shows "\<exists>db' s' resp.
    sync_until_caught_up sample_env todos_table (\<lambda>p. merge_with_security sample_len p ''phone'' open_security)
      (client_db_new ''phone'', s) = ((db', s'), Inr resp) \<and> rejections resp = [] \<and> grown s s'"
proof -
  let ?db = "client_db_new ''phone''"
  have tr: "tracks sample_env todos_table ''phone'' ?db s"
    by (rule reference_world_tracks [OF sample_world(1) [OF m] valid_todos_table todos_reals]) simp_all
  have head: "headroom 20000 s" using s(3) by (simp add: headroom_def)
  have clk: "d_lamport ?db \<le> int (unat (global_lamport s)) + 1000000" "unat (global_lamport s) < 2 ^ 63 - 1000002"
    using s(1) by (simp_all add: client_db_new_def del: of_nat_unat)
  have none: "card (dirty_keys ?db) \<le> 20000" "card (fst ` dirty_keys ?db) \<le> 10000" by (simp_all add: sample_dirty(1))
  obtain p resp db' s' where round: "get_local_delta sample_env todos_table ?db = Inr p"
    "merge_with_security sample_len p ''phone'' open_security s = (s', Inr resp)"
    "complete_sync sample_env todos_table p resp ?db = (db', Inr ())" "rejections resp = []"
    using round_total [OF tr valid_todos_table todos_reals head none clk sample_len_total] by blast
  have "set (payload_cells p) = {}" using delta_in_log [OF sample_new(1) round(1)] sample_dirty(1) by simp
  then have "payload_cells p = []" by simp
  moreover have mi: "merge_inner sample_len p ''phone'' open_security s = Inr (s', resp)"
    using round(2) by (simp add: merge_with_security_Inr)
  moreover note spec = merge_inner_spec [OF mi s(2) head]
  ultimately have "last_write s' \<le> 1" using s(3) by simp
  moreover have "cursor p = 0"
    by (simp add: local_delta_Inr(1) [OF sample_new(1) round(1)] local_cursor_def client_db_new_def)
  ultimately have "\<not> has_more resp" using spec(7) by (auto simp: page_of_def effective_cursor_def)
  moreover have "client_local_delta sample_env todos_table ?db = (?db, Inr p)"
    using round(1) by (simp add: client_local_delta_def run_tx_def)
  ultimately have "sync_pages (Suc 99) sample_env todos_table (\<lambda>p. merge_with_security sample_len p ''phone'' open_security)
      (?db, s) = ((db', s'), Inr resp)"
    using round(2,3) by (simp only: sync_pages.simps) (simp add: sync_with_def)
  then show ?thesis
    using round(4) grown_merge [OF mi s(2) head] by (simp add: sync_until_caught_up_def MAX_SYNC_PAGES_PER_CALL_def)
qed

theorem sync_converges_witness:
  "\<exists>db' s s' resp.
    sync_until_caught_up sample_env todos_table (\<lambda>p. merge_with_security sample_len p ''phone'' open_security)
      (client_db_new ''phone'', s) = ((db', s'), Inr resp) \<and>
    bt_get (cells s') (''r1'', ''title'') \<noteq> None \<and>
    (\<forall>k. rel_option agree (log_view sample_env todos_table db' k) (bt_get (cells s') k))"
proof -
  obtain s r where m: "merge_with_security sample_len (sample_request ''a'') ''a'' open_security sample_start = (s, Inr r)"
    "unat (global_lamport s) = 2" "state_inv s" "last_write s \<le> 1" "bt_get (cells s) (''r1'', ''title'') \<noteq> None"
    by (rule sample_server)
  obtain db' s' resp where run: "sync_until_caught_up sample_env todos_table
      (\<lambda>p. merge_with_security sample_len p ''phone'' open_security) (client_db_new ''phone'', s) = ((db', s'), Inr resp)"
    "rejections resp = []" "grown s s'"
    using sample_pull [OF m(1-4)] by blast
  have "\<forall>k. rel_option agree (log_view sample_env todos_table db' k) (bt_get (cells s') k)"
    using sync_converges [OF valid_todos_table todos_reals _ _ sample_world(1) [OF m(1)] _ run(1)] run(2) m(4)
    by (simp add: headroom_def)
  moreover have "bt_get (cells s') (''r1'', ''title'') \<noteq> None" using run(3) m(5) unfolding grown_def by blast
  ultimately show ?thesis using run(1) by blast
qed

end
