(* ===== verification/Pg_Samples.thy ===== *)
theory Pg_Samples
  imports Pg_Live Sync_Samples
begin

section \<open>Concrete runs of the PostgreSQL server\<close>

text \<open>
  The tenant \<open>t1\<close> with the table \<open>todos\<close>: the device \<open>a\<close> sends one cell, under the default policy, which
  stores and audits it, or under a policy that denies every write.
\<close>

definition sample_pg :: pg_env where
  "sample_pg = \<lparr>pg_uuid = (\<lambda>_. ''u''), pg_json_len = (\<lambda>_. Inr 64), pg_order_by = sort, pg_bypass = False\<rparr>"

definition locked :: sync_security where
  "locked = sync_security_new (column_allow_list_authorizer \<lparr>writable_columns = {}\<rparr>) noop_validator Database"

lemma sample_deployed: "deployed sample_pg [todos_table]"
proof -
  have "identifier_ok ''u''" by code_simp
  then show ?thesis using valid_todos_table by (simp add: deployed_def uuids_ok_def sample_pg_def)
qed

lemma sample_orders: "orders_rows sample_pg"
  by (simp add: orders_rows_def sample_pg_def)

lemma pg_sample_names [simp]: "identifier_ok ''t1''" "identifier_ok ''e''" "identifier_ok ''title''" "identifier_ok (tname todos_table)"
  by code_simp+

lemma pg_sample_reach: "pg_reach sample_pg [todos_table] (pg_db_new ''e'', 0)"
  by (rule reach_new) simp

lemma sample_valid: "validate_client_request (sample_request ''a'') ''a'' todos_table = Inr ()"
  by (simp add: validate_client_request_iff sample_request_ok)

lemma sample_observed: "max_observed_clock (sample_request ''a'') = 1"
  using sample_request_ok [of "''a''"] by (subst max_observed_clock_eq) (auto simp: client_request_ok_def sample_request_def)

lemma sample_changes: "changes (sample_request ''a'') =
    [\<lparr>todo_id = ''r1'', row_columns = [(''title'', \<lparr>cvalue = VText ''a'', cmeta = ColumnMetadata 1 ''a''\<rparr>)]\<rparr>]"
  "cursor (sample_request ''a'') = 0"
  by (simp_all add: sample_request_def)

text \<open>A request of one cell: when the cell is merged, so is the request.\<close>

lemma pg_sample_total:
  assumes "pg_merge_cell security (pg_context ''t1'' ''a'' todos_table) todos_table ''r1''
      (''title'', \<lparr>cvalue = VText ''a'', cmeta = ColumnMetadata 1 ''a''\<rparr>)
      (pg_ensure_row todos_table ''t1'' ''r1'' (db\<lparr>pg_clocks := (pg_clocks db)(''t1'' \<mapsto> tenant_clock ''t1'' db)\<rparr>), []) = Inr (db1, rjs)"
    and "0 \<le> tenant_clock ''t1'' db" "tenant_clock ''t1'' db < i64_MAX"
    and "\<forall>e\<in>set (pg_log db1 (crdt_table todos_table, ''t1'')). 0 \<le> pc_clock (snd e)"
  shows "\<exists>db' resp. merge_crdt_states_with_security sample_pg now (sample_request ''a'') ''a'' ''t1'' todos_table security db = Inr (db', resp) \<and>
    pg_app db' = pg_app db1 \<and> pg_log db' = pg_log db1 \<and> pg_seq db' = pg_seq db1"
proof -
  have "\<exists>w. server_clock_from_i64 (tenant_clock ''t1'' db) = Inr w \<and> int (unat w) = tenant_clock ''t1'' db"
    using assms(2,3) unat_clock by (simp add: server_clock_from_ok del: of_nat_unat)
  then obtain w where w: "server_clock_from_i64 (tenant_clock ''t1'' db) = Inr w" "int (unat w) = tenant_clock ''t1'' db" by blast
  have "\<exists>clock c. checked_add_u64 (max w 1) 1 = Some clock \<and> server_clock_to_i64 clock = Inr c"
  proof -
    have m: "int (unat (max w 1)) < i64_MAX"
      using w(2) assms(3) by (auto simp: max_def i64_MAX_def simp del: of_nat_unat)
    then have "unat (max w 1) < 2 ^ 63 - 1" by (simp add: i64_MAX_def del: of_nat_unat)
    then have add: "checked_add_u64 (max w 1) 1 = Some (max w 1 + 1)" by (simp add: checked_add_u64_def)
    from m checked_add_u64_Some [OF add] have "int (unat (max w 1 + 1)) \<le> i64_MAX" by (simp del: of_nat_unat)
    with add show ?thesis by (simp add: server_clock_to_Inr del: of_nat_unat)
  qed
  then obtain clock c where clock: "checked_add_u64 (max w 1) 1 = Some clock" "server_clock_to_i64 clock = Inr c" by blast
  have adv: "validate_clock_advance w 1 = Inr ()" by (simp add: validate_clock_advance_ok)
  obtain db' resp where br: "pg_build_response sample_pg now (sample_request ''a'') ''a'' ''t1'' todos_table clock rjs
      (db1\<lparr>pg_clocks := (pg_clocks db1)(''t1'' \<mapsto> c)\<rparr>) = Inr (db', resp)"
  proof -
    have "\<forall>v. \<exists>n. pg_json_len sample_pg v = Inr n" by (simp add: sample_pg_def)
    then show thesis
      using that pg_build_response_total [of "db1\<lparr>pg_clocks := (pg_clocks db1)(''t1'' \<mapsto> c)\<rparr>" todos_table "''t1''" sample_pg] assms(4)
      by fastforce
  qed
  have "merge_crdt_states_with_security sample_pg now (sample_request ''a'') ''a'' ''t1'' todos_table security db = Inr (db', resp)"
    using br assms(1) unfolding merge_crdt_states_with_security_def tenant_clock_def [symmetric]
    by (simp add: sample_valid sample_observed sample_changes w(1) adv clock Let_def pg_merge_row_def pg_context_def)
  moreover have "pg_app db' = pg_app db1 \<and> pg_log db' = pg_log db1 \<and> pg_seq db' = pg_seq db1"
    by (rule pg_build_response_Inr [OF br]) (use tenant_leases_issue(4,5,8) in auto)
  ultimately show ?thesis by blast
qed

lemma pg_new_sel [simp]:
  "pg_clocks (pg_db_new e) = (\<lambda>_. None)" "pg_app (pg_db_new e) = (\<lambda>_. [])" "pg_log (pg_db_new e) = (\<lambda>_. [])"
  "pg_leases (pg_db_new e) = []" "pg_epoch (pg_db_new e) = e" "pg_audits (pg_db_new e) = []" "pg_seq (pg_db_new e) = 0"
  by (simp_all add: pg_db_new_def)

lemma sample_summary:
  "reason_ok (summary (explain_lww None \<lparr>cvalue = VText ''a'', cmeta = ColumnMetadata 1 ''a''\<rparr>))"
  "CHR 0x00 \<notin> set (summary (explain_lww None \<lparr>cvalue = VText ''a'', cmeta = ColumnMetadata 1 ''a''\<rparr>))"
  by code_simp+

lemma sample_reason:
  "reason_ok ''writes to column title are not authorized''"
  "CHR 0x00 \<notin> set ''writes to column title are not authorized''"
  by code_simp+

lemmas pg_cell_eval =
  pg_merge_cell_def pg_current_def consult_hooks_def pg_reject_def sync_rejection_new_ok
  pg_decide_def write_server_todo_column_def bind_text_def bind_json_def pg_upsert_cell_def nextval_def
  record_audit_if_enabled_def write_audit_event_def sync_audit_event_new_def mutation_of_def pg_context_def
  server_clock_to_i64_def i64_try_from_def i64_MAX_def sample_title

definition pg_sample_col :: crdt_column where
  "pg_sample_col = \<lparr>cvalue = VText ''a'', cmeta = ColumnMetadata 1 ''a''\<rparr>"

lemma pg_ensure_new:
  "pg_app (pg_ensure_row t tenant row (pg_db_new e\<lparr>pg_clocks := cl, pg_uuids := u\<rparr>)) (tname t, tenant) = [(row, pg_default_row t)]"
  by (simp add: pg_ensure_row_def Let_def)

lemma pg_sample_cell:
  "\<exists>db1 rjs. pg_merge_cell sync_security_default (pg_context ''t1'' ''a'' todos_table) todos_table ''r1'' (''title'', pg_sample_col)
      (pg_ensure_row todos_table ''t1'' ''r1'' (pg_db_new e\<lparr>pg_clocks := [''t1'' \<mapsto> 0], pg_uuids := u\<rparr>), []) = Inr (db1, rjs) \<and>
    pg_app db1 (tname todos_table, ''t1'') = [(''r1'', bt_insert ''title'' (VText ''a'') (pg_default_row todos_table))] \<and>
    pg_log db1 (crdt_table todos_table, ''t1'') =
      [((''r1'', ''title''), \<lparr>pc_value = VText ''a'', pc_clock = 1, pc_device = ''a'', pc_seq = 1\<rparr>)] \<and> pg_seq db1 = 1"
  by (simp add: pg_cell_eval pg_sample_col_def sample_summary sync_security_default_def allow_all_authorizer_def noop_validator_def
      Let_def pg_ensure_new pg_update_def)

lemma pg_sample_denied:
  "\<exists>db1 rjs. pg_merge_cell locked (pg_context ''t1'' ''a'' todos_table) todos_table ''r1'' (''title'', pg_sample_col)
      (pg_ensure_row todos_table ''t1'' ''r1'' (pg_db_new e\<lparr>pg_clocks := [''t1'' \<mapsto> 0], pg_uuids := u\<rparr>), []) = Inr (db1, rjs) \<and>
    pg_log db1 (crdt_table todos_table, ''t1'') = []"
  using sample_reason
  by (simp add: pg_cell_eval pg_sample_col_def locked_def sync_security_new_def column_allow_list_authorizer_def policy_deny_ok
      sync_rejection_new_def clock_ok_def Let_def)

lemma pg_sample_run_from:
  obtains db resp where "merge_crdt_states_with_security sample_pg 0 (sample_request ''a'') ''a'' ''t1'' todos_table
      sync_security_default (pg_db_new e\<lparr>pg_uuids := u\<rparr>) = Inr (db, resp)"
    "pg_app db (tname todos_table, ''t1'') = [(''r1'', bt_insert ''title'' (VText ''a'') (pg_default_row todos_table))]"
    "pg_log db (crdt_table todos_table, ''t1'') =
      [((''r1'', ''title''), \<lparr>pc_value = VText ''a'', pc_clock = 1, pc_device = ''a'', pc_seq = 1\<rparr>)]" "pg_seq db = 1"
proof -
  obtain db1 rjs where c: "pg_merge_cell sync_security_default (pg_context ''t1'' ''a'' todos_table) todos_table ''r1'' (''title'', pg_sample_col)
      (pg_ensure_row todos_table ''t1'' ''r1'' (pg_db_new e\<lparr>pg_clocks := [''t1'' \<mapsto> 0], pg_uuids := u\<rparr>), []) = Inr (db1, rjs)"
    "pg_app db1 (tname todos_table, ''t1'') = [(''r1'', bt_insert ''title'' (VText ''a'') (pg_default_row todos_table))]"
    "pg_log db1 (crdt_table todos_table, ''t1'') =
      [((''r1'', ''title''), \<lparr>pc_value = VText ''a'', pc_clock = 1, pc_device = ''a'', pc_seq = 1\<rparr>)]" "pg_seq db1 = 1"
    using pg_sample_cell by blast
  have "pg_db_new e\<lparr>pg_uuids := u, pg_clocks := [''t1'' \<mapsto> 0]\<rparr> = pg_db_new e\<lparr>pg_clocks := [''t1'' \<mapsto> 0], pg_uuids := u\<rparr>" by simp
  with pg_sample_total [of sync_security_default "pg_db_new e\<lparr>pg_uuids := u\<rparr>" db1 rjs 0] c that show thesis
    by (auto simp: pg_sample_col_def tenant_clock_def i64_MAX_def)
qed

lemma pg_new_uuids: "pg_db_new e\<lparr>pg_uuids := 0\<rparr> = pg_db_new e"
  by (simp add: pg_db_new_def)

lemmas pg_sample_run = pg_sample_run_from [where e = "''e''" and u = 0, unfolded pg_new_uuids]

lemma pg_sample_locked:
  obtains db resp where "merge_crdt_states_with_security sample_pg 0 (sample_request ''a'') ''a'' ''t1'' todos_table
    locked (pg_db_new ''e'') = Inr (db, resp)"
proof -
  obtain db1 rjs where c: "pg_merge_cell locked (pg_context ''t1'' ''a'' todos_table) todos_table ''r1'' (''title'', pg_sample_col)
      (pg_ensure_row todos_table ''t1'' ''r1'' (pg_db_new ''e''\<lparr>pg_clocks := [''t1'' \<mapsto> 0], pg_uuids := 0\<rparr>), []) = Inr (db1, rjs)"
    "pg_log db1 (crdt_table todos_table, ''t1'') = []" using pg_sample_denied by blast
  have "pg_db_new ''e''\<lparr>pg_clocks := [''t1'' \<mapsto> 0], pg_uuids := 0\<rparr> = pg_db_new ''e''\<lparr>pg_clocks := [''t1'' \<mapsto> 0]\<rparr>"
    by (simp add: pg_db_new_def)
  with pg_sample_total [of locked "pg_db_new ''e''" db1 rjs 0] c that show thesis
    by (auto simp: pg_sample_col_def tenant_clock_def i64_MAX_def)
qed

lemma pg_sample_after:
  assumes "merge_crdt_states_with_security sample_pg 0 (sample_request ''a'') ''a'' ''t1'' todos_table
    security (pg_db_new ''e'') = Inr (db, resp)"
  shows "pg_reach sample_pg [todos_table] (db, 0)"
  by (rule reach_step [OF pg_sample_reach p_merge [OF _ assms]]) simp

lemma pg_sample_stored:
  assumes "merge_crdt_states_with_security sample_pg 0 (sample_request ''a'') ''a'' ''t1'' todos_table
    sync_security_default (pg_db_new ''e'') = Inr (db, resp)"
  shows "pg_view todos_table ''t1'' db (''r1'', ''title'') = Some pg_sample_col"
proof -
  have "permitted sync_security_default ctx m op" for ctx m op
    by (simp add: permitted_def hook_result_def consult_hooks_def sync_security_default_def allow_all_authorizer_def noop_validator_def)
  then have "lww.run (payload_cells (sample_request ''a'')) (pg_view todos_table ''t1'' (pg_db_new ''e'')) =
      Inr (pg_view todos_table ''t1'' db)"
    using pg_merge_spec(4) [OF assms reach_tenant [OF pg_sample_reach sample_deployed]] by simp
  then have "pg_view todos_table ''t1'' db =
      (pg_view todos_table ''t1'' (pg_db_new ''e''))((''r1'', ''title'') \<mapsto> \<lparr>cvalue = VText ''a'', cmeta = ColumnMetadata 1 ''a''\<rparr>)"
    by (simp add: sample_cells lww.put_def lww_apply_def pg_view_def)
  then show ?thesis by (simp add: pg_sample_col_def)
qed

theorem application_shows_log_witness:
  "\<exists>db vals. pg_reach sample_pg [todos_table] (db, 0) \<and> bt_get (pg_app db (tname todos_table, ''t1'')) ''r1'' = Some vals \<and>
     bt_get vals ''title'' = Some (VText ''a'')"
proof -
  obtain db resp where m: "merge_crdt_states_with_security sample_pg 0 (sample_request ''a'') ''a'' ''t1'' todos_table
    sync_security_default (pg_db_new ''e'') = Inr (db, resp)" by (rule pg_sample_run)
  note reach = pg_sample_after [OF m]
  from application_shows_log [OF reach sample_deployed, of todos_table "''t1''"] pg_sample_stored [OF m] reach
  show ?thesis by (fastforce simp: shown_def pg_sample_col_def)
qed

theorem application_well_typed_witness:
  "\<exists>(db :: pg_db) vals v. bt_get (pg_app db (tname todos_table, ''t1'')) ''r1'' = Some vals \<and> bt_get vals ''title'' = Some v \<and> typed TyText v"
proof -
  obtain db resp where m: "merge_crdt_states_with_security sample_pg 0 (sample_request ''a'') ''a'' ''t1'' todos_table
    sync_security_default (pg_db_new ''e'') = Inr (db, resp)" by (rule pg_sample_run)
  have "bt_get (pg_app db (tname todos_table, ''t1'')) ''r1'' \<noteq> None"
    using merge_rows [OF m, of "''r1''"] by (simp add: sample_changes)
  then obtain vals where vals: "bt_get (pg_app db (tname todos_table, ''t1'')) ''r1'' = Some vals" by blast
  have "\<exists>v. bt_get vals ''title'' = Some v \<and> typed TyText v"
    using application_well_typed [OF pg_sample_after [OF m] sample_deployed _ vals, of "''title''"] by (simp add: sample_title)
  with vals show ?thesis by blast
qed

theorem pg_merge_refines_witness:
  "\<exists>db resp. merge_crdt_states_with_security sample_pg 0 (sample_request ''a'') ''a'' ''t1'' todos_table
     sync_security_default (pg_db_new ''e'') = Inr (db, resp) \<and> tenant_clock ''t1'' db = 2"
proof -
  obtain db resp where m: "merge_crdt_states_with_security sample_pg 0 (sample_request ''a'') ''a'' ''t1'' todos_table
    sync_security_default (pg_db_new ''e'') = Inr (db, resp)" by (rule pg_sample_run)
  from pg_merge_refines [OF pg_sample_reach sample_deployed _ m] m
  show ?thesis by (auto simp: tenant_clock_def sample_request_def)
qed

theorem tenant_isolation_witness:
  "\<exists>db resp. merge_crdt_states_with_security sample_pg 0 (sample_request ''a'') ''a'' ''t1'' todos_table
     sync_security_default (pg_db_new ''e'') = Inr (db, resp) \<and> pg_log db (crdt_table todos_table, ''t2'') = []"
proof -
  obtain db resp where m: "merge_crdt_states_with_security sample_pg 0 (sample_request ''a'') ''a'' ''t1'' todos_table
    sync_security_default (pg_db_new ''e'') = Inr (db, resp)" by (rule pg_sample_run)
  from tenant_isolation [OF pg_sample_reach sample_deployed _ m, of "''t2''"] m show ?thesis by auto
qed

theorem audit_trail_exact_witness:
  "\<exists>db resp r. merge_crdt_states_with_security sample_pg 0 (sample_request ''a'') ''a'' ''t1'' todos_table
     locked (pg_db_new ''e'') = Inr (db, resp) \<and> pg_audits db = [r] \<and> au_outcome r = ''rejected_authorization''"
proof -
  obtain db resp where m: "merge_crdt_states_with_security sample_pg 0 (sample_request ''a'') ''a'' ''t1'' todos_table
    locked (pg_db_new ''e'') = Inr (db, resp)" by (rule pg_sample_locked)
  from audit_trail_exact [OF pg_sample_reach sample_deployed _ m] m sample_reason
  show ?thesis
    by (simp add: locked_def sync_security_new_def sample_cells cell_audit_def hook_result_def consult_hooks_def
        column_allow_list_authorizer_def mutation_of_def policy_deny_ok audit_row_def rejection_audit_outcome_def)
qed

theorem cursor_capability_witness:
  "\<exists>db resp. merge_crdt_states_with_security sample_pg 0 (sample_request ''a'') ''a'' ''t1'' todos_table
     sync_security_default (pg_db_new ''e'') = Inr (db, resp) \<and> \<not> cursor_reset resp \<and> server_epoch resp = Some ''e''"
proof -
  obtain db resp where m: "merge_crdt_states_with_security sample_pg 0 (sample_request ''a'') ''a'' ''t1'' todos_table
    sync_security_default (pg_db_new ''e'') = Inr (db, resp)" by (rule pg_sample_run)
  have "pg_epoch db = ''e''"
    using pg_merge_spec(13) [OF m reach_tenant [OF pg_sample_reach sample_deployed]] by (simp add: elsewhere_def)
  with cursor_capability [OF pg_sample_reach sample_deployed _ m] m show ?thesis by (auto simp: sample_changes)
qed

theorem denied_row_blocks_scopes_witness:
  "\<exists>db resp e. merge_crdt_states_with_security sample_pg 0 (sample_request ''a'') ''a'' ''t1'' todos_table
      locked (pg_db_new ''e'') = Inr (db, resp) \<and>
    merge_partial_replica_with_security sample_pg 0 (sample_partial\<lparr>rq_sync := two_rows\<lparr>changes := []\<rparr>\<rparr>)
      ''a'' ''t1'' todos_table sync_security_default db = Inl e"
proof -
  let ?rq = "sample_partial\<lparr>rq_sync := two_rows\<lparr>changes := []\<rparr>\<rparr>"
  obtain db resp where m: "merge_crdt_states_with_security sample_pg 0 (sample_request ''a'') ''a'' ''t1'' todos_table
    locked (pg_db_new ''e'') = Inr (db, resp)" by (rule pg_sample_locked)
  have "\<not> permitted locked ctx m (((''r1'', ''title''), c))" for ctx m c
    using sample_reason
    by (simp add: permitted_def hook_result_def consult_hooks_def locked_def sync_security_new_def
        column_allow_list_authorizer_def mutation_of_def policy_deny_ok)
  then have "\<forall>(k, c)\<in>set (payload_cells (sample_request ''a'')). fst k = ''r1'' \<longrightarrow>
      \<not> permitted locked (pg_context ''t1'' ''a'' todos_table) (pg_view todos_table ''t1'' (pg_db_new ''e'')) (k, c)"
    by (simp add: sample_cells)
  moreover have "list_all (predicate_matches ''r1'' (pg_default_row todos_table)) (predicates (rq_interest ?rq))"
    by (simp add: sample_partial_def predicate_matches_def)
  moreover have "\<forall>n. pg_view todos_table ''t1'' (pg_db_new ''e'') (''r1'', n) = None" by (simp add: pg_view_def)
  ultimately show ?thesis
    using denied_row_blocks_scopes [OF pg_sample_reach sample_deployed _ sample_orders m, of "''r1''" ?rq "''a''" sync_security_default] m
    by (simp add: sample_changes)
qed

theorem pg_response_valid_witness:
  "\<exists>db resp. merge_crdt_states_with_security sample_pg 0 (sample_request ''a'') ''a'' ''t1'' todos_table
     locked (pg_db_new ''e'') = Inr (db, resp) \<and> validate_server_response resp todos_table = Inr ()"
proof -
  obtain db resp where m: "merge_crdt_states_with_security sample_pg 0 (sample_request ''a'') ''a'' ''t1'' todos_table
    locked (pg_db_new ''e'') = Inr (db, resp)" by (rule pg_sample_locked)
  from pg_response_valid [OF pg_sample_reach sample_deployed _ m] m show ?thesis by simp
qed

theorem rotation_forces_repair_witness:
  "\<exists>db1 epoch db resp. rotate_server_epoch sample_pg (pg_db_new ''e'') = (db1, epoch) \<and>
     merge_crdt_states_with_security sample_pg 0 (sample_request ''a'') ''a'' ''t1'' todos_table sync_security_default db1 =
       Inr (db, resp) \<and> server_epoch resp = Some ''u''"
proof -
  obtain db resp where m: "merge_crdt_states_with_security sample_pg 0 (sample_request ''a'') ''a'' ''t1'' todos_table
    sync_security_default (pg_db_new ''u''\<lparr>pg_uuids := 1\<rparr>) = Inr (db, resp)" by (rule pg_sample_run_from)
  have rot: "rotate_server_epoch sample_pg (pg_db_new ''e'') = (pg_db_new ''u''\<lparr>pg_uuids := 1\<rparr>, ''u'')"
    by (simp add: rotate_server_epoch_def Let_def sample_pg_def pg_db_new_def)
  have "\<not> protocol_version (sample_request ''a'') < 4" "tenant_leases todos_table ''t1'' (pg_db_new ''e'') = []"
    by (simp_all add: sample_request_def tenant_leases_def)
  with rotation_forces_repair [OF pg_sample_reach sample_deployed _ rot m] rot m show ?thesis by auto
qed

subsection \<open>A client\<close>

lemma sample_json: "\<forall>v. \<exists>n. pg_json_len sample_pg v = Inr n"
  by (simp add: sample_pg_def)

lemma pg_world_other:
  assumes "pg_world env ts t tenant cenv device s0 db s M" "other \<noteq> device"
    and "pg_serve env t tenant p other security s = (s', r)"
  shows "pg_world env ts t tenant cenv device s0 db s' M"
  using w_other [where merge = "pg_serve env t tenant" and room = "\<lambda>_ _. True"] assms unfolding pg_world_def by blast

text \<open>The device \<open>a\<close> writes to the tenant, then \<open>phone\<close> joins.\<close>

lemma pg_sample_world:
  assumes "merge_crdt_states_with_security sample_pg 0 (sample_request ''a'') ''a'' ''t1'' todos_table
    sync_security_default (pg_db_new ''e'') = Inr (db, resp)"
  shows "pg_world sample_pg [todos_table] todos_table ''t1'' sample_env ''phone'' (pg_db_new ''e'', 0)
      (client_db_new ''phone'') (db, 0) {}"
    "pg_world sample_pg [todos_table] todos_table ''t1'' sample_env ''phone'' (pg_db_new ''e'', 0) sample_db (db, 0) {}"
proof -
  have m: "pg_serve sample_pg todos_table ''t1'' (sample_request ''a'') ''a'' sync_security_default (pg_db_new ''e'', 0) =
      ((db, 0), Inr resp)"
    using assms by (simp add: pg_serve_Inr)
  have fresh: "pg_world sample_pg [todos_table] todos_table ''t1'' sample_env ''phone'' (pg_db_new ''e'', 0)
      (client_db_new ''phone'') (pg_db_new ''e'', 0) {}"
    unfolding pg_world_def by (rule w_fresh)
  then show first: "pg_world sample_pg [todos_table] todos_table ''t1'' sample_env ''phone'' (pg_db_new ''e'', 0)
      (client_db_new ''phone'') (db, 0) {}"
    by (rule pg_world_other [OF _ _ m]) simp
  then show "pg_world sample_pg [todos_table] todos_table ''t1'' sample_env ''phone'' (pg_db_new ''e'', 0) sample_db (db, 0) {}"
    unfolding pg_world_def sample_db_def by (rule w_write [OF _ w_insert])
qed

lemma pg_sample_numbers:
  assumes "merge_crdt_states_with_security sample_pg 0 (sample_request ''a'') ''a'' ''t1'' todos_table
    sync_security_default (pg_db_new ''e'') = Inr (db, resp)"
  shows "tenant_clock ''t1'' db = 2"
  using pg_merge_spec(3) [OF assms reach_tenant [OF pg_sample_reach sample_deployed]]
  by (simp add: tenant_clock_def sample_request_def)

lemma sample_no_zero:
  assumes "k \<in> dirty_keys sample_db" "log_view sample_env todos_table sample_db k = Some b"
  shows "no_zero (cvalue b)"
proof -
  have log: "log_inv sample_env todos_table sample_db" using sample_inv(1) by (simp add: client_inv_def)
  obtain l where l: "bt_get (d_log sample_db) k = Some l" using assms(2) by (auto simp: log_view_def split: option.splits)
  have ok: "value_ok todos_table (snd k) (cvalue b)" by (rule log_view_Some [OF log l]) (use assms(2) in simp)
  consider "k = (''a'', ''title'')" | "snd k = ''completed''" | "snd k = ''deleted''" using sample_dirty(2) assms(1) by auto
  then show ?thesis
  proof cases
    case 1
    then show ?thesis
      using assms(2) by (auto simp: log_view_def sample_db_sel decode_log_cell_def decode_sqlite_value_def clock_from_i64_def
          u64_try_from_def sample_columns no_zero_def)
  qed (use ok in \<open>auto simp: value_ok_def sample_columns no_zero_def\<close>)
qed


text \<open>A request without cells leaves the log alone.\<close>

lemma pg_merge_nothing:
  assumes "merge_crdt_states_with_security env now p device tenant t security db = Inr (db', resp)" "payload_cells p = []"
  shows "pg_log db' = pg_log db"
proof -
  obtain db1 rjs clock c where "foldM (pg_merge_op security (pg_context tenant device t) t) (payload_cells p)
      (db\<lparr>pg_clocks := (pg_clocks db)(tenant \<mapsto> tenant_clock tenant db)\<rparr>, []) = Inr (db1, rjs)"
    and br: "pg_build_response env now p device tenant t clock rjs (db1\<lparr>pg_clocks := (pg_clocks db1)(tenant \<mapsto> c)\<rparr>) = Inr (db', resp)"
    using pg_merge_steps [OF assms(1)] by metis
  then have db1: "db1 = db\<lparr>pg_clocks := (pg_clocks db)(tenant \<mapsto> tenant_clock tenant db)\<rparr>" using assms(2) by simp
  have "pg_log db' = pg_log (db1\<lparr>pg_clocks := (pg_clocks db1)(tenant \<mapsto> c)\<rparr>)"
    by (rule pg_build_response_Inr [OF br]) (rule tenant_leases_issue(5))
  then show ?thesis by (simp add: db1)
qed

lemma pg_sample_pull:
  assumes m: "merge_crdt_states_with_security sample_pg 0 (sample_request ''a'') ''a'' ''t1'' todos_table
      sync_security_default (pg_db_new ''e'') = Inr (db, resp)" "pg_seq db = 1"
    and log: "pg_log db (crdt_table todos_table, ''t1'') =
      [((''r1'', ''title''), \<lparr>pc_value = VText ''a'', pc_clock = 1, pc_device = ''a'', pc_seq = 1\<rparr>)]"
  shows "\<exists>db' s' resp.
    sync_until_caught_up sample_env todos_table (\<lambda>p. pg_serve sample_pg todos_table ''t1'' p ''phone'' open_security)
      (client_db_new ''phone'', (db, 0)) = ((db', s'), Inr resp) \<and> dirty_keys db' = {} \<and>
    pg_log (fst s') = pg_log db"
proof -
  let ?db = "client_db_new ''phone''" and ?s = "(db, 0) :: pg_db \<times> int"
  have num: "d_lamport ?db \<le> tenant_clock ''t1'' (fst ?s) + 1000000"
    "tenant_clock ''t1'' (fst ?s) + 1000002 \<le> i64_MAX" "pg_seq (fst ?s) + 20000 \<le> i64_MAX"
    using pg_sample_numbers [OF m(1)] m(2) by (simp_all add: client_db_new_def i64_MAX_def)
  have none: "card (dirty_keys ?db) \<le> 20000" "card (fst ` dirty_keys ?db) \<le> 10000"
    "\<forall>k\<in>dirty_keys ?db. \<forall>b. log_view sample_env todos_table ?db k = Some b \<longrightarrow> no_zero (cvalue b)"
    by (simp_all add: sample_dirty(1))
  from pg_round_total [OF sample_deployed _ todos_reals _ _ _ _ pg_sample_world(1) [OF m(1)] none num sample_json]
  obtain p db' s' r where round: "sync_with sample_env todos_table (\<lambda>p. pg_serve sample_pg todos_table ''t1'' p ''phone'' open_security)
      (?db, ?s) = ((db', s'), Inr r)" "get_local_delta sample_env todos_table ?db = Inr p" "dirty_keys db' = {}"
    "merge_crdt_states_with_security sample_pg 0 p ''phone'' ''t1'' todos_table open_security db = Inr (fst s', r)"
    "if has_more r then (if cursor_reset r then 0 else cu_cursor (local_cursor ?db)) < cursor r \<and>
       cursor r < tenant_max_cursor todos_table ''t1'' (fst s') else cursor r = tenant_max_cursor todos_table ''t1'' (fst s')"
    by auto
  have zero: "cu_cursor (local_cursor ?db) = 0" by (simp add: local_cursor_def client_db_new_def)
  have "set (payload_cells p) = {}" using delta_in_log [OF sample_new(1) round(2)] sample_dirty(1) by simp
  then have keep: "pg_log (fst s') = pg_log db" using pg_merge_nothing [OF round(4)] by simp
  then have "tenant_max_cursor todos_table ''t1'' (fst s') = 1" by (simp add: tenant_max_cursor_def log)
  then have "\<not> has_more r" using round(5) zero by (auto split: if_splits)
  then have "sync_pages (Suc 99) sample_env todos_table (\<lambda>p. pg_serve sample_pg todos_table ''t1'' p ''phone'' open_security)
      (?db, ?s) = ((db', s'), Inr r)"
    by (simp only: sync_pages.simps round(1)) simp
  then show ?thesis using round(3) keep by (auto simp: sync_until_caught_up_def MAX_SYNC_PAGES_PER_CALL_def)
qed

theorem pg_sync_converges_witness:
  "\<exists>db' s s' resp.
    sync_until_caught_up sample_env todos_table (\<lambda>p. pg_serve sample_pg todos_table ''t1'' p ''phone'' open_security)
      (client_db_new ''phone'', s) = ((db', s'), Inr resp) \<and>
    pg_view todos_table ''t1'' (fst s') (''r1'', ''title'') = Some pg_sample_col \<and>
    (\<forall>k. rel_option agree (log_view sample_env todos_table db' k) (pg_view todos_table ''t1'' (fst s') k))"
proof -
  obtain db resp where m: "merge_crdt_states_with_security sample_pg 0 (sample_request ''a'') ''a'' ''t1'' todos_table
      sync_security_default (pg_db_new ''e'') = Inr (db, resp)" "pg_seq db = 1"
    "pg_log db (crdt_table todos_table, ''t1'') =
      [((''r1'', ''title''), \<lparr>pc_value = VText ''a'', pc_clock = 1, pc_device = ''a'', pc_seq = 1\<rparr>)]" by (rule pg_sample_run)
  obtain db' s' r where run: "sync_until_caught_up sample_env todos_table
      (\<lambda>p. pg_serve sample_pg todos_table ''t1'' p ''phone'' open_security) (client_db_new ''phone'', (db, 0)) = ((db', s'), Inr r)"
    "dirty_keys db' = {}" "pg_log (fst s') = pg_log db"
    using pg_sample_pull [OF m] by blast
  have "\<forall>k. rel_option agree (log_view sample_env todos_table db' k) (pg_view todos_table ''t1'' (fst s') k)"
    using pg_sync_converges [OF sample_deployed _ todos_reals _ _ _ pg_sample_world(1) [OF m(1)] run(1)] run(2) by simp
  moreover have "pg_view todos_table ''t1'' (fst s') (''r1'', ''title'') = Some pg_sample_col"
    using pg_sample_stored [OF m(1)] run(3) by (simp add: pg_view_def)
  ultimately show ?thesis using run(1) by blast
qed

subsection \<open>A partial replica\<close>

definition pg_sample_partial :: partial_replica_request where
  "pg_sample_partial =
     \<lparr>rq_scope_id = ''mine'', rq_scope_version = 1,
      rq_interest = \<lparr>predicates = [IdEquals ''r1''], interest_limit = 10\<rparr>,
      rq_known_member_ids = [''r0''], rq_sync = sample_request ''a''\<rparr>"

lemma pg_partial_request_ok: "request_validate pg_sample_partial todos_table ''a'' = Inr ()"
proof -
  have "request_ok todos_table ''a'' sample_partial" using partial_request_ok by (simp add: request_validate_iff)
  then show ?thesis
    using sample_request_ok [of "''a''"]
    by (simp add: request_validate_iff request_ok_def sample_partial_def pg_sample_partial_def)
qed

lemma pg_sample_member:
  assumes "pg_app db (tname todos_table, ''t1'') = [(''r1'', bt_insert ''title'' (VText ''a'') (pg_default_row todos_table))]"
  shows "pg_members sample_pg todos_table ''t1'' (rq_interest pg_sample_partial) db = Inr [''r1'']"
proof -
  have "bind_text ''r1'' = Inr ()" by (simp add: bind_text_def)
  moreover have "bt_get (pg_default_row todos_table) LIVENESS_COLUMN = Some (VBoolean False)"
    by (simp add: pg_default_row_get [OF valid_todos_table] table_column_type_def pg_default_def)
  ultimately show ?thesis
    by (simp add: pg_members_def assms pg_sample_partial_def sample_pg_def pg_push_predicate_def pg_bind_predicate_def
        pg_row_matches_def predicate_matches_def sample_columns)
qed

lemma pg_sample_answer:
  "\<exists>db rs. merge_partial_replica_with_security sample_pg 0 pg_sample_partial ''a'' ''t1'' todos_table sync_security_default
     (pg_db_new ''e'') = Inr (db, rs) \<and> rs_member_ids rs = [''r1'']"
proof -
  obtain db resp where m: "merge_crdt_states_with_security sample_pg 0 (sample_request ''a'') ''a'' ''t1'' todos_table
      sync_security_default (pg_db_new ''e'') = Inr (db, resp)"
    "pg_app db (tname todos_table, ''t1'') = [(''r1'', bt_insert ''title'' (VText ''a'') (pg_default_row todos_table))]"
    "pg_log db (crdt_table todos_table, ''t1'') =
      [((''r1'', ''title''), \<lparr>pc_value = VText ''a'', pc_clock = 1, pc_device = ''a'', pc_seq = 1\<rparr>)]" by (rule pg_sample_run)
  have ok: "server_response_ok todos_table resp"
    using pg_answer_ok [OF m(1) reach_tenant [OF pg_sample_reach sample_deployed]] by (simp add: validate_server_response_iff)
  have snap: "pg_snapshot_loop sample_pg (filter (\<lambda>e. fst (fst e) \<in> set [''r1'']) (pg_log db (crdt_table todos_table, ''t1''))) 0 ([], 0) =
      Inr [(''r1'', [(''title'', pg_sample_col)])]"
    by (simp add: m(3) pg_column_ok pg_cell_col_def sample_pg_def Let_def limits group_insert_def pg_sample_col_def)
  let ?rs = "\<lparr>rs_scope_id = ''mine'', rs_scope_version = 1, rs_member_ids = [''r1''], rs_evicted_row_ids = [''r0''],
    rs_sync = resp\<lparr>changes := rows_of [(''r1'', [(''title'', pg_sample_col)])], has_more := False\<rparr>\<rparr>"
  have rq: "rq_sync pg_sample_partial = sample_request ''a''" "rq_scope_id pg_sample_partial = ''mine''"
    "rq_scope_version pg_sample_partial = 1" "rq_known_member_ids pg_sample_partial = [''r0'']"
    "unat (interest_limit (rq_interest pg_sample_partial)) = 10"
    by (simp_all add: pg_sample_partial_def)
  have cells: "payload_cells (rs_sync ?rs) = [((''r1'', ''title''), pg_sample_col)]"
    by (simp add: payload_cells_def row_cells_def rows_of_def)
  have cell: "cell_ok todos_table ''title'' pg_sample_col"
    by (simp add: pg_sample_col_def cell_ok_def value_ok_def sample_title meta_ok_def clock_ok_def limits)
  have "int (unat (source_lamport resp)) = 2"
    using pg_merge_spec(9) [OF m(1) reach_tenant [OF pg_sample_reach sample_deployed]] pg_sample_numbers [OF m(1)] by simp
  then have "1 \<le> source_lamport resp" by (simp add: word_le_nat_alt del: of_nat_unat)
  then have "server_response_ok todos_table (rs_sync ?rs)"
    using ok cell unfolding server_response_ok_def payload_ok_def cells
    by (simp add: pg_sample_col_def) (simp add: rows_of_def)
  have ids: "member_ids_ok [''r1'']" by (simp add: member_ids_ok_def)
  then have "response_validate ?rs todos_table = Inr ()"
    using \<open>server_response_ok todos_table (rs_sync ?rs)\<close> unfolding response_validate_iff response_ok_def
    by (simp add: member_ids_ok_def scope_version_ok_def rows_of_def) (simp add: identifier_ok_def byte_def)
  then show ?thesis
    unfolding merge_partial_replica_with_security_def pg_partial_request_ok rq m(1)
    by (simp add: pg_sample_member [OF m(2)] snap [simplified] rq ids Let_def)
qed

theorem pg_partial_exact_witness:
  "\<exists>db rs. merge_partial_replica_with_security sample_pg 0 pg_sample_partial ''a'' ''t1'' todos_table sync_security_default
     (pg_db_new ''e'') = Inr (db, rs) \<and> rs_member_ids rs = [''r1''] \<and> set (rs_evicted_row_ids rs) = {''r0''}"
proof -
  obtain db rs where m: "merge_partial_replica_with_security sample_pg 0 pg_sample_partial ''a'' ''t1'' todos_table sync_security_default
     (pg_db_new ''e'') = Inr (db, rs)" "rs_member_ids rs = [''r1'']" using pg_sample_answer by blast
  have "set (rs_evicted_row_ids rs) = set (rq_known_member_ids pg_sample_partial) - set (rs_member_ids rs)"
    using pg_partial_exact [OF pg_sample_reach sample_deployed _ sample_orders m(1)] by simp
  then have "set (rs_evicted_row_ids rs) = {''r0''}" by (simp add: m(2) pg_sample_partial_def)
  with m show ?thesis by blast
qed

subsection \<open>A device with protocol version 3\<close>

definition old_request :: sync_payload where
  "old_request = (sample_request ''a'')\<lparr>protocol_version := 3, changes := [], cursor := 1\<rparr>"

lemma old_request_ok: "client_request_ok todos_table ''a'' old_request" "payload_cells old_request = []"
proof -
  show cells: "payload_cells old_request = []" by (simp add: old_request_def payload_cells_def)
  show "client_request_ok todos_table ''a'' old_request"
    unfolding client_request_ok_def payload_ok_def cells
    by (simp add: old_request_def sample_request_def clock_ok_def)
qed

lemma old_lamport: "source_lamport old_request = 1"
  by (simp add: old_request_def sample_request_def)

theorem rotation_spares_old_protocol_witness:
  "\<exists>db resp0 db1 epoch db' resp.
     merge_crdt_states_with_security sample_pg 0 (sample_request ''a'') ''a'' ''t1'' todos_table sync_security_default
       (pg_db_new ''e'') = Inr (db, resp0) \<and>
     rotate_server_epoch sample_pg db = (db1, epoch) \<and>
     merge_crdt_states_with_security sample_pg 0 old_request ''a'' ''t1'' todos_table open_security db1 = Inr (db', resp) \<and>
     cursor old_request = 1 \<and> \<not> cursor_reset resp"
proof -
  obtain db resp0 where m: "merge_crdt_states_with_security sample_pg 0 (sample_request ''a'') ''a'' ''t1'' todos_table
      sync_security_default (pg_db_new ''e'') = Inr (db, resp0)" "pg_seq db = 1"
    "pg_log db (crdt_table todos_table, ''t1'') =
      [((''r1'', ''title''), \<lparr>pc_value = VText ''a'', pc_clock = 1, pc_device = ''a'', pc_seq = 1\<rparr>)]" by (rule pg_sample_run)
  note spec = pg_merge_spec [OF m(1) reach_tenant [OF pg_sample_reach sample_deployed]]
  obtain db1 epoch where rot: "rotate_server_epoch sample_pg db = (db1, epoch)" by fastforce
  have reach1: "pg_reach sample_pg [todos_table] (db1, 0)"
    by (rule reach_step [OF pg_sample_after [OF m(1)] p_rotate [OF rot]])
  note inv1 = reach_tenant [OF reach1 sample_deployed, of todos_table]
  have same: "pg_seq db1 = 1" "tenant_clock ''t1'' db1 = 2"
    using rot m(2) pg_sample_numbers [OF m(1)] by (auto simp: rotate_server_epoch_def Let_def tenant_clock_def)
  have "\<exists>db' resp. merge_crdt_states_with_security sample_pg 0 old_request ''a'' ''t1'' todos_table open_security db1 = Inr (db', resp)"
    by (rule pg_merge_total [OF old_request_ok(1) _ inv1(1,2)])
      (simp_all add: old_request_ok(2) old_lamport same sample_json i64_MAX_def)
  then obtain db' resp where n: "merge_crdt_states_with_security sample_pg 0 old_request ''a'' ''t1'' todos_table open_security db1 = Inr (db', resp)"
    by blast
  obtain l where l: "bt_get (tenant_leases todos_table ''t1'' db) ''a'' = Some l" "cursor resp0 \<le> le_max_issued l"
    using spec(11) by auto
  have "loop_good todos_table ''t1'' (tenant_clock ''t1'' db) db" using spec(1) by (simp add: tenant_inv_def)
  from pg_abs_counts(1) [OF this] have "1 \<le> cursor resp0"
    using spec(7) by (auto simp: page_of_def tenant_max_cursor_def m(3) sample_changes split: if_splits)
  with l(2) have "cursor old_request \<le> le_max_issued l" by (simp add: old_request_def)
  with rotation_spares_old_protocol [OF pg_sample_after [OF m(1)] sample_deployed _ _ rot n _ l(1)] m(1) rot n show ?thesis
    by (simp add: sample_pg_def) (simp add: old_request_def)
qed

end
