(* ===== verification/Http_Samples.thy ===== *)
theory Http_Samples
  imports Server_Main Codegen Ffi Pg_Samples
begin

section \<open>Concrete requests, tokens and start-ups\<close>

text \<open>
  A server for the sample database: tokens are encoded in hexadecimal under a toy authentication code, two
  Supabase users hold opaque tokens, and one process serves the request of the device \<open>a\<close>.
\<close>

subsection \<open>Tokens\<close>

fun hex_encode :: "string \<Rightarrow> string" where
  "hex_encode [] = []"
| "hex_encode (c # cs) = hex_digit (byte c div 16) # hex_digit (byte c mod 16) # hex_encode cs"

definition unhex :: "char \<Rightarrow> nat" where
  "unhex c = (if byte c < 58 then byte c - 48 else byte c - 87)"

fun hex_decode :: "string \<Rightarrow> string option" where
  "hex_decode [] = Some []"
| "hex_decode [c] = None"
| "hex_decode (a # b # cs) = map_option (\<lambda>s. char_of (16 * unhex a + unhex b) # s) (hex_decode cs)"

lemma hex_digit_byte: "d < 16 \<Longrightarrow> byte (hex_digit d) = (if d < 10 then 48 + d else 87 + d)"
  by (simp add: hex_digit_def digit_char_def byte_def)

lemma unhex_hex: "d < 16 \<Longrightarrow> unhex (hex_digit d) = d"
  by (simp add: unhex_def hex_digit_byte)

lemma hex_roundtrip: "hex_decode (hex_encode s) = Some s"
proof (induction s)
  case (Cons c cs)
  have "byte c < 256" by (simp add: byte_def)
  then have "byte c div 16 < 16" by simp
  then have "16 * unhex (hex_digit (byte c div 16)) + unhex (hex_digit (byte c mod 16)) = byte c" by (simp add: unhex_hex)
  with Cons show ?case by (simp only: hex_encode.simps hex_decode.simps) (simp add: byte_def)
qed simp

lemma hex_chars: "c \<in> set (hex_encode s) \<Longrightarrow> 48 \<le> byte c \<and> byte c < 127"
proof (induction s)
  case (Cons d ds)
  have "byte d < 256" by (simp add: byte_def)
  with Cons show ?case by (auto simp: hex_digit_byte)
qed simp

lemma hex_length: "length (hex_encode s) = 2 * length s"
  by (induction s) simp_all

definition sample_claims :: token_claims where
  "sample_claims =
     \<lparr>cl_tenant_id = ''t1'', cl_device_id = ''a'', cl_exp = 100, cl_nbf = None, cl_aud = None, cl_iss = None,
      cl_allowed_tables = None\<rparr>"

definition sample_auth :: auth_env where
  "sample_auth =
     \<lparr>to_str = Some, b64_encode = hex_encode, b64_decode = hex_decode,
      header_from_slice = (\<lambda>_. Some \<lparr>th_alg = ''HS256''\<rparr>), claims_from_slice = (\<lambda>_. Some sample_claims),
      claims_to_vec = (\<lambda>_. ''claims''), hmac_sha256 = (\<lambda>k. Some (\<lambda>m. k)),
      from_rsa_public_pem = (\<lambda>_. Inl ''unsupported''), from_rsa_private_pem = (\<lambda>_. Inl ''unsupported''),
      crypto_verify = (\<lambda>_ _ _ _. None), jwt_encode = (\<lambda>_ _ _. Inl ''unsupported''),
      jwks_from_str = (\<lambda>doc. if doc = [] then None else Some [doc]), jwks_find = (\<lambda>jwks kid. if jwks = [] then None else Some (hd jwks)),
      from_jwk = Some, decode_header = (\<lambda>token. Some (RS256, Some ''k'')),
      jwt_decode = (\<lambda>_ token _ _. Some (JObject [(''sub'', JString token)]))\<rparr>"

lemma sample_codec: "codec_ok sample_auth"
proof -
  have "CHR ''.'' \<notin> set (hex_encode x)" for x using hex_chars [of "CHR ''.''" x] by (auto simp: byte_def)
  moreover have "header_text (hex_encode x)" for x using hex_chars [of _ x] by (fastforce simp: header_text_def)
  ultimately show ?thesis by (simp add: codec_ok_def sample_auth_def hex_roundtrip)
qed

theorem token_roundtrip_witness:
  "\<exists>token. encode_token_with_claims sample_auth ''key'' ''t1'' ''a'' 100 None None None = Some token \<and>
     jwt_authenticate sample_auth (Some 5) \<lparr>jw_secret = ''key'', jw_policy = no_policy\<rparr> (with_token token (\<lambda>_. None)) =
       Inr \<lparr>au_tenant_id = ''t1'', au_device_id = ''a'', au_allowed_tables = None\<rparr>"
proof -
  obtain token where token: "encode_token_with_claims sample_auth ''key'' ''t1'' ''a'' 100 None None None = Some token"
    "length token \<le> MAX_BEARER_TOKEN_BYTES"
    by (simp add: encode_token_with_claims_def sample_auth_def hex_length hs256_header_def quoted_def limits)
  have "identifier_ok ''t1''" "identifier_ok ''a''" by code_simp+
  then have "claims_current no_policy (unix_now (Some 5)) sample_claims"
    by (simp add: claims_current_def no_policy_def unix_now_def sample_claims_def)
  with token_roundtrip [OF sample_codec token(1) _ refl, of "Some 5" no_policy "\<lambda>_. None"] token show ?thesis
    by (simp add: sample_auth_def sample_claims_def)
qed

definition sample_supabase :: supabase_authenticator where
  "sample_supabase =
     \<lparr>su_jwks = Some [''jwk''], su_issuer = ''https://p/auth/v1'', su_audience = Some ''authenticated'',
      su_tenant_claim = ''app_metadata.tenant_id'', su_tables_claim = ''app_metadata.loomabase_tables''\<rparr>"

definition user_headers :: "string \<Rightarrow> string \<Rightarrow> headers" where
  "user_headers token device = [''authorization'' \<mapsto> ''Bearer '' @ token, ''x-device-id'' \<mapsto> device]"

lemma sample_user:
  assumes "identifier_ok u" "identifier_ok s" "identifier_ok (u @ ''/'' @ s)"
  shows "supabase_authenticate sample_auth clock sample_supabase (user_headers u s) =
      Inr \<lparr>au_tenant_id = u, au_device_id = u @ ''/'' @ s, au_allowed_tables = None\<rparr>"
    "user_of sample_auth clock sample_supabase (user_headers u s) = Some u"
proof -
  have len: "length u \<le> MAX_BEARER_TOKEN_BYTES" "s \<noteq> []" using assms by (auto simp: identifier_ok_def limits)
  have split: "split_on (CHR ''.'') ''sub'' = [''sub'']"
    "split_on (CHR ''.'') ''app_metadata.tenant_id'' = [''app_metadata'', ''tenant_id'']"
    "split_on (CHR ''.'') ''app_metadata.loomabase_tables'' = [''app_metadata'', ''loomabase_tables'']"
    by code_simp+
  have valid: "validate_identifier f x = Inr ()" if "x = u \<or> x = s \<or> x = u @ CHR ''/'' # s" for f x
    using assms that by (auto simp: validate_identifier_Inr)
  have "bearer_token sample_auth (user_headers u s) = Inr u"
    using len by (simp add: bearer_token_Inr user_headers_def sample_auth_def)
  then have claims: "verified_claims sample_auth clock sample_supabase (user_headers u s) = Inr (JObject [(''sub'', JString u)])"
    by (simp add: verified_claims_def sample_auth_def sample_supabase_def)
  have su: "su_tenant_claim sample_supabase = ''app_metadata.tenant_id''" "su_tables_claim sample_supabase = ''app_metadata.loomabase_tables''"
    by (simp_all add: sample_supabase_def)
  have "required_header sample_auth (user_headers u s) ''x-device-id'' = Inr s"
    using len by (simp add: required_header_def user_headers_def sample_auth_def)
  then show "supabase_authenticate sample_auth clock sample_supabase (user_headers u s) =
      Inr \<lparr>au_tenant_id = u, au_device_id = u @ ''/'' @ s, au_allowed_tables = None\<rparr>"
    by (simp add: valid supabase_authenticate_def claims supabase_identity_def claim_string_def claim_value_def
        claim_string_set_def split json_get_def json_str_def su Let_def del: rbind_eq_Inr)
  show "user_of sample_auth clock sample_supabase (user_headers u s) = Some u"
    by (simp add: user_of_def claims claim_string_def claim_value_def split json_get_def json_str_def)
qed


text \<open>The condition on the names is needed: the user \<open>a\<close> with the device header \<open>b/c\<close> and the user \<open>a/b\<close> with the
  header \<open>c\<close> are given the same device identity. Both names are accepted as subjects.\<close>

lemma supabase_users_collide:
  "\<exists>d d'. supabase_authenticate sample_auth None sample_supabase (user_headers ''a'' ''b/c'') = Inr d \<and>
     supabase_authenticate sample_auth None sample_supabase (user_headers ''a/b'' ''c'') = Inr d' \<and>
     au_device_id d = au_device_id d'"
proof -
  have "identifier_ok ''a''" "identifier_ok ''a/b''" "identifier_ok ''b/c''" "identifier_ok ''c''"
    "identifier_ok (''a'' @ ''/'' @ ''b/c'')" "identifier_ok (''a/b'' @ ''/'' @ ''c'')"
    by code_simp+
  from sample_user(1) [OF this(1,3,5), of None] sample_user(1) [OF this(2,4,6), of None] show ?thesis by simp
qed

subsection \<open>Requests\<close>

definition sample_app :: app_state where
  "sample_app =
     \<lparr>as_env = sample_pg, as_table = todos_table, as_authenticate = authenticate sample_auth Auth_Headers,
      as_security = sync_security_default, as_config = default_config\<rparr>"

definition sample_driver :: pg_driver where
  "sample_driver = \<lparr>dr_begin = None, dr_set_config = (\<lambda>_ _. None), dr_commit = Committed\<rparr>"

definition device_headers :: headers where
  "device_headers = [''x-tenant-id'' \<mapsto> ''t1'', ''x-device-id'' \<mapsto> ''a'']"

definition sample_identity :: authenticated_device where
  "sample_identity = \<lparr>au_tenant_id = ''t1'', au_device_id = ''a'', au_allowed_tables = None\<rparr>"

lemma sample_app_sel [simp]: "as_env sample_app = sample_pg" "as_table sample_app = todos_table"
  "as_security sample_app = sync_security_default" "as_config sample_app = default_config"
  by (simp_all add: sample_app_def)

lemma sample_admitted: "admitted sample_app clock device_headers sample_identity"
  by (simp add: admitted_def sample_app_def header_authenticate_def required_header_def device_headers_def sample_auth_def
      sample_identity_def can_sync_table_def)

theorem http_refusals_safe_witness:
  "\<exists>m'. sync sample_app sample_driver None 0 7 (\<lambda>_. None) (sample_request ''a'') metrics_default (pg_db_new ''e'') =
     (m', pg_db_new ''e'', Plain 401 ''unauthorized'')"
proof -
  obtain m' where m': "sync sample_app sample_driver None 0 7 (\<lambda>_. None) (sample_request ''a'') metrics_default (pg_db_new ''e'') =
      (m', pg_db_new ''e'', Plain 401 ''unauthorized'')"
    by (simp add: sync_def handle_def respond_def sample_app_def header_authenticate_def required_header_def ok_or_def)
  with http_refusals_safe [OF m'] show ?thesis by blast
qed

lemma sample_http_run:
  obtains db m where "http_reach sample_app [todos_table] (http_new (pg_db_new ''e'') 0
      \<lparr>ht_metrics := arrive metrics_default, ht_active := 1\<rparr>)"
    "http_step sample_app [todos_table] (Serve None device_headers)
      (http_new (pg_db_new ''e'') 0\<lparr>ht_metrics := arrive metrics_default, ht_active := 1\<rparr>)
      (ended 7 m db (http_new (pg_db_new ''e'') 0\<lparr>ht_metrics := arrive metrics_default, ht_active := 1\<rparr>))"
    "\<not> same_rows todos_table ''t1'' (pg_db_new ''e'') db" "mt_sync_ok m = 1"
proof -
  let ?s = "http_new (pg_db_new ''e'') 0"
  let ?s1 = "?s\<lparr>ht_metrics := arrive metrics_default, ht_active := 1\<rparr>"
  obtain db resp where run: "merge_crdt_states_with_security sample_pg 0 (sample_request ''a'') ''a'' ''t1'' todos_table
      sync_security_default (pg_db_new ''e'') = Inr (db, resp)"
    "pg_log db (crdt_table todos_table, ''t1'') \<noteq> []"
    by (rule pg_sample_run) auto
  have "run_merge sample_app sample_driver 0 (sample_request ''a'') sample_identity (pg_db_new ''e'') = (db, Inr resp)"
    using run(1) by (simp add: run_merge_def in_transaction_Inr driver_ready_def sample_driver_def set_transaction_timeout_def
        pg_result_def sample_identity_def)
  then have resp: "respond sample_app None device_headers (run_merge sample_app sample_driver (ht_now ?s1) (sample_request ''a''))
      (ht_metrics ?s1) (ht_db ?s1) = ((arrive metrics_default)\<lparr>mt_sync_ok := 1\<rparr>, db, Json_Ok resp)"
    using sample_admitted [of None]
    by (simp add: respond_def admitted_def http_new_def arrive_def observation_start_def metrics_default_def)
  have "http_step sample_app [todos_table] Arrive ?s ?s1"
    using h_arrive [of sample_app "[todos_table]" ?s] by (simp add: http_new_def)
  moreover have "http_reach sample_app [todos_table] ?s" by (rule http_start) (simp add: pg_sample_reach)
  ultimately have "http_reach sample_app [todos_table] ?s1" using http_next by blast
  moreover have "\<not> same_rows todos_table ''t1'' (pg_db_new ''e'') db" using run(2) by (simp add: same_rows_def)
  ultimately show thesis using that h_sync [OF _ resp, of "[todos_table]" 7] by (simp add: http_new_def)
qed

theorem http_isolation_witness:
  "\<exists>s s'. http_reach sample_app [todos_table] s \<and> http_step sample_app [todos_table] (Serve None device_headers) s s' \<and>
     \<not> same_rows todos_table ''t1'' (ht_db s) (ht_db s') \<and>
     (\<exists>identity. as_authenticate sample_app None device_headers = Inr identity \<and> au_tenant_id identity = ''t1'')"
proof -
  let ?s1 = "http_new (pg_db_new ''e'') 0\<lparr>ht_metrics := arrive metrics_default, ht_active := 1\<rparr>"
  obtain db m where s: "http_reach sample_app [todos_table] ?s1"
    "http_step sample_app [todos_table] (Serve None device_headers) ?s1 (ended 7 m db ?s1)"
    "\<not> same_rows todos_table ''t1'' (pg_db_new ''e'') db"
    by (rule sample_http_run)
  have "\<not> same_rows todos_table ''t1'' (ht_db ?s1) (ht_db (ended 7 m db ?s1))" using s(3) by (simp add: http_new_def ended_def)
  with http_isolation [OF s(1) _ _ _ s(2) this] sample_deployed s(1,2) show ?thesis by fastforce
qed


subsection \<open>Start-up and refreshes\<close>

definition sample_vars :: env_vars where
  "sample_vars =
     [''DATABASE_URL'' \<mapsto> ''postgres://db'', ''LOOMABASE_JWT_SECRET'' \<mapsto> replicate 32 (CHR ''k''),
      ''LOOMABASE_LOCK_TIMEOUT_SECS'' \<mapsto> ''3'']"


theorem refresh_keeps_last_keys_witness:
  "\<exists>a. from_jwks_json sample_auth ''old'' ''iss'' = Inr a \<and>
     su_jwks (jwks_refresh sample_auth [Inr ''new'', Inl ''timeout'', Inr []] a) = Some [''new'']"
proof -
  obtain a where a: "from_jwks_json sample_auth ''old'' ''iss'' = Inr a"
    by (simp add: from_jwks_json_def parse_jwks_def sample_auth_def)
  have "acceptable sample_auth [Inr ''new'', Inl ''timeout'', Inr []] = [[''new'']]"
    by (simp add: acceptable_def parse_jwks_def sample_auth_def ok_or_def)
  with refresh_keeps_last_keys [OF a, of "[Inr ''new'', Inl ''timeout'', Inr []]"] a show ?thesis by auto
qed

subsection \<open>Generated models and the C interface\<close>

theorem sdk_models_complete_witness:
  "\<exists>c. contract_new [sdk_table ''todo_items'', sdk_table ''todoitems''] = Inr c \<and>
     card (set (bt_keys (sdk_files (generate_sdk c Swift)))) = 3 \<and>
     snake_case (pascal_case ''todo_items'') = ''todo_items''"
proof -
  let ?ts = "[sdk_table ''todo_items'', sdk_table ''todoitems'']"
  have c: "contract_new ?ts = Inr \<lparr>ctables = ?ts\<rparr>" by (simp add: contract_new_def sdk_table_def)
  have "regular_name ''todo_items''" "regular_name ''todoitems''" by code_simp+
  then have "\<forall>t\<in>set ?ts. regular_name (tname t) \<and> tname t \<noteq> ''loomabase_transport''" by (simp add: sdk_table_def)
  from sdk_models_complete [OF c _ this, of Swift]
  have "card (set (bt_keys (sdk_files (generate_sdk \<lparr>ctables = ?ts\<rparr> Swift)))) = 3"
    "snake_case (pascal_case (tname (sdk_table ''todo_items''))) = tname (sdk_table ''todo_items'')"
    by simp_all
  moreover have "tname (sdk_table ''todo_items'') = ''todo_items''" by (simp add: sdk_table_def)
  ultimately show ?thesis using c by metis
qed

theorem ffi_merge_reports_witness:
  "\<exists>slot. loomabase_state_merge sample_len \<lparr>payload_from_str = (\<lambda>_. Inl ''eof''), payload_to_string = (\<lambda>_. Inr ''{}'')\<rparr>
      (Some (fst loomabase_state_new)) (Some ''{'') (Some ''a'') =
      (Some (fst loomabase_state_new), slot, None) \<and> loomabase_last_error_message slot \<noteq> None"
proof -
  let ?j = "\<lparr>payload_from_str = (\<lambda>_. Inl ''eof''), payload_to_string = (\<lambda>_. Inr ''{}'')\<rparr>"
  have "checked_args ?j (Some (fst loomabase_state_new)) (Some ''{'') (Some ''a'') = Inl ''invalid payload JSON: eof''"
    by (simp add: checked_args_def byte_def)
  then have m: "loomabase_state_merge sample_len ?j (Some (fst loomabase_state_new)) (Some ''{'') (Some ''a'') =
      (Some (fst loomabase_state_new), set_last_error ''invalid payload JSON: eof'', None)"
    by (simp add: loomabase_state_merge_def)
  from ffi_merge_reports [OF m] m show ?thesis by blast
qed

end
