(* ===== verification/Client_Todos.thy ===== *)
theory Client_Todos
  imports Client_Steps
begin

section \<open>The todos facade of the edge client (client.rs)\<close>

text \<open>
  The typed operations of a client that was opened with the built-in contract \<open>todos_table\<close>. The rows the
  facade shows are the abstract state \<open>todos_of\<close>, and every operation is shown to act on it as on a map from
  identifiers to todos, and to be a step that keeps the invariants of the database. The identifier and title
  checks come first, as in the code; \<open>bool\<close> is bound as an integer.
\<close>

record todo =
  todo_key :: string
  todo_title :: string
  todo_completed :: bool

definition sql_bool :: "bool \<Rightarrow> sql_value" where
  "sql_bool b = SqlInteger (if b then 1 else 0)"

definition create_todo :: "sqlite_env \<Rightarrow> string \<Rightarrow> string \<Rightarrow> bool \<Rightarrow> client_db \<Rightarrow> client_db \<times> (sync_error + unit)" where
  "create_todo env row title finished db =
     (case rbind (validate_identifier ''todo_id'' row) (\<lambda>_. validate_column todos_table TITLE_COLUMN (VText title)) of
        Inl e \<Rightarrow> (db, Inl e)
      | Inr _ \<Rightarrow>
          run_tx (\<lambda>db. rbind (insert_row env todos_table row
            [(TITLE_COLUMN, SqlText title), (COMPLETED_COLUMN, sql_bool finished)] db) (\<lambda>db. Inr (db, ()))) db)"

definition update_title :: "sqlite_env \<Rightarrow> string \<Rightarrow> string \<Rightarrow> client_db \<Rightarrow> client_db \<times> (sync_error + unit)" where
  "update_title env row title db =
     (case rbind (validate_identifier ''todo_id'' row) (\<lambda>_. validate_column todos_table TITLE_COLUMN (VText title)) of
        Inl e \<Rightarrow> (db, Inl e)
      | Inr _ \<Rightarrow>
          update_one env \<lparr>cname = TITLE_COLUMN, cty = TyText\<rparr> row (\<lambda>_. True) (SqlText title)
            ''todo not found during update_title'' db)"

definition update_completed :: "sqlite_env \<Rightarrow> string \<Rightarrow> bool \<Rightarrow> client_db \<Rightarrow> client_db \<times> (sync_error + unit)" where
  "update_completed env row finished db =
     (case validate_identifier ''todo_id'' row of
        Inl e \<Rightarrow> (db, Inl e)
      | Inr _ \<Rightarrow>
          update_one env \<lparr>cname = COMPLETED_COLUMN, cty = TyBoolean\<rparr> row (\<lambda>_. True) (sql_bool finished)
            ''todo not found during update_completed'' db)"

definition delete_todo :: "sqlite_env \<Rightarrow> string \<Rightarrow> client_db \<Rightarrow> client_db \<times> (sync_error + unit)" where
  "delete_todo env row db = client_delete env row db"

definition restore_todo :: "sqlite_env \<Rightarrow> string \<Rightarrow> client_db \<Rightarrow> client_db \<times> (sync_error + unit)" where
  "restore_todo env row db = client_restore env row db"

text \<open>\<open>row.get\<close> converts a value or fails.\<close>

fun get_string :: "sql_value option \<Rightarrow> sync_error + string" where
  "get_string (Some (SqlText s)) = Inr s"
| "get_string _ = Inl (Sqlite ''invalid column type'')"

fun get_bool :: "sql_value option \<Rightarrow> sync_error + bool" where
  "get_bool (Some (SqlInteger i)) = Inr (i \<noteq> 0)"
| "get_bool _ = Inl (Sqlite ''invalid column type'')"

definition read_todo :: "string \<Rightarrow> client_db \<Rightarrow> sync_error + (string \<times> bool) option" where
  "read_todo row db =
     (case bt_get (d_rows db) row of
        None \<Rightarrow> Inr None
      | Some vals \<Rightarrow>
          if \<not> is_deleted False vals then Inr None
          else rbind (get_string (bt_get vals TITLE_COLUMN)) (\<lambda>title.
               rbind (get_bool (bt_get vals COMPLETED_COLUMN)) (\<lambda>finished. Inr (Some (title, finished)))))"

definition get_todo :: "string \<Rightarrow> client_db \<Rightarrow> sync_error + todo option" where
  "get_todo row db =
     rbind (validate_identifier ''todo_id'' row) (\<lambda>_.
       case bt_get (d_rows db) row of
         None \<Rightarrow> Inr None
       | Some vals \<Rightarrow>
           if \<not> is_deleted False vals then Inr None
           else rbind (get_string (bt_get vals TITLE_COLUMN)) (\<lambda>title.
                rbind (get_bool (bt_get vals COMPLETED_COLUMN)) (\<lambda>finished.
                Inr (Some \<lparr>todo_key = row, todo_title = title, todo_completed = finished\<rparr>))))"

subsection \<open>What a row holds\<close>

text \<open>The todo in a row of the table, with its liveness.\<close>

definition holds :: "app_row \<Rightarrow> string \<Rightarrow> bool \<Rightarrow> bool \<Rightarrow> bool" where
  "holds vals title finished gone \<longleftrightarrow>
     bt_get vals TITLE_COLUMN = Some (SqlText title) \<and> bt_get vals COMPLETED_COLUMN = Some (sql_bool finished) \<and>
     bt_get vals LIVENESS_COLUMN = Some (sql_bool gone)"

lemma row_holds:
  assumes "row_ok todos_table vals"
  obtains title finished gone where "holds vals title finished gone"
proof -
  have col: "\<exists>w v. bt_get vals n = Some w \<and> sql_to_crdt k w = Some v" if "table_column_type todos_table n = Some k" for n k
    using assms that unfolding row_ok_def by blast
  obtain w v where "bt_get vals TITLE_COLUMN = Some w" "sql_to_crdt TyText w = Some v"
    using col [of TITLE_COLUMN TyText] by (auto simp: table_column_type_def todos_table_def column_names)
  then have "\<exists>title. bt_get vals TITLE_COLUMN = Some (SqlText title)" by (cases w) (simp_all add: sql_to_crdt_def)
  moreover have "\<exists>b. bt_get vals n = Some (sql_bool b)" if typed: "table_column_type todos_table n = Some TyBoolean" for n
  proof -
    obtain w v where w: "bt_get vals n = Some w" "sql_to_crdt TyBoolean w = Some v" using col [OF typed] by blast
    then show ?thesis
    proof (cases w)
      case (SqlInteger i)
      then have "w = sql_bool (i = 1)" using w(2) by (auto simp: sql_to_crdt_def sql_bool_def split: if_splits)
      then show ?thesis using w(1) by blast
    qed (simp_all add: sql_to_crdt_def)
  qed
  then have "\<exists>b. bt_get vals COMPLETED_COLUMN = Some (sql_bool b)" "\<exists>b. bt_get vals LIVENESS_COLUMN = Some (sql_bool b)"
    by (simp_all add: table_column_type_def todos_table_def column_names)
  ultimately show thesis using that by (auto simp: holds_def)
qed

lemma holds_put:
  assumes "holds vals title finished gone"
  shows "holds (bt_insert TITLE_COLUMN (SqlText s) vals) s finished gone"
    "holds (bt_insert COMPLETED_COLUMN (sql_bool b) vals) title b gone"
    "holds (bt_insert LIVENESS_COLUMN (sql_bool b) vals) title finished b"
  using assms by (simp_all add: holds_def column_names)

lemma sql_bool_inj [simp]: "sql_bool a = sql_bool b \<longleftrightarrow> a = b"
  by (simp add: sql_bool_def)

lemma holds_deleted: "holds vals title finished gone \<Longrightarrow> is_deleted b vals \<longleftrightarrow> gone = b"
  by (auto simp: holds_def is_deleted_def sql_bool_def)

lemma get_bool_sql_bool [simp]: "get_bool (Some (sql_bool b)) = Inr b"
  by (simp add: sql_bool_def)

text \<open>The abstract state: a map from identifiers to todos, each with a mark that says whether it is deleted.\<close>

definition todo_rows :: "client_db \<Rightarrow> string \<Rightarrow> (todo \<times> bool) option" where
  "todo_rows db row =
     Option.bind (bt_get (d_rows db) row) (\<lambda>vals.
       case (bt_get vals TITLE_COLUMN, bt_get vals COMPLETED_COLUMN, bt_get vals LIVENESS_COLUMN) of
         (Some (SqlText title), Some (SqlInteger finished), Some (SqlInteger gone)) \<Rightarrow>
           Some (\<lparr>todo_key = row, todo_title = title, todo_completed = finished \<noteq> 0\<rparr>, gone \<noteq> 0)
       | _ \<Rightarrow> None)"

lemma todo_rows_row:
  assumes "bt_get (d_rows db) row = Some vals" "holds vals title finished gone"
  shows "todo_rows db row = Some (\<lparr>todo_key = row, todo_title = title, todo_completed = finished\<rparr>, gone)"
  using assms by (simp add: todo_rows_def holds_def sql_bool_def)

lemma todo_rows_cong: "bt_get (d_rows db') row = bt_get (d_rows db) row \<Longrightarrow> todo_rows db' row = todo_rows db row"
  by (simp add: todo_rows_def)

lemma todo_rows_None: "bt_get (d_rows db) row = None \<Longrightarrow> todo_rows db row = None"
  by (simp add: todo_rows_def)

lemma good_row:
  assumes "client_good env todos_table db" "bt_get (d_rows db) row = Some vals"
  obtains title finished gone where "identifier_ok row" "holds vals title finished gone"
    "todo_rows db row = Some (\<lparr>todo_key = row, todo_title = title, todo_completed = finished\<rparr>, gone)"
proof -
  have ok: "identifier_ok row" "row_ok todos_table vals"
    using assms by (auto simp: client_good_def client_inv_def rows_inv_def)
  obtain title finished gone where "holds vals title finished gone" using row_holds [OF ok(2)] .
  then show thesis using that ok(1) todo_rows_row [OF assms(2)] by blast
qed

text \<open>Readers see the todos that are not deleted.\<close>

lemma reads_agree:
  assumes "client_good env todos_table db" "identifier_ok row"
  shows "get_todo row db = Inr (case todo_rows db row of Some (x, False) \<Rightarrow> Some x | _ \<Rightarrow> None)"
    "read_todo row db = Inr (case todo_rows db row of Some (x, False) \<Rightarrow> Some (todo_title x, todo_completed x) | _ \<Rightarrow> None)"
proof -
  have "get_todo row db = Inr (case todo_rows db row of Some (x, False) \<Rightarrow> Some x | _ \<Rightarrow> None) \<and>
    read_todo row db = Inr (case todo_rows db row of Some (x, False) \<Rightarrow> Some (todo_title x, todo_completed x) | _ \<Rightarrow> None)"
  proof (cases "bt_get (d_rows db) row")
    case None
    then show ?thesis using assms(2)
      by (simp add: todo_rows_None get_todo_def read_todo_def validate_identifier_def identifier_ok_def)
  next
    case (Some vals)
    obtain title finished gone where h: "holds vals title finished gone"
      "todo_rows db row = Some (\<lparr>todo_key = row, todo_title = title, todo_completed = finished\<rparr>, gone)"
      using good_row [OF assms(1) Some] .
    show ?thesis
      using assms(2) Some h holds_deleted [OF h(1), of False]
      by (cases gone) (simp_all add: get_todo_def read_todo_def holds_def validate_identifier_def identifier_ok_def)
  qed
  then show "get_todo row db = Inr (case todo_rows db row of Some (x, False) \<Rightarrow> Some x | _ \<Rightarrow> None)"
    "read_todo row db = Inr (case todo_rows db row of Some (x, False) \<Rightarrow> Some (todo_title x, todo_completed x) | _ \<Rightarrow> None)"
    by simp_all
qed

lemma update_one_rows:
  assumes "update_one env c row guard w msg db = (db', Inr u)"
  obtains vals where "bt_get (d_rows db) row = Some vals" "guard vals"
    "bt_get (d_rows db') = (bt_get (d_rows db))(row \<mapsto> bt_insert (cname c) w vals)"
proof -
  have "update_column env c row guard w db = Inr (db', 1)" using assms by (simp add: update_one_Inr)
  then show thesis using that by (cases rule: update_column_cases) auto
qed

text \<open>An update as a change of the abstract state.\<close>

lemma update_one_todos:
  assumes upd: "update_one env c row guard w msg db = (db', Inr u)" and good: "client_good env todos_table db"
    and put: "\<And>vals title finished gone. holds vals title finished gone \<Longrightarrow> guard vals \<Longrightarrow>
      holds (bt_insert (cname c) w vals) (ft title) (ff finished) (fg gone)"
  shows "\<exists>vals title finished gone. bt_get (d_rows db) row = Some vals \<and> guard vals \<and> holds vals title finished gone \<and>
    todo_rows db' = (todo_rows db)(row \<mapsto> (\<lparr>todo_key = row, todo_title = ft title, todo_completed = ff finished\<rparr>, fg gone))"
proof -
  obtain vals where vals: "bt_get (d_rows db) row = Some vals" "guard vals"
    "bt_get (d_rows db') = (bt_get (d_rows db))(row \<mapsto> bt_insert (cname c) w vals)"
    using update_one_rows [OF upd] .
  obtain title finished gone where h: "holds vals title finished gone" using good_row [OF good vals(1)] .
  have "todo_rows db' other =
      ((todo_rows db)(row \<mapsto> (\<lparr>todo_key = row, todo_title = ft title, todo_completed = ff finished\<rparr>, fg gone))) other" for other
    using todo_rows_row [OF _ put [OF h vals(2)], of db' row] todo_rows_cong [of db' other db] vals(3)
    by (cases "other = row") simp_all
  then show ?thesis using vals h by blast
qed

subsection \<open>The operations\<close>

lemma validate_title: "validate_column todos_table TITLE_COLUMN (VText title) = Inr u \<Longrightarrow> value_ok todos_table TITLE_COLUMN (VText title)"
  by simp

lemma facade_exact: "reals_exact env todos_table"
  by (auto simp: reals_exact_def table_column_type_def todos_table_def split: if_splits)

lemma update_one_good:
  assumes "client_good env todos_table db" "value_ok todos_table (cname c) v" "crdt_to_sqlite v = Inr w"
  shows "step_ok env todos_table db (fst (update_one env c row guard w msg db))"
proof -
  have "client_inv env todos_table (fst (update_one env c row guard w msg db))"
    using update_one_inv [OF _ _ assms(2,3) facade_exact] assms(1) by (metis client_good_def prod.collapse)
  then show ?thesis by (rule update_one_step [OF assms(1)])
qed

text \<open>\<open>create_todo\<close> is the generic insertion of both columns, except for the field an error names.\<close>

lemma create_is_insert:
  assumes "identifier_ok row"
  shows "create_todo env row title finished db =
    client_insert env todos_table row [(COMPLETED_COLUMN, VBoolean finished), (TITLE_COLUMN, VText title)] db"
proof -
  have swap: "insert_row env todos_table row [(TITLE_COLUMN, SqlText title), (COMPLETED_COLUMN, sql_bool finished)] =
      insert_row env todos_table row [(COMPLETED_COLUMN, sql_bool finished), (TITLE_COLUMN, SqlText title)]"
    by (auto simp: fun_eq_iff insert_row_def default_row_def synchronized_columns_def todos_table_def column_names)
  have pass: "reject_liveness_column COMPLETED_COLUMN = Inr ()" "reject_liveness_column TITLE_COLUMN = Inr ()"
    "validate_column todos_table COMPLETED_COLUMN (VBoolean finished) = Inr ()"
    by (simp_all add: reject_liveness_column_def validate_column_def table_column_type_def todos_table_def column_names)
  have bound: "bind_values [(COMPLETED_COLUMN, VBoolean finished), (TITLE_COLUMN, VText title)] =
      Inr [(COMPLETED_COLUMN, sql_bool finished), (TITLE_COLUMN, SqlText title)]"
    by (simp add: crdt_to_sqlite_def sql_bool_def)
  have rows: "validate_identifier f row = Inr ()" for f using assms by (simp add: validate_identifier_def identifier_ok_def)
  show ?thesis
    unfolding create_todo_def client_insert_def swap bound
    by (cases "validate_column todos_table TITLE_COLUMN (VText title)") (simp_all add: pass rows del: validate_column_Inr)
qed

text \<open>When the clock can tick, an update succeeds exactly on a row its guard admits.\<close>

lemma update_one_ok:
  assumes "d_lamport db < i64_MAX"
  shows "is_ok (snd (update_one env c row guard w msg db)) \<longleftrightarrow> (\<exists>vals. bt_get (d_rows db) row = Some vals \<and> guard vals)"
  using assms
  by (auto simp: update_one_def run_tx_def update_column_def ensure_one_row_def Let_def tick_def split: option.splits if_splits sum.splits)

lemma insert_row_ok:
  assumes "d_lamport db < i64_MAX"
  shows "is_ok (insert_row env t row given db) \<longleftrightarrow> bt_get (d_rows db) row = None"
  using assms by (auto simp: insert_row_def after_insert_def Let_def tick_def)

lemma insert_row_rows:
  assumes "insert_row env t row given db = Inr db'"
  shows "bt_get (d_rows db) row = None \<and> bt_get (d_rows db') = (bt_get (d_rows db))(row \<mapsto> new_row t given)"
  using assms by (auto simp: insert_row_def after_insert_def Let_def tick_ok split: if_splits)

lemma new_todo_holds: "holds (new_row todos_table [(TITLE_COLUMN, SqlText title), (COMPLETED_COLUMN, sql_bool finished)]) title finished False"
  by (simp add: holds_def default_row_def synchronized_columns_def todos_table_def column_names default_value_def sql_bool_def)

subsection \<open>The contract of the facade\<close>

datatype todo_op =
    CreateTodo string string bool
  | UpdateTitle string string
  | UpdateCompleted string bool
  | DeleteTodo string
  | RestoreTodo string

fun run_todo_op :: "sqlite_env \<Rightarrow> todo_op \<Rightarrow> client_db \<Rightarrow> client_db \<times> (sync_error + unit)" where
  "run_todo_op env (CreateTodo row title finished) = create_todo env row title finished"
| "run_todo_op env (UpdateTitle row title) = update_title env row title"
| "run_todo_op env (UpdateCompleted row finished) = update_completed env row finished"
| "run_todo_op env (DeleteTodo row) = delete_todo env row"
| "run_todo_op env (RestoreTodo row) = restore_todo env row"

text \<open>What the operations promise on the abstract state; \<open>None\<close> when they are refused. A deleted todo can be
  edited and its identifier cannot be used again.\<close>

fun todo_spec :: "todo_op \<Rightarrow> (string \<Rightarrow> (todo \<times> bool) option) \<Rightarrow> (string \<Rightarrow> (todo \<times> bool) option) option" where
  "todo_spec (CreateTodo row title finished) m =
     (if m row = None then Some (m(row \<mapsto> (\<lparr>todo_key = row, todo_title = title, todo_completed = finished\<rparr>, False))) else None)"
| "todo_spec (UpdateTitle row title) m = map_option (\<lambda>(x, gone). m(row \<mapsto> (x\<lparr>todo_title := title\<rparr>, gone))) (m row)"
| "todo_spec (UpdateCompleted row finished) m = map_option (\<lambda>(x, gone). m(row \<mapsto> (x\<lparr>todo_completed := finished\<rparr>, gone))) (m row)"
| "todo_spec (DeleteTodo row) m = (case m row of Some (x, False) \<Rightarrow> Some (m(row \<mapsto> (x, True))) | _ \<Rightarrow> None)"
| "todo_spec (RestoreTodo row) m = (case m row of Some (x, True) \<Rightarrow> Some (m(row \<mapsto> (x, False))) | _ \<Rightarrow> None)"

fun todo_args_ok :: "todo_op \<Rightarrow> bool" where
  "todo_args_ok (CreateTodo row title _) \<longleftrightarrow> identifier_ok row \<and> value_ok todos_table TITLE_COLUMN (VText title)"
| "todo_args_ok (UpdateTitle row title) \<longleftrightarrow> identifier_ok row \<and> value_ok todos_table TITLE_COLUMN (VText title)"
| "todo_args_ok (UpdateCompleted row _) \<longleftrightarrow> identifier_ok row"
| "todo_args_ok (DeleteTodo row) \<longleftrightarrow> identifier_ok row"
| "todo_args_ok (RestoreTodo row) \<longleftrightarrow> identifier_ok row"

text \<open>An outcome meets the contract: the database stays well-formed, a refused operation changes nothing, one that
  succeeds does what the specification says, and while the clock can tick it succeeds whenever the
  specification allows it.\<close>

definition meets :: "sqlite_env \<Rightarrow> todo_op \<Rightarrow> client_db \<Rightarrow> client_db \<times> (sync_error + unit) \<Rightarrow> bool" where
  "meets env op db out \<longleftrightarrow>
     step_ok env todos_table db (fst out) \<and> (is_ok (snd out) \<or> fst out = db) \<and>
     (is_ok (snd out) \<longrightarrow> todo_spec op (todo_rows db) = Some (todo_rows (fst out))) \<and>
     (d_lamport db < i64_MAX \<longrightarrow> is_ok (snd out) = (todo_args_ok op \<and> todo_spec op (todo_rows db) \<noteq> None))"

lemma identifier_label: "is_ok (validate_identifier f row) \<longleftrightarrow> identifier_ok row"
  by (simp add: validate_identifier_def identifier_ok_def)

lemma title_check:
  "is_ok (rbind (validate_identifier f row) (\<lambda>_. validate_column todos_table TITLE_COLUMN (VText title))) \<longleftrightarrow>
     identifier_ok row \<and> value_ok todos_table TITLE_COLUMN (VText title)"
  using identifier_label [of f row] by (cases "validate_identifier f row") auto

lemma good_rows_None: "client_good env todos_table db \<Longrightarrow> todo_rows db row = None \<longleftrightarrow> bt_get (d_rows db) row = None"
  by (cases "bt_get (d_rows db) row") (auto simp: todo_rows_None elim: good_row)

lemma create_todo_meets:
  assumes good: "client_good env todos_table db"
  shows "meets env (CreateTodo row title finished) db (create_todo env row title finished db)"
proof -
  let ?given = "[(TITLE_COLUMN, SqlText title), (COMPLETED_COLUMN, sql_bool finished)]"
  let ?chk = "rbind (validate_identifier ''todo_id'' row) (\<lambda>_. validate_column todos_table TITLE_COLUMN (VText title))"
  note check = title_check [of "''todo_id''" row title]
  show ?thesis
  proof (cases ?chk)
    case (Inl e)
    have "\<not> todo_args_ok (CreateTodo row title finished)" using check unfolding Inl by simp
    moreover have "create_todo env row title finished db = (db, Inl e)" unfolding create_todo_def Inl by simp
    ultimately show ?thesis using step_ok_refl [OF good] by (simp only: meets_def fst_conv snd_conv) simp
  next
    case (Inr u)
    then have ok: "identifier_ok row" "value_ok todos_table TITLE_COLUMN (VText title)" using check by simp_all
    have tx: "create_todo env row title finished db =
        (case insert_row env todos_table row ?given db of Inl e \<Rightarrow> (db, Inl e) | Inr d \<Rightarrow> (d, Inr ()))"
      unfolding create_todo_def Inr by (simp add: run_tx_def split: sum.splits)
    have step: "step_ok env todos_table db (fst (create_todo env row title finished db))"
      using insert_step [OF good valid_todos_table facade_exact] create_is_insert [OF ok(1)] by simp
    show ?thesis
    proof (cases "insert_row env todos_table row ?given db")
      case (Inl e)
      then have "create_todo env row title finished db = (db, Inl e)" using tx by simp
      then show ?thesis
        using step Inl ok insert_row_ok [of db env todos_table row ?given] good_rows_None [OF good] by (auto simp: meets_def)
    next
      case ins: (Inr d)
      note rows = insert_row_rows [OF ins]
      have "todo_rows d other =
          ((todo_rows db)(row \<mapsto> (\<lparr>todo_key = row, todo_title = title, todo_completed = finished\<rparr>, False))) other" for other
        using todo_rows_row [OF _ new_todo_holds, of d row title finished] todo_rows_cong [of d other db] rows
        by (cases "other = row") simp_all
      then have "todo_rows d = (todo_rows db)(row \<mapsto> (\<lparr>todo_key = row, todo_title = title, todo_completed = finished\<rparr>, False))" by blast
      then show ?thesis using tx ins step ok rows todo_rows_None [of db row] by (simp add: meets_def)
    qed
  qed
qed

text \<open>The other operations share their shape: a check, then an update of one column.\<close>

lemma checked_update_meets:
  assumes good: "client_good env todos_table db"
    and args: "is_ok chk = todo_args_ok op"
    and val: "is_ok chk \<Longrightarrow> value_ok todos_table (cname c) v" "crdt_to_sqlite v = Inr w"
    and put: "\<And>vals title finished gone. holds vals title finished gone \<Longrightarrow> guard vals \<Longrightarrow>
      holds (bt_insert (cname c) w vals) (ft title) (ff finished) (fg gone)"
    and absent: "todo_rows db row = None \<Longrightarrow> todo_spec op (todo_rows db) = None"
    and present: "\<And>vals title finished gone. holds vals title finished gone \<Longrightarrow>
      todo_rows db row = Some (\<lparr>todo_key = row, todo_title = title, todo_completed = finished\<rparr>, gone) \<Longrightarrow>
      todo_spec op (todo_rows db) = (if guard vals
        then Some ((todo_rows db)(row \<mapsto> (\<lparr>todo_key = row, todo_title = ft title, todo_completed = ff finished\<rparr>, fg gone))) else None)"
  shows "meets env op db (case chk of Inl e \<Rightarrow> (db, Inl e) | Inr _ \<Rightarrow> update_one env c row guard w msg db)"
proof (cases chk)
  case (Inl e)
  then show ?thesis using args step_ok_refl [OF good] by (simp add: meets_def)
next
  case (Inr u)
  obtain db' r where upd: "update_one env c row guard w msg db = (db', r)" by fastforce
  have step: "step_ok env todos_table db db'"
    using update_one_good [OF good _ val(2), of c row guard msg] val(1) Inr upd by simp
  have "(\<exists>vals. bt_get (d_rows db) row = Some vals \<and> guard vals) \<longleftrightarrow> todo_spec op (todo_rows db) \<noteq> None"
  proof (cases "bt_get (d_rows db) row")
    case None
    then show ?thesis using absent todo_rows_None by simp
  next
    case (Some vals)
    obtain title finished gone where "holds vals title finished gone"
      "todo_rows db row = Some (\<lparr>todo_key = row, todo_title = title, todo_completed = finished\<rparr>, gone)"
      using good_row [OF good Some] .
    from present [OF this] Some show ?thesis by simp
  qed
  then have live: "d_lamport db < i64_MAX \<Longrightarrow> is_ok r \<longleftrightarrow> todo_spec op (todo_rows db) \<noteq> None"
    using update_one_ok [of db env c row guard w msg] upd by simp
  have "is_ok r \<longrightarrow> todo_spec op (todo_rows db) = Some (todo_rows db')"
  proof (cases r)
    case r: (Inr x)
    obtain vals title finished gone where rows: "bt_get (d_rows db) row = Some vals" "guard vals" "holds vals title finished gone"
      "todo_rows db' = (todo_rows db)(row \<mapsto> (\<lparr>todo_key = row, todo_title = ft title, todo_completed = ff finished\<rparr>, fg gone))"
      using update_one_todos [OF upd [unfolded r] good, where ft = ft and ff = ff and fg = fg] put by blast
    then show ?thesis using present [OF rows(3) todo_rows_row [OF rows(1,3)]] by simp
  qed simp
  moreover have "is_ok r \<or> db' = db" using update_one_Inl upd by (cases r) auto
  ultimately show ?thesis using step live args Inr upd by (simp add: meets_def)
qed

lemma update_title_meets:
  assumes "client_good env todos_table db"
  shows "meets env (UpdateTitle row title) db (update_title env row title db)"
  unfolding update_title_def
  by (rule checked_update_meets [OF assms, where v = "VText title" and ft = "\<lambda>_. title" and ff = "\<lambda>x. x" and fg = "\<lambda>x. x"])
    (use title_check [of "''todo_id''" row title] holds_put(1) in \<open>simp_all add: crdt_to_sqlite_def\<close>)

lemma update_completed_meets:
  assumes "client_good env todos_table db"
  shows "meets env (UpdateCompleted row finished) db (update_completed env row finished db)"
proof -
  have "value_ok todos_table COMPLETED_COLUMN (VBoolean finished)"
    by (simp add: value_ok_def table_column_type_def todos_table_def column_names)
  then show ?thesis
    unfolding update_completed_def
    by (intro checked_update_meets [OF assms, where v = "VBoolean finished" and ft = "\<lambda>x. x" and ff = "\<lambda>_. finished" and fg = "\<lambda>x. x"])
      (use identifier_label [of "''todo_id''" row] holds_put(2) in \<open>simp_all add: crdt_to_sqlite_def sql_bool_def\<close>)
qed

lemma liveness_meets:
  assumes "client_good env todos_table db"
  shows "meets env (DeleteTodo row) db (delete_todo env row db)" "meets env (RestoreTodo row) db (restore_todo env row db)"
proof -
  have int: "SqlInteger 1 = sql_bool True" "SqlInteger 0 = sql_bool False" by (simp_all add: sql_bool_def)
  have live: "value_ok todos_table (cname liveness_column) (VBoolean b)" "crdt_to_sqlite (VBoolean b) = Inr (sql_bool b)"
    "cname liveness_column = LIVENESS_COLUMN" for b
    using liveness_value by (simp_all add: liveness_column_def crdt_to_sqlite_def sql_bool_def)
  show "meets env (DeleteTodo row) db (delete_todo env row db)"
    unfolding delete_todo_def client_delete_def int
    by (rule checked_update_meets [OF assms, where v = "VBoolean True" and ft = "\<lambda>x. x" and ff = "\<lambda>x. x" and fg = "\<lambda>_. True"])
      (use identifier_label [of "''row_id''" row] holds_put(3) in \<open>simp_all add: live liveness_value holds_deleted split: bool.splits\<close>)
  show "meets env (RestoreTodo row) db (restore_todo env row db)"
    unfolding restore_todo_def client_restore_def int
    by (rule checked_update_meets [OF assms, where v = "VBoolean False" and ft = "\<lambda>x. x" and ff = "\<lambda>x. x" and fg = "\<lambda>_. False"])
      (use identifier_label [of "''row_id''" row] holds_put(3) in \<open>simp_all add: live liveness_value holds_deleted split: bool.splits\<close>)
qed

text \<open>Property C30: the todos facade implements a map of todos. On every well-formed database each of its operations
  keeps the database well-formed, changes nothing when it is refused, and otherwise changes the map as
  specified; while the device clock can tick it succeeds exactly for valid arguments that the specification
  admits. Readers get exactly the todos of the map that are not deleted.\<close>

theorem todos_facade_refines:
  assumes "client_good env todos_table db"
  shows "meets env op db (run_todo_op env op db) \<and>
    (identifier_ok row \<longrightarrow>
       get_todo row db = Inr (case todo_rows db row of Some (x, False) \<Rightarrow> Some x | _ \<Rightarrow> None) \<and>
       read_todo row db = Inr (case todo_rows db row of Some (x, False) \<Rightarrow> Some (todo_title x, todo_completed x) | _ \<Rightarrow> None))"
proof -
  have "meets env op db (run_todo_op env op db)"
    using create_todo_meets [OF assms] update_title_meets [OF assms] update_completed_meets [OF assms] liveness_meets [OF assms]
    by (cases op) simp_all
  then show ?thesis using reads_agree [OF assms] by simp
qed

text \<open>An operation moves the device clock by at most one.\<close>

lemma update_one_clock: "d_lamport (fst (update_one env c row guard w msg db)) \<le> d_lamport db + 1"
proof (cases "update_one env c row guard w msg db")
  case (Pair db' r)
  show ?thesis
  proof (cases r)
    case (Inl e)
    then show ?thesis using update_one_Inl Pair by force
  next
    case (Inr u)
    then have "update_column env c row guard w db = Inr (db', 1)" using Pair by (simp add: update_one_Inr)
    then show ?thesis using Pair by (cases rule: update_column_cases) simp_all
  qed
qed

lemma todo_clock: "d_lamport (fst (run_todo_op env op db)) \<le> d_lamport db + 1"
proof -
  have ins: "d_lamport db' \<le> d_lamport db + 1" if "insert_row env t row given db = Inr db'" for t row given db'
    using that by (auto simp: insert_row_def after_insert_def Let_def tick_ok split: if_splits)
  show ?thesis
    by (cases op)
      (auto simp: create_todo_def run_tx_def update_title_def update_completed_def delete_todo_def restore_todo_def
        client_delete_def client_restore_def update_one_clock dest: ins split: sum.splits)
qed

theorem todos_facade_refines_witness:
  "\<exists>env db1 db2 db3 x y z. create_todo env ''t1'' ''milk'' False (client_db_new ''a'') = (db1, Inr x) \<and>
     delete_todo env ''t1'' db1 = (db2, Inr y) \<and> update_title env ''t1'' ''bread'' db2 = (db3, Inr z) \<and>
     get_todo ''t1'' db1 = Inr (Some \<lparr>todo_key = ''t1'', todo_title = ''milk'', todo_completed = False\<rparr>) \<and>
     get_todo ''t1'' db3 = Inr None \<and>
     todo_rows db3 ''t1'' = Some (\<lparr>todo_key = ''t1'', todo_title = ''bread'', todo_completed = False\<rparr>, True)"
proof -
  fix env :: sqlite_env
  let ?db0 = "client_db_new ''a''"
  let ?db1 = "fst (create_todo env ''t1'' ''milk'' False ?db0)"
  let ?db2 = "fst (delete_todo env ''t1'' ?db1)"
  let ?x = "\<lparr>todo_key = ''t1'', todo_title = ''milk'', todo_completed = False\<rparr>"
  have names: "identifier_ok ''t1''" "identifier_ok ''a''" "''a'' \<noteq> SERVER_DEVICE_ID" by code_simp+
  have "value_ok todos_table TITLE_COLUMN (VText s)" if "length s \<le> 5" for s
    using that by (simp add: value_ok_def table_column_type_def todos_table_def column_names MAX_TEXT_BYTES_def)
  then have args: "identifier_ok ''t1''" "value_ok todos_table TITLE_COLUMN (VText ''milk'')"
    "value_ok todos_table TITLE_COLUMN (VText ''bread'')" using names by simp_all
  have good0: "client_good env todos_table ?db0"
    using client_inv_new [OF names(2,3)] by (simp add: client_good_def scopes_inv_def client_db_new_def)
  have clock: "d_lamport ?db0 < i64_MAX" "d_lamport ?db1 < i64_MAX" "d_lamport ?db2 < i64_MAX"
    using todo_clock [of env "CreateTodo ''t1'' ''milk'' False" ?db0] todo_clock [of env "DeleteTodo ''t1''" ?db1]
    by (simp_all add: client_db_new_def i64_MAX_def)
  have empty: "todo_rows ?db0 = (\<lambda>_. None)" by (simp add: todo_rows_def client_db_new_def fun_eq_iff)
  have one: "client_good env todos_table ?db1" "is_ok (snd (create_todo env ''t1'' ''milk'' False ?db0))"
    "todo_rows ?db1 = [''t1'' \<mapsto> (?x, False)]"
    using todos_facade_refines [OF good0, of "CreateTodo ''t1'' ''milk'' False"] clock(1) args empty
    by (simp_all add: meets_def step_ok_def)
  have two: "client_good env todos_table ?db2" "is_ok (snd (delete_todo env ''t1'' ?db1))" "todo_rows ?db2 = [''t1'' \<mapsto> (?x, True)]"
    using todos_facade_refines [OF one(1), of "DeleteTodo ''t1''"] clock(2) args one(3)
    by (simp_all add: meets_def step_ok_def)
  let ?db3 = "fst (update_title env ''t1'' ''bread'' ?db2)"
  have three: "client_good env todos_table ?db3" "is_ok (snd (update_title env ''t1'' ''bread'' ?db2))"
    "todo_rows ?db3 ''t1'' = Some (?x\<lparr>todo_title := ''bread''\<rparr>, True)"
    using todos_facade_refines [OF two(1), of "UpdateTitle ''t1'' ''bread''"] clock(3) args two(3)
    by (simp_all add: meets_def step_ok_def eq_commute [of _ "todo_rows ?db3"])
  have reads: "get_todo ''t1'' ?db1 = Inr (Some ?x)" "get_todo ''t1'' ?db3 = Inr None"
    using todos_facade_refines [OF one(1), of _ "''t1''"] todos_facade_refines [OF three(1), of _ "''t1''"] args(1) one(3) three(3)
    by simp_all
  have res: "\<exists>x. p = (fst p, Inr x)" if "is_ok (snd p)" for p :: "client_db \<times> (sync_error + unit)"
    using that by (cases p; cases "snd p") auto
  show ?thesis using res [OF one(2)] res [OF two(2)] res [OF three(2)] reads three(3)
    by (intro exI [of _ env] exI [of _ ?db1] exI [of _ ?db2] exI [of _ ?db3]) simp
qed

end
