(* ===== verification/Sqlite_Init.thy ===== *)
theory Sqlite_Init
  imports Loom_Text Payload
begin

section \<open>Opening a client database (client.rs, the SQLite schema of schema.rs)\<close>

text \<open>
  The generated SQLite schema as a list of statements, the text that is sent, and what the statements do to
  the catalog of a database: the columns of its tables with their declared types, and the columns its
  triggers capture. Opening a database migrates the tables of a contract, runs the schema and the metadata
  migration, and binds the database to its device, in one transaction. Shown: whatever versions of a table a
  database was opened with, after a successful opening it has the columns of the current version and its
  triggers capture exactly these. The connection pragmas are not modelled.
\<close>

subsection \<open>Statements and their text\<close>

text \<open>A column declaration: name, type, and the rest of its text.\<close>

type_synonym sql_column = "string \<times> string \<times> string"

datatype sql_trigger = Insert_Trigger table_def | Update_Trigger table_def column_def

datatype sql_stmt =
    Create_Table string "sql_column list" "string list"
  | Create_Index string string
  | Create_Trigger sql_trigger

definition indent :: string where "indent = ''    ''"

definition column_sql :: "sql_column \<Rightarrow> string" where
  "column_sql c = (case c of (name, ty, rest) \<Rightarrow> name @ '' '' @ ty @ rest)"

text \<open>\<open>sqlite_column_ddl\<close> taken apart.\<close>

definition sqlite_column :: "column_def \<Rightarrow> sql_column" where
  "sqlite_column c =
     (cname c, sqlite_type (cty c),
      '' NOT NULL DEFAULT '' @ sqlite_default (cty c) @
      (if cty c = TyBoolean then '' CHECK ('' @ cname c @ '' IN (0, 1))'' else []))"

lemma column_sql_ddl: "column_sql (sqlite_column c) = sqlite_column_ddl c"
  by (simp add: column_sql_def sqlite_column_def sqlite_column_ddl_def)

definition I64_MAX_LITERAL :: string where
  "I64_MAX_LITERAL = ''9223372036854775807''"

definition overflow_guard_sql :: string where
  "overflow_guard_sql =
     ''    SELECT CASE'' @ nl @
     ''        WHEN (SELECT lamport_clock FROM client_state WHERE singleton = 1) >= '' @ I64_MAX_LITERAL @ nl @
     ''        THEN RAISE(ABORT, '' @ squoted ''lamport clock overflow'' @ '')'' @ nl @
     ''    END;''"

definition capture_sql :: "string \<Rightarrow> column_def \<Rightarrow> string" where
  "capture_sql crdt c =
     ''    INSERT INTO '' @ crdt @ ''(todo_id, column_name, value, lamport_clock, device_id, dirty)'' @ nl @
     ''    SELECT NEW.id, '' @ squoted (cname c) @ '', '' @ sqlite_capture_expr (cty c) (cname c) @ '', lamport_clock, device_id, 1'' @ nl @
     ''    FROM client_state WHERE singleton = 1'' @ nl @
     ''    ON CONFLICT(todo_id, column_name) DO UPDATE SET'' @ nl @
     ''        value = excluded.value,'' @ nl @
     ''        lamport_clock = excluded.lamport_clock,'' @ nl @
     ''        device_id = excluded.device_id,'' @ nl @
     ''        dirty = 1;''"

fun trigger_name :: "sql_trigger \<Rightarrow> string" where
  "trigger_name (Insert_Trigger t) = crdt_table t @ ''_after_insert''"
| "trigger_name (Update_Trigger t c) = crdt_table t @ ''_after_'' @ cname c @ ''_update''"

fun trigger_table :: "sql_trigger \<Rightarrow> string" where
  "trigger_table (Insert_Trigger t) = tname t"
| "trigger_table (Update_Trigger t c) = tname t"

text \<open>The columns whose new values a trigger records in the log.\<close>

fun captured_columns :: "sql_trigger \<Rightarrow> string list" where
  "captured_columns (Insert_Trigger t) = map cname (synchronized_columns t)"
| "captured_columns (Update_Trigger t c) = [cname c]"

definition tick_sql :: string where
  "tick_sql = overflow_guard_sql @ nl @ ''    UPDATE client_state SET lamport_clock = lamport_clock + 1 WHERE singleton = 1;''"

fun trigger_sql :: "sql_trigger \<Rightarrow> string" where
  "trigger_sql (Insert_Trigger t) =
     ''CREATE TRIGGER IF NOT EXISTS '' @ trigger_name (Insert_Trigger t) @ nl @ ''AFTER INSERT ON '' @ tname t @ nl @
     ''WHEN (SELECT applying_remote FROM client_state WHERE singleton = 1) = 0'' @ nl @ ''BEGIN'' @ nl @
     tick_sql @ concat (map (\<lambda>c. nl @ capture_sql (crdt_table t) c) (synchronized_columns t)) @ nl @ ''END;'' @ nl"
| "trigger_sql (Update_Trigger t c) =
     ''CREATE TRIGGER IF NOT EXISTS '' @ trigger_name (Update_Trigger t c) @ nl @
     ''AFTER UPDATE OF '' @ cname c @ '' ON '' @ tname t @ nl @
     ''WHEN OLD.'' @ cname c @ '' IS NOT NEW.'' @ cname c @ nl @
     '' AND (SELECT applying_remote FROM client_state WHERE singleton = 1) = 0'' @ nl @ ''BEGIN'' @ nl @
     tick_sql @ nl @ capture_sql (crdt_table t) c @ nl @ ''END;'' @ nl"

fun stmt_sql :: "sql_stmt \<Rightarrow> string" where
  "stmt_sql (Create_Table n cols constraints) =
     ''CREATE TABLE IF NOT EXISTS '' @ n @ '' ('' @ nl @ indent @
     join ('','' @ nl @ indent) (map column_sql cols @ constraints) @ nl @ '');'' @ nl"
| "stmt_sql (Create_Index n on) = ''CREATE INDEX IF NOT EXISTS '' @ n @ nl @ indent @ ''ON '' @ on @ '';'' @ nl"
| "stmt_sql (Create_Trigger tr) = trigger_sql tr"

subsection \<open>The schema of a table\<close>

definition client_state_table :: sql_stmt where
  "client_state_table = Create_Table ''client_state''
     [(''singleton'', ''INTEGER'', '' PRIMARY KEY CHECK (singleton = 1)''), (''device_id'', ''TEXT'', '' NOT NULL''),
      (''lamport_clock'', ''INTEGER'', '' NOT NULL CHECK (lamport_clock >= 0)''),
      (''applying_remote'', ''INTEGER'', '' NOT NULL DEFAULT 0 CHECK (applying_remote IN (0, 1))'')] []"

definition cursor_table :: sql_stmt where
  "cursor_table = Create_Table ''loomabase_cursor''
     [(''crdt_table'', ''TEXT'', '' PRIMARY KEY''), (''cursor'', ''INTEGER'', '' NOT NULL DEFAULT 0''),
      (''cursor_token'', ''TEXT'', []), (''server_epoch'', ''TEXT'', [])] []"

definition app_table :: "table_def \<Rightarrow> sql_stmt" where
  "app_table t = Create_Table (tname t)
     ((''id'', ''TEXT'', '' PRIMARY KEY'') # map sqlite_column (tcolumns t) @
      [sqlite_column \<lparr>cname = LIVENESS_COLUMN, cty = TyBoolean\<rparr>]) []"

definition log_table :: "table_def \<Rightarrow> sql_stmt" where
  "log_table t = Create_Table (crdt_table t)
     [(''todo_id'', ''TEXT'', '' NOT NULL''), (''column_name'', ''TEXT'', '' NOT NULL''), (''value'', ''TEXT'', '' NOT NULL''),
      (''lamport_clock'', ''BIGINT'', '' NOT NULL CHECK (lamport_clock >= 0)''), (''device_id'', ''TEXT'', '' NOT NULL''),
      (''dirty'', ''INTEGER'', '' NOT NULL DEFAULT 1 CHECK (dirty IN (0, 1))'')]
     [''PRIMARY KEY (todo_id, column_name)'',
      ''FOREIGN KEY (todo_id) REFERENCES '' @ tname t @ ''(id) ON DELETE CASCADE'']"

text \<open>Each statement with the line breaks in front of it.\<close>

definition sqlite_schema_stmts :: "table_def \<Rightarrow> (string \<times> sql_stmt) list" where
  "sqlite_schema_stmts t =
     [(nl, client_state_table), ([], cursor_table), (nl, app_table t), (nl, log_table t),
      (nl, Create_Index (crdt_table t @ ''_dirty_idx'') (crdt_table t @ ''(dirty, todo_id, column_name)'')),
      (nl, Create_Trigger (Insert_Trigger t))] @
     map (\<lambda>c. (nl, Create_Trigger (Update_Trigger t c))) (synchronized_columns t)"

definition sqlite_schema :: "table_def \<Rightarrow> string" where
  "sqlite_schema t = concat (map (\<lambda>(lead, s). lead @ stmt_sql s) (sqlite_schema_stmts t))"

definition contract_sqlite_schema :: "contract \<Rightarrow> string" where
  "contract_sqlite_schema c = concat (map sqlite_schema (ctables c))"

subsection \<open>What the statements do\<close>

record catalog =
  cat_tables :: "string \<rightharpoonup> column_map"
  cat_triggers :: "string \<rightharpoonup> string list"
  cat_device :: "(string \<times> int) option"

definition column_map_of :: "sql_column list \<Rightarrow> column_map" where
  "column_map_of cols = foldl (\<lambda>m (name, ty, _). bt_insert name ty m) [] cols"

fun run_stmt :: "sql_stmt \<Rightarrow> catalog \<Rightarrow> sync_error + catalog" where
  "run_stmt (Create_Table n cols constraints) cat =
     (if cat_tables cat n \<noteq> None then Inr cat
      else if \<not> distinct (map fst cols) then Inl (Sqlite ''duplicate column name'')
      else Inr (cat\<lparr>cat_tables := (cat_tables cat)(n \<mapsto> column_map_of cols)\<rparr>))"
| "run_stmt (Create_Index n on) cat = Inr cat"
| "run_stmt (Create_Trigger tr) cat =
     (if cat_tables cat (trigger_table tr) = None then Inl (Sqlite ''no such table'')
      else if cat_triggers cat (trigger_name tr) \<noteq> None then Inr cat
      else Inr (cat\<lparr>cat_triggers := (cat_triggers cat)(trigger_name tr \<mapsto> captured_columns tr)\<rparr>))"

text \<open>The statements of a migration (\<open>ddl\<close>) on the catalog.\<close>

fun run_ddl :: "ddl \<Rightarrow> catalog \<Rightarrow> sync_error + catalog" where
  "run_ddl (DropTrigger trig) cat = Inr (cat\<lparr>cat_triggers := (cat_triggers cat)(trig := None)\<rparr>)"
| "run_ddl (SqliteAddColumn n c) cat =
     (case cat_tables cat n of
        None \<Rightarrow> Inl (Sqlite ''no such table'')
      | Some m \<Rightarrow>
          if bt_get m (cname c) \<noteq> None then Inl (Sqlite ''duplicate column name'')
          else Inr (cat\<lparr>cat_tables := (cat_tables cat)(n \<mapsto> apply_ddl (SqliteAddColumn n c) m)\<rparr>))"
| "run_ddl (PostgresAddColumn n c) cat = Inl (Sqlite ''syntax error'')"

subsection \<open>Opening\<close>

text \<open>\<open>PRAGMA table_info\<close>: no rows for a table that does not exist.\<close>

definition sqlite_existing_columns :: "catalog \<Rightarrow> string \<Rightarrow> column_map" where
  "sqlite_existing_columns cat n = (case cat_tables cat n of None \<Rightarrow> [] | Some m \<Rightarrow> m)"

definition migrate_table :: "table_def \<Rightarrow> catalog \<Rightarrow> sync_error + catalog" where
  "migrate_table t cat =
     (let existing = sqlite_existing_columns cat (tname t) in
      if existing = [] then Inr cat
      else rbind (sqlite_migration t existing) (\<lambda>ds. foldM run_ddl ds cat))"

definition add_text_column :: "string \<Rightarrow> string \<Rightarrow> string \<Rightarrow> catalog \<Rightarrow> catalog" where
  "add_text_column n name ty cat =
     cat\<lparr>cat_tables := (cat_tables cat)(n \<mapsto> bt_insert name ty (sqlite_existing_columns cat n))\<rparr>"

definition scope_tables :: "sql_stmt list" where
  "scope_tables =
     [Create_Table ''loomabase_scope_state''
        [(''scope_id'', ''TEXT'', '' NOT NULL''), (''crdt_table'', ''TEXT'', '' NOT NULL''),
         (''version'', ''INTEGER'', '' NOT NULL CHECK (version > 0)''),
         (''active'', ''INTEGER'', '' NOT NULL DEFAULT 1 CHECK (active IN (0, 1))'')] [''PRIMARY KEY (scope_id, crdt_table)''],
      Create_Table ''loomabase_scope_members''
        [(''scope_id'', ''TEXT'', '' NOT NULL''), (''crdt_table'', ''TEXT'', '' NOT NULL''), (''row_id'', ''TEXT'', '' NOT NULL'')]
        [''PRIMARY KEY (scope_id, crdt_table, row_id)''],
      Create_Index ''loomabase_scope_members_row_idx'' ''loomabase_scope_members(crdt_table, row_id)'',
      Create_Table ''loomabase_scope_evictions''
        [(''scope_id'', ''TEXT'', '' NOT NULL''), (''crdt_table'', ''TEXT'', '' NOT NULL''), (''row_id'', ''TEXT'', '' NOT NULL'')]
        [''PRIMARY KEY (scope_id, crdt_table, row_id)''],
      Create_Index ''loomabase_scope_evictions_row_idx'' ''loomabase_scope_evictions(crdt_table, row_id)'']"

definition migrate_client_metadata :: "catalog \<Rightarrow> sync_error + catalog" where
  "migrate_client_metadata cat =
     (let cursor_columns = sqlite_existing_columns cat ''loomabase_cursor'';
          cat = (if cursor_columns \<noteq> [] \<and> bt_get cursor_columns ''cursor_token'' = None
                 then add_text_column ''loomabase_cursor'' ''cursor_token'' ''TEXT'' cat else cat);
          cat = (if cursor_columns \<noteq> [] \<and> bt_get cursor_columns ''server_epoch'' = None
                 then add_text_column ''loomabase_cursor'' ''server_epoch'' ''TEXT'' cat else cat)
      in rbind (foldM run_stmt scope_tables cat) (\<lambda>cat.
         Inr (if bt_get (sqlite_existing_columns cat ''loomabase_scope_state'') ''active'' = None
              then add_text_column ''loomabase_scope_state'' ''active'' ''INTEGER'' cat else cat)))"

definition bind_device :: "string \<Rightarrow> catalog \<Rightarrow> sync_error + catalog" where
  "bind_device device cat =
     (case cat_device cat of
        None \<Rightarrow> Inr (cat\<lparr>cat_device := Some (device, 0)\<rparr>)
      | Some (current, _) \<Rightarrow>
          if current = device then Inr cat
          else Inl (InvalidPayload ''the local database belongs to a different device''))"

definition initialize_body :: "string \<Rightarrow> contract \<Rightarrow> catalog \<Rightarrow> sync_error + catalog" where
  "initialize_body device c cat =
     rbind (foldM migrate_table (ctables c) cat) (\<lambda>cat.
     rbind (foldM run_stmt (map snd (concat (map sqlite_schema_stmts (ctables c)))) cat) (\<lambda>cat.
     rbind (migrate_client_metadata cat) (bind_device device)))"

definition initialize_client_with_contract :: "string \<Rightarrow> contract \<Rightarrow> catalog \<Rightarrow> catalog \<times> (sync_error + unit)" where
  "initialize_client_with_contract device c cat =
     (case rbind (validate_identifier ''device_id'' device) (\<lambda>_. initialize_body device c cat) of
        Inl e \<Rightarrow> (cat, Inl e)
      | Inr cat' \<Rightarrow> (cat', Inr ()))"

definition initialize_client_with :: "string \<Rightarrow> table_def \<Rightarrow> catalog \<Rightarrow> catalog \<times> (sync_error + unit)" where
  "initialize_client_with device t cat =
     (case contract_new [t] of
        Inl e \<Rightarrow> (cat, Inl e)
      | Inr c \<Rightarrow> initialize_client_with_contract device c cat)"

definition initialize_client :: "string \<Rightarrow> catalog \<Rightarrow> catalog \<times> (sync_error + unit)" where
  "initialize_client device = initialize_client_with device todos_table"

text \<open>\<open>open_with\<close> validates the device before it opens the file.\<close>

definition open_with :: "string \<Rightarrow> table_def \<Rightarrow> catalog \<Rightarrow> catalog \<times> (sync_error + unit)" where
  "open_with device t cat =
     (case validate_identifier ''device_id'' device of
        Inl e \<Rightarrow> (cat, Inl e)
      | Inr _ \<Rightarrow> initialize_client_with device t cat)"

definition open_client :: "string \<Rightarrow> catalog \<Rightarrow> catalog \<times> (sync_error + unit)" where
  "open_client device = open_with device todos_table"

definition empty_catalog :: catalog where
  "empty_catalog = \<lparr>cat_tables = (\<lambda>_. None), cat_triggers = (\<lambda>_. None), cat_device = None\<rparr>"

subsection \<open>Running a schema\<close>

fun created_tables :: "sql_stmt list \<Rightarrow> (string \<times> column_map) list" where
  "created_tables [] = []"
| "created_tables (Create_Table n cols _ # ss) = (n, column_map_of cols) # created_tables ss"
| "created_tables (_ # ss) = created_tables ss"

fun created_triggers :: "sql_stmt list \<Rightarrow> (string \<times> string list) list" where
  "created_triggers [] = []"
| "created_triggers (Create_Trigger tr # ss) = (trigger_name tr, captured_columns tr) # created_triggers ss"
| "created_triggers (_ # ss) = created_triggers ss"

lemma created_append [simp]:
  "created_tables (ss @ ss') = created_tables ss @ created_tables ss'"
  "created_triggers (ss @ ss') = created_triggers ss @ created_triggers ss'"
proof (induction ss)
  case (Cons s ss)
  { case 1 show ?case using Cons by (cases s) simp_all }
  { case 2 show ?case using Cons by (cases s) simp_all }
qed simp_all

lemma run_stmts_effect:
  assumes "foldM run_stmt ss cat = Inr cat'"
  shows "cat_tables cat' = map_of (created_tables ss) ++ cat_tables cat \<and>
    cat_triggers cat' = map_of (created_triggers ss) ++ cat_triggers cat \<and> cat_device cat' = cat_device cat"
  using assms
proof (induction ss arbitrary: cat)
  case (Cons s ss)
  then obtain c1 where c1: "run_stmt s cat = Inr c1" "foldM run_stmt ss c1 = Inr cat'" by auto
  note IH = Cons.IH [OF c1(2)]
  show ?case
  proof (cases s)
    case (Create_Table n cols cs)
    with c1(1) IH show ?thesis by (auto simp: fun_eq_iff map_add_def split: if_splits option.splits)
  next
    case (Create_Index n on)
    with c1(1) IH show ?thesis by simp
  next
    case (Create_Trigger tr)
    with c1(1) IH show ?thesis by (auto simp: fun_eq_iff map_add_def split: if_splits option.splits)
  qed
qed simp

text \<open>Statements that create what exists already do nothing.\<close>

definition exists_already :: "catalog \<Rightarrow> sql_stmt \<Rightarrow> bool" where
  "exists_already cat s \<longleftrightarrow>
     (case s of
        Create_Table n _ _ \<Rightarrow> cat_tables cat n \<noteq> None
      | Create_Index _ _ \<Rightarrow> True
      | Create_Trigger tr \<Rightarrow> cat_tables cat (trigger_table tr) \<noteq> None \<and> cat_triggers cat (trigger_name tr) \<noteq> None)"

lemma run_stmts_exist: "\<forall>s\<in>set ss. exists_already cat s \<Longrightarrow> foldM run_stmt ss cat = Inr cat"
proof (induction ss)
  case (Cons s ss)
  then have "run_stmt s cat = Inr cat" by (cases s) (auto simp: exists_already_def)
  with Cons show ?case by simp
qed simp

subsection \<open>The invariant of a database\<close>

text \<open>Statements that can be run: distinct columns, and triggers on tables that are there.\<close>

definition runnable :: "catalog \<Rightarrow> sql_stmt \<Rightarrow> bool" where
  "runnable cat s \<longleftrightarrow>
     (case s of
        Create_Table _ cols _ \<Rightarrow> distinct (map fst cols)
      | Create_Index _ _ \<Rightarrow> True
      | Create_Trigger tr \<Rightarrow> cat_tables cat (trigger_table tr) \<noteq> None)"

lemma run_stmts_total: "\<forall>s\<in>set ss. runnable cat s \<Longrightarrow> \<exists>cat'. foldM run_stmt ss cat = Inr cat'"
proof (induction ss arbitrary: cat)
  case (Cons s ss)
  have "\<exists>c1. run_stmt s cat = Inr c1" using Cons.prems by (cases s) (auto simp: runnable_def)
  then obtain c1 where c1: "run_stmt s cat = Inr c1" by blast
  then have "cat_tables cat n \<noteq> None \<Longrightarrow> cat_tables c1 n \<noteq> None" for n
    by (cases s) (auto split: if_splits)
  then have "runnable c1 s'" if "runnable cat s'" for s' using that by (simp add: runnable_def split: sql_stmt.splits)
  with Cons c1 show ?case by simp
qed simp

lemma column_map_get: "distinct (map fst cols) \<Longrightarrow> bt_get (column_map_of cols) = map_of (map (\<lambda>(n, ty, _). (n, ty)) cols)"
proof -
  have "distinct (map fst cs) \<Longrightarrow> bt_get (foldl (\<lambda>m (name, ty, _). bt_insert name ty m) m cs) =
      bt_get m ++ map_of (map (\<lambda>(n, ty, _). (n, ty)) cs)" for m and cs :: "sql_column list"
  proof (induction cs arbitrary: m)
    case (Cons c cs)
    obtain n ty r where c: "c = (n, ty, r)" by (cases c)
    have "map_of (map (\<lambda>(n, ty, _). (n, ty)) cs) n = None"
      using Cons.prems by (force simp: map_of_eq_None_iff c image_iff)
    with Cons show ?case by (auto simp: c fun_eq_iff map_add_def split: option.splits)
  qed simp
  then show "distinct (map fst cols) \<Longrightarrow> ?thesis" by (simp add: column_map_of_def)
qed

definition app_columns :: "table_def \<Rightarrow> sql_column list" where
  "app_columns t = (''id'', ''TEXT'', '' PRIMARY KEY'') # map sqlite_column (synchronized_columns t)"

lemma app_table_columns: "app_table t = Create_Table (tname t) (app_columns t) []"
  by (simp add: app_table_def app_columns_def synchronized_columns_def)

lemma fst_sqlite_column [simp]: "fst (sqlite_column c) = cname c"
  by (simp add: sqlite_column_def)

lemma app_columns_names: "map fst (app_columns t) = ''id'' # map cname (synchronized_columns t)"
  by (simp add: app_columns_def)

lemma id_not_synchronized: "valid_table t \<Longrightarrow> ''id'' \<notin> cname ` set (synchronized_columns t)"
  by (auto simp: synchronized_columns_def valid_table_def valid_columns_def column_names)

lemma app_columns_distinct: "valid_table t \<Longrightarrow> distinct (map fst (app_columns t))"
  unfolding app_columns_names using id_not_synchronized distinct_synchronized by auto

text \<open>The columns of an application table are the key and the columns its insert trigger captures; update
  triggers capture their own column.\<close>

definition insert_trigger :: "string \<Rightarrow> string" where
  "insert_trigger n = n @ ''_crdt_after_insert''"

definition update_trigger :: "string \<Rightarrow> string \<Rightarrow> string" where
  "update_trigger n c = n @ ''_crdt_after_'' @ c @ ''_update''"

definition catalog_sane :: "string \<Rightarrow> catalog \<Rightarrow> bool" where
  "catalog_sane n cat \<longleftrightarrow>
     (case cat_tables cat n of
        None \<Rightarrow> cat_triggers cat (insert_trigger n) = None
      | Some m \<Rightarrow> ''id'' \<in> set (bt_keys m) \<and>
          (\<forall>cs. cat_triggers cat (insert_trigger n) = Some cs \<longrightarrow> ''id'' \<notin> set cs \<and> insert ''id'' (set cs) = set (bt_keys m))) \<and>
     (\<forall>c cs. cat_triggers cat (update_trigger n c) = Some cs \<longrightarrow> cs = [c])"

text \<open>A database that is ready for a table.\<close>

definition initialised :: "table_def \<Rightarrow> catalog \<Rightarrow> bool" where
  "initialised t cat \<longleftrightarrow>
     (\<exists>m. cat_tables cat (tname t) = Some m \<and> up_to_date sqlite_type [PRIMARY_KEY_COLUMN] t m) \<and>
     cat_tables cat (crdt_table t) \<noteq> None \<and>
     (\<exists>cs. cat_triggers cat (insert_trigger (tname t)) = Some cs \<and> set cs = set (synchronized_column_names t)) \<and>
     (\<forall>c\<in>set (synchronized_columns t). cat_triggers cat (update_trigger (tname t) (cname c)) = Some [cname c])"

lemma trigger_names:
  "trigger_name (Insert_Trigger t) = insert_trigger (tname t)"
  "trigger_name (Update_Trigger t c) = update_trigger (tname t) (cname c)"
  by (simp_all add: insert_trigger_def update_trigger_def crdt_table_def)

lemma trigger_names_differ [simp]:
  "update_trigger n c \<noteq> insert_trigger n" "insert_trigger n \<noteq> update_trigger n c"
  "update_trigger n c = update_trigger n d \<longleftrightarrow> c = d"
proof -
  have "last (update_trigger n c) = CHR ''e''" "last (insert_trigger n) = CHR ''t''"
    by (simp_all add: update_trigger_def insert_trigger_def last_append)
  then have "last (update_trigger n c) \<noteq> last (insert_trigger n)" by simp
  then show "update_trigger n c \<noteq> insert_trigger n" "insert_trigger n \<noteq> update_trigger n c" by auto
qed (simp add: update_trigger_def)

subsection \<open>Migrating\<close>

lemma run_adds:
  "cat_tables cat n = Some m \<Longrightarrow> distinct (map cname cs) \<Longrightarrow> \<forall>c\<in>set cs. bt_get m (cname c) = None \<Longrightarrow>
   foldM run_ddl (map (SqliteAddColumn n) cs) cat =
     Inr (cat\<lparr>cat_tables := (cat_tables cat)(n \<mapsto> apply_ddls (map (SqliteAddColumn n) cs) m)\<rparr>)"
proof (induction cs arbitrary: cat m)
  case Nil
  then have "(cat_tables cat)(n \<mapsto> m) = cat_tables cat" by auto
  then show ?case by simp
next
  case (Cons c cs)
  let ?m = "bt_insert (cname c) (sqlite_type (cty c)) m"
  let ?cat = "cat\<lparr>cat_tables := (cat_tables cat)(n \<mapsto> ?m)\<rparr>"
  have "\<forall>d\<in>set cs. bt_get ?m (cname d) = None" using Cons.prems(2,3) by (force simp: image_iff)
  then have "foldM run_ddl (map (SqliteAddColumn n) cs) ?cat =
      Inr (?cat\<lparr>cat_tables := (cat_tables ?cat)(n \<mapsto> apply_ddls (map (SqliteAddColumn n) cs) ?m)\<rparr>)"
    using Cons.prems(2) by (intro Cons.IH) simp_all
  with Cons.prems(1,3) show ?case by (simp add: fun_upd_def cong: if_cong)
qed

lemma migrate_table_iff:
  assumes "cat_tables cat (tname t) = Some m" "''id'' \<in> set (bt_keys m)" "valid_table t"
  shows "migrate_table t cat = Inr c1 \<longleftrightarrow>
    compatible sqlite_type [PRIMARY_KEY_COLUMN] t m \<and>
    c1 = (if missing t m = [] then cat
          else cat\<lparr>cat_tables := (cat_tables cat)(tname t \<mapsto> apply_ddls (map (SqliteAddColumn (tname t)) (missing t m)) m),
                   cat_triggers := (cat_triggers cat)(insert_trigger (tname t) := None)\<rparr>)"
proof -
  have "m \<noteq> []" using assms(2) by auto
  then have mig: "migrate_table t cat = rbind (sqlite_migration t m) (\<lambda>ds. foldM run_ddl ds cat)"
    using assms(1) by (simp add: migrate_table_def sqlite_existing_columns_def)
  have adds: "foldM run_ddl (map (SqliteAddColumn (tname t)) (missing t m)) cat =
      Inr (cat\<lparr>cat_tables := (cat_tables cat)(tname t \<mapsto> apply_ddls (map (SqliteAddColumn (tname t)) (missing t m)) m)\<rparr>)"
    using assms by (intro run_adds distinct_missing) simp_all
  have trig: "tname t @ ''_crdt_after_insert'' = insert_trigger (tname t)" by (simp add: insert_trigger_def)
  show ?thesis
    unfolding mig rbind_eq_Inr sqlite_migration_iff trig
    by (cases "missing t m = []") (auto simp: foldM_append adds simp del: filter_empty_conv)
qed

text \<open>After a migration every column of the contract is there, and only these and the key.\<close>

lemma migrated_columns:
  assumes "compatible sqlite_type [PRIMARY_KEY_COLUMN] t m" "valid_table t" "''id'' \<in> set (bt_keys m)"
    and "m' = apply_ddls (map (SqliteAddColumn (tname t)) (missing t m)) m"
  shows "up_to_date sqlite_type [PRIMARY_KEY_COLUMN] t m' \<and> set (bt_keys m') = insert ''id'' (set (synchronized_column_names t))"
proof -
  have get: "bt_get m' = bt_get m ++ map_of (map (\<lambda>c. (cname c, sqlite_type (cty c))) (missing t m))"
    using assms(2,4) distinct_missing sqlite_adds by blast
  have up: "up_to_date sqlite_type [PRIMARY_KEY_COLUMN] t m'"
    by (rule migrated_up_to_date(1) [OF assms(2,1) get]) simp
  have "set (bt_keys m') = dom (bt_get m')" by (simp add: dom_map_of_conv_image_fst)
  then have "''id'' \<in> set (bt_keys m')" using assms(3) by (auto simp: get dom_map_of_conv_image_fst)
  moreover have "cname c \<in> set (bt_keys m')" if "c \<in> set (synchronized_columns t)" for c
  proof -
    have "case bt_get m' (cname c) of None \<Rightarrow> False | Some d \<Rightarrow> eq_ignore_ascii_case d (sqlite_type (cty c))"
      using up that by (simp only: up_to_date_def)
    then have "bt_get m' (cname c) \<noteq> None" by (cases "bt_get m' (cname c)") simp_all
    then show ?thesis by (simp only: bt_get_None not_not)
  qed
  moreover have "set (bt_keys m') \<subseteq> insert ''id'' (set (synchronized_column_names t))"
    using up by (auto simp: up_to_date_def synchronized_column_names_def column_names)
  ultimately have "set (bt_keys m') = insert ''id'' (set (synchronized_column_names t))"
    unfolding synchronized_column_names_def by auto
  with up show ?thesis by blast
qed

subsection \<open>One opening\<close>

definition metadata_tables :: "string list" where
  "metadata_tables = [''client_state'', ''loomabase_cursor'', ''loomabase_scope_state'', ''loomabase_scope_members'', ''loomabase_scope_evictions'']"

definition named_apart :: "table_def \<Rightarrow> bool" where
  "named_apart t \<longleftrightarrow> valid_table t \<and> tname t \<notin> set metadata_tables"

lemma log_named_apart: "crdt_table t \<notin> set metadata_tables" "crdt_table t \<noteq> tname t"
proof -
  have "last (crdt_table t) = CHR ''t''" "crdt_table t ! (length (crdt_table t) - 2) = CHR ''d''"
    by (simp_all add: crdt_table_def nth_append)
  then show "crdt_table t \<notin> set metadata_tables" by (auto simp: metadata_tables_def)
qed (simp add: crdt_table_def)

definition schema_of :: "table_def \<Rightarrow> sql_stmt list" where
  "schema_of t = map snd (sqlite_schema_stmts t)"

lemma schema_created:
  "created_tables (schema_of t) =
     created_tables [client_state_table, cursor_table] @ [(tname t, column_map_of (app_columns t))] @ created_tables [log_table t]"
  "created_triggers (schema_of t) =
     (insert_trigger (tname t), synchronized_column_names t) #
     map (\<lambda>c. (update_trigger (tname t) (cname c), [cname c])) (synchronized_columns t)"
proof -
  have trig: "created_tables (map (\<lambda>c. Create_Trigger (Update_Trigger t c)) cs) = []"
    "created_triggers (map (\<lambda>c. Create_Trigger (Update_Trigger t c)) cs) =
      map (\<lambda>c. (update_trigger (tname t) (cname c), [cname c])) cs" for cs
    by (induction cs) (simp_all add: trigger_names del: trigger_name.simps)
  have stmts: "schema_of t = [client_state_table, cursor_table, app_table t, log_table t,
      Create_Index (crdt_table t @ ''_dirty_idx'') (crdt_table t @ ''(dirty, todo_id, column_name)''),
      Create_Trigger (Insert_Trigger t)] @ map (\<lambda>c. Create_Trigger (Update_Trigger t c)) (synchronized_columns t)"
    by (simp add: schema_of_def sqlite_schema_stmts_def o_def)
  show "created_tables (schema_of t) =
     created_tables [client_state_table, cursor_table] @ [(tname t, column_map_of (app_columns t))] @ created_tables [log_table t]"
    unfolding stmts app_table_columns
    by (simp add: trig client_state_table_def cursor_table_def log_table_def)
  show "created_triggers (schema_of t) =
     (insert_trigger (tname t), synchronized_column_names t) #
     map (\<lambda>c. (update_trigger (tname t) (cname c), [cname c])) (synchronized_columns t)"
    unfolding stmts app_table_columns
    by (simp add: trig client_state_table_def cursor_table_def log_table_def trigger_names synchronized_column_names_def del: trigger_name.simps)
qed

lemma schema_split:
  "schema_of t = [client_state_table, cursor_table, app_table t, log_table t] @
     Create_Index (crdt_table t @ ''_dirty_idx'') (crdt_table t @ ''(dirty, todo_id, column_name)'') #
     Create_Trigger (Insert_Trigger t) # map (\<lambda>c. Create_Trigger (Update_Trigger t c)) (synchronized_columns t)"
  by (simp add: schema_of_def sqlite_schema_stmts_def o_def)

lemma schema_total:
  assumes "valid_table t"
  shows "\<exists>c2. foldM run_stmt (schema_of t) c1 = Inr c2"
proof -
  have "\<forall>s\<in>set [client_state_table, cursor_table, app_table t, log_table t]. runnable c1 s"
    using app_columns_distinct [OF assms] unfolding app_table_columns
    by (simp add: runnable_def client_state_table_def cursor_table_def log_table_def)
  then obtain ca where ca: "foldM run_stmt [client_state_table, cursor_table, app_table t, log_table t] c1 = Inr ca"
    using run_stmts_total by blast
  have "cat_tables ca (tname t) \<noteq> None"
    using run_stmts_effect [OF ca] unfolding app_table_columns
    by (simp add: client_state_table_def cursor_table_def log_table_def map_add_def split: option.split)
  then have "\<exists>c2. foldM run_stmt (Create_Index (crdt_table t @ ''_dirty_idx'') (crdt_table t @ ''(dirty, todo_id, column_name)'') #
     Create_Trigger (Insert_Trigger t) # map (\<lambda>c. Create_Trigger (Update_Trigger t c)) (synchronized_columns t)) ca = Inr c2"
    by (intro run_stmts_total) (auto simp: runnable_def)
  then show ?thesis unfolding schema_split foldM_append by (simp add: ca del: foldM.simps)
qed

text \<open>What the metadata migration leaves alone, and what it finds done.\<close>

definition metadata_ready :: "catalog \<Rightarrow> bool" where
  "metadata_ready cat \<longleftrightarrow>
     (let cur = sqlite_existing_columns cat ''loomabase_cursor'' in
        cur = [] \<or> (bt_get cur ''cursor_token'' \<noteq> None \<and> bt_get cur ''server_epoch'' \<noteq> None)) \<and>
     (\<forall>s\<in>set scope_tables. exists_already cat s) \<and>
     bt_get (sqlite_existing_columns cat ''loomabase_scope_state'') ''active'' \<noteq> None"

lemma metadata_ready_again: "metadata_ready cat \<Longrightarrow> migrate_client_metadata cat = Inr cat"
  using run_stmts_exist [of scope_tables cat] by (auto simp: metadata_ready_def migrate_client_metadata_def Let_def)

lemma add_text_column_sel [simp]:
  "cat_triggers (add_text_column n a ty cat) = cat_triggers cat" "cat_device (add_text_column n a ty cat) = cat_device cat"
  "k \<noteq> n \<Longrightarrow> cat_tables (add_text_column n a ty cat) k = cat_tables cat k"
  "cat_tables (add_text_column n a ty cat) n = Some (bt_insert a ty (sqlite_existing_columns cat n))"
  "sqlite_existing_columns (add_text_column n a ty cat) n = bt_insert a ty (sqlite_existing_columns cat n)"
  "k \<noteq> n \<Longrightarrow> sqlite_existing_columns (add_text_column n a ty cat) k = sqlite_existing_columns cat k"
  by (simp_all add: add_text_column_def sqlite_existing_columns_def)

lemma add_text_column_keeps: "cat_tables cat k \<noteq> None \<Longrightarrow> cat_tables (add_text_column n a ty cat) k \<noteq> None"
  by (simp add: add_text_column_def)

lemma scope_total: "\<exists>c. foldM run_stmt scope_tables cat = Inr c"
  by (rule run_stmts_total) (simp add: scope_tables_def runnable_def)

lemma scope_created: "fst ` set (created_tables scope_tables) =
    {''loomabase_scope_state'', ''loomabase_scope_members'', ''loomabase_scope_evictions''}" "created_triggers scope_tables = []"
  by (auto simp: scope_tables_def)

lemma metadata_migrated:
  obtains c where "migrate_client_metadata cat = Inr c" "metadata_ready c" "cat_triggers c = cat_triggers cat"
    "cat_device c = cat_device cat" "\<forall>n. n \<notin> set metadata_tables \<longrightarrow> cat_tables c n = cat_tables cat n"
    "\<forall>n. cat_tables cat n \<noteq> None \<longrightarrow> cat_tables c n \<noteq> None"
proof -
  define cur where "cur = sqlite_existing_columns cat ''loomabase_cursor''"
  define c1 where "c1 = (if cur \<noteq> [] \<and> bt_get cur ''cursor_token'' = None
      then add_text_column ''loomabase_cursor'' ''cursor_token'' ''TEXT'' cat else cat)"
  define c2 where "c2 = (if cur \<noteq> [] \<and> bt_get cur ''server_epoch'' = None
      then add_text_column ''loomabase_cursor'' ''server_epoch'' ''TEXT'' c1 else c1)"
  obtain c3 where c3: "foldM run_stmt scope_tables c2 = Inr c3" using scope_total by blast
  define c where "c = (if bt_get (sqlite_existing_columns c3 ''loomabase_scope_state'') ''active'' = None
      then add_text_column ''loomabase_scope_state'' ''active'' ''INTEGER'' c3 else c3)"
  have run: "migrate_client_metadata cat = Inr c"
    unfolding migrate_client_metadata_def Let_def cur_def [symmetric] c1_def [symmetric] c2_def [symmetric] c3
    by (simp only: rbind_simps c_def)
  have e: "cat_tables c3 = map_of (created_tables scope_tables) ++ cat_tables c2" "cat_triggers c3 = cat_triggers c2"
    "cat_device c3 = cat_device c2"
    using run_stmts_effect [OF c3] by (simp_all add: scope_created)
  have cur2: "sqlite_existing_columns c2 ''loomabase_cursor'' = [] \<or>
      (bt_get (sqlite_existing_columns c2 ''loomabase_cursor'') ''cursor_token'' \<noteq> None \<and>
       bt_get (sqlite_existing_columns c2 ''loomabase_cursor'') ''server_epoch'' \<noteq> None)"
    by (auto simp: c2_def c1_def cur_def)
  have "map_of (created_tables scope_tables) ''loomabase_cursor'' = None" by (simp add: map_of_eq_None_iff scope_created)
  then have "cat_tables c3 ''loomabase_cursor'' = cat_tables c2 ''loomabase_cursor''"
    by (simp add: e(1) map_add_def split: option.split)
  then have cursor: "sqlite_existing_columns c ''loomabase_cursor'' = sqlite_existing_columns c2 ''loomabase_cursor''"
    by (simp add: c_def sqlite_existing_columns_def)
  have "map_of (created_tables scope_tables) n \<noteq> None"
    if "n \<in> {''loomabase_scope_state'', ''loomabase_scope_members'', ''loomabase_scope_evictions''}" for n
    using that scope_created(1) by (metis map_of_eq_None_iff)
  then have "cat_tables c3 n \<noteq> None"
    if "n \<in> {''loomabase_scope_state'', ''loomabase_scope_members'', ''loomabase_scope_evictions''}" for n
    using that by (simp add: e(1) map_add_def split: option.split)
  then have "cat_tables c n \<noteq> None"
    if "n \<in> {''loomabase_scope_state'', ''loomabase_scope_members'', ''loomabase_scope_evictions''}" for n
    using that unfolding c_def by auto
  then have "\<forall>s\<in>set scope_tables. exists_already c s" by (simp add: scope_tables_def exists_already_def)
  moreover have "bt_get (sqlite_existing_columns c ''loomabase_scope_state'') ''active'' \<noteq> None" by (simp add: c_def)
  ultimately have "metadata_ready c" using cur2 by (simp add: metadata_ready_def cursor Let_def)
  moreover have "cat_tables c n = cat_tables cat n" if "n \<notin> set metadata_tables" for n
  proof -
    have "map_of (created_tables scope_tables) n = None"
      using that by (auto simp: map_of_eq_None_iff scope_created metadata_tables_def)
    then have "cat_tables c3 n = cat_tables c2 n" by (simp add: e(1) map_add_def split: option.split)
    then show ?thesis using that by (simp add: c_def c2_def c1_def metadata_tables_def)
  qed
  moreover have "cat_tables c n \<noteq> None" if "cat_tables cat n \<noteq> None" for n
  proof -
    have keep: "cat_tables (if b then add_text_column k a ty d else d) n \<noteq> None" if "cat_tables d n \<noteq> None" for b k a ty d
      using add_text_column_keeps [OF that] that by (cases b) simp_all
    have "cat_tables c1 n \<noteq> None" unfolding c1_def by (rule keep [OF that])
    then have "cat_tables c2 n \<noteq> None" unfolding c2_def by (rule keep)
    then have "cat_tables c3 n \<noteq> None" by (auto simp: e(1) map_add_def split: option.split)
    then show ?thesis unfolding c_def by (rule keep)
  qed
  moreover have "cat_triggers c = cat_triggers cat" "cat_device c = cat_device cat"
    by (simp_all add: c_def e c2_def c1_def)
  ultimately show thesis using run that by blast
qed

text \<open>What the transaction of an opening does for one table.\<close>

lemma initialize_body_single:
  "initialize_body device \<lparr>ctables = [t]\<rparr> cat =
     rbind (migrate_table t cat) (\<lambda>c1. rbind (foldM run_stmt (schema_of t) c1) (\<lambda>c2.
     rbind (migrate_client_metadata c2) (bind_device device)))"
proof -
  have "foldM migrate_table [t] cat = migrate_table t cat" by (cases "migrate_table t cat") simp_all
  then show ?thesis by (simp only: initialize_body_def contract.simps list.map concat.simps append_Nil2 schema_of_def [symmetric])
qed

definition device_fits :: "string \<Rightarrow> catalog \<Rightarrow> bool" where
  "device_fits device cat \<longleftrightarrow> (case cat_device cat of None \<Rightarrow> True | Some (current, _) \<Rightarrow> current = device)"

definition columns_fit :: "table_def \<Rightarrow> catalog \<Rightarrow> bool" where
  "columns_fit t cat \<longleftrightarrow>
     (case cat_tables cat (tname t) of None \<Rightarrow> True | Some m \<Rightarrow> compatible sqlite_type [PRIMARY_KEY_COLUMN] t m)"

lemma bind_device_iff:
  "is_ok (bind_device device cat) \<longleftrightarrow> device_fits device cat"
  by (auto simp: bind_device_def device_fits_def split: option.splits)

lemma bind_device_Inr:
  assumes "bind_device device c = Inr c'"
  shows "cat_tables c' = cat_tables c \<and> cat_triggers c' = cat_triggers c \<and> (\<exists>clock. cat_device c' = Some (device, clock)) \<and>
    (cat_device c = None \<longrightarrow> cat_device c' = Some (device, 0)) \<and> (cat_device c \<noteq> None \<longrightarrow> c' = c)"
  using assms by (auto simp: bind_device_def split: option.splits if_splits)

text \<open>The migration step, for a sane catalog.\<close>

lemma migrate_step:
  assumes "catalog_sane (tname t) cat" "valid_table t"
  shows "is_ok (migrate_table t cat) \<longleftrightarrow> columns_fit t cat"
    and "migrate_table t cat = Inr c1 \<Longrightarrow> cat_device c1 = cat_device cat \<and>
      (\<forall>n. n \<noteq> insert_trigger (tname t) \<longrightarrow> cat_triggers c1 n = cat_triggers cat n) \<and>
      (case cat_tables cat (tname t) of
         None \<Rightarrow> c1 = cat
       | Some _ \<Rightarrow> \<exists>m. cat_tables c1 (tname t) = Some m \<and> up_to_date sqlite_type [PRIMARY_KEY_COLUMN] t m \<and>
           set (bt_keys m) = insert ''id'' (set (synchronized_column_names t)) \<and>
           (\<forall>cs. cat_triggers c1 (insert_trigger (tname t)) = Some cs \<longrightarrow> set cs = set (synchronized_column_names t)))"
proof -
  have id: "''id'' \<notin> set (synchronized_column_names t)"
    using id_not_synchronized [OF assms(2)] by (simp add: synchronized_column_names_def)
  show "is_ok (migrate_table t cat) \<longleftrightarrow> columns_fit t cat"
  proof (cases "cat_tables cat (tname t)")
    case None
    then show ?thesis by (simp add: columns_fit_def migrate_table_def sqlite_existing_columns_def)
  next
    case (Some m)
    then have "''id'' \<in> set (bt_keys m)" using assms(1) by (simp add: catalog_sane_def)
    from migrate_table_iff [OF Some this assms(2)] Some show ?thesis by (simp add: columns_fit_def is_ok_iff)
  qed
  assume run: "migrate_table t cat = Inr c1"
  show "cat_device c1 = cat_device cat \<and>
      (\<forall>n. n \<noteq> insert_trigger (tname t) \<longrightarrow> cat_triggers c1 n = cat_triggers cat n) \<and>
      (case cat_tables cat (tname t) of
         None \<Rightarrow> c1 = cat
       | Some _ \<Rightarrow> \<exists>m. cat_tables c1 (tname t) = Some m \<and> up_to_date sqlite_type [PRIMARY_KEY_COLUMN] t m \<and>
           set (bt_keys m) = insert ''id'' (set (synchronized_column_names t)) \<and>
           (\<forall>cs. cat_triggers c1 (insert_trigger (tname t)) = Some cs \<longrightarrow> set cs = set (synchronized_column_names t)))"
  proof (cases "cat_tables cat (tname t)")
    case None
    with run show ?thesis by (simp add: migrate_table_def sqlite_existing_columns_def)
  next
    case (Some m)
    then have m: "''id'' \<in> set (bt_keys m)"
      "\<forall>cs. cat_triggers cat (insert_trigger (tname t)) = Some cs \<longrightarrow> ''id'' \<notin> set cs \<and> insert ''id'' (set cs) = set (bt_keys m)"
      using assms(1) by (simp_all add: catalog_sane_def)
    note iff = migrate_table_iff [OF Some m(1) assms(2), THEN iffD1, OF run]
    note cols = migrated_columns [OF conjunct1 [OF iff] assms(2) m(1) refl]
    show ?thesis
    proof (cases "missing t m = []")
      case True
      then have "c1 = cat" using conjunct2 [OF iff] by (simp only: simp_thms if_True)
      moreover have keys: "up_to_date sqlite_type [PRIMARY_KEY_COLUMN] t m" "set (bt_keys m) = insert ''id'' (set (synchronized_column_names t))"
        using cols by (simp_all only: True list.map apply_ddls_simps)
      moreover have "set cs = set (synchronized_column_names t)"
        if "cat_triggers cat (insert_trigger (tname t)) = Some cs" for cs
        using m(2) that keys(2) id by (metis insert_ident)
      ultimately show ?thesis using Some by simp
    next
      case False
      with iff cols Some show ?thesis by auto
    qed
  qed
qed

text \<open>The schema after the migration: the tables and triggers are there, those that were there are kept.\<close>

lemma schema_step:
  assumes "named_apart t" "foldM run_stmt (schema_of t) c1 = Inr c2"
  shows "cat_device c2 = cat_device c1"
    "cat_tables c2 (tname t) = (case cat_tables c1 (tname t) of None \<Rightarrow> Some (column_map_of (app_columns t)) | Some m \<Rightarrow> Some m)"
    "cat_tables c2 (crdt_table t) \<noteq> None"
    "cat_triggers c2 (insert_trigger (tname t)) =
       (case cat_triggers c1 (insert_trigger (tname t)) of None \<Rightarrow> Some (synchronized_column_names t) | Some cs \<Rightarrow> Some cs)"
    "cat_triggers c2 (update_trigger (tname t) c) =
       (case cat_triggers c1 (update_trigger (tname t) c) of
          None \<Rightarrow> if c \<in> set (synchronized_column_names t) then Some [c] else None | Some cs \<Rightarrow> Some cs)"
    "\<forall>s\<in>set (schema_of t). exists_already c2 s"
proof -
  note e = run_stmts_effect [OF assms(2)]
  show "cat_device c2 = cat_device c1" using e by blast
  have t: "valid_table t" "tname t \<notin> set metadata_tables" using assms(1) by (simp_all add: named_apart_def)
  have "map_of (created_tables (schema_of t)) (tname t) = Some (column_map_of (app_columns t))"
    using t(2) by (simp add: schema_created client_state_table_def cursor_table_def metadata_tables_def)
  then show "cat_tables c2 (tname t) = (case cat_tables c1 (tname t) of None \<Rightarrow> Some (column_map_of (app_columns t)) | Some m \<Rightarrow> Some m)"
    using e by (simp add: map_add_def split: option.split)
  have tabs: "cat_tables c2 n \<noteq> None" if "n \<in> fst ` set (created_tables (schema_of t))" for n
  proof -
    have "map_of (created_tables (schema_of t)) n \<noteq> None" using that by (simp only: map_of_eq_None_iff not_not)
    then show ?thesis using e by (auto simp: map_add_def split: option.split)
  qed
  show log: "cat_tables c2 (crdt_table t) \<noteq> None" by (rule tabs) (simp add: schema_created log_table_def)
  have upd: "map_of (map (\<lambda>c. (update_trigger n (cname c), [cname c])) cs) (update_trigger n x) =
      (if x \<in> cname ` set cs then Some [x] else None)" for n x and cs :: "column_def list"
    by (induction cs) auto
  have ins: "map_of (map (\<lambda>c. (update_trigger n (cname c), [cname c])) cs) (insert_trigger n) = None" for n and cs :: "column_def list"
    by (induction cs) auto
  show insert: "cat_triggers c2 (insert_trigger (tname t)) =
       (case cat_triggers c1 (insert_trigger (tname t)) of None \<Rightarrow> Some (synchronized_column_names t) | Some cs \<Rightarrow> Some cs)"
    using e by (simp add: schema_created map_add_def split: option.split)
  show update: "cat_triggers c2 (update_trigger (tname t) c) =
       (case cat_triggers c1 (update_trigger (tname t) c) of
          None \<Rightarrow> if c \<in> set (synchronized_column_names t) then Some [c] else None | Some cs \<Rightarrow> Some cs)" for c
    using e by (simp add: schema_created map_add_def upd synchronized_column_names_def split: option.split)
  have "cat_tables c2 (tname t) \<noteq> None" by (rule tabs) (simp add: schema_created)
  moreover have "cat_triggers c2 (insert_trigger (tname t)) \<noteq> None" by (simp add: insert split: option.split)
  moreover have "cat_triggers c2 (update_trigger (tname t) (cname c)) \<noteq> None" if "c \<in> set (synchronized_columns t)" for c
    using that by (simp add: update synchronized_column_names_def split: option.split)
  moreover have "cat_tables c2 ''client_state'' \<noteq> None" "cat_tables c2 ''loomabase_cursor'' \<noteq> None"
    by (rule tabs; simp add: schema_created client_state_table_def cursor_table_def)+
  ultimately show "\<forall>s\<in>set (schema_of t). exists_already c2 s"
    using log unfolding schema_split
    by (auto simp: exists_already_def client_state_table_def cursor_table_def app_table_def log_table_def trigger_names
        simp del: trigger_name.simps)
qed

lemma open_with_body:
  "valid_table t \<Longrightarrow> open_with device t cat =
     (if \<not> identifier_ok device then (cat, Inl (InvalidPayload ''device_id must contain between 1 and 255 non-control characters''))
      else case initialize_body device \<lparr>ctables = [t]\<rparr> cat of Inl e \<Rightarrow> (cat, Inl e) | Inr cat' \<Rightarrow> (cat', Inr ()))"
  by (simp add: open_with_def initialize_client_with_def initialize_client_with_contract_def contract_new_def
      validate_identifier_def identifier_ok_def)

lemma fresh_columns:
  assumes "valid_table t"
  shows "up_to_date sqlite_type [PRIMARY_KEY_COLUMN] t (column_map_of (app_columns t)) \<and>
    set (bt_keys (column_map_of (app_columns t))) = insert ''id'' (set (synchronized_column_names t))"
proof -
  let ?m = "column_map_of (app_columns t)"
  have get: "bt_get ?m = map_of ((''id'', ''TEXT'') # map (\<lambda>c. (cname c, sqlite_type (cty c))) (synchronized_columns t))"
    unfolding column_map_get [OF app_columns_distinct [OF assms]]
    by (simp add: app_columns_def sqlite_column_def o_def)
  have "set (bt_keys ?m) = dom (bt_get ?m)" by (simp add: dom_map_of_conv_image_fst)
  also have "\<dots> = insert ''id'' (set (synchronized_column_names t))"
    unfolding get by (auto simp: dom_map_of_conv_image_fst synchronized_column_names_def image_image)
  finally have keys: "set (bt_keys ?m) = insert ''id'' (set (synchronized_column_names t))" .
  have "bt_get ?m (cname c) = Some (sqlite_type (cty c))" if "c \<in> set (synchronized_columns t)" for c
  proof -
    have "distinct (map fst ((''id'', ''TEXT'') # map (\<lambda>c. (cname c, sqlite_type (cty c))) (synchronized_columns t)))"
      using app_columns_distinct [OF assms] by (simp add: app_columns_names o_def)
    with that show ?thesis unfolding get by (intro map_of_is_SomeI) auto
  qed
  then have "up_to_date sqlite_type [PRIMARY_KEY_COLUMN] t ?m"
    using keys by (auto simp: up_to_date_def synchronized_column_names_def column_names)
  with keys show ?thesis by blast
qed

text \<open>Tables and triggers after migration and schema.\<close>

lemma migrated_schema:
  assumes sane: "catalog_sane (tname t) cat" and t: "named_apart t"
    and run: "migrate_table t cat = Inr c1" "foldM run_stmt (schema_of t) c1 = Inr c2"
  shows "initialised t c2 \<and> catalog_sane (tname t) c2 \<and> cat_device c2 = cat_device cat"
proof -
  have valid: "valid_table t" using t by (simp add: named_apart_def)
  have id: "''id'' \<notin> set (synchronized_column_names t)"
    using id_not_synchronized [OF valid] by (simp add: synchronized_column_names_def)
  note m = migrate_step(2) [OF sane valid run(1)]
  note s = schema_step [OF t run(2)]
  have table: "\<exists>m. cat_tables c2 (tname t) = Some m \<and> up_to_date sqlite_type [PRIMARY_KEY_COLUMN] t m \<and>
      set (bt_keys m) = insert ''id'' (set (synchronized_column_names t))"
    using m fresh_columns [OF valid] s(2) by (cases "cat_tables cat (tname t)") auto
  have ins: "\<exists>cs. cat_triggers c2 (insert_trigger (tname t)) = Some cs \<and> set cs = set (synchronized_column_names t)"
  proof (cases "cat_triggers c1 (insert_trigger (tname t))")
    case None
    then show ?thesis using s(4) by simp
  next
    case (Some cs)
    moreover from this have "cat_tables cat (tname t) \<noteq> None"
      using m sane by (auto simp: catalog_sane_def split: option.splits)
    ultimately have "set cs = set (synchronized_column_names t)" using m by auto
    with Some show ?thesis using s(4) by simp
  qed
  have "cat_triggers c1 (update_trigger (tname t) c) = cat_triggers cat (update_trigger (tname t) c)" for c using m by simp
  then have old: "cs = [c]" if "cat_triggers c1 (update_trigger (tname t) c) = Some cs" for c cs
    using sane that by (simp add: catalog_sane_def)
  have upd: "cat_triggers c2 (update_trigger (tname t) c) = Some cs \<Longrightarrow> cs = [c]"
    "c \<in> set (synchronized_column_names t) \<Longrightarrow> cat_triggers c2 (update_trigger (tname t) c) = Some [c]" for c cs
    unfolding s(5) using old [of c] by (auto split: option.splits if_splits)
  have "initialised t c2"
    using table ins s(3) upd(2) by (auto simp: initialised_def synchronized_column_names_def)
  moreover have "catalog_sane (tname t) c2" using table ins upd(1) id by (auto simp: catalog_sane_def)
  ultimately show ?thesis using s(1) m by simp
qed

lemma initialised_cong:
  assumes "cat_tables c' (tname t) = cat_tables c (tname t)" "cat_tables c' (crdt_table t) = cat_tables c (crdt_table t)"
    "cat_triggers c' = cat_triggers c"
  shows "initialised t c' = initialised t c" "catalog_sane (tname t) c' = catalog_sane (tname t) c"
  using assms by (simp_all add: initialised_def catalog_sane_def split: option.split)

lemma migrate_again:
  assumes "initialised t cat" "catalog_sane (tname t) cat" "valid_table t"
  shows "migrate_table t cat = Inr cat"
proof -
  obtain m where m: "cat_tables cat (tname t) = Some m" "up_to_date sqlite_type [PRIMARY_KEY_COLUMN] t m"
    using assms(1) by (auto simp: initialised_def)
  have "''id'' \<in> set (bt_keys m)" using assms(2) m(1) by (simp add: catalog_sane_def)
  with migrate_table_iff [OF m(1) this assms(3)] up_to_date_compatible [OF m(2)] show ?thesis by simp
qed

lemma open_body_outcome:
  assumes sane: "catalog_sane (tname t) cat" and t: "named_apart t"
  shows "is_ok (initialize_body device \<lparr>ctables = [t]\<rparr> cat) \<longleftrightarrow> columns_fit t cat \<and> device_fits device cat"
    and "initialize_body device \<lparr>ctables = [t]\<rparr> cat = Inr cat' \<Longrightarrow>
      initialised t cat' \<and> catalog_sane (tname t) cat' \<and> (\<exists>clock. cat_device cat' = Some (device, clock)) \<and>
      (cat_device cat = None \<longrightarrow> cat_device cat' = Some (device, 0)) \<and> (cat_device cat \<noteq> None \<longrightarrow> cat_device cat' = cat_device cat) \<and>
      initialize_body device \<lparr>ctables = [t]\<rparr> cat' = Inr cat'"
proof -
  have valid: "valid_table t" using t by (simp add: named_apart_def)
  have step: "\<exists>c2 c3. foldM run_stmt (schema_of t) c1 = Inr c2 \<and> migrate_client_metadata c2 = Inr c3 \<and>
      cat_device c3 = cat_device cat" if "migrate_table t cat = Inr c1" for c1
    using schema_total [OF valid, of c1] migrated_schema [OF sane t that] metadata_migrated by metis
  show "is_ok (initialize_body device \<lparr>ctables = [t]\<rparr> cat) \<longleftrightarrow> columns_fit t cat \<and> device_fits device cat"
  proof (cases "migrate_table t cat")
    case (Inl e)
    then show ?thesis using migrate_step(1) [OF sane valid] by (simp add: initialize_body_single)
  next
    case (Inr c1)
    then obtain c2 c3 where "foldM run_stmt (schema_of t) c1 = Inr c2" "migrate_client_metadata c2 = Inr c3"
      "cat_device c3 = cat_device cat"
      using step by blast
    then show ?thesis
      using Inr migrate_step(1) [OF sane valid] bind_device_iff [of device c3]
      by (simp add: initialize_body_single device_fits_def)
  qed
  assume "initialize_body device \<lparr>ctables = [t]\<rparr> cat = Inr cat'"
  then obtain c1 c2 c3 where run: "migrate_table t cat = Inr c1" "foldM run_stmt (schema_of t) c1 = Inr c2"
    "migrate_client_metadata c2 = Inr c3" "bind_device device c3 = Inr cat'"
    by (auto simp: initialize_body_single)
  have c2: "initialised t c2" "catalog_sane (tname t) c2" "cat_device c2 = cat_device cat"
    using migrated_schema [OF sane t run(1,2)] by blast+
  have c3: "metadata_ready c3" "cat_triggers c3 = cat_triggers c2" "cat_device c3 = cat_device c2"
    "\<forall>n. n \<notin> set metadata_tables \<longrightarrow> cat_tables c3 n = cat_tables c2 n" "\<forall>n. cat_tables c2 n \<noteq> None \<longrightarrow> cat_tables c3 n \<noteq> None"
    using metadata_migrated [of c2] run(3) by (metis sum.inject(2))+
  note b = bind_device_Inr [OF run(4)]
  have same: "cat_tables cat' (tname t) = cat_tables c2 (tname t)" "cat_tables cat' (crdt_table t) = cat_tables c2 (crdt_table t)"
    "cat_triggers cat' = cat_triggers c2"
    using b c3(2,4) t log_named_apart(1) by (auto simp: named_apart_def)
  have ready: "initialised t cat'" "catalog_sane (tname t) cat'" using initialised_cong [OF same] c2 by simp_all
  have "exists_already cat' s" if "exists_already c2 s" for s
    using that b c3(2,5) by (auto simp: exists_already_def split: sql_stmt.splits)
  then have "foldM run_stmt (schema_of t) cat' = Inr cat'"
    using run_stmts_exist schema_step(6) [OF t run(2)] by blast
  moreover have "metadata_ready cat'"
    using c3(1) b by (simp add: metadata_ready_def exists_already_def sqlite_existing_columns_def scope_tables_def)
  moreover have "bind_device device cat' = Inr cat'" using b by (auto simp: bind_device_def)
  ultimately have "initialize_body device \<lparr>ctables = [t]\<rparr> cat' = Inr cat'"
    using migrate_again [OF ready valid] metadata_ready_again by (simp add: initialize_body_single)
  then show "initialised t cat' \<and> catalog_sane (tname t) cat' \<and> (\<exists>clock. cat_device cat' = Some (device, clock)) \<and>
      (cat_device cat = None \<longrightarrow> cat_device cat' = Some (device, 0)) \<and> (cat_device cat \<noteq> None \<longrightarrow> cat_device cat' = cat_device cat) \<and>
      initialize_body device \<lparr>ctables = [t]\<rparr> cat' = Inr cat'"
    using ready b c2(3) c3(3) by auto
qed

subsection \<open>Databases over time\<close>

text \<open>The databases that come about when a fresh file is opened with any versions of a table, by any device.\<close>

inductive opened :: "string \<Rightarrow> catalog \<Rightarrow> bool" for n where
  opened_new: "opened n empty_catalog"
| opened_next: "opened n cat \<Longrightarrow> named_apart t \<Longrightarrow> tname t = n \<Longrightarrow> open_with device t cat = (cat', r) \<Longrightarrow> opened n cat'"

lemma opened_sane: "opened n cat \<Longrightarrow> catalog_sane n cat"
proof (induction rule: opened.induct)
  case opened_new
  show ?case by (simp add: catalog_sane_def empty_catalog_def)
next
  case (opened_next cat t device cat' r)
  then have valid: "valid_table t" by (simp add: named_apart_def)
  show ?case
    using opened_next open_body_outcome(2) [of t cat device cat'] open_with_body [OF valid, of device cat]
    by (auto split: if_splits sum.splits)
qed


text \<open>The names of the scope tables are not reserved. A client whose table is called \<open>loomabase_scope_state\<close> opens its
  database once; the metadata migration then adds a column to the application table, and every later opening
  is refused because of it.\<close>

lemma scope_table_name_breaks:
  "\<exists>t cat' e. table_new (tname t) (tcolumns t) = Inr t \<and> open_with ''a'' t empty_catalog = (cat', Inr ()) \<and>
     open_with ''a'' t cat' = (cat', Inl e)"
proof -
  let ?t = "todos_table\<lparr>tname := ''loomabase_scope_state''\<rparr>"
  let ?n = "''loomabase_scope_state''" and ?m = "column_map_of (app_columns ?t)"
  have new: "table_new (tname ?t) (tcolumns ?t) = Inr ?t" by code_simp
  then have valid: "valid_table ?t" by (simp add: table_new_iff)
  have dev: "identifier_ok ''a''" by code_simp
  have c1: "migrate_table ?t empty_catalog = Inr empty_catalog"
    by (simp add: migrate_table_def sqlite_existing_columns_def empty_catalog_def)
  obtain c2 where c2: "foldM run_stmt (schema_of ?t) empty_catalog = Inr c2" using schema_total [OF valid] by blast
  have e2: "cat_tables c2 ?n = Some ?m" "cat_device c2 = None"
    using run_stmts_effect [OF c2]
    by (simp_all add: empty_catalog_def schema_created client_state_table_def cursor_table_def map_add_def)
  define d where "d = (\<lambda>a b c. if a then add_text_column ''loomabase_cursor'' b ''TEXT'' c else c)"
  have d: "cat_tables (d a b c) ?n = cat_tables c ?n" "cat_device (d a b c) = cat_device c" for a b c by (simp_all add: d_def)
  define cur where "cur = sqlite_existing_columns c2 ''loomabase_cursor''"
  let ?c2 = "d (cur \<noteq> [] \<and> bt_get cur ''server_epoch'' = None) ''server_epoch''
      (d (cur \<noteq> [] \<and> bt_get cur ''cursor_token'' = None) ''cursor_token'' c2)"
  obtain c3 where c3: "foldM run_stmt scope_tables ?c2 = Inr c3" using scope_total by blast
  have e3: "cat_tables c3 ?n = Some ?m" "cat_device c3 = None"
    using run_stmts_effect [OF c3] e2 by (simp_all add: map_add_def d)
  have keys: "set (bt_keys ?m) = {''id'', ''title'', ''completed'', ''deleted''}"
    using fresh_columns [OF valid]
    by (auto simp: synchronized_column_names_def synchronized_columns_def todos_table_def column_names)
  then have "bt_get (sqlite_existing_columns c3 ?n) ''active'' = None"
    using e3(1) by (simp add: sqlite_existing_columns_def bt_get_None del: bt_get_None [symmetric])
  then have meta: "migrate_client_metadata c2 = Inr (add_text_column ?n ''active'' ''INTEGER'' c3)"
    unfolding migrate_client_metadata_def Let_def cur_def [symmetric]
    using c3 by (simp add: d_def)
  let ?c = "(add_text_column ?n ''active'' ''INTEGER'' c3)\<lparr>cat_device := Some (''a'', 0)\<rparr>"
  have "initialize_body ''a'' \<lparr>ctables = [?t]\<rparr> empty_catalog = Inr ?c"
    unfolding initialize_body_single c1 rbind_simps c2 meta by (simp add: bind_device_def e3)
  then have first: "open_with ''a'' ?t empty_catalog = (?c, Inr ())" by (simp add: open_with_body [OF valid] dev)
  have tab: "cat_tables ?c (tname ?t) = Some (bt_insert ''active'' ''INTEGER'' ?m)"
    using e3(1) by (simp add: sqlite_existing_columns_def)
  have "\<not> compatible sqlite_type [PRIMARY_KEY_COLUMN] ?t (bt_insert ''active'' ''INTEGER'' ?m)"
  proof
    assume "compatible sqlite_type [PRIMARY_KEY_COLUMN] ?t (bt_insert ''active'' ''INTEGER'' ?m)"
    then have "insert ''active'' (set (bt_keys ?m)) \<subseteq> set [PRIMARY_KEY_COLUMN] \<union> cname ` set (synchronized_columns ?t)"
      by (simp only: compatible_def bt_keys_insert)
    then show False by (simp add: synchronized_columns_def todos_table_def column_names)
  qed
  moreover have "''id'' \<in> set (bt_keys (bt_insert ''active'' ''INTEGER'' ?m))" unfolding bt_keys_insert keys by simp
  ultimately have "migrate_table ?t ?c \<noteq> Inr x" for x
    using migrate_table_iff [OF tab _ valid, of x] by blast
  then obtain e where "migrate_table ?t ?c = Inl e" by (cases "migrate_table ?t ?c") auto
  then have "open_with ''a'' ?t ?c = (?c, Inl e)" by (simp add: open_with_body [OF valid] dev initialize_body_single)
  with new first show ?thesis by blast
qed

text \<open>A version that adds columns fits the database of the version before.\<close>

lemma added_columns_fit:
  assumes "initialised t cat" "tname t' = tname t" "valid_table t'"
    and more: "set (synchronized_columns t) \<subseteq> set (synchronized_columns t')"
  shows "columns_fit t' cat"
proof -
  obtain m where m: "cat_tables cat (tname t) = Some m" "up_to_date sqlite_type [PRIMARY_KEY_COLUMN] t m"
    using assms(1) by (auto simp: initialised_def)
  have keys: "set (bt_keys m) \<subseteq> set [PRIMARY_KEY_COLUMN] \<union> cname ` set (synchronized_columns t)"
    and types: "\<And>c. c \<in> set (synchronized_columns t) \<Longrightarrow>
      case bt_get m (cname c) of None \<Rightarrow> False | Some d \<Rightarrow> eq_ignore_ascii_case d (sqlite_type (cty c))"
    using m(2) unfolding up_to_date_def by blast+
  have "case bt_get m (cname c) of None \<Rightarrow> True | Some d \<Rightarrow> eq_ignore_ascii_case d (sqlite_type (cty c))"
    if c: "c \<in> set (synchronized_columns t')" for c
  proof (cases "bt_get m (cname c)")
    case (Some d)
    then have "cname c \<in> set (bt_keys m)" by (metis bt_get_None option.distinct(1))
    moreover have "cname c \<noteq> ''id''" using id_not_synchronized [OF assms(3)] c by (metis image_eqI)
    ultimately obtain b where b: "b \<in> set (synchronized_columns t)" "cname b = cname c"
      using keys by (auto simp: column_names)
    have "inj_on cname (set (synchronized_columns t'))"
      using app_columns_distinct [OF assms(3)] by (simp add: app_columns_names distinct_map)
    then have "b = c" using b more c by (meson inj_onD subsetD)
    with types [OF b(1)] Some show ?thesis by simp
  qed simp
  moreover have "set (bt_keys m) \<subseteq> set [PRIMARY_KEY_COLUMN] \<union> cname ` set (synchronized_columns t')"
    using keys more by blast
  ultimately show ?thesis using m(1) assms(2) unfolding columns_fit_def compatible_def by simp
qed


end
