(* ===== verification/Pg_Init.thy ===== *)
theory Pg_Init
  imports Sqlite_Init
begin

section \<open>The schema of the PostgreSQL server (schema.rs, server.rs)\<close>

text \<open>
  The generated PostgreSQL schema and row-level-security statements with their text, what they do to the
  catalog of a database, and \<open>initialize_server_schema_with\<close>. The catalog has the relations (tables,
  sequences and indexes share one name space, and PostgreSQL cuts names to 63 bytes), the row-level security
  of tables, and the data that the statements touch: the sequence numbers of a change log, the epoch, and
  the tokens of cursor leases. Constraints and defaults are part of the text only. Shown: after a successful
  run the tenant-keyed tables have exactly the isolating policy, whatever policy had its name before.
\<close>

subsection \<open>Statements and their text\<close>

datatype pg_expr = Tenant_Matches | Other_Expr string

datatype pg_stmt =
    PgSequence string
  | PgTable string "sql_column list" "string list"
  | PgIndex string string "(string \<times> string) list"
  | PgInsertEpoch
  | PgAddColumn string sql_column
  | PgFillSeq string
  | PgFillLeases
  | PgNotNull string string
  | PgDefault string string string
  | PgEnableRls string
  | PgForceRls string
  | PgDropPolicy string
  | PgCreatePolicy string

definition TENANT_POLICY :: string where
  "TENANT_POLICY = ''loomabase_tenant_isolation''"

definition tenant_expr_sql :: string where
  "tenant_expr_sql = ''(tenant_id = current_setting('' @ squoted ''loomabase.tenant_id'' @ '', true))''"

definition postgres_column :: "column_def \<Rightarrow> sql_column" where
  "postgres_column c = (cname c, postgres_type (cty c), '' NOT NULL DEFAULT '' @ postgres_default (cty c))"

lemma column_sql_postgres: "column_sql (postgres_column c) = postgres_column_ddl c"
  by (simp add: column_sql_def postgres_column_def postgres_column_ddl_def)

text \<open>The text of a statement, without the semicolon behind it. The statements of \<open>lease_migration\<close>, which the code
  writes as one literal, are shown without its indentation.\<close>

fun pg_sql :: "pg_stmt \<Rightarrow> string" where
  "pg_sql (PgSequence n) = ''CREATE SEQUENCE IF NOT EXISTS '' @ n"
| "pg_sql (PgTable n cols constraints) =
     ''CREATE TABLE IF NOT EXISTS '' @ n @ '' ('' @ nl @ indent @
     join ('','' @ nl @ indent) (map column_sql cols @ constraints) @ nl @ '')''"
| "pg_sql (PgIndex n tbl cols) =
     ''CREATE INDEX IF NOT EXISTS '' @ n @ nl @ indent @ ''ON '' @ tbl @ ''('' @ join '', '' (map (\<lambda>(c, order). c @ order) cols) @ '')''"
| "pg_sql PgInsertEpoch =
     ''INSERT INTO loomabase_server_state(singleton, server_epoch)'' @ nl @
     ''VALUES (TRUE, gen_random_uuid()::text)'' @ nl @ ''ON CONFLICT(singleton) DO NOTHING''"
| "pg_sql (PgAddColumn n c) = ''ALTER TABLE '' @ n @ '' ADD COLUMN IF NOT EXISTS '' @ column_sql c"
| "pg_sql (PgFillSeq n) =
     ''UPDATE '' @ n @ '' SET seq = nextval('' @ squoted ''loomabase_seq'' @ '') WHERE seq IS NULL''"
| "pg_sql PgFillLeases =
     ''UPDATE loomabase_cursor_lease SET cursor_token = COALESCE(cursor_token, gen_random_uuid()::text), '' @
     ''server_epoch = COALESCE(server_epoch, (SELECT server_epoch FROM loomabase_server_state WHERE singleton)), '' @
     ''last_seen_at = COALESCE(last_seen_at, clock_timestamp())''"
| "pg_sql (PgNotNull n c) = ''ALTER TABLE '' @ n @ '' ALTER COLUMN '' @ c @ '' SET NOT NULL''"
| "pg_sql (PgDefault n c d) = ''ALTER TABLE '' @ n @ '' ALTER COLUMN '' @ c @ '' SET DEFAULT '' @ d"
| "pg_sql (PgEnableRls n) = ''ALTER TABLE '' @ n @ '' ENABLE ROW LEVEL SECURITY''"
| "pg_sql (PgForceRls n) = ''ALTER TABLE '' @ n @ '' FORCE ROW LEVEL SECURITY''"
| "pg_sql (PgDropPolicy n) = ''DROP POLICY IF EXISTS '' @ TENANT_POLICY @ '' ON '' @ n"
| "pg_sql (PgCreatePolicy n) =
     ''CREATE POLICY '' @ TENANT_POLICY @ '' ON '' @ n @ nl @ indent @ ''USING '' @ tenant_expr_sql @ nl @
     indent @ ''WITH CHECK '' @ tenant_expr_sql"

subsection \<open>The schema of a table\<close>

definition state_table :: pg_stmt where
  "state_table = PgTable ''loomabase_state''
     [(''tenant_id'', ''TEXT'', '' PRIMARY KEY''),
      (''lamport_clock'', ''BIGINT'', '' NOT NULL CHECK (lamport_clock >= 0)'')] []"

definition lease_table :: pg_stmt where
  "lease_table = PgTable ''loomabase_cursor_lease''
     [(''tenant_id'', ''TEXT'', '' NOT NULL''), (''device_id'', ''TEXT'', '' NOT NULL''), (''crdt_table'', ''TEXT'', '' NOT NULL''),
      (''max_issued_cursor'', ''BIGINT'', '' NOT NULL CHECK (max_issued_cursor >= 0)''),
      (''cursor_token'', ''TEXT'', '' NOT NULL DEFAULT gen_random_uuid()::text''), (''server_epoch'', ''TEXT'', '' NOT NULL''),
      (''last_seen_at'', ''TIMESTAMPTZ'', '' NOT NULL DEFAULT clock_timestamp()'')]
     [''PRIMARY KEY (tenant_id, device_id, crdt_table)'']"

definition server_state_table :: pg_stmt where
  "server_state_table = PgTable ''loomabase_server_state''
     [(''singleton'', ''BOOLEAN'', '' PRIMARY KEY DEFAULT TRUE CHECK (singleton)''), (''server_epoch'', ''TEXT'', '' NOT NULL'')] []"

definition audit_table :: pg_stmt where
  "audit_table = PgTable ''loomabase_audit_log''
     [(''audit_id'', ''TEXT'', '' PRIMARY KEY DEFAULT gen_random_uuid()::text''), (''tenant_id'', ''TEXT'', '' NOT NULL''),
      (''table_name'', ''TEXT'', '' NOT NULL''), (''todo_id'', ''TEXT'', '' NOT NULL''), (''column_name'', ''TEXT'', '' NOT NULL''),
      (''device_id'', ''TEXT'', '' NOT NULL''), (''outcome'', ''TEXT'', '' NOT NULL''), (''reason'', ''TEXT'', '' NOT NULL''),
      (''incoming_value'', ''JSONB'', '' NOT NULL''),
      (''incoming_lamport'', ''BIGINT'', '' NOT NULL CHECK (incoming_lamport >= 0)''),
      (''incoming_device_id'', ''TEXT'', '' NOT NULL''), (''current_value'', ''JSONB'', []),
      (''current_lamport'', ''BIGINT'', '' CHECK (current_lamport IS NULL OR current_lamport >= 0)''),
      (''current_device_id'', ''TEXT'', []), (''created_at'', ''TIMESTAMPTZ'', '' NOT NULL DEFAULT clock_timestamp()'')] []"

definition server_app_table :: "table_def \<Rightarrow> pg_stmt" where
  "server_app_table t = PgTable (tname t)
     ((''tenant_id'', ''TEXT'', '' NOT NULL'') # (''id'', ''TEXT'', '' NOT NULL'') #
      map postgres_column (tcolumns t @ [\<lparr>cname = LIVENESS_COLUMN, cty = TyBoolean\<rparr>]))
     [''PRIMARY KEY (tenant_id, id)'']"

definition server_log_columns :: "sql_column list" where
  "server_log_columns =
     [(''tenant_id'', ''TEXT'', '' NOT NULL''), (''todo_id'', ''TEXT'', '' NOT NULL''), (''column_name'', ''TEXT'', '' NOT NULL''),
      (''value'', ''JSONB'', '' NOT NULL''), (''lamport_clock'', ''BIGINT'', '' NOT NULL CHECK (lamport_clock >= 0)''),
      (''device_id'', ''TEXT'', '' NOT NULL''),
      (''seq'', ''BIGINT'', '' NOT NULL DEFAULT nextval('' @ squoted ''loomabase_seq'' @ '')'')]"

definition server_log_table :: "table_def \<Rightarrow> pg_stmt" where
  "server_log_table t = PgTable (crdt_table t) server_log_columns
     [''PRIMARY KEY(tenant_id, todo_id, column_name)'',
      ''FOREIGN KEY (tenant_id, todo_id) REFERENCES '' @ tname t @ ''(tenant_id, id) ON DELETE CASCADE'']"

definition metadata_stmts :: "pg_stmt list" where
  "metadata_stmts =
     [state_table, lease_table, server_state_table, PgInsertEpoch, audit_table,
      PgIndex ''loomabase_audit_log_tenant_created_idx'' ''loomabase_audit_log'' [(''tenant_id'', []), (''created_at'', '' DESC'')],
      PgIndex ''loomabase_audit_log_cell_idx'' ''loomabase_audit_log''
        [(''tenant_id'', []), (''table_name'', []), (''todo_id'', []), (''column_name'', []), (''created_at'', '' DESC'')],
      PgSequence ''loomabase_seq'']"

definition log_stmts :: "table_def \<Rightarrow> pg_stmt list" where
  "log_stmts t =
     [server_log_table t,
      PgIndex (crdt_table t @ ''_clock_idx'') (crdt_table t) [(''tenant_id'', []), (''lamport_clock'', []), (''device_id'', [])],
      PgIndex (crdt_table t @ ''_seq_idx'') (crdt_table t) [(''tenant_id'', []), (''seq'', [])]]"

definition postgres_schema_stmts :: "table_def \<Rightarrow> pg_stmt list" where
  "postgres_schema_stmts t = metadata_stmts @ server_app_table t # log_stmts t"

definition terminated :: "pg_stmt \<Rightarrow> string" where
  "terminated s = pg_sql s @ '';'' @ nl"

definition postgres_schema :: "table_def \<Rightarrow> string" where
  "postgres_schema t =
     nl @ concat (map terminated metadata_stmts) @ nl @ terminated (server_app_table t) @
     nl @ concat (map terminated (log_stmts t))"

definition rls_stmts :: "string \<Rightarrow> pg_stmt list" where
  "rls_stmts n = [PgEnableRls n, PgForceRls n, PgDropPolicy n, PgCreatePolicy n]"

definition postgres_rls :: "string \<Rightarrow> string" where
  "postgres_rls n = nl @ concat (map terminated (rls_stmts n))"

definition tenant_tables :: "table_def \<Rightarrow> string list" where
  "tenant_tables t =
     [''loomabase_state'', ''loomabase_cursor_lease'', ''loomabase_audit_log'', tname t, crdt_table t]"

definition postgres_rls_policies :: "table_def \<Rightarrow> string" where
  "postgres_rls_policies t = concat (map postgres_rls (tenant_tables t))"

text \<open>The migrations as statements; their texts are those of \<open>postgres_migration_sql\<close> and
  \<open>postgres_crdt_migration_sql\<close>.\<close>

fun pg_ddl :: "ddl \<Rightarrow> pg_stmt list" where
  "pg_ddl (PostgresAddColumn n c) = [PgAddColumn n (postgres_column c)]"
| "pg_ddl _ = []"

definition crdt_migration_stmts :: "table_def \<Rightarrow> pg_stmt list" where
  "crdt_migration_stmts t =
     [PgAddColumn (crdt_table t) (''seq'', ''BIGINT'', []), PgFillSeq (crdt_table t), PgNotNull (crdt_table t) ''seq'',
      PgDefault (crdt_table t) ''seq'' (''nextval('' @ squoted ''loomabase_seq'' @ '')'')]"

definition pg_crdt_migration :: "table_def \<Rightarrow> column_map \<Rightarrow> sync_error + pg_stmt list" where
  "pg_crdt_migration t existing =
     (if existing = [] then Inr []
      else if (case bt_get existing ''seq'' of
                 Some declared \<Rightarrow> \<not> eq_ignore_ascii_case declared ''bigint'' | None \<Rightarrow> False)
      then Inl (incompatible_type_change ''seq'')
      else Inr (crdt_migration_stmts t))"

lemma crdt_migration_text:
  "postgres_crdt_migration_sql t existing = rbind (pg_crdt_migration t existing) (\<lambda>ss. Inr (map pg_sql ss))"
  by (simp add: postgres_crdt_migration_sql_def pg_crdt_migration_def crdt_migration_stmts_def Let_def column_sql_def squoted_def)

lemma migration_text:
  assumes "postgres_migration t existing = Inr ds"
  shows "map ddl_sql ds = map pg_sql (concat (map pg_ddl ds))"
proof -
  have "map ddl_sql (map (PostgresAddColumn n) cs) = map pg_sql (concat (map pg_ddl (map (PostgresAddColumn n) cs)))" for n cs
    by (induction cs) (simp_all add: column_sql_postgres)
  then show ?thesis using assms by (simp add: postgres_migration_iff)
qed

definition lease_migration :: "pg_stmt list" where
  "lease_migration =
     (let n = ''loomabase_cursor_lease'' in
      [PgAddColumn n (''cursor_token'', ''TEXT'', []), PgAddColumn n (''server_epoch'', ''TEXT'', []),
       PgAddColumn n (''last_seen_at'', ''TIMESTAMPTZ'', []), PgFillLeases,
       PgNotNull n ''cursor_token'', PgNotNull n ''server_epoch'', PgNotNull n ''last_seen_at'',
       PgDefault n ''cursor_token'' ''gen_random_uuid()::text'', PgDefault n ''last_seen_at'' ''clock_timestamp()''])"

subsection \<open>The catalog and what the statements do to it\<close>

datatype pg_relation = Rel_Table column_map | Rel_Sequence | Rel_Index

record lease_row =
  lr_token :: "string option"
  lr_epoch :: "string option"
  lr_seen :: "int option"

text \<open>\<open>pc_rls\<close>: enabled and forced; \<open>pc_policies\<close>: by table and name, the USING and the WITH CHECK expression;
  \<open>pc_next\<close>: the last value of the sequence; \<open>pc_seqs\<close>: the column \<open>seq\<close> of the rows of a change log, null in rows of
  an older release; \<open>pc_epoch\<close>: the row of \<open>loomabase_server_state\<close>.\<close>

record pg_catalog =
  pc_rels :: "string \<rightharpoonup> pg_relation"
  pc_rls :: "string \<Rightarrow> bool \<times> bool"
  pc_policies :: "string \<Rightarrow> string \<rightharpoonup> pg_expr \<times> pg_expr"
  pc_next :: int
  pc_seqs :: "string \<Rightarrow> int option list"
  pc_epoch :: "string option"
  pc_leases :: "lease_row list"

text \<open>What the statements take from the server: \<open>gen_random_uuid\<close> and the time.\<close>

record init_env =
  ie_uuid :: "nat \<Rightarrow> string"
  ie_epoch :: string
  ie_now :: int

definition NAME_BYTES :: nat where "NAME_BYTES = 63"

definition pg_ident :: "string \<Rightarrow> string" where
  "pg_ident n = take NAME_BYTES n"

text \<open>\<open>data_type\<close> of \<open>information_schema.columns\<close>.\<close>

definition data_type :: "string \<Rightarrow> string" where
  "data_type ty = (if ty = ''TIMESTAMPTZ'' then ''timestamp with time zone'' else map ascii_lower ty)"

definition pg_columns_of :: "sql_column list \<Rightarrow> column_map" where
  "pg_columns_of cols = column_map_of (map (\<lambda>(n, ty, r). (n, data_type ty, r)) cols)"

definition pg_table :: "pg_catalog \<Rightarrow> string \<Rightarrow> column_map option" where
  "pg_table cat n = (case pc_rels cat (pg_ident n) of Some (Rel_Table m) \<Rightarrow> Some m | _ \<Rightarrow> None)"

definition has_column :: "pg_catalog \<Rightarrow> string \<Rightarrow> string \<Rightarrow> bool" where
  "has_column cat n c \<longleftrightarrow> (case pg_table cat n of None \<Rightarrow> False | Some m \<Rightarrow> c \<in> set (bt_keys m))"

text \<open>\<open>CREATE ... IF NOT EXISTS\<close> skips a name that any relation has.\<close>

definition create_rel :: "string \<Rightarrow> pg_relation \<Rightarrow> pg_catalog \<Rightarrow> pg_catalog" where
  "create_rel n r cat =
     (if pc_rels cat (pg_ident n) = None then cat\<lparr>pc_rels := (pc_rels cat)(pg_ident n \<mapsto> r)\<rparr> else cat)"

fun fill_seqs :: "int \<Rightarrow> int option list \<Rightarrow> int option list" where
  "fill_seqs n [] = []"
| "fill_seqs n (Some i # xs) = Some i # fill_seqs n xs"
| "fill_seqs n (None # xs) = Some (n + 1) # fill_seqs (n + 1) xs"

definition null_count :: "'a option list \<Rightarrow> nat" where
  "null_count xs = length (filter (\<lambda>x. x = None) xs)"

definition fill_lease :: "init_env \<Rightarrow> string option \<Rightarrow> nat \<Rightarrow> lease_row \<Rightarrow> lease_row" where
  "fill_lease ie epoch i l =
     \<lparr>lr_token = Some (case lr_token l of None \<Rightarrow> ie_uuid ie i | Some v \<Rightarrow> v),
      lr_epoch = (case lr_epoch l of None \<Rightarrow> epoch | Some v \<Rightarrow> Some v),
      lr_seen = Some (case lr_seen l of None \<Rightarrow> ie_now ie | Some v \<Rightarrow> v)\<rparr>"

definition column_nulls :: "pg_catalog \<Rightarrow> string \<Rightarrow> string \<Rightarrow> bool" where
  "column_nulls cat n c \<longleftrightarrow>
     (if c = ''seq'' then None \<in> set (pc_seqs cat (pg_ident n))
      else if n = ''loomabase_cursor_lease''
      then (c = ''cursor_token'' \<and> None \<in> lr_token ` set (pc_leases cat)) \<or> (c = ''server_epoch'' \<and> None \<in> lr_epoch ` set (pc_leases cat)) \<or>
           (c = ''last_seen_at'' \<and> None \<in> lr_seen ` set (pc_leases cat))
      else False)"

text \<open>Whether a statement succeeds, and its effect.\<close>

fun can_run :: "pg_catalog \<Rightarrow> pg_stmt \<Rightarrow> bool" where
  "can_run cat (PgSequence n) = True"
| "can_run cat (PgTable n cols _) = (pc_rels cat (pg_ident n) \<noteq> None \<or> distinct (map fst cols))"
| "can_run cat (PgIndex n tbl cols) = (pg_table cat tbl \<noteq> None \<and> (\<forall>(c, _)\<in>set cols. has_column cat tbl c))"
| "can_run cat PgInsertEpoch = list_all (has_column cat ''loomabase_server_state'') [''singleton'', ''server_epoch'']"
| "can_run cat (PgAddColumn n _) = (pg_table cat n \<noteq> None)"
| "can_run cat (PgFillSeq n) =
     (has_column cat n ''seq'' \<and> (null_count (pc_seqs cat (pg_ident n)) = 0 \<or>
       pc_rels cat ''loomabase_seq'' = Some Rel_Sequence \<and> pc_next cat + int (null_count (pc_seqs cat (pg_ident n))) \<le> i64_MAX))"
| "can_run cat PgFillLeases =
     (has_column cat ''loomabase_server_state'' ''server_epoch'' \<and>
      list_all (has_column cat ''loomabase_cursor_lease'') [''cursor_token'', ''server_epoch'', ''last_seen_at''])"
| "can_run cat (PgNotNull n c) = (has_column cat n c \<and> \<not> column_nulls cat n c)"
| "can_run cat (PgDefault n c _) = has_column cat n c"
| "can_run cat (PgEnableRls n) = (pg_table cat n \<noteq> None)"
| "can_run cat (PgForceRls n) = (pg_table cat n \<noteq> None)"
| "can_run cat (PgDropPolicy n) = (pg_table cat n \<noteq> None)"
| "can_run cat (PgCreatePolicy n) = (has_column cat n ''tenant_id'' \<and> pc_policies cat (pg_ident n) TENANT_POLICY = None)"

fun stmt_effect :: "init_env \<Rightarrow> pg_stmt \<Rightarrow> pg_catalog \<Rightarrow> pg_catalog" where
  "stmt_effect ie (PgSequence n) cat =
     (if pc_rels cat (pg_ident n) = None then (create_rel n Rel_Sequence cat)\<lparr>pc_next := 0\<rparr> else cat)"
| "stmt_effect ie (PgTable n cols _) cat = create_rel n (Rel_Table (pg_columns_of cols)) cat"
| "stmt_effect ie (PgIndex n tbl cols) cat = create_rel n Rel_Index cat"
| "stmt_effect ie PgInsertEpoch cat = (if pc_epoch cat = None then cat\<lparr>pc_epoch := Some (ie_epoch ie)\<rparr> else cat)"
| "stmt_effect ie (PgAddColumn n (c, ty, _)) cat =
     (case pg_table cat n of
        None \<Rightarrow> cat
      | Some m \<Rightarrow>
          if c \<in> set (bt_keys m) then cat
          else cat\<lparr>pc_rels := (pc_rels cat)(pg_ident n \<mapsto> Rel_Table (bt_insert c (data_type ty) m))\<rparr>)"
| "stmt_effect ie (PgFillSeq n) cat =
     cat\<lparr>pc_seqs := (pc_seqs cat)(pg_ident n := fill_seqs (pc_next cat) (pc_seqs cat (pg_ident n))),
         pc_next := pc_next cat + int (null_count (pc_seqs cat (pg_ident n)))\<rparr>"
| "stmt_effect ie PgFillLeases cat = cat\<lparr>pc_leases := map2 (fill_lease ie (pc_epoch cat)) [0..<length (pc_leases cat)] (pc_leases cat)\<rparr>"
| "stmt_effect ie (PgNotNull _ _) cat = cat"
| "stmt_effect ie (PgDefault _ _ _) cat = cat"
| "stmt_effect ie (PgEnableRls n) cat = cat\<lparr>pc_rls := (pc_rls cat)(pg_ident n := (True, snd (pc_rls cat (pg_ident n))))\<rparr>"
| "stmt_effect ie (PgForceRls n) cat = cat\<lparr>pc_rls := (pc_rls cat)(pg_ident n := (fst (pc_rls cat (pg_ident n)), True))\<rparr>"
| "stmt_effect ie (PgDropPolicy n) cat =
     cat\<lparr>pc_policies := (pc_policies cat)(pg_ident n := (pc_policies cat (pg_ident n))(TENANT_POLICY := None))\<rparr>"
| "stmt_effect ie (PgCreatePolicy n) cat =
     cat\<lparr>pc_policies := (pc_policies cat)(pg_ident n := (pc_policies cat (pg_ident n))(TENANT_POLICY \<mapsto> (Tenant_Matches, Tenant_Matches)))\<rparr>"

text \<open>A failed statement reports how far the sequence has got: a rollback does not turn it back.\<close>

type_synonym 'a pg_run = "(sync_error \<times> int) + 'a"

definition seq_at_failure :: "pg_stmt \<Rightarrow> pg_catalog \<Rightarrow> int" where
  "seq_at_failure s cat =
     (case s of
        PgFillSeq n \<Rightarrow> if has_column cat n ''seq'' \<and> pc_rels cat ''loomabase_seq'' = Some Rel_Sequence then max (pc_next cat) i64_MAX else pc_next cat
      | _ \<Rightarrow> pc_next cat)"

definition run_pg :: "init_env \<Rightarrow> pg_stmt \<Rightarrow> pg_catalog \<Rightarrow> pg_catalog pg_run" where
  "run_pg ie s cat = (if can_run cat s then Inr (stmt_effect ie s cat) else Inl (Postgres ''statement failed'', seq_at_failure s cat))"

definition fail_at :: "pg_catalog \<Rightarrow> sync_error + 'a \<Rightarrow> 'a pg_run" where
  "fail_at cat r = map_sum (\<lambda>e. (e, pc_next cat)) (\<lambda>x. x) r"

subsection \<open>Initialization\<close>

text \<open>The query binds the name as a parameter, which PostgreSQL does not cut.\<close>

definition postgres_existing_columns :: "pg_catalog \<Rightarrow> string \<Rightarrow> column_map" where
  "postgres_existing_columns cat n = (case pc_rels cat n of Some (Rel_Table m) \<Rightarrow> m | _ \<Rightarrow> [])"

definition migrate_server_table :: "init_env \<Rightarrow> table_def \<Rightarrow> pg_catalog \<Rightarrow> pg_catalog pg_run" where
  "migrate_server_table ie t cat =
     (let existing = postgres_existing_columns cat (tname t) in
      if existing = [] then Inr cat
      else rbind (fail_at cat (postgres_migration t existing)) (\<lambda>ds. foldM (run_pg ie) (concat (map pg_ddl ds)) cat))"

definition migrate_server_log :: "init_env \<Rightarrow> table_def \<Rightarrow> pg_catalog \<Rightarrow> pg_catalog pg_run" where
  "migrate_server_log ie t cat =
     rbind (fail_at cat (pg_crdt_migration t (postgres_existing_columns cat (crdt_table t)))) (\<lambda>ss. foldM (run_pg ie) ss cat)"

definition server_schema_body :: "init_env \<Rightarrow> table_def \<Rightarrow> pg_catalog \<Rightarrow> pg_catalog pg_run" where
  "server_schema_body ie t cat =
     rbind (run_pg ie (PgSequence ''loomabase_seq'') cat) (\<lambda>cat.
     rbind (migrate_server_table ie t cat) (\<lambda>cat.
     rbind (migrate_server_log ie t cat) (\<lambda>cat.
     rbind (foldM (run_pg ie) (postgres_schema_stmts t) cat) (\<lambda>cat.
     rbind (foldM (run_pg ie) lease_migration cat) (\<lambda>cat.
     foldM (run_pg ie) (concat (map rls_stmts (tenant_tables t))) cat)))))"

definition initialize_server_schema_with :: "init_env \<Rightarrow> table_def \<Rightarrow> pg_catalog \<Rightarrow> pg_catalog \<times> (sync_error + unit)" where
  "initialize_server_schema_with ie t cat =
     (case server_schema_body ie t cat of
        Inl (e, n) \<Rightarrow> (if pc_rels cat ''loomabase_seq'' = Some Rel_Sequence then cat\<lparr>pc_next := n\<rparr> else cat, Inl e)
      | Inr cat' \<Rightarrow> (cat', Inr ()))"

definition initialize_server_schema :: "init_env \<Rightarrow> pg_catalog \<Rightarrow> pg_catalog \<times> (sync_error + unit)" where
  "initialize_server_schema ie = initialize_server_schema_with ie todos_table"

subsection \<open>Tenants are isolated\<close>

text \<open>What a session of the table owner sees of a row: \<open>setting\<close> is its \<open>loomabase.tenant_id\<close>, \<open>null\<close> when it was never
  set, and \<open>other\<close> decides expressions that are not ours.\<close>

fun admits :: "(string \<Rightarrow> string option \<Rightarrow> string \<Rightarrow> bool) \<Rightarrow> string option \<Rightarrow> string \<Rightarrow> pg_expr \<Rightarrow> bool" where
  "admits other setting tenant Tenant_Matches = (setting = Some tenant)"
| "admits other setting tenant (Other_Expr e) = other e setting tenant"

definition row_visible :: "(string \<Rightarrow> string option \<Rightarrow> string \<Rightarrow> bool) \<Rightarrow> pg_catalog \<Rightarrow> string \<Rightarrow> string option \<Rightarrow> string \<Rightarrow> bool" where
  "row_visible other cat n setting tenant \<longleftrightarrow>
     (pc_rls cat (pg_ident n) = (True, True) \<longrightarrow> (\<exists>p\<in>ran (pc_policies cat (pg_ident n)). admits other setting tenant (fst p)))"

lemma run_pg_Inr [simp]: "run_pg ie s cat = Inr c \<longleftrightarrow> can_run cat s \<and> c = stmt_effect ie s cat"
  by (auto simp: run_pg_def)

definition protect :: "string \<Rightarrow> pg_catalog \<Rightarrow> pg_catalog" where
  "protect n cat = cat\<lparr>pc_rls := (pc_rls cat)(pg_ident n := (True, True)),
     pc_policies := (pc_policies cat)(pg_ident n := (pc_policies cat (pg_ident n))(TENANT_POLICY \<mapsto> (Tenant_Matches, Tenant_Matches)))\<rparr>"

lemma protect_table [simp]: "pc_rels (protect n cat) = pc_rels cat"
  "pg_table (protect n cat) = pg_table cat" "has_column (protect n cat) = has_column cat"
  by (simp_all add: protect_def pg_table_def has_column_def fun_eq_iff)

lemma rls_one:
  "foldM (run_pg ie) (rls_stmts n) cat = Inr c \<longleftrightarrow> has_column cat n ''tenant_id'' \<and> c = protect n cat"
proof -
  have "has_column cat n ''tenant_id'' \<Longrightarrow> pg_table cat n \<noteq> None" by (auto simp: has_column_def split: option.splits)
  then show ?thesis by (auto simp: rls_stmts_def protect_def pg_table_def has_column_def)
qed

lemma rls_all:
  "foldM (run_pg ie) (concat (map rls_stmts ns)) cat = Inr c \<longleftrightarrow>
     (\<forall>n\<in>set ns. has_column cat n ''tenant_id'') \<and> c = fold protect ns cat"
proof (induction ns arbitrary: cat)
  case (Cons n ns)
  show ?case by (auto simp: foldM_append rls_one Cons.IH)
qed auto

lemma protected:
  "n \<in> pg_ident ` set ns \<Longrightarrow> pc_rls (fold protect ns cat) n = (True, True)"
  "pc_policies (fold protect ns cat) n =
     (if n \<in> pg_ident ` set ns then (pc_policies cat n)(TENANT_POLICY \<mapsto> (Tenant_Matches, Tenant_Matches)) else pc_policies cat n)"
proof -
  have "n \<in> pg_ident ` set ns \<or> pc_rls cat n = (True, True) \<Longrightarrow> pc_rls (fold protect ns cat) n = (True, True)"
    by (induction ns arbitrary: cat) (auto simp: protect_def)
  then show "n \<in> pg_ident ` set ns \<Longrightarrow> pc_rls (fold protect ns cat) n = (True, True)" by blast
  show "pc_policies (fold protect ns cat) n =
     (if n \<in> pg_ident ` set ns then (pc_policies cat n)(TENANT_POLICY \<mapsto> (Tenant_Matches, Tenant_Matches)) else pc_policies cat n)"
    by (induction ns arbitrary: cat) (auto simp: protect_def)
qed

lemma protect_frame:
  "pc_rels (fold protect ns cat) = pc_rels cat" "pc_next (fold protect ns cat) = pc_next cat"
  "pc_seqs (fold protect ns cat) = pc_seqs cat" "pc_epoch (fold protect ns cat) = pc_epoch cat"
  "pc_leases (fold protect ns cat) = pc_leases cat"
  by (induction ns arbitrary: cat) (simp_all add: protect_def)

text \<open>The other statements leave row-level security alone.\<close>

fun secures :: "pg_stmt \<Rightarrow> bool" where
  "secures (PgEnableRls _) = True"
| "secures (PgForceRls _) = True"
| "secures (PgDropPolicy _) = True"
| "secures (PgCreatePolicy _) = True"
| "secures _ = False"

lemma effect_security:
  "\<not> secures s \<Longrightarrow> pc_policies (stmt_effect ie s cat) = pc_policies cat \<and> pc_rls (stmt_effect ie s cat) = pc_rls cat"
  by (cases s) (auto simp: create_rel_def split: option.split prod.split)

lemma run_security:
  "foldM (run_pg ie) ss cat = Inr c \<Longrightarrow> \<forall>s\<in>set ss. \<not> secures s \<Longrightarrow> pc_policies c = pc_policies cat \<and> pc_rls c = pc_rls cat"
proof (induction ss arbitrary: cat)
  case (Cons s ss)
  then show ?case using effect_security [of s ie cat] by auto
qed simp

lemma fail_at_Inr [simp]: "fail_at cat r = Inr x \<longleftrightarrow> r = Inr x"
  by (cases r) (simp_all add: fail_at_def)

lemma migration_secures: "\<forall>s\<in>set (concat (map pg_ddl ds)). \<not> secures s"
proof
  fix s
  assume "s \<in> set (concat (map pg_ddl ds))"
  then obtain d where "s \<in> set (pg_ddl d)" by auto
  then show "\<not> secures s" by (cases d) auto
qed

lemma schema_secures:
  "\<forall>s\<in>set (postgres_schema_stmts t). \<not> secures s" "\<forall>s\<in>set lease_migration. \<not> secures s"
  "pg_crdt_migration t m = Inr ss \<Longrightarrow> \<forall>s\<in>set ss. \<not> secures s"
  by (auto simp: postgres_schema_stmts_def metadata_stmts_def log_stmts_def state_table_def lease_table_def server_state_table_def
      audit_table_def server_app_table_def server_log_table_def lease_migration_def Let_def pg_crdt_migration_def
      crdt_migration_stmts_def split: if_splits)

text \<open>The phases of a successful run.\<close>

lemma server_phases:
  assumes "server_schema_body ie t cat = Inr cat'"
  obtains c0 c1 c2 c3 c4 where "c0 = stmt_effect ie (PgSequence ''loomabase_seq'') cat"
    "migrate_server_table ie t c0 = Inr c1" "migrate_server_log ie t c1 = Inr c2"
    "foldM (run_pg ie) (postgres_schema_stmts t) c2 = Inr c3" "foldM (run_pg ie) lease_migration c3 = Inr c4"
    "\<forall>n\<in>set (tenant_tables t). has_column c4 n ''tenant_id''" "cat' = fold protect (tenant_tables t) c4"
  using assms unfolding server_schema_body_def by (auto simp: rls_all)

lemma phases_security:
  assumes "server_schema_body ie t cat = Inr cat'"
  obtains c4 where "\<forall>n\<in>set (tenant_tables t). has_column c4 n ''tenant_id''" "cat' = fold protect (tenant_tables t) c4"
    "pc_policies c4 = pc_policies cat"
  using assms
proof (rule server_phases)
  fix c0 c1 c2 c3 c4
  assume c: "c0 = stmt_effect ie (PgSequence ''loomabase_seq'') cat"
    "migrate_server_table ie t c0 = Inr c1" "migrate_server_log ie t c1 = Inr c2"
    "foldM (run_pg ie) (postgres_schema_stmts t) c2 = Inr c3" "foldM (run_pg ie) lease_migration c3 = Inr c4"
    "\<forall>n\<in>set (tenant_tables t). has_column c4 n ''tenant_id''" "cat' = fold protect (tenant_tables t) c4"
  have "pc_policies c0 = pc_policies cat" using effect_security [of "PgSequence ''loomabase_seq''" ie cat] unfolding c(1) by (simp del: stmt_effect.simps)
  moreover have "pc_policies c1 = pc_policies c0"
    using c(2) run_security [OF _ migration_secures] by (auto simp: migrate_server_table_def Let_def split: if_splits)
  moreover have "pc_policies c2 = pc_policies c1"
    using c(3) run_security schema_secures(3) by (auto simp: migrate_server_log_def)
  moreover have "pc_policies c3 = pc_policies c2" "pc_policies c4 = pc_policies c3"
    using run_security [OF c(4) schema_secures(1)] run_security [OF c(5) schema_secures(2)] by simp_all
  ultimately show thesis using that [OF c(6,7)] by simp
qed

text \<open>Property C20: whatever the database held before, after a successful initialization each of the five tenant-keyed
  tables has row-level security enabled and forced, its policy of our name compares the tenant of a row with
  the tenant of the session and replaces any policy that had the name, and where there is no other policy a
  session sees exactly the rows of its own tenant, and none when it never set a tenant.\<close>

theorem server_tables_isolated:
  assumes "initialize_server_schema_with ie t cat = (cat', Inr ())" "n \<in> set (tenant_tables t)"
  shows "pc_rls cat' (pg_ident n) = (True, True) \<and> has_column cat' n ''tenant_id'' \<and>
    pc_policies cat' (pg_ident n) = (pc_policies cat (pg_ident n))(TENANT_POLICY \<mapsto> (Tenant_Matches, Tenant_Matches)) \<and>
    (dom (pc_policies cat (pg_ident n)) \<subseteq> {TENANT_POLICY} \<longrightarrow> row_visible other cat' n setting tenant = (setting = Some tenant))"
proof -
  have "server_schema_body ie t cat = Inr cat'"
    using assms(1) by (auto simp: initialize_server_schema_with_def split: sum.splits prod.splits)
  then obtain c4 where c4: "\<forall>n\<in>set (tenant_tables t). has_column c4 n ''tenant_id''" "cat' = fold protect (tenant_tables t) c4"
    "pc_policies c4 = pc_policies cat"
    by (rule phases_security)
  have "has_column cat' n ''tenant_id''"
    using c4(1,2) assms(2) by (simp add: has_column_def pg_table_def protect_frame)
  moreover have pol: "pc_policies cat' (pg_ident n) = (pc_policies cat (pg_ident n))(TENANT_POLICY \<mapsto> (Tenant_Matches, Tenant_Matches))"
    using assms(2) by (simp add: c4(2,3) protected(2))
  moreover have rls: "pc_rls cat' (pg_ident n) = (True, True)" using assms(2) by (simp add: c4(2) protected(1))
  moreover have "ran (pc_policies cat' (pg_ident n)) = {(Tenant_Matches, Tenant_Matches)}"
    if "dom (pc_policies cat (pg_ident n)) \<subseteq> {TENANT_POLICY}"
    using that unfolding pol by (auto simp: ran_def)
  ultimately show ?thesis by (auto simp: row_visible_def)
qed

end
