(* ===== verification/Pg_Init_Correct.thy ===== *)
theory Pg_Init_Correct
  imports Pg_Init "HOL-Library.Sublist"
begin

section \<open>Initializing the server follows the contract\<close>

text \<open>
  When \<open>initialize_server_schema_with\<close> succeeds and what it leaves behind, on every database of this or an earlier
  release (\<open>server_sane\<close>). Each phase of a run has a closed form (\<open>with_sequence\<close>, \<open>migrated\<close>, \<open>numbered\<close>,
  \<open>with_schema\<close>, \<open>with_leases\<close>); \<open>ordered\<close> checks that a list of statements creates what later ones rely on. Then
  sample runs, and two contracts that are accepted and that the server cannot create.
\<close>

subsection \<open>Names\<close>

definition server_relations :: "string list" where
  "server_relations =
     [''loomabase_state'', ''loomabase_cursor_lease'', ''loomabase_server_state'', ''loomabase_audit_log'', ''loomabase_seq'',
      ''loomabase_audit_log_tenant_created_idx'', ''loomabase_audit_log_cell_idx'']"

text \<open>Tables whose names and columns do not collide with those of the server and whose log has an uncut name.\<close>

definition server_apart :: "table_def \<Rightarrow> bool" where
  "server_apart t \<longleftrightarrow>
     valid_table t \<and> length (tname t) \<le> 58 \<and> tname t \<notin> set server_relations \<and> ''tenant_id'' \<notin> cname ` set (tcolumns t)"

lemma ident_short [simp]: "length n \<le> 63 \<Longrightarrow> pg_ident n = n"
  by (simp add: pg_ident_def NAME_BYTES_def)

lemma log_name_apart: "crdt_table t \<notin> set server_relations" "crdt_table t \<noteq> tname t" "tname t \<noteq> crdt_table t"
proof -
  have "last (crdt_table t) = CHR ''t''" "crdt_table t ! (length (crdt_table t) - 2) = CHR ''d''"
    by (simp_all add: crdt_table_def nth_append)
  then show "crdt_table t \<notin> set server_relations" by (auto simp: server_relations_def)
qed (simp_all add: crdt_table_def)

lemma log_name_short: "server_apart t \<Longrightarrow> length (crdt_table t) \<le> 63"
  by (simp add: server_apart_def crdt_table_def)

lemma index_names_apart:
  assumes "server_apart t" "n \<in> set server_relations \<or> n = tname t"
  shows "pg_ident (crdt_table t @ x) \<noteq> n"
proof -
  have long: "pg_ident (crdt_table t @ x) = crdt_table t @ take (63 - length (crdt_table t)) x"
    using log_name_short [OF assms(1)] by (simp add: pg_ident_def NAME_BYTES_def)
  show ?thesis
  proof (cases "n = tname t")
    case True
    then show ?thesis unfolding long by (simp add: crdt_table_def)
  next
    case False
    then have n: "n \<in> set server_relations" using assms(2) by blast
    have "list_all (\<lambda>n. \<not> sublist ''_crdt'' n) server_relations" by code_simp
    then have "\<not> sublist ''_crdt'' n" using n by (simp add: list_all_iff)
    then show ?thesis unfolding long by (auto simp: crdt_table_def sublist_def)
  qed
qed

subsection \<open>Creating relations\<close>

fun creates :: "pg_stmt list \<Rightarrow> (string \<times> pg_relation) list" where
  "creates [] = []"
| "creates (PgTable n cols _ # ss) = (pg_ident n, Rel_Table (pg_columns_of cols)) # creates ss"
| "creates (PgIndex n _ _ # ss) = (pg_ident n, Rel_Index) # creates ss"
| "creates (_ # ss) = creates ss"

fun creating :: "pg_catalog \<Rightarrow> pg_stmt \<Rightarrow> bool" where
  "creating cat (PgTable _ _ _) = True"
| "creating cat (PgIndex _ _ _) = True"
| "creating cat PgInsertEpoch = True"
| "creating cat (PgSequence n) = (pc_rels cat (pg_ident n) \<noteq> None)"
| "creating cat _ = False"

definition epoch_of :: "init_env \<Rightarrow> pg_catalog \<Rightarrow> string" where
  "epoch_of ie cat = (case pc_epoch cat of None \<Rightarrow> ie_epoch ie | Some e \<Rightarrow> e)"

lemma create_rel_map_add: "create_rel n r cat = cat\<lparr>pc_rels := [pg_ident n \<mapsto> r] ++ pc_rels cat\<rparr>"
proof -
  have "[pg_ident n \<mapsto> r] ++ pc_rels cat = (if pc_rels cat (pg_ident n) = None then (pc_rels cat)(pg_ident n \<mapsto> r) else pc_rels cat)"
    by (auto simp: map_add_def fun_eq_iff split: option.split)
  then show ?thesis by (simp add: create_rel_def)
qed

lemma creating_mono: "creating cat s \<Longrightarrow> pc_rels cat \<subseteq>\<^sub>m pc_rels c \<Longrightarrow> creating c s"
  by (cases s) (auto simp: map_le_def dom_def)

lemma create_one:
  assumes "creating cat s"
  shows "stmt_effect ie s cat = cat\<lparr>pc_rels := map_of (creates [s]) ++ pc_rels cat,
    pc_epoch := if s = PgInsertEpoch then Some (epoch_of ie cat) else pc_epoch cat\<rparr>"
  using assms by (cases s) (auto simp: create_rel_map_add epoch_of_def split: option.split)

lemma creates_Cons: "map_of (creates (s # ss)) ++ m = map_of (creates ss) ++ (map_of (creates [s]) ++ m)"
proof -
  have "map_of (creates (s # ss)) = map_of (creates ss) ++ map_of (creates [s])" by (cases s) (simp_all add: fun_eq_iff map_add_def)
  then show ?thesis by simp
qed

lemma creates_effect:
  assumes "foldM (run_pg ie) ss cat = Inr c" "\<forall>s\<in>set ss. creating cat s"
  shows "c = cat\<lparr>pc_rels := map_of (creates ss) ++ pc_rels cat,
    pc_epoch := if PgInsertEpoch \<in> set ss then Some (epoch_of ie cat) else pc_epoch cat\<rparr>"
  using assms
proof (induction ss arbitrary: cat)
  case (Cons s ss)
  let ?c = "stmt_effect ie s cat"
  have mono: "pc_rels cat \<subseteq>\<^sub>m pc_rels ?c"
    using Cons.prems(2) by (cases s) (simp_all add: create_rel_map_add)
  have "foldM (run_pg ie) ss ?c = Inr c" using Cons.prems(1) by simp
  moreover have "\<forall>s\<in>set ss. creating ?c s" using Cons.prems(2) creating_mono [OF _ mono] by simp
  ultimately have "c = ?c\<lparr>pc_rels := map_of (creates ss) ++ pc_rels ?c,
    pc_epoch := if PgInsertEpoch \<in> set ss then Some (epoch_of ie ?c) else pc_epoch ?c\<rparr>" by (rule Cons.IH)
  moreover have "creating cat s" using Cons.prems(2) by simp
  moreover have rels: "map_of (creates (s # ss)) ++ pc_rels cat = map_of (creates ss) ++ (map_of (creates [s]) ++ pc_rels cat)"
    by (rule creates_Cons)
  ultimately show ?case using create_one [of cat s ie] unfolding rels by (auto simp: epoch_of_def simp del: creates.simps)
qed simp

text \<open>When such a list runs: \<open>W\<close> names the tables with the columns that later statements rely on, \<open>D\<close> those already there.\<close>

definition ready :: "pg_catalog \<Rightarrow> string \<times> string list \<Rightarrow> bool" where
  "ready cat w \<longleftrightarrow> pg_table cat (fst w) \<noteq> None \<and> (\<forall>c\<in>set (snd w). has_column cat (fst w) c)"

fun ordered :: "(string \<times> string list) set \<Rightarrow> (string \<times> string list) set \<Rightarrow> pg_stmt list \<Rightarrow> bool" where
  "ordered W D [] = True"
| "ordered W D (PgTable n cols _ # ss) =
     (distinct (map fst cols) \<and> (\<exists>w\<in>W. fst w = n \<and> set (snd w) \<subseteq> fst ` set cols \<and> ordered W (insert w D) ss))"
| "ordered W D (PgIndex n tbl cols # ss) =
     ((\<exists>w\<in>D. fst w = tbl \<and> fst ` set cols \<subseteq> set (snd w)) \<and> (\<forall>w\<in>W - D. pg_ident (fst w) \<noteq> pg_ident n) \<and> ordered W D ss)"
| "ordered W D (PgSequence n # ss) = ((\<forall>w\<in>W - D. pg_ident (fst w) \<noteq> pg_ident n) \<and> ordered W D ss)"
| "ordered W D (PgInsertEpoch # ss) =
     ((\<exists>w\<in>D. fst w = ''loomabase_server_state'' \<and> {''singleton'', ''server_epoch''} \<subseteq> set (snd w)) \<and> ordered W D ss)"
| "ordered W D _ = False"

definition fits :: "pg_catalog \<Rightarrow> string \<times> string list \<Rightarrow> bool" where
  "fits cat w \<longleftrightarrow> pc_rels cat (pg_ident (fst w)) = None \<or> ready cat w"

lemma ready_mono: "ready cat w \<Longrightarrow> pc_rels cat \<subseteq>\<^sub>m pc_rels c \<Longrightarrow> ready c w"
proof -
  assume r: "ready cat w" and le: "pc_rels cat \<subseteq>\<^sub>m pc_rels c"
  obtain m where "pg_table cat (fst w) = Some m" using r by (auto simp: ready_def)
  then have "pc_rels cat (pg_ident (fst w)) = Some (Rel_Table m)" by (auto simp: pg_table_def split: option.splits pg_relation.splits)
  then have "pc_rels c (pg_ident (fst w)) = Some (Rel_Table m)" using le by (auto simp: map_le_def dom_def)
  with \<open>pg_table cat (fst w) = Some m\<close> r show ?thesis by (simp add: ready_def has_column_def pg_table_def)
qed

lemma ready_new:
  assumes "pc_rels cat (pg_ident (fst w)) = Some (Rel_Table (pg_columns_of cols))" "set (snd w) \<subseteq> fst ` set cols" "distinct (map fst cols)"
  shows "ready cat w"
proof -
  have "set (bt_keys (pg_columns_of cols)) = fst ` set cols"
  proof -
    let ?cols = "map (\<lambda>(n, ty, r). (n, data_type ty, r)) cols"
    have names: "map fst ?cols = map fst cols" by (simp add: case_prod_beta o_def)
    have "set (bt_keys (column_map_of ?cols)) = dom (bt_get (column_map_of ?cols))" by (simp add: dom_map_of_conv_image_fst)
    also have "\<dots> = fst ` set ?cols"
      unfolding column_map_get [of ?cols, unfolded names, OF assms(3)] by (force simp: dom_map_of_conv_image_fst)
    also have "\<dots> = fst ` set cols" using names by (metis set_map)
    finally show ?thesis by (simp add: pg_columns_of_def)
  qed
  then show ?thesis using assms(1,2) by (auto simp: ready_def has_column_def pg_table_def)
qed

lemma create_rel_mono: "pc_rels cat \<subseteq>\<^sub>m pc_rels (create_rel n r cat)"
  by (simp add: create_rel_map_add)

lemma fits_create:
  assumes "fits cat w" "pg_ident (fst w) \<noteq> pg_ident n"
  shows "fits (create_rel n r cat) w"
proof -
  have "pc_rels (create_rel n r cat) (pg_ident (fst w)) = pc_rels cat (pg_ident (fst w))" using assms(2) by (simp add: create_rel_def)
  then show ?thesis using assms(1) ready_mono [OF _ create_rel_mono] unfolding fits_def by metis
qed

lemma ready_fits: "ready cat w \<Longrightarrow> fits cat w"
  by (simp add: fits_def)

lemma fits_create_later:
  "fits cat v \<Longrightarrow> ready cat v \<or> pg_ident (fst v) \<noteq> pg_ident n \<Longrightarrow> fits (create_rel n r cat) v"
  using fits_create ready_fits ready_mono [OF _ create_rel_mono] by blast

fun table_names :: "pg_stmt list \<Rightarrow> string set" where
  "table_names [] = {}"
| "table_names (PgTable n _ _ # ss) = insert n (table_names ss)"
| "table_names (_ # ss) = table_names ss"

lemma ordered_runs:
  assumes "ordered W D ss" "\<forall>w\<in>W. fits cat w" "\<forall>w\<in>D. ready cat w" "inj_on (pg_ident \<circ> fst) W"
  shows "\<exists>c. foldM (run_pg ie) ss cat = Inr c \<and> (\<forall>w\<in>W. w \<in> D \<or> fst w \<in> table_names ss \<longrightarrow> ready c w)"
  using assms
proof (induction W D ss arbitrary: cat rule: ordered.induct)
  case (2 W D n cols constraints ss)
  let ?c = "create_rel n (Rel_Table (pg_columns_of cols)) cat"
  obtain w where w: "w \<in> W" "fst w = n" "set (snd w) \<subseteq> fst ` set cols" "ordered W (insert w D) ss"
    using "2.prems"(1) by auto
  have new: "ready ?c w"
  proof (cases "pc_rels cat (pg_ident n)")
    case None
    then show ?thesis using w(2,3) "2.prems"(1) by (intro ready_new [of _ _ cols]) (simp_all add: create_rel_def)
  next
    case (Some r)
    then have "ready cat w" using "2.prems"(2) w(1,2) by (auto simp: fits_def)
    then show ?thesis by (rule ready_mono [OF _ create_rel_mono])
  qed
  have "\<forall>v\<in>W. fits ?c v"
  proof
    fix v
    assume v: "v \<in> W"
    show "fits ?c v"
    proof (cases "v = w")
      case False
      then have "pg_ident (fst v) \<noteq> pg_ident n" using "2.prems"(4) v w(1,2) by (auto simp: inj_on_def)
      then show ?thesis using fits_create "2.prems"(2) v by blast
    qed (use new ready_fits in blast)
  qed
  moreover have "\<forall>v\<in>insert w D. ready ?c v" using new "2.prems"(3) ready_mono [OF _ create_rel_mono] by blast
  ultimately obtain c where c: "foldM (run_pg ie) ss ?c = Inr c" "\<forall>v\<in>W. v \<in> insert w D \<or> fst v \<in> table_names ss \<longrightarrow> ready c v"
    using "2.IH" [OF w(1,4)] "2.prems"(4) by blast
  have "v = w" if "v \<in> W" "fst v = n" for v using "2.prems"(4) that w(1,2) by (auto simp: inj_on_def)
  then have "\<forall>v\<in>W. v \<in> D \<or> fst v \<in> table_names (PgTable n cols constraints # ss) \<longrightarrow> ready c v" using c(2) by auto
  moreover have "foldM (run_pg ie) (PgTable n cols constraints # ss) cat = Inr c" using "2.prems"(1) c(1) by simp
  ultimately show ?case by blast
next
  case (3 W D n tbl cols ss)
  let ?c = "create_rel n Rel_Index cat"
  obtain w where w: "w \<in> D" "fst w = tbl" "fst ` set cols \<subseteq> set (snd w)" using "3.prems"(1) by auto
  have run: "can_run cat (PgIndex n tbl cols)" using "3.prems"(3) w by (fastforce simp: ready_def)
  have "fits ?c v" if "v \<in> W" for v
    by (rule fits_create_later) (use that "3.prems"(1,2,3) in auto)
  moreover have "\<forall>v\<in>D. ready ?c v" using "3.prems"(3) ready_mono [OF _ create_rel_mono] by blast
  ultimately have "\<exists>c. foldM (run_pg ie) ss ?c = Inr c \<and> (\<forall>w\<in>W. w \<in> D \<or> fst w \<in> table_names ss \<longrightarrow> ready c w)" using 3 by simp
  then show ?case using run by simp
next
  case (4 W D n ss)
  let ?c = "stmt_effect ie (PgSequence n) cat"
  have "\<exists>i. ?c = (create_rel n Rel_Sequence cat)\<lparr>pc_next := i\<rparr>"
    by (rule exI [of _ "pc_next ?c"]) (simp add: create_rel_def)
  then obtain i where c: "?c = (create_rel n Rel_Sequence cat)\<lparr>pc_next := i\<rparr>" by blast
  have same: "fits (x\<lparr>pc_next := i\<rparr>) v = fits x v" "ready (x\<lparr>pc_next := i\<rparr>) v = ready x v" for x i v
    by (simp_all add: fits_def ready_def has_column_def pg_table_def)
  have "fits ?c v" if "v \<in> W" for v
    unfolding c same by (rule fits_create_later) (use that "4.prems"(1,2,3) in auto)
  moreover have "\<forall>v\<in>D. ready ?c v" unfolding c same using "4.prems"(3) ready_mono [OF _ create_rel_mono] by blast
  ultimately have "\<exists>c. foldM (run_pg ie) ss ?c = Inr c \<and> (\<forall>w\<in>W. w \<in> D \<or> fst w \<in> table_names ss \<longrightarrow> ready c w)" using 4 by (simp del: stmt_effect.simps)
  then show ?case by (simp del: stmt_effect.simps)
next
  case (5 W D ss)
  let ?c = "stmt_effect ie PgInsertEpoch cat"
  have same: "fits ?c v = fits cat v" "ready ?c v = ready cat v" for v
    by (simp_all add: fits_def ready_def has_column_def pg_table_def)
  have "can_run cat PgInsertEpoch" using "5.prems"(1,3) by (auto simp: ready_def)
  moreover have "\<exists>c. foldM (run_pg ie) ss ?c = Inr c \<and> (\<forall>w\<in>W. w \<in> D \<or> fst w \<in> table_names ss \<longrightarrow> ready c w)" using 5 same by (simp del: stmt_effect.simps)
  ultimately show ?case by (simp del: stmt_effect.simps)
qed simp_all

subsection \<open>The schema phase\<close>

definition metadata_wanted :: "(string \<times> string list) list" where
  "metadata_wanted =
     [(''loomabase_state'', [''tenant_id'']), (''loomabase_cursor_lease'', [''tenant_id'']),
      (''loomabase_server_state'', [''singleton'', ''server_epoch'']),
      (''loomabase_audit_log'', [''tenant_id'', ''table_name'', ''todo_id'', ''column_name'', ''created_at''])]"

definition app_wanted :: "table_def \<Rightarrow> string \<times> string list" where
  "app_wanted t = (tname t, [''tenant_id'', ''id''])"

definition log_wanted :: "table_def \<Rightarrow> string \<times> string list" where
  "log_wanted t = (crdt_table t, [''tenant_id'', ''lamport_clock'', ''device_id'', ''seq''])"

definition wanted :: "table_def \<Rightarrow> (string \<times> string list) set" where
  "wanted t = insert (app_wanted t) (insert (log_wanted t) (set metadata_wanted))"

lemma app_columns_apart:
  assumes "server_apart t"
  shows "distinct (''tenant_id'' # ''id'' # map cname (tcolumns t @ [\<lparr>cname = LIVENESS_COLUMN, cty = TyBoolean\<rparr>]))"
  using assms by (auto simp: server_apart_def valid_table_def valid_columns_def column_names)

lemma fst_postgres_column [simp]: "fst (postgres_column c) = cname c"
  by (simp add: postgres_column_def)

lemma wanted_names: "server_apart t \<Longrightarrow> w \<in> wanted t \<Longrightarrow> pg_ident (fst w) = fst w"
  using log_name_short [of t]
  by (auto simp: wanted_def metadata_wanted_def app_wanted_def log_wanted_def server_apart_def)

lemma wanted_inj:
  assumes "server_apart t"
  shows "inj_on (pg_ident \<circ> fst) (wanted t)"
proof -
  let ?ws = "app_wanted t # log_wanted t # metadata_wanted"
  have ws: "wanted t = set ?ws" by (simp add: wanted_def)
  have "map (pg_ident \<circ> fst) ?ws = map fst ?ws" using wanted_names [OF assms] unfolding ws by (intro map_cong) auto
  moreover have "distinct (map fst ?ws)"
    using assms log_name_apart [of t] by (simp add: app_wanted_def log_wanted_def metadata_wanted_def server_apart_def server_relations_def)
  ultimately have "distinct (map (pg_ident \<circ> fst) ?ws)" by (simp only:)
  then show ?thesis unfolding ws distinct_map by blast
qed

lemma ordered_table:
  "w \<in> W \<Longrightarrow> fst w = n \<Longrightarrow> distinct (map fst cols) \<Longrightarrow> set (snd w) \<subseteq> fst ` set cols \<Longrightarrow> ordered W (insert w D) ss \<Longrightarrow>
   ordered W D (PgTable n cols k # ss)"
  by auto

lemma schema_ordered:
  assumes t: "server_apart t"
  shows "ordered (wanted t) {} (postgres_schema_stmts t)"
proof -
  have names: "tname t \<notin> set server_relations" "length (tname t) \<le> 58" using t by (simp_all add: server_apart_def)
  have idx: "pg_ident (crdt_table t @ x) \<noteq> fst w" if "w \<in> wanted t" "w \<noteq> log_wanted t" for w x
    by (rule index_names_apart [OF t])
      (use that in \<open>auto simp: wanted_def metadata_wanted_def app_wanted_def server_relations_def\<close>)
  have other: "pg_ident (fst w) \<noteq> n" if "w \<in> wanted t" "n \<in> set (drop 4 server_relations)" for w n
    using that wanted_names [OF t that(1)] names(1) log_name_apart(1) [of t]
    by (auto simp: wanted_def metadata_wanted_def app_wanted_def log_wanted_def server_relations_def)
  have log: "ordered (wanted t) (insert (app_wanted t) (set metadata_wanted)) (log_stmts t)"
    using idx wanted_names [OF t]
    by (fastforce simp: log_stmts_def server_log_table_def server_log_columns_def log_wanted_def wanted_def)
  have app: "ordered (wanted t) (set metadata_wanted) (server_app_table t # log_stmts t)"
    using log app_columns_apart [OF t] by (auto simp: server_app_table_def wanted_def app_wanted_def o_def)
  let ?W = "wanted t" and ?rest = "server_app_table t # log_stmts t"
  obtain w0 w1 w2 w3 where w: "metadata_wanted = [w0, w1, w2, w3]" by (simp add: metadata_wanted_def)
  then have ws: "w0 = (''loomabase_state'', [''tenant_id''])" "w1 = (''loomabase_cursor_lease'', [''tenant_id''])"
    "w2 = (''loomabase_server_state'', [''singleton'', ''server_epoch''])"
    "w3 = (''loomabase_audit_log'', [''tenant_id'', ''table_name'', ''todo_id'', ''column_name'', ''created_at''])"
    by (simp_all add: metadata_wanted_def)
  have all: "set metadata_wanted = {w3, w2, w1, w0}" by (auto simp: w)
  have mem: "w0 \<in> ?W" "w1 \<in> ?W" "w2 \<in> ?W" "w3 \<in> ?W" by (simp_all add: wanted_def w)
  have s3: "ordered ?W {w3, w2, w1, w0} (drop 5 metadata_stmts @ ?rest)"
    using app [unfolded all] other by (auto simp: metadata_stmts_def server_relations_def ws simp del: ordered.simps(2))
  have s2: "ordered ?W {w2, w1, w0} (PgInsertEpoch # audit_table # drop 5 metadata_stmts @ ?rest)"
    unfolding ordered.simps(5) audit_table_def by (intro conjI ordered_table [OF mem(4) _ _ _ s3]) (simp_all add: ws)
  have s1: "ordered ?W {w1, w0} (server_state_table # PgInsertEpoch # audit_table # drop 5 metadata_stmts @ ?rest)"
    unfolding server_state_table_def by (rule ordered_table [OF mem(3) _ _ _ s2]) (simp_all add: ws)
  have s0: "ordered ?W {w0} (lease_table # server_state_table # PgInsertEpoch # audit_table # drop 5 metadata_stmts @ ?rest)"
    unfolding lease_table_def by (rule ordered_table [OF mem(2) _ _ _ s1]) (simp_all add: ws)
  have "ordered ?W {} (state_table # lease_table # server_state_table # PgInsertEpoch # audit_table # drop 5 metadata_stmts @ ?rest)"
    unfolding state_table_def by (rule ordered_table [OF mem(1) _ _ _ s0]) (simp_all add: ws)
  then show ?thesis by (simp only: postgres_schema_stmts_def metadata_stmts_def append.simps drop_Suc_Cons drop_0 numeral_eq_Suc pred_numeral_simps BitM.simps)
qed

subsection \<open>The migration phases\<close>

lemma data_type_postgres [simp]: "data_type (postgres_type k) = map ascii_lower (postgres_type k)"
  by (cases k) (simp_all add: data_type_def)

lemma pg_table_Some: "pg_table cat n = Some m \<longleftrightarrow> pc_rels cat (pg_ident n) = Some (Rel_Table m)"
  by (auto simp: pg_table_def split: option.splits pg_relation.splits)

lemma run_server_adds:
  "pg_table cat n = Some m \<Longrightarrow>
   foldM (run_pg ie) (map (\<lambda>c. PgAddColumn n (postgres_column c)) cs) cat =
     Inr (cat\<lparr>pc_rels := (pc_rels cat)(pg_ident n \<mapsto> Rel_Table (apply_ddls (map (PostgresAddColumn n) cs) m))\<rparr>)"
proof (induction cs arbitrary: cat m)
  case Nil
  then have "(pc_rels cat)(pg_ident n \<mapsto> Rel_Table m) = pc_rels cat" by (auto simp: pg_table_Some)
  then show ?case by simp
next
  case (Cons c cs)
  let ?m = "apply_ddl (PostgresAddColumn n c) m"
  have eff: "stmt_effect ie (PgAddColumn n (postgres_column c)) cat = cat\<lparr>pc_rels := (pc_rels cat)(pg_ident n \<mapsto> Rel_Table ?m)\<rparr>"
  proof (cases "cname c \<in> set (bt_keys m)")
    case True
    moreover have "(pc_rels cat)(pg_ident n \<mapsto> Rel_Table m) = pc_rels cat" using Cons.prems by (auto simp: pg_table_Some)
    ultimately show ?thesis using Cons.prems by (simp add: postgres_column_def)
  next
    case False
    then show ?thesis using Cons.prems by (simp add: postgres_column_def)
  qed
  have "pg_table (cat\<lparr>pc_rels := (pc_rels cat)(pg_ident n \<mapsto> Rel_Table ?m)\<rparr>) n = Some ?m" by (simp add: pg_table_def)
  note IH = Cons.IH [OF this]
  have run: "run_pg ie (PgAddColumn n (postgres_column c)) cat = Inr (cat\<lparr>pc_rels := (pc_rels cat)(pg_ident n \<mapsto> Rel_Table ?m)\<rparr>)"
    using Cons.prems by (simp add: eff run_pg_def del: stmt_effect.simps)
  show ?case unfolding list.map foldM.simps run rbind_simps IH
    by (simp add: fun_upd_def del: apply_ddl.simps cong: if_cong)
qed

lemma pg_ddl_adds: "concat (map pg_ddl (map (PostgresAddColumn n) cs)) = map (\<lambda>c. PgAddColumn n (postgres_column c)) cs"
  by (induction cs) simp_all

abbreviation SERVER_KEYS :: "string list" where "SERVER_KEYS \<equiv> [''tenant_id'', PRIMARY_KEY_COLUMN]"

definition server_columns_fit :: "table_def \<Rightarrow> pg_catalog \<Rightarrow> bool" where
  "server_columns_fit t cat \<longleftrightarrow> (case pg_table cat (tname t) of None \<Rightarrow> True | Some m \<Rightarrow> compatible postgres_type SERVER_KEYS t m)"

definition migrated_map :: "table_def \<Rightarrow> column_map \<Rightarrow> column_map" where
  "migrated_map t m = apply_ddls (map (PostgresAddColumn (tname t)) (missing t m)) m"

lemma migrate_server_table_spec:
  assumes t: "server_apart t" and fit: "fits cat (app_wanted t)"
  shows "is_ok (migrate_server_table ie t cat) = server_columns_fit t cat"
    "migrate_server_table ie t cat = Inr c \<Longrightarrow>
       c = (case pg_table cat (tname t) of None \<Rightarrow> cat
            | Some m \<Rightarrow> cat\<lparr>pc_rels := (pc_rels cat)(tname t \<mapsto> Rel_Table (migrated_map t m))\<rparr>)"
proof -
  have short: "pg_ident (tname t) = tname t" using t by (simp add: server_apart_def)
  have "is_ok (migrate_server_table ie t cat) = server_columns_fit t cat \<and> (migrate_server_table ie t cat = Inr c \<longrightarrow>
       c = (case pg_table cat (tname t) of None \<Rightarrow> cat
            | Some m \<Rightarrow> cat\<lparr>pc_rels := (pc_rels cat)(tname t \<mapsto> Rel_Table (migrated_map t m))\<rparr>))"
  proof (cases "pc_rels cat (tname t)")
    case None
    then have "pg_table cat (tname t) = None" "postgres_existing_columns cat (tname t) = []"
      by (simp_all add: pg_table_def short postgres_existing_columns_def)
    then show ?thesis by (auto simp: migrate_server_table_def server_columns_fit_def)
  next
    case (Some r)
    then have "ready cat (app_wanted t)" using fit by (simp add: fits_def app_wanted_def short)
    then obtain m where m: "pg_table cat (tname t) = Some m" "''id'' \<in> set (bt_keys m)"
      by (auto simp: ready_def app_wanted_def has_column_def)
    then have "postgres_existing_columns cat (tname t) = m" "m \<noteq> []"
      by (auto simp: pg_table_Some short postgres_existing_columns_def)
    then have run: "migrate_server_table ie t cat =
        rbind (fail_at cat (postgres_migration t m)) (\<lambda>ds. foldM (run_pg ie) (concat (map pg_ddl ds)) cat)"
      by (simp add: migrate_server_table_def)
    show ?thesis
    proof (cases "compatible postgres_type SERVER_KEYS t m")
      case True
      then have mig: "postgres_migration t m = Inr (map (PostgresAddColumn (tname t)) (missing t m))" by (simp add: postgres_migration_iff)
      have "migrate_server_table ie t cat = Inr (cat\<lparr>pc_rels := (pc_rels cat)(tname t \<mapsto> Rel_Table (migrated_map t m))\<rparr>)"
        unfolding run mig fail_at_def map_sum.simps rbind_simps pg_ddl_adds run_server_adds [OF m(1)] short migrated_map_def ..
      then show ?thesis using True m(1) by (simp add: server_columns_fit_def)
    next
      case False
      then have "\<not> is_ok (postgres_migration t m)" by (auto simp: is_ok_iff postgres_migration_iff)
      then have "\<not> is_ok (migrate_server_table ie t cat)" unfolding run by (cases "postgres_migration t m") (simp_all add: fail_at_def)
      then show ?thesis using False m(1) by (auto simp: server_columns_fit_def)
    qed
  qed
  then show "is_ok (migrate_server_table ie t cat) = server_columns_fit t cat"
    "migrate_server_table ie t cat = Inr c \<Longrightarrow>
       c = (case pg_table cat (tname t) of None \<Rightarrow> cat
            | Some m \<Rightarrow> cat\<lparr>pc_rels := (pc_rels cat)(tname t \<mapsto> Rel_Table (migrated_map t m))\<rparr>)" by blast+
qed

definition add_col :: "string \<Rightarrow> string \<Rightarrow> column_map \<Rightarrow> column_map" where
  "add_col c ty m = (if c \<in> set (bt_keys m) then m else bt_insert c (data_type ty) m)"

abbreviation put_table :: "string \<Rightarrow> column_map \<Rightarrow> pg_catalog \<Rightarrow> pg_catalog" where
  "put_table n m cat \<equiv> cat\<lparr>pc_rels := (pc_rels cat)(n \<mapsto> Rel_Table m)\<rparr>"

lemma add_col_keys [simp]: "set (bt_keys (add_col c ty m)) = insert c (set (bt_keys m))"
  unfolding add_col_def by (cases "c \<in> set (bt_keys m)") (simp_all only: if_True if_False bt_keys_insert, blast+)

lemma put_table_same: "pc_rels cat n = Some (Rel_Table m) \<Longrightarrow> put_table n m cat = cat"
proof -
  assume "pc_rels cat n = Some (Rel_Table m)"
  then have "(pc_rels cat)(n \<mapsto> Rel_Table m) = pc_rels cat" by auto
  then show ?thesis by simp
qed

lemma run_add_column:
  assumes "pg_table cat n = Some m"
  shows "run_pg ie (PgAddColumn n (c, ty, r)) cat = Inr (put_table (pg_ident n) (add_col c ty m) cat)"
proof -
  have "put_table (pg_ident n) m cat = cat" using assms put_table_same by (simp add: pg_table_Some)
  then show ?thesis using assms by (simp add: run_pg_def add_col_def)
qed

lemma null_count_0: "null_count xs = 0 \<longleftrightarrow> None \<notin> set xs"
  by (induction xs) (auto simp: null_count_def)

lemma fill_seqs_none: "null_count xs = 0 \<Longrightarrow> fill_seqs n xs = xs"
  by (induction n xs rule: fill_seqs.induct) (simp_all add: null_count_def)

lemma fill_seqs_complete: "None \<notin> set (fill_seqs n xs)"
  by (induction n xs rule: fill_seqs.induct) simp_all

definition log_base :: "table_def \<Rightarrow> string \<times> string list" where
  "log_base t = (crdt_table t, [''tenant_id'', ''lamport_clock'', ''device_id''])"

definition seq_type_ok :: "table_def \<Rightarrow> pg_catalog \<Rightarrow> bool" where
  "seq_type_ok t cat \<longleftrightarrow> (\<forall>m d. pg_table cat (crdt_table t) = Some m \<longrightarrow> bt_get m ''seq'' = Some d \<longrightarrow> eq_ignore_ascii_case d ''bigint'')"

definition seq_room :: "table_def \<Rightarrow> pg_catalog \<Rightarrow> bool" where
  "seq_room t cat \<longleftrightarrow>
     (let n = null_count (pc_seqs cat (crdt_table t)) in pg_table cat (crdt_table t) = None \<or> n = 0 \<or> pc_next cat + int n \<le> i64_MAX)"

definition numbered :: "table_def \<Rightarrow> pg_catalog \<Rightarrow> pg_catalog" where
  "numbered t cat =
     (case pg_table cat (crdt_table t) of
        None \<Rightarrow> cat
      | Some m \<Rightarrow> (put_table (crdt_table t) (add_col ''seq'' ''BIGINT'' m) cat)
          \<lparr>pc_seqs := (pc_seqs cat)(crdt_table t := fill_seqs (pc_next cat) (pc_seqs cat (crdt_table t))),
           pc_next := pc_next cat + int (null_count (pc_seqs cat (crdt_table t)))\<rparr>)"

lemma migrate_server_log_spec:
  assumes t: "server_apart t" and fit: "fits cat (log_base t)" "seq_type_ok t cat"
    and seq: "pc_rels cat ''loomabase_seq'' = Some Rel_Sequence"
  shows "is_ok (migrate_server_log ie t cat) = seq_room t cat \<and> (seq_room t cat \<longrightarrow> migrate_server_log ie t cat = Inr (numbered t cat))"
proof -
  have short: "pg_ident (crdt_table t) = crdt_table t" using log_name_short [OF t] by simp
  show ?thesis
  proof (cases "pc_rels cat (crdt_table t)")
    case None
    then have "pg_table cat (crdt_table t) = None" "postgres_existing_columns cat (crdt_table t) = []"
      by (simp_all add: pg_table_def short postgres_existing_columns_def)
    then show ?thesis by (simp add: migrate_server_log_def pg_crdt_migration_def fail_at_def seq_room_def numbered_def Let_def)
  next
    case (Some r)
    then have "ready cat (log_base t)" using fit(1) by (simp add: fits_def log_base_def short)
    then obtain m where m: "pg_table cat (crdt_table t) = Some m" "''tenant_id'' \<in> set (bt_keys m)"
      by (auto simp: ready_def log_base_def has_column_def)
    let ?c = "put_table (crdt_table t) (add_col ''seq'' ''BIGINT'' m) cat"
    have "postgres_existing_columns cat (crdt_table t) = m" "m \<noteq> []"
      using m by (auto simp: pg_table_Some short postgres_existing_columns_def)
    then have "pg_crdt_migration t (postgres_existing_columns cat (crdt_table t)) = Inr (crdt_migration_stmts t)"
      using fit(2) m(1) by (auto simp: pg_crdt_migration_def seq_type_ok_def split: option.split)
    then have "migrate_server_log ie t cat = foldM (run_pg ie) (crdt_migration_stmts t) cat"
      by (simp add: migrate_server_log_def fail_at_def)
    also have "\<dots> = foldM (run_pg ie) (tl (crdt_migration_stmts t)) ?c"
      unfolding crdt_migration_stmts_def foldM.simps run_add_column [OF m(1)] short list.sel rbind_simps ..
    finally have run: "migrate_server_log ie t cat = foldM (run_pg ie) (tl (crdt_migration_stmts t)) ?c" .
    have has: "has_column ?c (crdt_table t) ''seq''" using add_col_keys [of "''seq''" "''BIGINT''" m]
      by (simp add: has_column_def pg_table_def short del: add_col_keys)
    have "''loomabase_seq'' \<noteq> crdt_table t" using log_name_apart(1) [of t] by (auto simp: server_relations_def)
    then have can: "can_run ?c (PgFillSeq (crdt_table t)) = seq_room t cat"
      using has seq m(1) by (auto simp: short seq_room_def Let_def)
    show ?thesis
    proof (cases "seq_room t cat")
      case True
      let ?d = "stmt_effect ie (PgFillSeq (crdt_table t)) ?c"
      have "has_column ?d (crdt_table t) ''seq''" using has by (simp add: has_column_def pg_table_def)
      moreover have "\<not> column_nulls ?d (crdt_table t) ''seq''" by (simp add: column_nulls_def fill_seqs_complete)
      moreover have "?d = numbered t cat" using m(1) by (simp add: numbered_def short)
      ultimately have "foldM (run_pg ie) (tl (crdt_migration_stmts t)) ?c = Inr (numbered t cat)"
        using can True unfolding crdt_migration_stmts_def by (simp add: run_pg_def del: can_run.simps(6) stmt_effect.simps(6))
      then show ?thesis using run True by simp
    next
      case False
      then have "\<not> is_ok (migrate_server_log ie t cat)"
        unfolding run crdt_migration_stmts_def using can by (simp add: run_pg_def del: can_run.simps(6))
      then show ?thesis using False by simp
    qed
  qed
qed

definition lease_map :: "column_map \<Rightarrow> column_map" where
  "lease_map m = add_col ''last_seen_at'' ''TIMESTAMPTZ'' (add_col ''server_epoch'' ''TEXT'' (add_col ''cursor_token'' ''TEXT'' m))"

definition filled_leases :: "init_env \<Rightarrow> pg_catalog \<Rightarrow> lease_row list" where
  "filled_leases ie cat = map2 (fill_lease ie (pc_epoch cat)) [0..<length (pc_leases cat)] (pc_leases cat)"

definition lease_complete :: "lease_row \<Rightarrow> bool" where
  "lease_complete l \<longleftrightarrow> lr_token l \<noteq> None \<and> lr_epoch l \<noteq> None \<and> lr_seen l \<noteq> None"

lemma filled_complete:
  assumes "pc_epoch cat = Some e"
  shows "\<forall>l\<in>set (filled_leases ie cat). lease_complete l"
proof -
  have "lease_complete (fill_lease ie (Some e) i l)" for i l by (simp add: lease_complete_def fill_lease_def split: option.split)
  then show ?thesis using assms by (auto simp: filled_leases_def)
qed

lemma filled_same:
  assumes "\<forall>l\<in>set (pc_leases cat). lease_complete l"
  shows "filled_leases ie cat = pc_leases cat"
proof -
  have "fill_lease ie e i l = l" if "lease_complete l" for e i l
    using that by (auto simp: fill_lease_def lease_complete_def)
  then show ?thesis using assms by (intro nth_equalityI) (simp_all add: filled_leases_def)
qed

lemma lease_migration_runs:
  assumes m: "pg_table cat ''loomabase_cursor_lease'' = Some m" and st: "has_column cat ''loomabase_server_state'' ''server_epoch''"
    and e: "pc_epoch cat = Some e"
  shows "foldM (run_pg ie) lease_migration cat =
    Inr ((put_table ''loomabase_cursor_lease'' (lease_map m) cat)\<lparr>pc_leases := filled_leases ie cat\<rparr>)"
proof -
  let ?n = "''loomabase_cursor_lease''"
  let ?c = "put_table ?n (lease_map m) cat"
  have again: "pg_table (put_table ?n k c) ?n = Some k" for k c by (simp add: pg_table_def)
  have keys: "set (bt_keys (lease_map m)) = {''last_seen_at'', ''server_epoch'', ''cursor_token''} \<union> set (bt_keys m)"
    unfolding lease_map_def add_col_keys by blast
  have has: "has_column (?c\<lparr>pc_leases := ls\<rparr>) ?n k" if "k \<in> {''last_seen_at'', ''server_epoch'', ''cursor_token''}" for k ls
  proof -
    have "pg_table (?c\<lparr>pc_leases := ls\<rparr>) ?n = Some (lease_map m)" by (simp add: pg_table_def)
    moreover have "k \<in> set (bt_keys (lease_map m))" using that keys by blast
    ultimately show ?thesis unfolding has_column_def by (simp only: option.case)
  qed
  have has0: "has_column ?c ?n k" if "k \<in> {''last_seen_at'', ''server_epoch'', ''cursor_token''}" for k
    using has [OF that, of "pc_leases ?c"] by simp
  have adds: "foldM (run_pg ie) lease_migration cat = foldM (run_pg ie) (drop 3 lease_migration) ?c"
  proof -
    have put2: "put_table ?n b (put_table ?n a c) = put_table ?n b c" for a b c by simp
    have id: "pg_ident ?n = ?n" by simp
    have "foldM (run_pg ie) (take 3 lease_migration) cat = Inr ?c"
      unfolding lease_migration_def Let_def take_Suc_Cons take_0 numeral_3_eq_3 foldM.simps run_add_column [OF m] rbind_simps id
        run_add_column [OF again] put2 lease_map_def ..
    then show ?thesis by (metis append_take_drop_id foldM_append rbind_simps(2))
  qed
  let ?d = "?c\<lparr>pc_leases := filled_leases ie cat\<rparr>"
  have fill: "run_pg ie PgFillLeases ?c = Inr ?d"
    using has0 st by (simp add: run_pg_def filled_leases_def has_column_def pg_table_def)
  have "None \<notin> f ` set (filled_leases ie cat)" if "f \<in> {lr_token, lr_epoch}" for f
    using filled_complete [OF e, of ie] that by (force simp: lease_complete_def)
  moreover have "None \<notin> lr_seen ` set (filled_leases ie cat)" using filled_complete [OF e, of ie] by (force simp: lease_complete_def)
  ultimately have full: "\<not> column_nulls ?d ?n k" if "k \<noteq> ''seq''" for k
    using that by (simp add: column_nulls_def)
  have nn: "run_pg ie (PgNotNull ?n k) ?d = Inr ?d" "run_pg ie (PgDefault ?n k x) ?d = Inr ?d"
    if "k \<in> {''last_seen_at'', ''server_epoch'', ''cursor_token''}" for k x
    using has [OF that] full that by (auto simp: run_pg_def)
  show ?thesis unfolding adds using fill nn by (simp add: lease_migration_def Let_def)
qed

subsection \<open>A whole run\<close>

definition with_sequence :: "pg_catalog \<Rightarrow> pg_catalog" where
  "with_sequence cat =
     (if pc_rels cat ''loomabase_seq'' = None then cat\<lparr>pc_rels := (pc_rels cat)(''loomabase_seq'' \<mapsto> Rel_Sequence), pc_next := 0\<rparr> else cat)"

definition migrated :: "table_def \<Rightarrow> pg_catalog \<Rightarrow> pg_catalog" where
  "migrated t cat = (case pg_table cat (tname t) of None \<Rightarrow> cat | Some m \<Rightarrow> put_table (tname t) (migrated_map t m) cat)"

definition with_schema :: "init_env \<Rightarrow> table_def \<Rightarrow> pg_catalog \<Rightarrow> pg_catalog" where
  "with_schema ie t cat = cat\<lparr>pc_rels := map_of (creates (postgres_schema_stmts t)) ++ pc_rels cat, pc_epoch := Some (epoch_of ie cat)\<rparr>"

definition with_leases :: "init_env \<Rightarrow> pg_catalog \<Rightarrow> pg_catalog" where
  "with_leases ie cat = (put_table ''loomabase_cursor_lease'' (lease_map (the (pg_table cat ''loomabase_cursor_lease''))) cat)
     \<lparr>pc_leases := filled_leases ie cat\<rparr>"

text \<open>The catalogs of this and of earlier releases: the tables the server knows have the columns it relies on, and
  the numbers in the change log come from the sequence.\<close>

definition numbers_ok :: "table_def \<Rightarrow> pg_catalog \<Rightarrow> bool" where
  "numbers_ok t cat \<longleftrightarrow>
     (let xs = pc_seqs cat (crdt_table t) in
      0 \<le> pc_next cat \<and> distinct (filter (\<lambda>x. x \<noteq> None) xs) \<and> (\<forall>i. Some i \<in> set xs \<longrightarrow> 0 < i \<and> i \<le> pc_next cat) \<and>
      (pc_rels cat ''loomabase_seq'' = None \<longrightarrow> set xs \<subseteq> {None}))"

definition server_sane :: "table_def \<Rightarrow> pg_catalog \<Rightarrow> bool" where
  "server_sane t cat \<longleftrightarrow>
     (\<forall>w\<in>insert (app_wanted t) (insert (log_base t) (set metadata_wanted)). fits cat w) \<and>
     pc_rels cat ''loomabase_seq'' \<in> {None, Some Rel_Sequence} \<and> seq_type_ok t cat \<and> numbers_ok t cat \<and>
     (pg_table cat (crdt_table t) = None \<longrightarrow> pc_seqs cat (crdt_table t) = [])"

lemma base_names:
  assumes "server_apart t" "w \<in> insert (app_wanted t) (insert (log_base t) (set metadata_wanted))"
  shows "pg_ident (fst w) = fst w" "fst w \<noteq> ''loomabase_seq''"
proof -
  have "fst w \<in> fst ` wanted t" using assms(2) by (auto simp: wanted_def log_base_def log_wanted_def)
  then show "pg_ident (fst w) = fst w" using wanted_names [OF assms(1)] by auto
  show "fst w \<noteq> ''loomabase_seq''"
    using assms log_name_apart(1) [of t]
    by (auto simp: app_wanted_def log_base_def metadata_wanted_def server_apart_def server_relations_def)
qed

lemma fits_cong: "pc_rels c (pg_ident (fst w)) = pc_rels cat (pg_ident (fst w)) \<Longrightarrow> fits c w = fits cat w"
  by (simp add: fits_def ready_def has_column_def pg_table_def)

lemma fits_put_table:
  assumes "fits cat w" "pc_rels cat n = Some (Rel_Table m)" "set (bt_keys m) \<subseteq> set (bt_keys m')"
  shows "fits (put_table n m' cat) w"
proof (cases "pg_ident (fst w) = n")
  case True
  then have "ready cat w" "pg_table cat (fst w) = Some m" using assms(1,2) by (simp_all add: fits_def pg_table_def)
  moreover have "pg_table (put_table n m' cat) (fst w) = Some m'" using True by (simp add: pg_table_def)
  ultimately have "ready (put_table n m' cat) w" using assms(3) unfolding ready_def has_column_def by auto
  then show ?thesis by (rule ready_fits)
next
  case False
  then show ?thesis using assms(1) fits_cong [of "put_table n m' cat" w cat] by simp
qed

lemma migrated_map_props:
  assumes "server_apart t" "compatible postgres_type SERVER_KEYS t m"
  shows "up_to_date postgres_type SERVER_KEYS t (migrated_map t m)" "bt_get m k = Some d \<Longrightarrow> bt_get (migrated_map t m) k = Some d"
    "set (bt_keys m) \<subseteq> set (bt_keys (migrated_map t m))"
proof -
  have valid: "valid_table t" using assms(1) by (simp add: server_apart_def)
  have get: "bt_get (migrated_map t m) = bt_get m ++ map_of (map (\<lambda>c. (cname c, map ascii_lower (postgres_type (cty c)))) (missing t m))"
    unfolding migrated_map_def by (rule postgres_adds [OF distinct_missing [OF valid]]) simp
  have lower: "eq_ignore_ascii_case (map ascii_lower (postgres_type ct)) (postgres_type ct)" for ct
    by (cases ct) (simp_all add: eq_ignore_ascii_case_def ascii_lower_def byte_def)
  show "up_to_date postgres_type SERVER_KEYS t (migrated_map t m)"
    by (rule migrated_up_to_date(1) [OF valid assms(2) get]) (rule lower)
  show keep: "bt_get m k = Some d \<Longrightarrow> bt_get (migrated_map t m) k = Some d" for k d
    by (rule migrated_up_to_date(2) [OF valid assms(2) get]) (rule lower)
  show "set (bt_keys m) \<subseteq> set (bt_keys (migrated_map t m))"
  proof
    fix k
    assume "k \<in> set (bt_keys m)"
    then have "bt_get m k \<noteq> None" by (simp only: bt_get_None not_not)
    then obtain d where "bt_get m k = Some d" by blast
    then have "bt_get (migrated_map t m) k \<noteq> None" using keep by simp
    then show "k \<in> set (bt_keys (migrated_map t m))" by (simp only: bt_get_None not_not)
  qed
qed

lemma with_sequence_rels:
  "pc_rels (with_sequence cat) = (if pc_rels cat ''loomabase_seq'' = None then (pc_rels cat)(''loomabase_seq'' \<mapsto> Rel_Sequence) else pc_rels cat)"
  by (simp add: with_sequence_def)

lemma with_sequence_table:
  "server_apart t \<Longrightarrow> pg_table (with_sequence cat) (tname t) = pg_table cat (tname t)"
  "server_apart t \<Longrightarrow> pg_table (with_sequence cat) (crdt_table t) = pg_table cat (crdt_table t)"
  using log_name_apart(1) [of t] log_name_short [of t]
  by (auto simp: pg_table_def with_sequence_rels server_apart_def server_relations_def)

abbreviation base_wanted :: "table_def \<Rightarrow> (string \<times> string list) set" where
  "base_wanted t \<equiv> insert (app_wanted t) (insert (log_base t) (set metadata_wanted))"

lemma table_idents:
  assumes "server_apart t"
  shows "pg_ident (tname t) = tname t" "pg_ident (crdt_table t) = crdt_table t" "tname t \<noteq> ''loomabase_seq''" "crdt_table t \<noteq> ''loomabase_seq''"
  using assms log_name_short [OF assms] log_name_apart(1) [of t] by (auto simp: server_apart_def server_relations_def)

lemma after_sequence:
  assumes t: "server_apart t" and sane: "server_sane t cat"
  shows "\<forall>w\<in>base_wanted t. fits (with_sequence cat) w" "pc_rels (with_sequence cat) ''loomabase_seq'' = Some Rel_Sequence"
proof
  fix w
  assume w: "w \<in> base_wanted t"
  then have "pc_rels (with_sequence cat) (pg_ident (fst w)) = pc_rels cat (pg_ident (fst w))"
    using base_names [OF t w] by (simp add: with_sequence_rels)
  then show "fits (with_sequence cat) w" using fits_cong sane w unfolding server_sane_def by blast
next
  show "pc_rels (with_sequence cat) ''loomabase_seq'' = Some Rel_Sequence" using sane by (auto simp: with_sequence_rels server_sane_def)
qed

lemma after_migration:
  assumes t: "server_apart t" and c: "\<forall>w\<in>base_wanted t. fits cat w" and fit: "server_columns_fit t cat"
  shows "\<forall>w\<in>base_wanted t. fits (migrated t cat) w"
proof (cases "pg_table cat (tname t)")
  case None
  then show ?thesis using c by (simp add: migrated_def)
next
  case (Some m)
  then have "compatible postgres_type SERVER_KEYS t m" using fit by (simp add: server_columns_fit_def)
  then have "set (bt_keys m) \<subseteq> set (bt_keys (migrated_map t m))" by (rule migrated_map_props(3) [OF t])
  moreover have "pc_rels cat (tname t) = Some (Rel_Table m)" using Some table_idents(1) [OF t] by (simp add: pg_table_Some)
  ultimately have "fits (put_table (tname t) (migrated_map t m) cat) w" if "w \<in> base_wanted t" for w
    using fits_put_table c that by blast
  then show ?thesis using Some by (simp add: migrated_def)
qed

lemma numbered_rel: "n \<noteq> crdt_table t \<Longrightarrow> pc_rels (numbered t cat) n = pc_rels cat n"
  by (simp add: numbered_def split: option.split)

lemma migrated_rel: "n \<noteq> tname t \<Longrightarrow> pc_rels (migrated t cat) n = pc_rels cat n"
  by (simp add: migrated_def split: option.split)

lemma migrated_data [simp]:
  "pc_seqs (migrated t cat) = pc_seqs cat" "pc_next (migrated t cat) = pc_next cat"
  by (simp_all add: migrated_def split: option.split)

lemma migrated_log: "server_apart t \<Longrightarrow> pg_table (migrated t (with_sequence cat)) (crdt_table t) = pg_table cat (crdt_table t)"
  using with_sequence_table(2) [of t cat] migrated_rel [of "crdt_table t" t "with_sequence cat"] log_name_apart(2) [of t] table_idents(2) [of t]
  by (simp add: pg_table_def)

lemma log_numbered:
  assumes t: "server_apart t" and fit: "fits cat (log_base t)"
  shows "fits (numbered t cat) (log_wanted t)"
proof (cases "pc_rels cat (crdt_table t)")
  case None
  then have "pg_table cat (crdt_table t) = None" by (simp add: pg_table_def table_idents [OF t])
  then show ?thesis using None by (simp add: numbered_def fits_def log_wanted_def table_idents [OF t])
next
  case (Some r)
  then have "ready cat (log_base t)" using fit by (auto simp: fits_def log_base_def table_idents [OF t])
  then obtain m where m: "pg_table cat (crdt_table t) = Some m" "set [''tenant_id'', ''lamport_clock'', ''device_id''] \<subseteq> set (bt_keys m)"
    by (auto simp: ready_def log_base_def has_column_def)
  have "pg_table (numbered t cat) (crdt_table t) = Some (add_col ''seq'' ''BIGINT'' m)"
    using m(1) by (simp add: numbered_def pg_table_def table_idents [OF t])
  moreover have "set (snd (log_wanted t)) \<subseteq> set (bt_keys (add_col ''seq'' ''BIGINT'' m))"
    using m(2) unfolding add_col_keys by (simp add: log_wanted_def)
  ultimately have "ready (numbered t cat) (log_wanted t)" unfolding ready_def has_column_def by (auto simp: log_wanted_def)
  then show ?thesis by (rule ready_fits)
qed

lemma after_numbering:
  assumes t: "server_apart t" and c: "\<forall>w\<in>base_wanted t. fits cat w"
  shows "\<forall>w\<in>wanted t. fits (numbered t cat) w"
proof
  fix w
  assume w: "w \<in> wanted t"
  show "fits (numbered t cat) w"
  proof (cases "w = log_wanted t")
    case True
    then show ?thesis using log_numbered [OF t] c by simp
  next
    case False
    then have "w \<in> base_wanted t" using w by (auto simp: wanted_def)
    moreover have "fst w \<noteq> crdt_table t"
      using w False log_name_apart [of t] by (auto simp: wanted_def app_wanted_def metadata_wanted_def server_relations_def)
    ultimately show ?thesis
      using c fits_cong [of "numbered t cat" w cat] numbered_rel base_names(1) [OF t, of w] by metis
  qed
qed

text \<open>The states in which the log is migrated and in which the schema runs.\<close>

lemma before_schema:
  assumes t: "server_apart t" and sane: "server_sane t cat" and fit: "server_columns_fit t cat"
    and c1: "c1 = migrated t (with_sequence cat)"
  shows "\<forall>w\<in>wanted t. fits (numbered t c1) w" "pc_rels (numbered t c1) ''loomabase_seq'' = Some Rel_Sequence"
    "fits c1 (log_base t)" "seq_type_ok t c1" "seq_room t c1 = seq_room t (with_sequence cat)"
    "pc_rels c1 ''loomabase_seq'' = Some Rel_Sequence"
proof -
  have "server_columns_fit t (with_sequence cat)" using fit with_sequence_table(1) [OF t, of cat] by (simp add: server_columns_fit_def)
  with after_migration [OF t after_sequence(1) [OF t sane]] have fit1: "\<forall>w\<in>base_wanted t. fits c1 w" by (simp add: c1)
  then show "\<forall>w\<in>wanted t. fits (numbered t c1) w" "fits c1 (log_base t)" using after_numbering [OF t] by simp_all
  show seq: "pc_rels c1 ''loomabase_seq'' = Some Rel_Sequence"
    using after_sequence(2) [OF t sane] migrated_rel [of "''loomabase_seq''" t] table_idents(3) [OF t] by (simp add: c1)
  then show "pc_rels (numbered t c1) ''loomabase_seq'' = Some Rel_Sequence"
    using numbered_rel [of "''loomabase_seq''" t c1] table_idents(4) [OF t] by simp
  show "seq_type_ok t c1" using sane migrated_log [OF t, of cat] by (simp add: seq_type_ok_def server_sane_def c1)
  show "seq_room t c1 = seq_room t (with_sequence cat)"
    using migrated_log [OF t, of cat] with_sequence_table(2) [OF t, of cat] by (simp add: seq_room_def c1)
qed

lemma schema_creating:
  assumes "pc_rels cat ''loomabase_seq'' \<noteq> None"
  shows "\<forall>s\<in>set (postgres_schema_stmts t). creating cat s" "PgInsertEpoch \<in> set (postgres_schema_stmts t)"
  using assms
  by (simp_all add: postgres_schema_stmts_def metadata_stmts_def log_stmts_def state_table_def lease_table_def server_state_table_def
      audit_table_def server_app_table_def server_log_table_def)

lemma schema_phase:
  assumes t: "server_apart t" and fit: "\<forall>w\<in>wanted t. fits cat w" and seq: "pc_rels cat ''loomabase_seq'' = Some Rel_Sequence"
  shows "foldM (run_pg ie) (postgres_schema_stmts t) cat = Inr (with_schema ie t cat)"
proof -
  obtain c where c: "foldM (run_pg ie) (postgres_schema_stmts t) cat = Inr c"
    using ordered_runs [OF schema_ordered [OF t] fit _ wanted_inj [OF t]] by blast
  have "pc_rels cat ''loomabase_seq'' \<noteq> None" using seq by simp
  from creates_effect [OF c schema_creating(1) [OF this]] show ?thesis
    using c schema_creating(2) [OF \<open>pc_rels cat ''loomabase_seq'' \<noteq> None\<close>, of t] by (simp add: with_schema_def)
qed

lemma schema_names: "fst ` wanted t \<subseteq> table_names (postgres_schema_stmts t)"
  by (simp add: postgres_schema_stmts_def metadata_stmts_def log_stmts_def state_table_def lease_table_def server_state_table_def
      audit_table_def server_app_table_def server_log_table_def wanted_def metadata_wanted_def app_wanted_def log_wanted_def)

text \<open>After the schema every table the server relies on is there, a new application table with the columns of the
  contract.\<close>

definition server_columns :: "table_def \<Rightarrow> sql_column list" where
  "server_columns t = (''tenant_id'', ''TEXT'', '' NOT NULL'') # (''id'', ''TEXT'', '' NOT NULL'') # map postgres_column (synchronized_columns t)"

lemma server_app_table_columns: "server_app_table t = PgTable (tname t) (server_columns t) [''PRIMARY KEY (tenant_id, id)'']"
  by (simp add: server_app_table_def server_columns_def synchronized_columns_def)

lemma metadata_creates: "fst ` set (creates metadata_stmts) \<subseteq> set server_relations"
  by (simp add: metadata_stmts_def state_table_def lease_table_def server_state_table_def audit_table_def server_relations_def)

lemma creates_append: "creates (xs @ ys) = creates xs @ creates ys"
  by (induction xs rule: creates.induct) simp_all

lemma creates_app:
  assumes "server_apart t"
  shows "map_of (creates (postgres_schema_stmts t)) (tname t) = Some (Rel_Table (pg_columns_of (server_columns t)))"
proof -
  have "map_of (creates metadata_stmts) (tname t) = None"
    using assms metadata_creates by (auto simp: map_of_eq_None_iff server_apart_def)
  then show ?thesis
    using assms unfolding postgres_schema_stmts_def creates_append server_app_table_columns
    by (simp add: map_add_def server_apart_def)
qed

lemma schema_ready:
  assumes "server_apart t" "\<forall>w\<in>wanted t. fits cat w" "pc_rels cat ''loomabase_seq'' = Some Rel_Sequence"
  shows "\<forall>w\<in>wanted t. ready (with_schema ie t cat) w"
proof
  fix w
  assume w: "w \<in> wanted t"
  obtain c where "foldM (run_pg ie) (postgres_schema_stmts t) cat = Inr c"
    "\<forall>w\<in>wanted t. w \<in> {} \<or> fst w \<in> table_names (postgres_schema_stmts t) \<longrightarrow> ready c w"
    using ordered_runs [OF schema_ordered [OF assms(1)] assms(2) _ wanted_inj [OF assms(1)]] by blast
  then show "ready (with_schema ie t cat) w" using schema_phase [OF assms, of ie] schema_names w by auto
qed

definition final_catalog :: "init_env \<Rightarrow> table_def \<Rightarrow> pg_catalog \<Rightarrow> pg_catalog" where
  "final_catalog ie t cat =
     fold protect (tenant_tables t) (with_leases ie (with_schema ie t (numbered t (migrated t (with_sequence cat)))))"

lemma lease_keys: "set (bt_keys m) \<subseteq> set (bt_keys (lease_map m))"
  unfolding lease_map_def add_col_keys by blast

lemma lease_phase:
  assumes "\<forall>w\<in>wanted t. ready cat w" "pc_epoch cat = Some e"
  shows "foldM (run_pg ie) lease_migration cat = Inr (with_leases ie cat)"
    "\<forall>w\<in>wanted t. ready (with_leases ie cat) w"
proof -
  have lease: "ready cat (''loomabase_cursor_lease'', [''tenant_id''])" and st: "ready cat (''loomabase_server_state'', [''singleton'', ''server_epoch''])"
    using assms(1) by (simp_all add: wanted_def metadata_wanted_def)
  obtain m where m: "pg_table cat ''loomabase_cursor_lease'' = Some m" using lease by (auto simp: ready_def)
  have "has_column cat ''loomabase_server_state'' ''server_epoch''" using st by (simp add: ready_def)
  from lease_migration_runs [OF m this assms(2)] m show "foldM (run_pg ie) lease_migration cat = Inr (with_leases ie cat)"
    by (simp add: with_leases_def)
  have rel: "pc_rels cat ''loomabase_cursor_lease'' = Some (Rel_Table m)" using m by (simp add: pg_table_Some)
  show "\<forall>w\<in>wanted t. ready (with_leases ie cat) w"
  proof
    fix w
    assume w: "w \<in> wanted t"
    let ?c = "put_table ''loomabase_cursor_lease'' (lease_map m) cat"
    have "fits ?c w" using fits_put_table [OF ready_fits rel lease_keys] assms(1) w by blast
    moreover have "pc_rels ?c (pg_ident (fst w)) \<noteq> None"
      using assms(1) w by (auto simp: ready_def pg_table_def split: option.splits)
    ultimately have "ready ?c w" unfolding fits_def by blast
    then show "ready (with_leases ie cat) w" using m by (simp add: with_leases_def ready_def has_column_def pg_table_def)
  qed
qed

text \<open>From the migrated table on, a run can only fail for want of sequence numbers.\<close>

lemma after_table:
  assumes t: "server_apart t" and sane: "server_sane t cat" and fit: "server_columns_fit t cat" and c1: "c1 = migrated t (with_sequence cat)"
  shows "rbind (foldM (run_pg ie) (postgres_schema_stmts t) (numbered t c1)) (\<lambda>cat.
    rbind (foldM (run_pg ie) lease_migration cat) (\<lambda>cat. foldM (run_pg ie) (concat (map rls_stmts (tenant_tables t))) cat)) =
    Inr (final_catalog ie t cat)"
proof -
  let ?c3 = "with_schema ie t (numbered t c1)"
  note b = before_schema [OF t sane fit c1]
  note ready3 = schema_ready [OF t b(1,2), of ie]
  have e3: "pc_epoch ?c3 = Some (epoch_of ie (numbered t c1))" by (simp add: with_schema_def)
  have "has_column (with_leases ie ?c3) n ''tenant_id''" if "n \<in> set (tenant_tables t)" for n
  proof -
    have "\<exists>w\<in>wanted t. fst w = n \<and> ''tenant_id'' \<in> set (snd w)"
      using that by (auto simp: tenant_tables_def wanted_def metadata_wanted_def app_wanted_def log_wanted_def)
    then show ?thesis using lease_phase(2) [OF ready3 e3] by (auto simp: ready_def)
  qed
  then have "foldM (run_pg ie) (concat (map rls_stmts (tenant_tables t))) (with_leases ie ?c3) = Inr (final_catalog ie t cat)"
    by (simp only: rls_all final_catalog_def c1) simp
  then show ?thesis unfolding schema_phase [OF t b(1,2)] rbind_simps lease_phase(1) [OF ready3 e3] .
qed

lemma table_phase:
  assumes t: "server_apart t" and sane: "server_sane t cat"
  shows "migrate_server_table ie t (with_sequence cat) = Inr (migrated t (with_sequence cat)) \<or> \<not> server_columns_fit t cat"
    "is_ok (migrate_server_table ie t (with_sequence cat)) = server_columns_fit t cat"
proof -
  have "fits (with_sequence cat) (app_wanted t)" using after_sequence(1) [OF t sane] by simp
  note p1 = migrate_server_table_spec [OF t this, of ie]
  show ok: "is_ok (migrate_server_table ie t (with_sequence cat)) = server_columns_fit t cat"
    using p1(1) with_sequence_table(1) [OF t, of cat] by (simp add: server_columns_fit_def)
  show "migrate_server_table ie t (with_sequence cat) = Inr (migrated t (with_sequence cat)) \<or> \<not> server_columns_fit t cat"
  proof (cases "migrate_server_table ie t (with_sequence cat)")
    case (Inl x)
    then show ?thesis using ok by simp
  next
    case (Inr c)
    from p1(2) [OF this] Inr show ?thesis by (simp add: migrated_def)
  qed
qed

lemma server_body:
  assumes t: "server_apart t" and sane: "server_sane t cat"
  shows "is_ok (server_schema_body ie t cat) \<longleftrightarrow> server_columns_fit t cat \<and> seq_room t (with_sequence cat)"
    "server_schema_body ie t cat = Inr c \<Longrightarrow> c = final_catalog ie t cat \<and> server_columns_fit t cat \<and> seq_room t (with_sequence cat)"
proof -
  let ?c1 = "migrated t (with_sequence cat)"
  have seq: "run_pg ie (PgSequence ''loomabase_seq'') cat = Inr (with_sequence cat)" by (simp add: with_sequence_def create_rel_def)
  have out: "if server_columns_fit t cat \<and> seq_room t (with_sequence cat) then server_schema_body ie t cat = Inr (final_catalog ie t cat)
    else \<not> is_ok (server_schema_body ie t cat)"
  proof (cases "server_columns_fit t cat")
    case False
    then obtain x where "migrate_server_table ie t (with_sequence cat) = Inl x"
      using table_phase(2) [OF t sane, of ie] by (cases "migrate_server_table ie t (with_sequence cat)") auto
    then show ?thesis using False unfolding server_schema_body_def seq by simp
  next
    case fit: True
    then have m1: "migrate_server_table ie t (with_sequence cat) = Inr ?c1" using table_phase(1) [OF t sane] by blast
    note b = before_schema [OF t sane fit refl]
    note p2 = migrate_server_log_spec [OF t b(3,4,6), of ie]
    note tail = after_table [OF t sane fit refl, of ie]
    show ?thesis
    proof (cases "seq_room t (with_sequence cat)")
      case True
      then have "migrate_server_log ie t ?c1 = Inr (numbered t ?c1)" using p2 b(5) by simp
      then show ?thesis using True fit tail unfolding server_schema_body_def seq rbind_simps m1 by simp
    next
      case False
      then have "\<not> is_ok (migrate_server_log ie t ?c1)" using p2 b(5) by simp
      then obtain x where "migrate_server_log ie t ?c1 = Inl x" by (cases "migrate_server_log ie t ?c1") auto
      then show ?thesis using False unfolding server_schema_body_def seq rbind_simps m1 by simp
    qed
  qed
  then show "is_ok (server_schema_body ie t cat) \<longleftrightarrow> server_columns_fit t cat \<and> seq_room t (with_sequence cat)"
    "server_schema_body ie t cat = Inr c \<Longrightarrow> c = final_catalog ie t cat \<and> server_columns_fit t cat \<and> seq_room t (with_sequence cat)"
    by (auto simp: is_ok_iff split: if_splits)
qed

subsection \<open>What a run leaves behind\<close>

lemma fill_seqs_range: "set (fill_seqs n xs) \<subseteq> {Some i | i. Some i \<in> set xs} \<union> Some ` {n + 1..n + int (null_count xs)}"
proof (induction n xs rule: fill_seqs.induct)
  case (3 n xs)
  then show ?case by (fastforce simp: null_count_def)
qed (auto simp: null_count_def)

lemma fill_seqs_distinct:
  "distinct (filter (\<lambda>x. x \<noteq> None) xs) \<Longrightarrow> \<forall>i. Some i \<in> set xs \<longrightarrow> i \<le> n \<Longrightarrow> distinct (fill_seqs n xs)"
proof (induction n xs rule: fill_seqs.induct)
  case (2 n i xs)
  then show ?case using fill_seqs_range [of n xs] by fastforce
next
  case (3 n xs)
  have "Some (n + 1) \<notin> set (fill_seqs (n + 1) xs)" using "3.prems"(2) fill_seqs_range [of "n + 1" xs] by fastforce
  moreover have "distinct (fill_seqs (n + 1) xs)" using 3 by fastforce
  ultimately show ?case by simp
qed simp

lemma fill_seqs_keeps: "list_all2 (\<lambda>old new. old \<noteq> None \<longrightarrow> new = old) xs (fill_seqs n xs)"
  by (induction n xs rule: fill_seqs.induct) simp_all

lemma server_columns_map:
  assumes "server_apart t"
  shows "bt_get (pg_columns_of (server_columns t)) =
    map_of ((''tenant_id'', ''text'') # (''id'', ''text'') # map (\<lambda>c. (cname c, map ascii_lower (postgres_type (cty c)))) (synchronized_columns t))"
proof -
  have lower: "data_type ''TEXT'' = ''text''" by code_simp
  have "distinct (map fst (map (\<lambda>(n, ty, r). (n, data_type ty, r)) (server_columns t)))"
    using app_columns_apart [OF assms] by (simp add: server_columns_def synchronized_columns_def o_def case_prod_beta)
  from column_map_get [OF this] show ?thesis
    by (simp add: pg_columns_of_def server_columns_def postgres_column_def o_def lower)
qed

lemma fresh_server_columns:
  assumes t: "server_apart t"
  shows "up_to_date postgres_type SERVER_KEYS t (pg_columns_of (server_columns t))"
proof -
  let ?m = "pg_columns_of (server_columns t)"
  have "set (bt_keys ?m) = dom (bt_get ?m)" by (simp add: dom_map_of_conv_image_fst)
  also have "\<dots> = insert ''tenant_id'' (insert ''id'' (cname ` set (synchronized_columns t)))"
    unfolding server_columns_map [OF t] by (auto simp: dom_map_of_conv_image_fst image_image)
  finally have keys: "set (bt_keys ?m) = insert ''tenant_id'' (insert ''id'' (cname ` set (synchronized_columns t)))" .
  have get: "bt_get ?m (cname c) = Some (map ascii_lower (postgres_type (cty c)))" if "c \<in> set (synchronized_columns t)" for c
  proof -
    have "distinct (map fst ((''tenant_id'', ''text'') # (''id'', ''text'') #
        map (\<lambda>c. (cname c, map ascii_lower (postgres_type (cty c)))) (synchronized_columns t)))"
      using app_columns_apart [OF t] by (simp add: synchronized_columns_def o_def)
    with that show ?thesis unfolding server_columns_map [OF t] by (intro map_of_is_SomeI) auto
  qed
  have lower: "eq_ignore_ascii_case (map ascii_lower (postgres_type ct)) (postgres_type ct)" for ct
    by (cases ct) (simp_all add: eq_ignore_ascii_case_def ascii_lower_def byte_def)
  show ?thesis unfolding up_to_date_def using keys get lower by (simp add: column_names)
qed

text \<open>The relations at the end.\<close>

lemma final_rels:
  "pc_rels (final_catalog ie t cat) = pc_rels (with_leases ie (with_schema ie t (numbered t (migrated t (with_sequence cat)))))"
  by (simp add: final_catalog_def protect_frame)

lemma final_rel:
  assumes "n \<noteq> ''loomabase_cursor_lease''"
  shows "pc_rels (final_catalog ie t cat) n =
    (case pc_rels (numbered t (migrated t (with_sequence cat))) n of None \<Rightarrow> map_of (creates (postgres_schema_stmts t)) n | Some r \<Rightarrow> Some r)"
  using assms by (simp add: final_rels with_leases_def with_schema_def map_add_def)

lemma final_app:
  assumes t: "server_apart t" and sane: "server_sane t cat" and fit: "server_columns_fit t cat"
  shows "\<exists>m'. pg_table (final_catalog ie t cat) (tname t) = Some m' \<and> up_to_date postgres_type SERVER_KEYS t m' \<and>
    (\<forall>m k d. pg_table cat (tname t) = Some m \<longrightarrow> bt_get m k = Some d \<longrightarrow> bt_get m' k = Some d)"
proof -
  let ?c0 = "with_sequence cat"
  have short: "pg_ident (tname t) = tname t" and ne: "tname t \<noteq> ''loomabase_cursor_lease''" "tname t \<noteq> ''loomabase_seq''"
    using t by (auto simp: server_apart_def server_relations_def)
  have tab: "pg_table ?c0 (tname t) = pg_table cat (tname t)" by (rule with_sequence_table(1) [OF t])
  have fin: "pc_rels (final_catalog ie t cat) (tname t) =
      (case pc_rels (migrated t ?c0) (tname t) of None \<Rightarrow> Some (Rel_Table (pg_columns_of (server_columns t))) | Some r \<Rightarrow> Some r)"
    using final_rel [OF ne(1)] numbered_rel [of "tname t" t] log_name_apart(3) creates_app [OF t] by (simp split: option.split)
  show ?thesis
  proof (cases "pc_rels cat (tname t)")
    case None
    then have "pg_table cat (tname t) = None" by (simp add: pg_table_def short)
    moreover from this have "pc_rels (migrated t ?c0) (tname t) = None" using None tab ne(2) by (simp add: migrated_def with_sequence_rels)
    ultimately have "pg_table (final_catalog ie t cat) (tname t) = Some (pg_columns_of (server_columns t))"
      using fin by (simp add: pg_table_Some short)
    then show ?thesis using fresh_server_columns [OF t] \<open>pg_table cat (tname t) = None\<close> by simp
  next
    case (Some r)
    moreover have "fits cat (app_wanted t)" using sane unfolding server_sane_def by blast
    ultimately have "ready cat (app_wanted t)" by (simp add: fits_def app_wanted_def short)
    then obtain m where m: "pg_table cat (tname t) = Some m" by (auto simp: ready_def app_wanted_def)
    then have comp: "compatible postgres_type SERVER_KEYS t m" using fit by (simp add: server_columns_fit_def)
    have "pc_rels (migrated t ?c0) (tname t) = Some (Rel_Table (migrated_map t m))" using m tab by (simp add: migrated_def)
    then have "pg_table (final_catalog ie t cat) (tname t) = Some (migrated_map t m)" using fin by (simp add: pg_table_Some short)
    then show ?thesis using migrated_map_props(1,2) [OF t comp] m by auto
  qed
qed

text \<open>The change log at the end.\<close>

lemma final_log:
  assumes t: "server_apart t" and sane: "server_sane t cat"
    and c_def: "c = final_catalog ie t cat" and xs_def: "xs = pc_seqs cat (crdt_table t)"
  shows "pc_seqs c (crdt_table t) = fill_seqs (pc_next (with_sequence cat)) xs"
    "pc_next c = pc_next (with_sequence cat) + int (null_count xs)" "numbers_ok t c" "None \<notin> set (pc_seqs c (crdt_table t))"
proof -
  let ?c0 = "with_sequence cat"
  have same0: "pc_seqs ?c0 = pc_seqs cat" by (simp add: with_sequence_def)
  have frame: "pc_seqs c = pc_seqs (numbered t (migrated t ?c0))" "pc_next c = pc_next (numbered t (migrated t ?c0))"
    by (simp_all add: c_def final_catalog_def protect_frame with_leases_def with_schema_def)
  have "pg_table (migrated t ?c0) (crdt_table t) = pg_table cat (crdt_table t)"
    using with_sequence_table(2) [OF t, of cat] migrated_rel [of "crdt_table t" t ?c0] log_name_apart(2) [of t] log_name_short [OF t]
    by (simp add: pg_table_def)
  moreover have "pg_table cat (crdt_table t) = None \<Longrightarrow> xs = []" using sane by (simp add: server_sane_def xs_def)
  ultimately show seqs: "pc_seqs c (crdt_table t) = fill_seqs (pc_next ?c0) xs" and nxt: "pc_next c = pc_next ?c0 + int (null_count xs)"
    unfolding frame numbered_def by (auto simp: same0 xs_def null_count_def split: option.split)
  then show none: "None \<notin> set (pc_seqs c (crdt_table t))" using fill_seqs_complete by simp
  have nums: "distinct (filter (\<lambda>x. x \<noteq> None) xs)" "\<forall>i. Some i \<in> set xs \<longrightarrow> 0 < i \<and> i \<le> pc_next ?c0" "0 \<le> pc_next ?c0"
    using sane by (auto simp: server_sane_def numbers_ok_def Let_def xs_def with_sequence_def)
  have "distinct (fill_seqs (pc_next ?c0) xs)" using fill_seqs_distinct nums by blast
  moreover have "0 < i \<and> i \<le> pc_next c" if "Some i \<in> set (fill_seqs (pc_next ?c0) xs)" for i
    using that fill_seqs_range [of "pc_next ?c0" xs] nums(2,3) nxt by fastforce
  moreover have "pc_rels c ''loomabase_seq'' \<noteq> None"
  proof -
    have "pc_rels (numbered t (migrated t ?c0)) ''loomabase_seq'' = pc_rels ?c0 ''loomabase_seq''"
      using numbered_rel [of "''loomabase_seq''" t] migrated_rel [of "''loomabase_seq''" t] t log_name_apart(1) [of t]
      by (auto simp: server_apart_def server_relations_def)
    moreover have "pc_rels ?c0 ''loomabase_seq'' \<noteq> None" by (simp add: with_sequence_rels)
    ultimately show ?thesis unfolding c_def by (subst final_rel) (auto split: option.split)
  qed
  ultimately show "numbers_ok t c" unfolding numbers_ok_def Let_def seqs using nums(3) nxt by (auto intro: distinct_filter)
qed

lemma final_ready:
  assumes t: "server_apart t" and sane: "server_sane t cat" and fit: "server_columns_fit t cat"
  shows "\<forall>w\<in>wanted t. ready (final_catalog ie t cat) w" "pc_rels (final_catalog ie t cat) ''loomabase_seq'' = Some Rel_Sequence"
proof -
  let ?c2 = "numbered t (migrated t (with_sequence cat))"
  note b = before_schema [OF t sane fit refl]
  have "\<forall>w\<in>wanted t. ready (with_leases ie (with_schema ie t ?c2)) w"
    by (rule lease_phase(2) [OF schema_ready [OF t b(1,2)], of _ "epoch_of ie ?c2"]) (simp add: with_schema_def)
  then show "\<forall>w\<in>wanted t. ready (final_catalog ie t cat) w"
    by (simp add: ready_def has_column_def pg_table_def final_rels)
  show "pc_rels (final_catalog ie t cat) ''loomabase_seq'' = Some Rel_Sequence" using b(2) by (simp add: final_rel)
qed

lemma log_columns_type: "bt_get (pg_columns_of server_log_columns) ''seq'' = Some ''bigint''"
  by code_simp

lemma creates_log:
  assumes "server_apart t"
  shows "map_of (creates (postgres_schema_stmts t)) (crdt_table t) = Some (Rel_Table (pg_columns_of server_log_columns))"
proof -
  have "map_of (creates metadata_stmts) (crdt_table t) = None"
    using log_name_apart(1) [of t] metadata_creates by (auto simp: map_of_eq_None_iff)
  moreover have "pg_ident (tname t) = tname t" "pg_ident (crdt_table t) = crdt_table t" "crdt_table t \<noteq> tname t"
    using assms log_name_short [OF assms] log_name_apart(2) [of t] by (simp_all add: server_apart_def)
  ultimately show ?thesis
    unfolding postgres_schema_stmts_def creates_append server_app_table_columns log_stmts_def server_log_table_def
    by (simp add: map_add_def)
qed

lemma add_col_get: "bt_get (add_col c ty m) c = Some d \<Longrightarrow> bt_get m c = Some d \<or> (bt_get m c = None \<and> d = data_type ty)"
  unfolding add_col_def by (cases "c \<in> set (bt_keys m)") (auto simp: map_of_eq_None_iff)

lemma final_seq_type:
  assumes t: "server_apart t" and sane: "server_sane t cat"
  shows "seq_type_ok t (final_catalog ie t cat)"
  unfolding seq_type_ok_def
proof (intro allI impI)
  fix m d
  assume m: "pg_table (final_catalog ie t cat) (crdt_table t) = Some m" "bt_get m ''seq'' = Some d"
  let ?c1 = "migrated t (with_sequence cat)"
  have short: "pg_ident (crdt_table t) = crdt_table t" using log_name_short [OF t] by simp
  have ne: "crdt_table t \<noteq> ''loomabase_cursor_lease''" using log_name_apart(1) [of t] by (auto simp: server_relations_def)
  have tab: "pg_table ?c1 (crdt_table t) = pg_table cat (crdt_table t)"
    using with_sequence_table(2) [OF t, of cat] migrated_rel [of "crdt_table t" t "with_sequence cat"] log_name_apart(2) [of t]
    by (simp add: pg_table_def short)
  have rel: "(case pc_rels (numbered t ?c1) (crdt_table t) of None \<Rightarrow> map_of (creates (postgres_schema_stmts t)) (crdt_table t) | Some r \<Rightarrow> Some r) =
      Some (Rel_Table m)"
    using m(1) final_rel [OF ne, of ie t cat] by (simp add: pg_table_Some short)
  show "eq_ignore_ascii_case d ''bigint''"
  proof (cases "pg_table cat (crdt_table t)")
    case None
    then have "pc_rels (numbered t ?c1) (crdt_table t) = pc_rels ?c1 (crdt_table t)" using tab by (simp add: numbered_def)
    moreover have "pc_rels ?c1 (crdt_table t) \<noteq> Some (Rel_Table m)" using None tab by (metis option.distinct(1) pg_table_Some short)
    ultimately have "map_of (creates (postgres_schema_stmts t)) (crdt_table t) = Some (Rel_Table m)" using rel by (auto split: option.splits)
    then show ?thesis using creates_log [OF t] m(2) log_columns_type by simp
  next
    case (Some k)
    then have "m = add_col ''seq'' ''BIGINT'' k" using rel tab by (simp add: numbered_def)
    then have "bt_get k ''seq'' = Some d \<or> d = data_type ''BIGINT''" using m(2) add_col_get by blast
    moreover have "data_type ''BIGINT'' = ''bigint''" by code_simp
    ultimately show ?thesis using sane Some by (auto simp: server_sane_def seq_type_ok_def)
  qed
qed

lemma final_sane:
  assumes t: "server_apart t" and sane: "server_sane t cat" and fit: "server_columns_fit t cat"
  shows "server_sane t (final_catalog ie t cat)"
proof -
  let ?c = "final_catalog ie t cat"
  note r = final_ready [OF t sane fit, of ie]
  have log: "ready ?c (log_wanted t)" using r(1) by (simp add: wanted_def)
  then have base: "ready ?c (log_base t)" by (simp add: ready_def log_wanted_def log_base_def)
  have "fits ?c w" if "w \<in> insert (app_wanted t) (insert (log_base t) (set metadata_wanted))" for w
    by (rule ready_fits) (use that r(1) base in \<open>auto simp: wanted_def\<close>)
  moreover have "pg_table ?c (crdt_table t) \<noteq> None" using log by (simp add: ready_def log_wanted_def)
  ultimately show ?thesis
    using r(2) final_log(3) [OF t sane refl refl, of ie] final_seq_type [OF t sane, of ie] unfolding server_sane_def by blast
qed

text \<open>Another run finds nothing to do.\<close>

lemma protect_same:
  assumes "\<forall>n\<in>set ns. pc_rls cat (pg_ident n) = (True, True) \<and> pc_policies cat (pg_ident n) TENANT_POLICY = Some (Tenant_Matches, Tenant_Matches)"
  shows "fold protect ns cat = cat"
  using assms
proof (induction ns)
  case (Cons n ns)
  have "(pc_rls cat)(pg_ident n := (True, True)) = pc_rls cat"
    "(pc_policies cat)(pg_ident n := (pc_policies cat (pg_ident n))(TENANT_POLICY \<mapsto> (Tenant_Matches, Tenant_Matches))) = pc_policies cat"
    using Cons.prems by (auto simp: fun_eq_iff)
  then have "protect n cat = cat" by (simp add: protect_def)
  with Cons show ?case by simp
qed simp

lemma add_col_same: "c \<in> set (bt_keys m) \<Longrightarrow> add_col c ty m = m"
  by (simp add: add_col_def)

lemma final_lease:
  assumes t: "server_apart t" and sane: "server_sane t cat" and fit: "server_columns_fit t cat"
  shows "\<exists>k. pc_rels (final_catalog ie t cat) ''loomabase_cursor_lease'' = Some (Rel_Table (lease_map k))"
    "\<forall>l\<in>set (pc_leases (final_catalog ie t cat)). lease_complete l" "pc_epoch (final_catalog ie t cat) = Some (epoch_of ie cat)"
proof -
  let ?c3 = "with_schema ie t (numbered t (migrated t (with_sequence cat)))"
  show "\<exists>k. pc_rels (final_catalog ie t cat) ''loomabase_cursor_lease'' = Some (Rel_Table (lease_map k))"
    unfolding final_rels with_leases_def by auto
  have "epoch_of ie (numbered t (migrated t (with_sequence cat))) = epoch_of ie cat"
    by (simp add: epoch_of_def numbered_def migrated_def with_sequence_def split: option.split)
  then show "pc_epoch (final_catalog ie t cat) = Some (epoch_of ie cat)"
    by (simp add: final_catalog_def protect_frame with_leases_def with_schema_def)
  have "pc_epoch ?c3 = Some (epoch_of ie (numbered t (migrated t (with_sequence cat))))" by (simp add: with_schema_def)
  from filled_complete [OF this, of ie] show "\<forall>l\<in>set (pc_leases (final_catalog ie t cat)). lease_complete l"
    by (simp add: final_catalog_def protect_frame with_leases_def)
qed

lemma final_again:
  assumes t: "server_apart t" and sane: "server_sane t cat" and fit: "server_columns_fit t cat"
  shows "final_catalog ie' t (final_catalog ie t cat) = final_catalog ie t cat"
proof -
  define c where "c = final_catalog ie t cat"
  have short: "pg_ident (tname t) = tname t" "pg_ident (crdt_table t) = crdt_table t"
    using t log_name_short [OF t] by (simp_all add: server_apart_def)
  have "with_sequence c = c" using final_ready(2) [OF t sane fit] by (simp add: c_def with_sequence_def)
  moreover have "migrated t c = c"
  proof -
    obtain m where m: "pg_table c (tname t) = Some m" "up_to_date postgres_type SERVER_KEYS t m"
      using final_app [OF t sane fit] unfolding c_def by blast
    then have "migrated_map t m = m" using up_to_date_compatible [OF m(2)] by (simp add: migrated_map_def)
    moreover have "put_table (tname t) m c = c" using m(1) put_table_same by (simp add: pg_table_Some short)
    ultimately show ?thesis using m(1) by (simp add: migrated_def)
  qed
  moreover have "numbered t c = c"
  proof -
    have "ready c (log_wanted t)" using final_ready(1) [OF t sane fit] by (simp add: c_def wanted_def)
    then obtain m where m: "pg_table c (crdt_table t) = Some m" "''seq'' \<in> set (bt_keys m)"
      by (auto simp: ready_def log_wanted_def has_column_def)
    have n: "null_count (pc_seqs c (crdt_table t)) = 0"
      using final_log(4) [OF t sane c_def refl] by (simp add: null_count_0)
    have "put_table (crdt_table t) m c = c" using m(1) put_table_same by (simp add: pg_table_Some short)
    then show ?thesis using m(1) add_col_same [OF m(2)] n fill_seqs_none [OF n] by (simp add: numbered_def)
  qed
  moreover have "with_schema ie' t c = c"
  proof -
    have "dom (map_of (creates (postgres_schema_stmts t))) \<subseteq> dom (pc_rels c)"
      unfolding c_def final_rels with_leases_def with_schema_def by auto
    then have "map_of (creates (postgres_schema_stmts t)) ++ pc_rels c = pc_rels c"
      by (auto simp: fun_eq_iff map_add_def dom_def split: option.split)
    moreover have "Some (epoch_of ie' c) = pc_epoch c" using final_lease(3) [OF t sane fit, of ie] by (simp add: c_def epoch_of_def)
    ultimately show ?thesis by (simp add: with_schema_def)
  qed
  moreover have "with_leases ie' c = c"
  proof -
    obtain k where k: "pc_rels c ''loomabase_cursor_lease'' = Some (Rel_Table (lease_map k))"
      using final_lease(1) [OF t sane fit] unfolding c_def by blast
    have "lease_map (lease_map k) = lease_map k"
      unfolding lease_map_def by (subst (1 2 3) add_col_same; simp only: add_col_keys) simp_all
    then have "put_table ''loomabase_cursor_lease'' (lease_map (lease_map k)) c = c" using put_table_same k by simp
    moreover have "pg_table c ''loomabase_cursor_lease'' = Some (lease_map k)" using k by (simp add: pg_table_Some)
    moreover have "filled_leases ie' c = pc_leases c" using filled_same final_lease(2) [OF t sane fit] by (simp add: c_def)
    ultimately show ?thesis by (simp add: with_leases_def)
  qed
  moreover have "fold protect (tenant_tables t) c = c"
    by (rule protect_same) (simp add: c_def final_catalog_def protected)
  ultimately show ?thesis unfolding c_def [symmetric] by (simp add: final_catalog_def)
qed


subsection \<open>Sample runs\<close>

definition empty_server :: pg_catalog where
  "empty_server = \<lparr>pc_rels = (\<lambda>_. None), pc_rls = (\<lambda>_. (False, False)), pc_policies = (\<lambda>_ _. None), pc_next = 0,
     pc_seqs = (\<lambda>_. []), pc_epoch = None, pc_leases = []\<rparr>"

definition sample_init_env :: init_env where
  "sample_init_env = \<lparr>ie_uuid = (\<lambda>_. ''u''), ie_epoch = ''e'', ie_now = 7\<rparr>"

text \<open>A database of a release before the change feed: the log has two cells without numbers, the application table
  lacks a column, and somebody replaced the policy.\<close>

definition old_server :: pg_catalog where
  "old_server = empty_server\<lparr>
     pc_rels := map_of
       [(''todos'', Rel_Table (pg_columns_of [(''tenant_id'', ''TEXT'', []), (''id'', ''TEXT'', []), (''title'', ''TEXT'', [])])),
        (''todos_crdt'', Rel_Table (pg_columns_of [(''tenant_id'', ''TEXT'', []), (''lamport_clock'', ''BIGINT'', []), (''device_id'', ''TEXT'', [])]))],
     pc_seqs := (\<lambda>n. if n = ''todos_crdt'' then [None, None] else []),
     pc_policies := (\<lambda>n. if n = ''todos'' then [TENANT_POLICY \<mapsto> (Other_Expr ''true'', Other_Expr ''true'')] else (\<lambda>_. None))\<rparr>"

lemma sample_apart: "server_apart todos_table"
  by code_simp

lemma old_server_sane: "server_sane todos_table old_server"
proof -
  have crdt: "crdt_table todos_table = ''todos_crdt''" by code_simp
  have "list_all (fits old_server) (app_wanted todos_table # log_base todos_table # metadata_wanted)" by code_simp
  then have "\<forall>w\<in>insert (app_wanted todos_table) (insert (log_base todos_table) (set metadata_wanted)). fits old_server w"
    by (simp add: list_all_iff)
  moreover have "pg_table old_server ''todos_crdt'' = Some (pg_columns_of [(''tenant_id'', ''TEXT'', []), (''lamport_clock'', ''BIGINT'', []), (''device_id'', ''TEXT'', [])])"
    by (simp add: pg_table_Some old_server_def)
  moreover have "bt_get (pg_columns_of [(''tenant_id'', ''TEXT'', []), (''lamport_clock'', ''BIGINT'', []), (''device_id'', ''TEXT'', [])]) ''seq'' = None"
    by code_simp
  ultimately show ?thesis
    by (simp add: server_sane_def seq_type_ok_def crdt numbers_ok_def Let_def) (simp add: old_server_def empty_server_def)
qed

lemma old_server_opens:
  obtains cat' where "initialize_server_schema_with sample_init_env todos_table old_server = (cat', Inr ())"
proof -
  have "is_ok (snd (initialize_server_schema_with sample_init_env todos_table old_server))" by code_simp
  then show thesis using that by (cases "initialize_server_schema_with sample_init_env todos_table old_server"; cases "snd (initialize_server_schema_with sample_init_env todos_table old_server)") auto
qed


theorem server_tables_isolated_witness:
  "\<exists>cat'. initialize_server_schema_with sample_init_env todos_table old_server = (cat', Inr ()) \<and>
     \<not> row_visible (\<lambda>_ _ _. True) cat' ''todos'' None ''acme'' \<and> \<not> row_visible (\<lambda>_ _ _. True) cat' ''todos'' (Some ''rival'') ''acme'' \<and>
     row_visible (\<lambda>_ _ _. True) cat' ''todos'' (Some ''acme'') ''acme''"
proof -
  obtain cat' where run: "initialize_server_schema_with sample_init_env todos_table old_server = (cat', Inr ())" by (rule old_server_opens)
  have "''todos'' \<in> set (tenant_tables todos_table)" by (simp add: tenant_tables_def todos_table_def)
  note iso = server_tables_isolated [OF run this, of "\<lambda>_ _ _. True" _ "''acme''"]
  have "dom (pc_policies old_server (pg_ident ''todos'')) \<subseteq> {TENANT_POLICY}" by (simp add: old_server_def)
  then show ?thesis using run iso [of None] iso [of "Some ''rival''"] iso [of "Some ''acme''"] by auto
qed

text \<open>Two tables that the contract accepts and the server cannot create: one with a column called \<open>tenant_id\<close>, which the
  server adds itself, and one with a name of 63 bytes, where the name of the change log is cut to the name of
  the table, so that the log is not created and its first index fails.\<close>

lemma failed_on_empty:
  assumes "\<not> is_ok (server_schema_body ie t empty_server)"
  shows "\<exists>e. initialize_server_schema_with ie t empty_server = (empty_server, Inl e)"
  using assms by (cases "server_schema_body ie t empty_server") (auto simp: initialize_server_schema_with_def empty_server_def)

lemma tenant_column_breaks:
  "\<exists>t. ''tenant_id'' \<in> cname ` set (tcolumns t) \<and> table_new (tname t) (tcolumns t) = Inr t \<and> (\<forall>ie. \<exists>e. initialize_server_schema_with ie t empty_server = (empty_server, Inl e))"
proof -
  let ?t = "\<lparr>tname = ''notes'', tcolumns = [\<lparr>cname = ''tenant_id'', cty = TyText\<rparr>]\<rparr>"
  have "table_new (tname ?t) (tcolumns ?t) = Inr ?t" by code_simp
  moreover have "\<not> is_ok (server_schema_body ie ?t empty_server)" for ie by code_simp
  moreover have "''tenant_id'' \<in> cname ` set (tcolumns ?t)" by simp
  ultimately show ?thesis using failed_on_empty by blast
qed

lemma long_name_breaks:
  "\<exists>t. length (tname t) = 63 \<and> ''tenant_id'' \<notin> cname ` set (tcolumns t) \<and> table_new (tname t) (tcolumns t) = Inr t \<and> (\<forall>ie. \<exists>e. initialize_server_schema_with ie t empty_server = (empty_server, Inl e))"
proof -
  let ?t = "\<lparr>tname = replicate 63 (CHR ''a''), tcolumns = [\<lparr>cname = ''title'', cty = TyText\<rparr>]\<rparr>"
  have "table_new (tname ?t) (tcolumns ?t) = Inr ?t" by code_simp
  moreover have "\<not> is_ok (server_schema_body ie ?t empty_server)" for ie by code_simp
  moreover have "length (tname ?t) = 63 \<and> ''tenant_id'' \<notin> cname ` set (tcolumns ?t)" by simp
  ultimately show ?thesis using failed_on_empty by blast
qed

end
