(* ===== verification/Spec2Isabelle.thy ===== *)
theory Spec2Isabelle
  imports Http_Samples Client_Todos Pg_Init_Correct
begin

text \<open>
  \<^bold>\<open>Loomabase: a verification of the synchronization core\<close>

  Loomabase keeps SQLite databases on devices in sync through a server. Every cell of a row is a
  last-writer-wins register with a version \<open>(lamport_clock, device_id)\<close>; devices send the cells they
  changed, the server merges them and answers with a bounded page of a change feed. The program's
  parts and the theories that model them, in the order in which they build on each other:

  \<^item> \<open>Loom_Prelude\<close>: results and the question-mark operator (\<open>rbind\<close>), loops with early return
    (\<open>foldM\<close>), 64-bit integers, decimal printing, byte strings.
  \<^item> \<open>Btree_Map\<close>: the \<open>BTreeMap\<close> of the standard library as a sorted association list, with the
    contract \<open>ordered_map\<close> as a locale and the grouping of cells by row.
  \<^item> \<open>Schema\<close> (src/src/schema.rs, error.rs): \<open>TableDef::new\<close>, \<open>Contract::new\<close>, identifiers,
    fingerprints, and the additive SQLite and PostgreSQL migrations as data whose effect on a column
    map is defined. Shown: what the constructors accept, that descriptors are unambiguous, that
    migrations reach the contract, lose nothing and are idempotent.
  \<^item> \<open>Payload\<close> (src/src/crdt.rs): values, versions, payloads, \<open>decide_lww\<close> and all validators, each
    characterised by a declarative predicate.
  \<^item> \<open>Lww_Store\<close>: the locale \<open>lww_store\<close>, a store whose decisions are last-writer-wins, with
    convergence, monotonicity, replay and totality proved once; it is interpreted on \<open>lww_apply\<close>.
  \<^item> \<open>Policy\<close> (src/src/policy.rs): authorization and validation hooks and audit events.
  \<^item> \<open>Explain\<close> (src/src/explain.rs): \<open>explain_lww\<close>, shown to agree with the merge.
  \<^item> \<open>Replica\<close> (src/src/replica.rs): interests, their SQL plan, and the validation of partial-replica
    requests and responses.
  \<^item> \<open>Merge_Loop\<close>: how a server asks the hooks about the cells of a request, and the locale
    \<open>merge_loop\<close> with what such a loop does to the cells; interpreted on both servers.
  \<^item> \<open>Reference_Server\<close>, \<open>Reference_Correct\<close>, \<open>Anti_Entropy\<close>, \<open>Partial_Replica\<close> (\<open>CrdtState\<close> of
    src/src/crdt.rs): the state record \<open>crdt_state\<close>, the merge loop, the change feed with its cursors
    and the partial-replica snapshot. A merge is shown to be a run of the store over the permitted
    cells; runs of the server are a step relation, and a device that follows its cursor is shown to
    miss nothing.
  \<^item> \<open>Simulator\<close> (src/src/simulator.rs): deliveries, duplicates, losses and the HTML report.
  \<^item> \<open>Client_Db\<close>, \<open>Client_Sync\<close> (src/src/client.rs and the triggers of src/src/schema.rs): the record
    \<open>client_db\<close> (application rows, change log, device clock, cursor, scopes, evictions) and one
    definition per operation: local writes with the capture triggers, delta, acknowledgement,
    application of responses, paging, partial-replica requests and responses.
  \<^item> \<open>Client_Values\<close>, \<open>Client_Inv\<close>, \<open>Client_Writes\<close>, \<open>Client_Apply\<close>, \<open>Client_Ack\<close>,
    \<open>Client_Correct\<close>, \<open>Client_Scopes\<close>, \<open>Client_Steps\<close>: values survive the text encoding of the log;
    the invariant \<open>client_inv\<close> of the database; local writes are captured; applying a response is a
    run of the store on the decoded log (\<open>log_view\<close>); acknowledgements are precise; an exchange loses
    no write; scopes and evictions; all operations as a step relation with its invariants.
  \<^item> \<open>Sync_Server\<close>: the locale \<open>sync_server\<close>, what a client relies on of a server, with an abstraction
    to the reference state; interpreted on the reference server here and on the database below.
  \<^item> \<open>Sync_Loop\<close>, \<open>Sync_Live\<close>: the client composed with any server of that contract over a network that
    loses, delays and repeats requests. \<open>tracks\<close> is the invariant of the composition; from it follow
    that a caught-up client agrees with the server and that a round cannot get stuck.
  \<^item> \<open>Pg_Server\<close> (src/src/server.rs): the tables of the PostgreSQL server as the record \<open>pg_db\<close> and one
    definition per function: the merge of a request with hooks, audit and cursor leases, the change feed,
    partial replicas, lease expiry and epoch rotation.
  \<^item> \<open>Pg_Loop\<close>, \<open>Pg_Inv\<close>, \<open>Pg_Feed\<close>, \<open>Pg_Merge\<close>: the loop of the adapter meets \<open>merge_loop\<close>; the
    invariant \<open>tenant_inv\<close> of a table and tenant; the log read as a state of the reference server
    (\<open>pg_abs\<close>), on which the feed of the adapter is the feed of the reference; and \<open>pg_merge_spec\<close>, what
    a request does.
  \<^item> \<open>Pg_System\<close>, \<open>Pg_Correct\<close>, \<open>Pg_Partial\<close>, \<open>Pg_Live\<close>: everything that happens to the database as a
    step relation, with requests of all tenants, maintenance, rolled-back transactions and time. Shown:
    the invariant in every reachable state, isolation of tenants, the audit trail, cursors as
    capabilities, exact partial replicas, and that a client converges and does not get stuck.
  \<^item> \<open>Loom_Text\<close>: prefixes, splitting and quoting of text, and the text of errors (src/src/error.rs).
  \<^item> \<open>Client_Todos\<close> (src/src/client.rs): the typed todos operations, shown to implement a map of todos.
  \<^item> \<open>Sqlite_Init\<close> (src/src/client.rs, src/src/schema.rs): the generated SQLite schema as statements with their text
    and their effect on a catalog, and the opening of a client database: migration, schema, metadata, device
    binding. Shown: an opening is all or nothing and ends with the tables and triggers of the contract.
  \<^item> \<open>Pg_Init\<close>, \<open>Pg_Init_Correct\<close> (src/src/schema.rs, src/src/server.rs): the same for the PostgreSQL schema, its
    row-level-security policies and \<open>initialize_server_schema_with\<close>. Shown: the tenant-keyed tables end up with
    the isolating policy, and databases of this and earlier releases are brought to the contract.
  \<^item> \<open>Auth\<close>, \<open>Auth_Correct\<close> (src/src/auth.rs): bearer tokens and the HS256, RS256 and Supabase authenticators, as
    instances of the locale \<open>signed_authenticator\<close>. Shown: what they accept exactly, the round trip of issued
    tokens, and that users without a slash in their names are kept apart.
  \<^item> \<open>Http\<close>, \<open>Http_Correct\<close> (src/src/http.rs): the handlers around a transaction of \<open>Pg_Server\<close>, their errors and
    metrics. The server process is a step relation with overlapping and dropped requests; shown: success and
    refusal exactly, isolation of tenants through authentication, exact counters.
  \<^item> \<open>Server_Main\<close> (src/src/server_main.rs): configuration, choice of the authenticator, key refresh and the order
    of start-up effects; shown: start-up fails closed, a refresh never loses the last good keys.
  \<^item> \<open>Codegen\<close> (src/src/codegen.rs): SDK generation; shown: one model per table for regular names.
  \<^item> \<open>Ffi\<close> (src/loomabase-ffi/src/lib.rs): the C interface over the reference server; shown: how calls report.
  \<^item> \<open>Sample_Runs\<close>, \<open>Client_Samples\<close>, \<open>Sync_Samples\<close>, \<open>Pg_Samples\<close>, \<open>Http_Samples\<close>: concrete inputs at which the
    properties are instantiated.

  \<^bold>\<open>Conventions.\<close> A Rust \<open>Result\<close> is a sum with \<open>Inl\<close> for the error; an operation on \<open>&mut self\<close>
  returns the new state; \<open>u64\<close> values are 64-bit words and wrap where the code uses \<open>+=\<close>. Strings
  are UTF-8 byte sequences. A \<open>f64\<close> is its bit pattern with the \<open>PartialEq\<close> of IEEE-754, so values
  are compared with \<open>value_eq\<close>; \<open>0.0\<close> and \<open>-0.0\<close> are equal and not identical, and convergence is up
  to that equality. \<open>serde_json::to_vec(cell).len()\<close> is the parameter \<open>json_len\<close>. The conversions of
  SQLite and Rust between numbers and text are the record of parameters \<open>sqlite_env\<close>;
  \<open>reals_exact env t\<close> names what a table with real columns relies on. A transaction of the client is
  a function that returns the new database or an error; \<open>run_tx\<close> rolls back, and \<open>pg_tx\<close> does for the
  server, whose sequence is not rolled back (\<open>p_rollback\<close>). Requests of one tenant run one after the
  other, because each locks the clock row of its tenant first. What the adapter takes from PostgreSQL is
  the record \<open>pg_env\<close>: \<open>gen_random_uuid\<close> (\<open>uuids_ok\<close>: it gives identifiers), the encoded length of a
  value, the order of \<open>ORDER BY id\<close> (\<open>orders_rows\<close>: a permutation), and whether the role of the server
  bypasses row-level security. Base64, HMAC, RSA, JSON and the token library are the record \<open>auth_env\<close>; failures
  of the database driver are the record \<open>pg_driver\<close>, so a handler is shown for every way a transaction can
  fail; the JSON of the C interface is \<open>ffi_json\<close>. The catalogs of \<open>Sqlite_Init\<close> and \<open>Pg_Init\<close> have relations with
  their columns, triggers, policies and the rows that initialization itself touches; \<open>client_db\<close> and \<open>pg_db\<close>
  hold the data of an initialized database.

  \<^bold>\<open>Bounds.\<close> \<open>headroom n s\<close> asks that \<open>n\<close> more writes keep the write counter of the reference server
  below \<open>2 ^ 63\<close>; a request has at most 20000 cells, so \<open>headroom 20000\<close> is enough for one merge and
  \<open>headroom 2000000\<close> for the 100 pages of \<open>sync_until_caught_up\<close>. The database fails a request whose clock
  or sequence number does not fit, so its invariants need no such bound.

  \<^bold>\<open>Not modelled.\<close> The layers of the web framework (routing, body limit, timeout, concurrency limit), logging, signal
  handling and src/src/benchmark_main.rs (timing output); connection pragmas, the advisory lock and failures of
  the connection during initialization; the memory ownership and the panic guard of the C interface; the
  blocking-task wrapper of the client. They are I/O or belong to libraries the sources only call. The
  composition in \<open>Sync_Loop\<close> is of a client without partial-replica scopes. The JavaScript SDK, demos, tests and
  deployment files are not part of the Rust core.
\<close>

end
